(* ===== verification/Prelude.thy ===== *)
theory Prelude
  imports Main "HOL-Library.Word"
begin

text \<open>
  Shared vocabulary of the development: the C integer types of the kernel as
  machine words, the outcome type of an operation that may panic, run into
  undefined behaviour or spin for ever, the sequencing of such operations, and
  the lemmas on lists, words and outcomes that the component theories share.
\<close>

unbundle bit_operations_syntax

section \<open>Machine integers\<close>

type_synonym u8 = "8 word"
type_synonym u16 = "16 word"
type_synonym u32 = "32 word"
type_synonym u64 = "64 word"

section \<open>Outcomes\<close>

text \<open>
  \<open>Panic\<close>: the code reached \<open>KERNEL_PANIC()\<close> (an endless loop, \<open>panic.h\<close>).
  \<open>Undefined\<close>: the code read or wrote outside an object, or through a null
  pointer, so C gives the continuation no meaning.
  \<open>Hang\<close>: a loop of the code never ends.
\<close>

datatype fault = Panic | Undefined | Hang

type_synonym 'a outcome = "fault + 'a"

definition bindO :: "'a outcome \<Rightarrow> ('a \<Rightarrow> 'b outcome) \<Rightarrow> 'b outcome" where
  "bindO m f = (case m of Inl e \<Rightarrow> Inl e | Inr x \<Rightarrow> f x)"

definition guardO :: "fault \<Rightarrow> bool \<Rightarrow> 'a outcome \<Rightarrow> 'a outcome" where
  "guardO e b m = (if b then m else Inl e)"

named_theorems outcome_simps

lemma bindO_Inl [simp, outcome_simps]: "bindO (Inl e) f = Inl e"
  and bindO_Inr [simp, outcome_simps]: "bindO (Inr x) f = f x"
  by (simp_all add: bindO_def)

lemma guardO_True [simp, outcome_simps]: "guardO e True m = m"
  and guardO_False [simp, outcome_simps]: "guardO e False m = Inl e"
  by (simp_all add: guardO_def)

lemma bindO_eq_Inr [outcome_simps]:
  "bindO m f = Inr y \<longleftrightarrow> (\<exists>x. m = Inr x \<and> f x = Inr y)"
  by (cases m) auto

lemma bindO_eq_Inl [outcome_simps]:
  "bindO m f = Inl e \<longleftrightarrow> m = Inl e \<or> (\<exists>x. m = Inr x \<and> f x = Inl e)"
  by (cases m) auto

lemma guardO_eq_Inr [outcome_simps]: "guardO e b m = Inr y \<longleftrightarrow> b \<and> m = Inr y"
  by (simp add: guardO_def)

lemma bindO_assoc: "bindO (bindO m f) g = bindO m (\<lambda>x. bindO (f x) g)"
  by (cases m) auto

lemma bindO_cong [fundef_cong]:
  "m = m' \<Longrightarrow> (\<And>x. m' = Inr x \<Longrightarrow> f x = f' x) \<Longrightarrow> bindO m f = bindO m' f'"
  by (cases m') auto

lemma guardO_cong [fundef_cong]:
  "b = b' \<Longrightarrow> (b' \<Longrightarrow> m = m') \<Longrightarrow> guardO e b m = guardO e b' m'"
  by (simp add: guardO_def)

text \<open>A loop defined as a partial function gives \<open>None\<close> when it never ends.\<close>

definition hang :: "'a outcome option \<Rightarrow> 'a outcome" where
  "hang r = (case r of None \<Rightarrow> Inl Hang | Some r \<Rightarrow> r)"

lemma hang_Some [simp]: "hang (Some r) = r"
  and hang_None [simp]: "hang None = Inl Hang"
  by (simp_all add: hang_def)

section \<open>Arrays\<close>

text \<open>
  A C array of known length is a list. Reading or writing it outside its bounds
  is undefined behaviour.
\<close>

definition arr_get :: "'a list \<Rightarrow> nat \<Rightarrow> 'a outcome" where
  "arr_get xs i = (if i < length xs then Inr (xs ! i) else Inl Undefined)"

definition arr_set :: "'a list \<Rightarrow> nat \<Rightarrow> 'a \<Rightarrow> 'a list outcome" where
  "arr_set xs i v = (if i < length xs then Inr (xs[i := v]) else Inl Undefined)"

lemma arr_get_in [simp]: "i < length xs \<Longrightarrow> arr_get xs i = Inr (xs ! i)"
  and arr_get_out [simp]: "length xs \<le> i \<Longrightarrow> arr_get xs i = Inl Undefined"
  by (simp_all add: arr_get_def)

lemma arr_set_in [simp]: "i < length xs \<Longrightarrow> arr_set xs i v = Inr (xs[i := v])"
  and arr_set_out [simp]: "length xs \<le> i \<Longrightarrow> arr_set xs i v = Inl Undefined"
  by (simp_all add: arr_set_def)

lemma arr_get_eq_Inr [outcome_simps]:
  "arr_get xs i = Inr v \<longleftrightarrow> i < length xs \<and> v = xs ! i"
  by (auto simp: arr_get_def)

lemma arr_set_eq_Inr [outcome_simps]:
  "arr_set xs i v = Inr ys \<longleftrightarrow> i < length xs \<and> ys = xs[i := v]"
  by (auto simp: arr_set_def)

section \<open>Words\<close>

lemma word_and_mask_mod: "unat (x AND mask n) = unat x mod 2 ^ n" for x :: "'a::len word"
proof -
  have "unat (take_bit n x) = take_bit n (unat x)"
    by (rule unsigned_take_bit_eq)
  then show ?thesis by (simp only: take_bit_eq_mask [of n x] take_bit_eq_mod [of n "unat x"])
qed

lemma unat_drop_bit_div: "unat (drop_bit n x) = unat x div 2 ^ n" for x :: "'a::len word"
proof -
  have "unat (drop_bit n x) = drop_bit n (take_bit LENGTH('a) (unat x))"
    by (rule unsigned_drop_bit_eq)
  moreover have "take_bit LENGTH('a) (unat x) = unat x"
    by (simp add: take_bit_nat_eq_self)
  ultimately show ?thesis by (simp only: drop_bit_eq_div)
qed

lemma bit_unat: "bit (unat w) h \<longleftrightarrow> bit w h"
  by (simp add: bit_unsigned_iff)

end
