(* ===== verification/Utils.thy ===== *)
theory Utils
  imports Prelude
begin

text \<open>
  Models \<open>kernel/utils.c\<close> and the macros of \<open>kernel/utils.h\<close>: alignment and
  power-of-two arithmetic on 64-bit words, checksums, the in-place reversal of a
  character buffer and the number printers built on it. A character buffer is
  the list of its bytes from the pointer to the end of the object.
\<close>

section \<open>Macros of utils.h\<close>

definition POWER_OF_2 :: "nat \<Rightarrow> u64" where
  "POWER_OF_2 p = push_bit p 1"

definition ALL_ONE_MASK :: "nat \<Rightarrow> u64" where
  "ALL_ONE_MASK n = POWER_OF_2 n - 1"

definition ALIGN_XBITS :: "u64 \<Rightarrow> nat \<Rightarrow> u64" where
  "ALIGN_XBITS a n = a AND NOT (ALL_ONE_MASK n)"

definition ALIGN_4K :: "u64 \<Rightarrow> u64" where
  "ALIGN_4K a = ALIGN_XBITS a 12"

definition align_next :: "u64 \<Rightarrow> u64 \<Rightarrow> u64" where
  "align_next t align =
     (t AND NOT (align - 1)) + (if t AND (align - 1) \<noteq> 0 then align else 0)"

section \<open>Comparison, checksums\<close>

fun strmatch_from :: "u8 list \<Rightarrow> u8 list \<Rightarrow> nat \<Rightarrow> u8 outcome" where
  "strmatch_from s1 s2 0 = Inr 1"
| "strmatch_from (x # s1) (y # s2) (Suc n) =
     (if x \<noteq> y then Inr 0 else strmatch_from s1 s2 n)"
| "strmatch_from s1 s2 (Suc n) = Inl Undefined"

definition strmatch :: "u8 list \<Rightarrow> u8 list \<Rightarrow> u64 \<Rightarrow> u8 outcome" where
  "strmatch s1 s2 count = strmatch_from s1 s2 (unat count)"

fun checksum_from :: "u8 \<Rightarrow> u8 list \<Rightarrow> nat \<Rightarrow> u8 outcome" where
  "checksum_from acc p 0 = Inr acc"
| "checksum_from acc (x # p) (Suc n) = checksum_from (acc + x) p n"
| "checksum_from acc [] (Suc n) = Inl Undefined"

definition checksum :: "u8 list \<Rightarrow> u64 \<Rightarrow> u8 outcome" where
  "checksum p count = checksum_from 0 p (unat count)"

fun util_sum_loop :: "u32 \<Rightarrow> u8 list \<Rightarrow> nat \<Rightarrow> u32 outcome" where
  "util_sum_loop s buf 0 = Inr s"
| "util_sum_loop s (x # buf) (Suc n) = util_sum_loop (s + ucast x) buf n"
| "util_sum_loop s [] (Suc n) = Inl Undefined"

definition util_sum :: "u8 list \<Rightarrow> u64 \<Rightarrow> u32 outcome" where
  "util_sum buf len =
     bindO (util_sum_loop 0 buf (unat len)) (\<lambda>s.
       let r = (s AND 0xffff) + drop_bit 16 (s AND 0xffffffff)
       in Inr ((r AND 0xffff) + drop_bit 16 r))"

section \<open>Arithmetic\<close>

definition nextntimes :: "u64 \<Rightarrow> u64 \<Rightarrow> u64 outcome" where
  "nextntimes num n = guardO Undefined (n \<noteq> 0) (Inr (num + n - (num mod n)))"

definition max_u64 :: "u64 \<Rightarrow> u64 \<Rightarrow> u64" where
  "max_u64 a b = (if a > b then a else b)"

definition min_u64 :: "u64 \<Rightarrow> u64 \<Rightarrow> u64" where
  "min_u64 a b = (if a > b then b else a)"

definition align_to :: "u64 \<Rightarrow> u64 \<Rightarrow> u64 outcome" where
  "align_to x a = guardO Undefined (a \<noteq> 0)
     (let res = x mod a in Inr (if res \<noteq> 0 then x + a - res else x))"

definition is_power_of_2 :: "u64 \<Rightarrow> bool" where
  "is_power_of_2 n = ((n - 1) AND n = 0)"

text \<open>\<open>abs\<close> takes and returns a 32-bit \<open>int\<close>; negating the least one overflows.\<close>

definition abs_int :: "int \<Rightarrow> int outcome" where
  "abs_int v = (if v > 0 then Inr v else guardO Undefined (v \<noteq> - (2 ^ 31)) (Inr (- v)))"

section \<open>Buffers and number printing\<close>

definition swap :: "u8 list \<Rightarrow> nat \<Rightarrow> nat \<Rightarrow> u8 list outcome" where
  "swap b x y =
     bindO (arr_get b x) (\<lambda>t.
     bindO (arr_get b y) (\<lambda>v.
     bindO (arr_set b x v) (\<lambda>b. arr_set b y t)))"

function reverse :: "u8 list \<Rightarrow> nat \<Rightarrow> nat \<Rightarrow> u8 list outcome" where
  "reverse b i j = (if i < j then bindO (swap b i j) (\<lambda>b. reverse b (i + 1) (j - 1)) else Inr b)"
  by pat_completeness auto
termination
  by (relation "measure (\<lambda>(b, i, j). j - i)") auto

declare reverse.simps [simp del]

definition digit_char :: "nat \<Rightarrow> u8" where
  "digit_char r = (if r \<ge> 10 then of_nat (65 + (r - 10)) else of_nat (48 + r))"

text \<open>The digit loop shared in shape by \<open>itoa\<close> and \<open>utoa\<close>: least digit first.\<close>

function digits_loop :: "nat \<Rightarrow> nat \<Rightarrow> u8 list" where
  "digits_loop base n =
     (if n = 0 \<or> base < 2 then [] else digit_char (n mod base) # digits_loop base (n div base))"
  by pat_completeness auto
termination
  by (relation "measure snd") (auto simp: div_less_dividend)

declare digits_loop.simps [simp del]

definition zero_digit :: "u8 list \<Rightarrow> u8 list" where
  "zero_digit ds = (if ds = [] then [48] else ds)"

text \<open>
  The result is the buffer contents from its start up to the terminator, before
  which the buffer is reversed in place; \<open>None\<close> when the base is refused and the
  buffer is returned untouched.
\<close>

definition utoa :: "u64 \<Rightarrow> u32 \<Rightarrow> u8 list option outcome" where
  "utoa value base =
     (if base < 2 \<or> base > 32 then Inr None
      else
        let b = zero_digit (digits_loop (unat base) (unat value))
        in bindO (reverse (b @ [0]) 0 (length b - 1)) (\<lambda>b. Inr (Some b)))"

text \<open>
  \<open>itoa\<close> hands its \<open>long\<close> argument to \<open>abs\<close>, whose parameter is an \<open>int\<close>:
  the upper 32 bits are dropped before the digits are produced, while the sign
  is still that of the whole \<open>long\<close>.
\<close>

definition itoa :: "u64 \<Rightarrow> int \<Rightarrow> u8 list option outcome" where
  "itoa value base =
     (if base < 2 \<or> base > 32 then Inr None
      else
        bindO (abs_int (sint (ucast value :: u32))) (\<lambda>n.
        let b = zero_digit (digits_loop (nat base) (nat n));
            b = (if sint value < 0 \<and> base = 10 then b @ [45] else b)
        in bindO (reverse (b @ [0]) 0 (length b - 1)) (\<lambda>b. Inr (Some b))))"

section \<open>Correctness\<close>

lemma unat_POWER_OF_2: "p < 64 \<Longrightarrow> unat (POWER_OF_2 p) = 2 ^ p"
proof -
  assume "p < 64"
  have "unat (POWER_OF_2 p) = take_bit 64 (push_bit p 1)"
    unfolding POWER_OF_2_def by (subst unsigned_push_bit_eq) simp
  also have "\<dots> = 2 ^ p"
    using \<open>p < 64\<close> by (simp add: push_bit_eq_mult take_bit_nat_eq_self)
  finally show ?thesis .
qed

lemma ALL_ONE_MASK_mask: "ALL_ONE_MASK n = mask n"
  by (simp add: ALL_ONE_MASK_def POWER_OF_2_def push_bit_eq_mult mask_eq_exp_minus_1)

lemma swap_in:
  "i < length b \<Longrightarrow> j < length b \<Longrightarrow> swap b i j = Inr (b[i := b ! j, j := b ! i])"
  by (simp add: swap_def)

lemma swap_ends:
  "swap (xs @ x # ms @ y # zs) (length xs) (Suc (length xs + length ms)) = Inr (xs @ y # ms @ x # zs)"
proof -
  have "(xs @ x # ms @ y # zs) ! Suc (length xs + length ms) = y"
    by (simp add: nth_append)
  moreover have "(xs @ x # ms @ y # zs)[length xs := y, Suc (length xs + length ms) := x] = xs @ y # ms @ x # zs"
    by (simp add: list_update_append)
  ultimately show ?thesis by (simp add: swap_in)
qed

lemma reverse_middle:
  "reverse (xs @ ms @ zs) (length xs) (length xs + length ms - 1) = Inr (xs @ rev ms @ zs)"
proof (induction "length ms" arbitrary: xs ms zs rule: less_induct)
  case less
  show ?case
  proof (cases "length ms \<le> 1")
    case True
    then have "rev ms = ms" by (cases ms) auto
    moreover have "\<not> length xs < length xs + length ms - 1" using True by linarith
    ultimately show ?thesis by (simp add: reverse.simps [of "xs @ ms @ zs"])
  next
    case False
    then obtain x ms1 where ms1: "ms = x # ms1" "ms1 \<noteq> []" by (cases ms) auto
    then obtain ms' y where ms: "ms = x # ms' @ [y]" by (cases ms1 rule: rev_cases) auto
    have "reverse (xs @ ms @ zs) (length xs) (length xs + length ms - 1)
        = reverse ((xs @ [y]) @ ms' @ (x # zs)) (length (xs @ [y])) (length (xs @ [y]) + length ms' - 1)"
      using swap_ends [of xs x ms' y zs]
      by (simp add: ms reverse.simps [of "xs @ x # ms' @ y # zs"])
    also have "\<dots> = Inr ((xs @ [y]) @ rev ms' @ x # zs)"
      by (rule less) (simp add: ms)
    finally show ?thesis by (simp add: ms)
  qed
qed

lemma reverse_correct:
  assumes "i \<le> j" "j < length b"
  shows "reverse b i j = Inr (take i b @ rev (take (j + 1 - i) (drop i b)) @ drop (j + 1) b)"
proof -
  have "take i b @ take (j + 1 - i) (drop i b) @ drop (j + 1) b = b"
    using assms by (metis add.commute append_take_drop_id drop_drop le_add_diff_inverse2 trans_le_add1)
  then show ?thesis
    using reverse_middle [of "take i b" "take (j + 1 - i) (drop i b)" "drop (j + 1) b"] assms by simp
qed

lemma reverse_terminated:
  "reverse (b @ [z]) 0 (length b - Suc 0) = Inr (rev b @ [z])"
  using reverse_middle [of "[]" b "[z]"] by simp

lemma reverse_terminated_snoc:
  "reverse (b @ [x, z]) 0 (length b) = Inr (x # rev b @ [z])"
  using reverse_terminated [of "b @ [x]" z] by simp

text \<open>\<open>align_to x a\<close> returns the least multiple of \<open>a\<close> that is not below \<open>x\<close>,
  for a non-zero \<open>a\<close> and when \<open>x + a\<close> does not wrap around in 64 bits.\<close>

lemma align_to_correct:
  assumes "a \<noteq> 0" "unat x + unat a < 2 ^ 64"
  shows "\<exists>r. align_to x a = Inr r \<and> unat a dvd unat r \<and> unat x \<le> unat r \<and> unat r < unat x + unat a"
proof -
  have m: "unat (x mod a) = unat x mod unat a" by (simp add: unat_mod)
  have lt: "unat x mod unat a < unat a"
    using assms(1) by (simp add: unat_gt_0)
  show ?thesis
  proof (cases "x mod a = 0")
    case True
    then have "unat x mod unat a = 0" using m by simp
    then have "unat a dvd unat x" by (rule dvd_eq_mod_eq_0 [THEN iffD2])
    then show ?thesis using True assms lt by (auto simp: align_to_def)
  next
    case False
    let ?r = "x + a - x mod a"
    have xa: "unat (x + a) = unat x + unat a" using assms(2) by (simp add: unat_word_ariths)
    have "unat ?r = unat x + unat a - unat x mod unat a"
      using xa m lt by (subst unat_sub_if') (simp add: word_le_nat_alt)
    moreover have "unat x + unat a - unat x mod unat a = (unat x div unat a + 1) * unat a"
      using div_mult_mod_eq [of "unat x" "unat a"] by (simp only: add_mult_distrib mult_1)
    moreover have "0 < unat x mod unat a" using False m by (metis gr0I unat_eq_zero)
    ultimately show ?thesis using False assms lt
      by (auto simp: align_to_def Let_def)
  qed
qed

lemma is_power_of_2_iff: "is_power_of_2 n \<longleftrightarrow> n = 0 \<or> (\<exists>k. n = POWER_OF_2 k)"
proof (cases "n = 0")
  case True then show ?thesis by (simp add: is_power_of_2_def)
next
  case False
  then have pos: "0 < unat n" by (simp add: unat_gt_0)
  have "\<exists>h. 2 ^ h \<le> unat n \<and> unat n < 2 ^ (h + 1)"
    using pos ex_power_ivl1 [of 2 "unat n"] by simp
  then obtain h where h: "2 ^ h \<le> unat n" "unat n < 2 ^ (h + 1)" by blast
  have h64: "h < 64"
  proof (rule ccontr)
    assume "\<not> h < 64"
    then have "(2::nat) ^ 64 \<le> 2 ^ h" by (intro power_increasing) auto
    moreover have "unat n < 2 ^ 64" by (rule order_less_le_trans [OF unsigned_less]) simp
    ultimately show False using h(1) by linarith
  qed
  have bitn: "bit n h"
  proof -
    have "unat n div 2 ^ h = 1" using h by (simp add: div_nat_eqI)
    then have "bit (unat n) h" by (simp add: bit_iff_odd)
    then show ?thesis by (simp only: bit_unat)
  qed
  have um: "unat (n - 1) = unat n - 1" using pos by (simp add: unat_sub_if' word_le_nat_alt Suc_le_eq)
  show ?thesis
  proof (cases "unat n = 2 ^ h")
    case True
    then have "n = POWER_OF_2 h"
      using h64 by (simp add: word_unat_eq_iff unat_POWER_OF_2)
    moreover have "(POWER_OF_2 h - 1) AND POWER_OF_2 h = 0"
      unfolding ALL_ONE_MASK_mask [unfolded ALL_ONE_MASK_def]
      by (rule bit_eqI) (simp add: POWER_OF_2_def bit_and_iff bit_mask_iff bit_push_bit_iff bit_1_iff bit_exp_iff)
    ultimately show ?thesis by (auto simp: is_power_of_2_def)
  next
    case neq: False
    have "unat (n - 1) div 2 ^ h = 1" using h neq um by (simp add: div_nat_eqI)
    then have "bit (unat (n - 1)) h" by (simp add: bit_iff_odd)
    then have "bit (n - 1) h" by (simp only: bit_unat)
    with bitn h64 have "(n - 1) AND n \<noteq> 0" by (auto simp: bit_eq_iff bit_and_iff)
    moreover have "\<not> (\<exists>k. n = POWER_OF_2 k)"
    proof
      assume "\<exists>k. n = POWER_OF_2 k"
      then obtain k where k: "n = POWER_OF_2 k" by blast
      with bitn have "k = h" by (simp add: POWER_OF_2_def bit_simps)
      with k neq h64 show False by (simp add: unat_POWER_OF_2)
    qed
    ultimately show ?thesis using False by (simp add: is_power_of_2_def)
  qed
qed

text \<open>The value a digit string denotes, most significant digit first.\<close>

fun num_of :: "nat \<Rightarrow> u8 list \<Rightarrow> nat" where
  "num_of base [] = 0"
| "num_of base (c # cs) =
     (let d = (if unat c \<ge> 65 then unat c - 65 + 10 else unat c - 48)
      in num_of base cs + d * base ^ length cs)"

lemma unat_digit_char:
  assumes "r < 32"
  shows "unat (digit_char r) = (if 10 \<le> r then 55 + r else 48 + r)"
proof -
  have *: "unat (of_nat k :: u8) = k" if "k < 256" for k
    using that by (simp add: unat_of_nat)
  show ?thesis
    using assms * [of "55 + r"] * [of "48 + r"]
    unfolding digit_char_def by (auto simp del: of_nat_add of_nat_diff)
qed

lemma num_of_snoc:
  "d < 32 \<Longrightarrow> num_of base (cs @ [digit_char d]) = num_of base cs * base + d"
proof (induction cs)
  case Nil
  then show ?case by (auto simp: Let_def unat_digit_char)
next
  case (Cons c cs)
  then show ?case by (simp add: Let_def algebra_simps)
qed

lemma digits_loop_value:
  "2 \<le> base \<Longrightarrow> base \<le> 32 \<Longrightarrow> num_of base (rev (digits_loop base n)) = n"
proof (induction base n rule: digits_loop.induct)
  case (1 base n)
  show ?case
  proof (cases "n = 0")
    case False
    have "n mod base < 32" using "1.prems" mod_less_divisor [of base n] by linarith
    with False 1 show ?thesis
      by (simp add: digits_loop.simps [of base n] num_of_snoc)
  qed (simp add: digits_loop.simps)
qed


lemma digit_char_nonzero: "r < 32 \<Longrightarrow> digit_char r \<noteq> 0"
  by (auto simp: word_unat_eq_iff unat_digit_char)

lemma digits_loop_nonzero: "base \<le> 32 \<Longrightarrow> 0 \<notin> set (digits_loop base n)"
proof (induction base n rule: digits_loop.induct)
  case (1 base n)
  show ?case
  proof (cases "n = 0 \<or> base < 2")
    case False
    then have "n mod base < 32" using "1.prems" mod_less_divisor [of base n] by linarith
    with False 1 show ?thesis
      using digit_char_nonzero [of "n mod base"] by (simp add: digits_loop.simps [of base n])
  qed (simp add: digits_loop.simps [of base n])
qed

lemma digits_loop_Nil: "2 \<le> base \<Longrightarrow> digits_loop base n = [] \<longleftrightarrow> n = 0"
  by (subst digits_loop.simps) simp

lemma zero_digit_value:
  assumes "2 \<le> base" "base \<le> 32"
  shows "num_of base (rev (zero_digit (digits_loop base n))) = n"
    and "0 \<notin> set (rev (zero_digit (digits_loop base n)))"
  using assms digits_loop_value [of base n] digits_loop_nonzero [of base n]
  by (auto simp: zero_digit_def digits_loop_Nil)

text \<open>For every base the printer accepts, \<open>utoa\<close> writes a NUL-terminated string
  without inner NUL whose digits, read back in that base, are the printed value.\<close>

lemma utoa_roundtrip:
  assumes "2 \<le> base" "base \<le> 32"
  shows "\<exists>cs. utoa v base = Inr (Some (cs @ [0])) \<and> num_of (unat base) cs = unat v \<and> 0 \<notin> set cs"
proof -
  have b: "2 \<le> unat base" "unat base \<le> 32"
    using assms by (simp_all add: word_le_nat_alt)
  have "\<not> base < 2" "\<not> 32 < base" using assms by auto
  then have "utoa v base = Inr (Some (rev (zero_digit (digits_loop (unat base) (unat v))) @ [0]))"
    by (simp add: utoa_def Let_def reverse_terminated)
  then show ?thesis using zero_digit_value [OF b, of "unat v"] by blast
qed

text \<open>\<open>itoa\<close> prints the absolute value of the low 32 bits of its \<open>long\<close> argument,
  with a minus sign only in base 10 and decided by the sign of the whole \<open>long\<close>. For
  arguments in the range of \<open>int\<close> this is the argument itself; larger ones are truncated.\<close>

lemma itoa_value:
  assumes "2 \<le> base" "base \<le> 32" "sint (ucast v :: u32) \<noteq> - (2 ^ 31)"
  shows "\<exists>cs. itoa v base = Inr (Some ((if sint v < 0 \<and> base = 10 then 45 # cs else cs) @ [0]))
          \<and> num_of (nat base) cs = nat \<bar>sint (ucast v :: u32)\<bar> \<and> 0 \<notin> set cs"
proof -
  have b: "2 \<le> nat base" "nat base \<le> 32" using assms by auto
  let ?n = "nat \<bar>sint (ucast v :: u32)\<bar>"
  let ?b = "zero_digit (digits_loop (nat base) ?n)"
  have abs: "abs_int (sint (ucast v :: u32)) = Inr (int ?n)"
    using assms(3) by (auto simp: abs_int_def)
  have "itoa v base = Inr (Some ((if sint v < 0 \<and> base = 10 then 45 # rev ?b else rev ?b) @ [0]))"
    using assms(1,2) abs by (auto simp: itoa_def Let_def reverse_terminated reverse_terminated_snoc)
  then show ?thesis using zero_digit_value [OF b, of ?n] by blast
qed

end
