(* ===== verification/KList.thy ===== *)
theory KList
  imports Prelude
begin

text \<open>
  Models \<open>kernel/list.h\<close>, the circular doubly linked lists that every kernel
  structure embeds. A heap gives each \<open>struct list_head\<close>, named by its address,
  its two link fields; every operation is the sequence of field writes of the
  source. \<open>dlist\<close> relates a head to the list of its entries, and the locale
  \<open>intrusive_list\<close> is the interface the clients rely on.
\<close>

section \<open>The operations of list.h\<close>

record 'n lheap =
  lprev :: "'n \<Rightarrow> 'n"
  lnext :: "'n \<Rightarrow> 'n"

definition set_next :: "'n \<Rightarrow> 'n \<Rightarrow> 'n lheap \<Rightarrow> 'n lheap" where
  "set_next a b h = h\<lparr>lnext := (lnext h)(a := b)\<rparr>"

definition set_prev :: "'n \<Rightarrow> 'n \<Rightarrow> 'n lheap \<Rightarrow> 'n lheap" where
  "set_prev a b h = h\<lparr>lprev := (lprev h)(a := b)\<rparr>"

definition list_init :: "'n \<Rightarrow> 'n lheap \<Rightarrow> 'n lheap" where
  "list_init l h = set_prev l l (set_next l l h)"

definition list_add_between :: "'n \<Rightarrow> 'n \<Rightarrow> 'n \<Rightarrow> 'n lheap \<Rightarrow> 'n lheap" where
  "list_add_between new p n h =
     set_prev n new (set_next p new (set_next new n (set_prev new p h)))"

definition list_add :: "'n \<Rightarrow> 'n \<Rightarrow> 'n lheap \<Rightarrow> 'n lheap" where
  "list_add new head h = list_add_between new head (lnext h head) h"

definition list_add_tail :: "'n \<Rightarrow> 'n \<Rightarrow> 'n lheap \<Rightarrow> 'n lheap" where
  "list_add_tail new head h = list_add_between new (lprev h head) head h"

definition list_del_between :: "'n \<Rightarrow> 'n \<Rightarrow> 'n lheap \<Rightarrow> 'n lheap" where
  "list_del_between p n h = set_next p n (set_prev n p h)"

definition list_del :: "'n \<Rightarrow> 'n lheap \<Rightarrow> 'n lheap" where
  "list_del e h = list_del_between (lprev h e) (lnext h e) h"

definition list_del_init :: "'n \<Rightarrow> 'n lheap \<Rightarrow> 'n lheap" where
  "list_del_init e h = list_init e (list_del e h)"

text \<open>The fields are read again after each write, as in the source.\<close>

definition list_replace :: "'n \<Rightarrow> 'n \<Rightarrow> 'n lheap \<Rightarrow> 'n lheap" where
  "list_replace old new h =
     (let h = set_next new (lnext h old) h;
          h = set_prev (lnext h new) new h;
          h = set_prev new (lprev h old) h
      in set_next (lprev h new) new h)"

definition list_is_empty :: "'n \<Rightarrow> 'n lheap \<Rightarrow> bool" where
  "list_is_empty head h = (lnext h head = head)"

text \<open>
  \<open>list_for_each\<close>: the entries met from \<open>pos\<close> until the head is reached again,
  for at most \<open>fuel\<close> entries; \<open>None\<close> if the head is not reached by then.
\<close>

fun list_for_each :: "nat \<Rightarrow> 'n \<Rightarrow> 'n \<Rightarrow> 'n lheap \<Rightarrow> 'n list option" where
  "list_for_each fuel head pos h =
     (if pos = head then Some []
      else case fuel of
        0 \<Rightarrow> None
      | Suc fuel \<Rightarrow> map_option ((#) pos) (list_for_each fuel head (lnext h pos) h))"

declare list_for_each.simps [simp del]

section \<open>Abstraction to lists\<close>

text \<open>
  \<open>dseg h p xs n\<close>: from \<open>p\<close> the forward links lead through \<open>xs\<close> to \<open>n\<close>, and the
  backward links lead back. A list is a segment from its head to its head.
\<close>

fun dseg :: "'n lheap \<Rightarrow> 'n \<Rightarrow> 'n list \<Rightarrow> 'n \<Rightarrow> bool" where
  "dseg h p [] n \<longleftrightarrow> lnext h p = n \<and> lprev h n = p"
| "dseg h p (x # xs) n \<longleftrightarrow> lnext h p = x \<and> lprev h x = p \<and> dseg h x xs n"

definition dlist :: "'n lheap \<Rightarrow> 'n \<Rightarrow> 'n list \<Rightarrow> bool" where
  "dlist h head xs \<longleftrightarrow> distinct (head # xs) \<and> dseg h head xs head"

lemma lheap_simps [simp]:
  "lnext (set_next a b h) = (lnext h)(a := b)" "lprev (set_next a b h) = lprev h"
  "lnext (set_prev a b h) = lnext h" "lprev (set_prev a b h) = (lprev h)(a := b)"
  by (simp_all add: set_next_def set_prev_def)

lemma dseg_append:
  "dseg h p (xs @ x # ys) n \<longleftrightarrow> dseg h p xs x \<and> dseg h x ys n"
  by (induction xs arbitrary: p) auto

lemma dseg_set_next [simp]:
  "a \<notin> set (p # xs) \<Longrightarrow> dseg (set_next a b h) p xs n \<longleftrightarrow> dseg h p xs n"
  by (induction xs arbitrary: p) auto

lemma dseg_set_prev [simp]:
  "a \<notin> set (xs @ [n]) \<Longrightarrow> dseg (set_prev a b h) p xs n \<longleftrightarrow> dseg h p xs n"
  by (induction xs arbitrary: p) auto

lemma dseg_cong:
  "(\<And>x. x \<in> set (p # xs @ [n]) \<Longrightarrow> lnext h x = lnext h' x \<and> lprev h x = lprev h' x) \<Longrightarrow>
     dseg h p xs n \<longleftrightarrow> dseg h' p xs n"
  by (induction xs arbitrary: p) auto

lemma dseg_last: "dseg h p xs n \<Longrightarrow> lprev h n = last (p # xs)"
  by (induction xs arbitrary: p) auto

lemma dseg_first: "dseg h p xs n \<Longrightarrow> lnext h p = hd (xs @ [n])"
  by (cases xs) auto

lemma dlist_init: "dlist (list_init l h) l []"
  by (simp add: dlist_def list_init_def)

lemma dlist_add:
  assumes "dlist h head xs" "new \<notin> set (head # xs)"
  shows "dlist (list_add new head h) head (new # xs)"
proof (cases xs)
  case Nil
  then show ?thesis using assms
    by (auto simp: dlist_def list_add_def list_add_between_def)
next
  case (Cons x ys)
  then show ?thesis using assms
    by (auto simp: dlist_def list_add_def list_add_between_def)
qed

lemma dlist_add_tail:
  assumes "dlist h head xs" "new \<notin> set (head # xs)"
  shows "dlist (list_add_tail new head h) head (xs @ [new])"
proof (cases xs rule: rev_cases)
  case Nil
  then show ?thesis using assms
    by (auto simp: dlist_def list_add_tail_def list_add_between_def)
next
  case (snoc ys y)
  then show ?thesis using assms
    by (auto simp: dlist_def list_add_tail_def list_add_between_def dseg_append)
qed

lemma dlist_del:
  assumes "dlist h head (xs @ e # ys)"
  shows "dlist (list_del e h) head (xs @ ys)"
proof -
  have d: "distinct (head # xs @ e # ys)" and l: "dseg h head xs e" and r: "dseg h e ys head"
    using assms by (auto simp: dlist_def dseg_append)
  show ?thesis
  proof (cases xs rule: rev_cases; cases ys)
    assume "xs = []" "ys = []"
    then show ?thesis using d l r by (auto simp: dlist_def list_del_def list_del_between_def)
  next
    fix y ys' assume "xs = []" "ys = y # ys'"
    then show ?thesis using d l r by (auto simp: dlist_def list_del_def list_del_between_def)
  next
    fix xs' x assume "xs = xs' @ [x]" "ys = []"
    then show ?thesis using d l r
      by (auto simp: dlist_def list_del_def list_del_between_def dseg_append)
  next
    fix xs' x y ys' assume "xs = xs' @ [x]" "ys = y # ys'"
    then show ?thesis using d l r
      by (auto simp: dlist_def list_del_def list_del_between_def dseg_append)
  qed
qed

lemma dlist_first: "dlist h head xs \<Longrightarrow> lnext h head = hd (xs @ [head])"
  by (auto simp: dlist_def dseg_first)

lemma dlist_last: "dlist h head xs \<Longrightarrow> lprev h head = last (head # xs)"
  by (auto simp: dlist_def dseg_last)

lemma dlist_distinct: "dlist h head xs \<Longrightarrow> distinct (head # xs)"
  by (simp add: dlist_def)

lemma dlist_is_empty: "dlist h head xs \<Longrightarrow> list_is_empty head h \<longleftrightarrow> xs = []"
  by (cases xs) (auto simp: dlist_def list_is_empty_def)

lemma dlist_del_init:
  assumes "dlist h head (xs @ e # ys)"
  shows "dlist (list_del_init e h) head (xs @ ys)" and "dlist (list_del_init e h) e []"
proof -
  have "dlist (list_del e h) head (xs @ ys)" by (rule dlist_del) (rule assms)
  moreover have "e \<notin> set (head # xs @ ys)" using dlist_distinct [OF assms] by auto
  ultimately show "dlist (list_del_init e h) head (xs @ ys)"
    by (auto simp: list_del_init_def list_init_def dlist_def)
  show "dlist (list_del_init e h) e []"
    by (simp add: list_del_init_def dlist_init)
qed

lemma list_replace_unfold:
  assumes "lnext h e = n" "lprev h e = p" "n \<noteq> e" "new \<noteq> n"
  shows "list_replace e new h = set_next p new (set_prev new p (set_prev n new (set_next new n h)))"
  using assms by (simp add: list_replace_def Let_def)

lemma dlist_replace:
  assumes "dlist h head (xs @ e # ys)" "new \<notin> set (head # xs @ e # ys)"
  shows "dlist (list_replace e new h) head (xs @ new # ys)"
proof -
  have d: "distinct (head # xs @ e # ys)" and l: "dseg h head xs e" and r: "dseg h e ys head"
    using assms by (auto simp: dlist_def dseg_append)
  let ?p = "last (head # xs)" and ?n = "hd (ys @ [head])"
  have n: "?n \<in> set (head # ys)" and p: "?p \<in> set (head # xs)" by (cases ys; auto)+
  have nx: "?n \<notin> set xs" and py: "?p \<notin> set ys" using d n p by auto
  have "list_replace e new h = set_next ?p new (set_prev new ?p (set_prev ?n new (set_next new ?n h)))"
    using dseg_last [OF l] dseg_first [OF r] d n assms(2) by (intro list_replace_unfold) auto
  moreover have "dseg (set_next ?p new (set_prev new ?p (set_prev ?n new (set_next new ?n h)))) head xs new"
    using d l n p nx py assms(2) by (cases xs rule: rev_cases) (auto simp: dseg_append)
  moreover have "dseg (set_next ?p new (set_prev new ?p (set_prev ?n new (set_next new ?n h)))) new ys head"
    using d r n p nx py assms(2) by (cases ys) (auto simp: dseg_append)
  ultimately show ?thesis using d assms(2) by (auto simp: dlist_def dseg_append)
qed

lemma dseg_for_each:
  "dseg h p xs n \<Longrightarrow> n \<notin> set xs \<Longrightarrow> length xs \<le> fuel \<Longrightarrow>
     list_for_each fuel n (lnext h p) h = Some xs"
proof (induction xs arbitrary: p fuel)
  case Nil
  then show ?case by (simp add: list_for_each.simps)
next
  case (Cons x xs)
  then obtain f where "fuel = Suc f" by (cases fuel) auto
  with Cons show ?case by (auto simp: list_for_each.simps [of "Suc f"])
qed

section \<open>Other lists in the same heap\<close>

lemma dlist_frame:
  assumes "dlist h k ys" "\<And>x. x \<in> set (k # ys) \<Longrightarrow> lnext h' x = lnext h x \<and> lprev h' x = lprev h x"
  shows "dlist h' k ys"
  using assms dseg_cong [of k ys k h' h] by (auto simp: dlist_def)

lemma list_add_frame:
  assumes "dlist h k ys" "dlist h head xs" "set (k # ys) \<inter> set (head # xs) = {}" "new \<notin> set (k # ys)"
  shows "dlist (list_add new head h) k ys"
  using assms(1)
proof (rule dlist_frame)
  fix x assume "x \<in> set (k # ys)"
  moreover have "lnext h head \<in> set (head # xs)"
    using dlist_first [OF assms(2)] by (cases xs) auto
  ultimately show "lnext (list_add new head h) x = lnext h x \<and> lprev (list_add new head h) x = lprev h x"
    using assms(3,4) by (auto simp: list_add_def list_add_between_def)
qed

lemma list_add_tail_frame:
  assumes "dlist h k ys" "dlist h head xs" "set (k # ys) \<inter> set (head # xs) = {}" "new \<notin> set (k # ys)"
  shows "dlist (list_add_tail new head h) k ys"
  using assms(1)
proof (rule dlist_frame)
  fix x assume "x \<in> set (k # ys)"
  moreover have "lprev h head \<in> set (head # xs)"
    using dlist_last [OF assms(2)] last_in_set [of "head # xs"] by simp
  ultimately show "lnext (list_add_tail new head h) x = lnext h x \<and> lprev (list_add_tail new head h) x = lprev h x"
    using assms(3,4) by (auto simp: list_add_tail_def list_add_between_def)
qed

lemma list_del_frame:
  assumes "dlist h k ys" "dlist h head (xs @ e # zs)" "set (k # ys) \<inter> set (head # xs @ e # zs) = {}"
  shows "dlist (list_del e h) k ys"
  using assms(1)
proof (rule dlist_frame)
  fix x assume "x \<in> set (k # ys)"
  moreover have "lprev h e \<in> set (head # xs)" "lnext h e \<in> set (zs @ [head])"
    using assms(2) dseg_last [of h head xs e] dseg_first [of h e zs head] last_in_set [of "head # xs"]
      hd_in_set [of "zs @ [head]"]
    by (simp_all add: dlist_def dseg_append)
  ultimately show "lnext (list_del e h) x = lnext h x \<and> lprev (list_del e h) x = lprev h x"
    using assms(3) by (auto simp: list_del_def list_del_between_def)
qed

section \<open>The interface the clients rely on\<close>

locale intrusive_list =
  fixes init :: "'n \<Rightarrow> 'h \<Rightarrow> 'h"
    and add add_tail :: "'n \<Rightarrow> 'n \<Rightarrow> 'h \<Rightarrow> 'h"
    and del :: "'n \<Rightarrow> 'h \<Rightarrow> 'h"
    and first :: "'h \<Rightarrow> 'n \<Rightarrow> 'n"
    and lst :: "'h \<Rightarrow> 'n \<Rightarrow> 'n list \<Rightarrow> bool"
  assumes init: "lst (init l h) l []"
    and add: "lst h l xs \<Longrightarrow> e \<notin> set (l # xs) \<Longrightarrow> lst (add e l h) l (e # xs)"
    and add_tail: "lst h l xs \<Longrightarrow> e \<notin> set (l # xs) \<Longrightarrow> lst (add_tail e l h) l (xs @ [e])"
    and del: "lst h l (xs @ e # ys) \<Longrightarrow> lst (del e h) l (xs @ ys)"
    and first: "lst h l xs \<Longrightarrow> first h l = hd (xs @ [l])"
    and distinct: "lst h l xs \<Longrightarrow> distinct (l # xs)"
begin

lemma first_iff_empty: "lst h l xs \<Longrightarrow> first h l = l \<longleftrightarrow> xs = []"
  using first [of h l xs] distinct [of h l xs] by (cases xs) auto

lemma del_remove1: "lst h l xs \<Longrightarrow> e \<in> set xs \<Longrightarrow> lst (del e h) l (remove1 e xs)"
proof -
  assume a: "lst h l xs" "e \<in> set xs"
  then obtain ys zs where "xs = ys @ e # zs" "e \<notin> set ys"
    by (meson split_list_first)
  then show ?thesis using del [of h l ys e zs] a(1) by (simp add: remove1_append)
qed

lemma move_to_tail:
  assumes "lst h l xs" "e \<in> set xs"
  shows "lst (add_tail e l (del e h)) l (remove1 e xs @ [e])"
proof (rule add_tail)
  show "lst (del e h) l (remove1 e xs)" using assms by (rule del_remove1)
  show "e \<notin> set (l # remove1 e xs)" using distinct [OF assms(1)] assms(2) by auto
qed

lemma pop_first:
  assumes "lst h l (x # xs)"
  shows "first h l = x" and "lst (del (first h l) h) l xs"
  using first [OF assms] del [of h l "[]" x xs] assms by auto

end

interpretation klist: intrusive_list list_init list_add list_add_tail list_del lnext dlist
  by (unfold_locales;
      rule dlist_init dlist_add dlist_add_tail dlist_del dlist_first dlist_distinct; assumption)

text \<open>\<open>list_del\<close> of an entry followed by \<open>list_add_tail\<close> on the same head moves that
  entry to the end and keeps the order of all the others, in both link directions.\<close>

lemma list_move_to_tail:
  assumes "dlist h head xs" "e \<in> set xs"
  shows "dlist (list_add_tail e head (list_del e h)) head (remove1 e xs @ [e])"
  using assms by (rule klist.move_to_tail)

text \<open>Walking a well-formed list with \<open>list_for_each\<close> ends and visits exactly its entries
  in order, even when the walk starts after an insertion at the front.\<close>

lemma list_for_each_add:
  assumes "dlist h head xs" "new \<notin> set (head # xs)" "length xs < fuel"
  shows "list_for_each fuel head (lnext (list_add new head h) head) (list_add new head h) = Some (new # xs)"
proof -
  have "dlist (list_add new head h) head (new # xs)" by (rule klist.add) (use assms in auto)
  then show ?thesis using assms(3) dlist_distinct [of "list_add new head h" head "new # xs"]
    by (intro dseg_for_each) (auto simp: dlist_def)
qed

definition empty_heap :: "nat lheap" where
  "empty_heap = list_init 0 \<lparr>lprev = (\<lambda>x. x), lnext = (\<lambda>x. x)\<rparr>"

lemma empty_heap_dlist: "dlist empty_heap 0 []"
  unfolding empty_heap_def by (rule klist.init)

end
