(* ===== verification/Spinlock.thy ===== *)
theory Spinlock
  imports Utils
begin

text \<open>
  Models \<open>kernel/cpu.c\<close> (per-hart interrupt nesting) and \<open>kernel/spinlock.c\<close>,
  with the CSR accessors of \<open>kernel/riscv.h\<close> they use. The first part runs on one
  hart and is what the other components call; the second part interleaves the
  atomic steps of \<open>spinlock_acquire\<close> and \<open>spinlock_release\<close> on all harts.
\<close>

section \<open>Harts and their interrupt state\<close>

definition HART_NUM :: nat where
  "HART_NUM = 2"

definition SSTATUS_SIE :: u64 where
  "SSTATUS_SIE = push_bit 1 1"

definition SSTATUS_SPIE :: u64 where
  "SSTATUS_SPIE = push_bit 5 1"

definition SSTATUS_SPP :: u64 where
  "SSTATUS_SPP = push_bit 8 1"

text \<open>\<open>curent_task\<close> holds the address of a \<open>task_struct\<close>.\<close>

record cpu_t =
  curent_task :: u64
  int_depth :: int
  int_enable :: u64

record machine =
  hartid :: nat
  sstatus :: u64
  cpus :: "cpu_t list"

definition get_cpu :: "machine \<Rightarrow> cpu_t outcome" where
  "get_cpu m = arr_get (cpus m) (hartid m)"

definition put_cpu :: "cpu_t \<Rightarrow> machine \<Rightarrow> machine outcome" where
  "put_cpu c m = bindO (arr_set (cpus m) (hartid m) c) (\<lambda>cs. Inr (m\<lparr>cpus := cs\<rparr>))"

definition c_sstatus :: "u64 \<Rightarrow> machine \<Rightarrow> machine" where
  "c_sstatus x m = m\<lparr>sstatus := sstatus m AND NOT x\<rparr>"

definition s_sstatus :: "u64 \<Rightarrow> machine \<Rightarrow> machine" where
  "s_sstatus x m = m\<lparr>sstatus := sstatus m OR x\<rparr>"

definition intr_off :: "machine \<Rightarrow> machine" where
  "intr_off m = c_sstatus SSTATUS_SIE m"

definition intr_on :: "machine \<Rightarrow> machine" where
  "intr_on m = s_sstatus SSTATUS_SIE m"

definition intr_get :: "machine \<Rightarrow> u64" where
  "intr_get m = sstatus m AND SSTATUS_SIE"

definition cpu_struct_init :: "machine \<Rightarrow> machine" where
  "cpu_struct_init m = m\<lparr>cpus := map (\<lambda>c. c\<lparr>int_depth := 0\<rparr>) (cpus m)\<rparr>"

definition cpu_int_push :: "machine \<Rightarrow> machine outcome" where
  "cpu_int_push m =
     bindO (get_cpu m) (\<lambda>c.
     let old = intr_get m;
         m = intr_off m;
         c = (if int_depth c = 0 then c\<lparr>int_enable := old\<rparr> else c)
     in put_cpu (c\<lparr>int_depth := int_depth c + 1\<rparr>) m)"

definition cpu_int_pop :: "machine \<Rightarrow> machine outcome" where
  "cpu_int_pop m =
     bindO (get_cpu m) (\<lambda>c.
     let c = c\<lparr>int_depth := int_depth c - 1\<rparr>
     in bindO (put_cpu c m) (\<lambda>m.
          if int_depth c = 0 \<and> intr_get m \<noteq> 0 then Inr (intr_on m) else Inr m))"

section \<open>The lock as one hart sees it\<close>

record spinlock =
  locked :: u32
  lk_name :: string
  cpu_id :: int

definition spinlock_init :: "string \<Rightarrow> spinlock" where
  "spinlock_init name = \<lparr>locked = 0, lk_name = name, cpu_id = -1\<rparr>"

definition spinlock_holding :: "spinlock \<Rightarrow> machine \<Rightarrow> bool" where
  "spinlock_holding lk m \<longleftrightarrow> locked lk \<noteq> 0 \<and> cpu_id lk = int (hartid m)"

text \<open>
  Alone on its hart, an acquire of a lock somebody else holds spins for ever.
\<close>

definition spinlock_acquire :: "spinlock \<Rightarrow> machine \<Rightarrow> (spinlock \<times> machine) outcome" where
  "spinlock_acquire lk m =
     bindO (cpu_int_push m) (\<lambda>m.
     guardO Panic (\<not> spinlock_holding lk m) (
     guardO Hang (locked lk = 0) (
     Inr (lk\<lparr>locked := 1, cpu_id := int (hartid m)\<rparr>, m))))"

definition spinlock_release :: "spinlock \<Rightarrow> machine \<Rightarrow> (spinlock \<times> machine) outcome" where
  "spinlock_release lk m =
     guardO Panic (spinlock_holding lk m) (
     let lk = lk\<lparr>cpu_id := -1, locked := 0\<rparr>
     in bindO (cpu_int_pop m) (\<lambda>m. Inr (lk, m)))"

definition hart_ok :: "machine \<Rightarrow> bool" where
  "hart_ok m \<longleftrightarrow> hartid m < length (cpus m)"

definition lock_free :: "spinlock \<Rightarrow> bool" where
  "lock_free lk \<longleftrightarrow> locked lk = 0"

lemmas cpu_defs = get_cpu_def put_cpu_def c_sstatus_def s_sstatus_def intr_off_def intr_on_def
  intr_get_def cpu_int_push_def cpu_int_pop_def hart_ok_def Let_def

lemma intr_get_off [simp]: "intr_get (intr_off m) = 0"
  by (simp add: cpu_defs bit_eq_iff bit_simps)

lemma and_not_self: "(x AND NOT y) AND y = 0" for x :: "'a::len word"
  by (simp add: bit_eq_iff bit_simps)

definition acquired :: "machine \<Rightarrow> machine" where
  "acquired m =
     (let c = cpus m ! hartid m;
          c = (if int_depth c = 0 then c\<lparr>int_enable := intr_get m\<rparr> else c)
      in (intr_off m)\<lparr>cpus := (cpus m)[hartid m := c\<lparr>int_depth := int_depth c + 1\<rparr>]\<rparr>)"

lemma cpu_int_push_ok: "hart_ok m \<Longrightarrow> cpu_int_push m = Inr (acquired m)"
  by (simp add: cpu_defs acquired_def)

lemma acquired_fields [simp]:
  "hartid (acquired m) = hartid m" "intr_get (acquired m) = 0"
  "hart_ok m \<Longrightarrow> hart_ok (acquired m)"
  by (simp_all add: acquired_def cpu_defs and_not_self)

lemma spinlock_acquire_ok:
  "hart_ok m \<Longrightarrow> lock_free lk \<Longrightarrow>
     spinlock_acquire lk m = Inr (lk\<lparr>locked := 1, cpu_id := int (hartid m)\<rparr>, acquired m)"
  by (simp add: spinlock_acquire_def cpu_int_push_ok spinlock_holding_def lock_free_def)

text \<open>What one hart finds after a critical section: the lock is free and the nesting
  depth is as before.\<close>

definition released :: "machine \<Rightarrow> machine" where
  "released m =
     (let c = cpus m ! hartid m;
          c = (if int_depth c = 0 then c\<lparr>int_enable := intr_get m\<rparr> else c)
      in (intr_off m)\<lparr>cpus := (cpus m)[hartid m := c]\<rparr>)"

lemma spinlock_release_ok:
  assumes "hart_ok m" "locked lk \<noteq> 0" "cpu_id lk = int (hartid m)"
  shows "spinlock_release lk (acquired m) = Inr (lk\<lparr>cpu_id := -1, locked := 0\<rparr>, released m)"
proof -
  have "cpu_int_pop (acquired m) = Inr (released m)"
    using assms(1)
    by (auto simp: cpu_int_pop_def acquired_def released_def cpu_defs and_not_self)
  then show ?thesis using assms by (simp add: spinlock_release_def spinlock_holding_def)
qed

lemma released_fields [simp]:
  "hartid (released m) = hartid m" "intr_get (released m) = 0"
  "hart_ok m \<Longrightarrow> hart_ok (released m)"
  by (simp_all add: released_def cpu_defs and_not_self)

text \<open>A critical section entered with a free lock ends normally with the lock free
  again and the interrupt nesting depth of the hart restored; but the supervisor
  interrupts are disabled afterwards whatever they were before, since \<open>cpu_int_pop\<close>
  consults the current interrupt bit, cleared by the push, and not the saved one.\<close>

lemma spinlock_section_ends:
  assumes "hart_ok m" "lock_free lk"
  shows "\<exists>lk' m'. bindO (spinlock_acquire lk m) (\<lambda>(lk, m). spinlock_release lk m) = Inr (lk', m')
    \<and> lock_free lk' \<and> int_depth (cpus m' ! hartid m) = int_depth (cpus m ! hartid m) \<and> intr_get m' = 0"
proof -
  have "bindO (spinlock_acquire lk m) (\<lambda>(lk, m). spinlock_release lk m)
      = Inr (lk\<lparr>cpu_id := -1, locked := 0\<rparr>, released m)"
    using assms spinlock_release_ok [of m "lk\<lparr>locked := 1, cpu_id := int (hartid m)\<rparr>"]
    by (simp add: spinlock_acquire_ok)
  moreover have "int_depth (cpus (released m) ! hartid m) = int_depth (cpus m ! hartid m)"
    using assms(1) by (simp add: released_def hart_ok_def Let_def)
  ultimately show ?thesis by (auto simp: lock_free_def)
qed

definition boot_machine :: machine where
  "boot_machine = \<lparr>hartid = 0, sstatus = SSTATUS_SIE,
     cpus = replicate HART_NUM \<lparr>curent_task = 0, int_depth = 0, int_enable = 0\<rparr>\<rparr>"

lemma boot_machine_ok: "hart_ok boot_machine"
  by (simp add: boot_machine_def hart_ok_def HART_NUM_def)

lemma spinlock_init_free: "lock_free (spinlock_init name)"
  by (simp add: lock_free_def spinlock_init_def)

section \<open>All harts: the atomic steps interleaved\<close>

text \<open>
  Where a hart is in the two functions. \<open>Spin\<close>: after the holding check, in the
  test-and-set loop. \<open>Got\<close>: the swap returned 0, \<open>cpu_id\<close> not yet written.
  \<open>Crit\<close>: acquire has returned. \<open>Rel\<close>: release has cleared \<open>cpu_id\<close> and not yet
  \<open>locked\<close>. \<open>Stuck\<close>: a holding check panicked. The harts share the lock word and
  the holder field and nothing else. A holding check reads \<open>locked\<close> and \<open>cpu_id\<close> in one
  step: a hart sees its own number only where it wrote it itself, so no other hart can
  change the answer between the two reads. The calls of \<open>cpu_int_push\<close> and
  \<open>cpu_int_pop\<close> touch the state of their hart alone and are no steps here.
\<close>

datatype pc = Out | Spin | Got | Crit | Rel | Stuck

record lock_sys =
  lk :: spinlock
  pcs :: "nat \<Rightarrow> pc"

definition init_sys :: lock_sys where
  "init_sys = \<lparr>lk = spinlock_init ''lock'', pcs = (\<lambda>_. Out)\<rparr>"

definition holding :: "lock_sys \<Rightarrow> nat \<Rightarrow> bool" where
  "holding s h \<longleftrightarrow> locked (lk s) \<noteq> 0 \<and> cpu_id (lk s) = int h"

definition goto :: "nat \<Rightarrow> pc \<Rightarrow> lock_sys \<Rightarrow> lock_sys" where
  "goto h p s = s\<lparr>pcs := (pcs s)(h := p)\<rparr>"

inductive lock_step :: "lock_sys \<Rightarrow> lock_sys \<Rightarrow> bool" where
  enter: "pcs s h = Out \<Longrightarrow> \<not> holding s h \<Longrightarrow> lock_step s (goto h Spin s)"
| enter_panic: "pcs s h = Out \<Longrightarrow> holding s h \<Longrightarrow> lock_step s (goto h Stuck s)"
| swap_fail: "pcs s h = Spin \<Longrightarrow> locked (lk s) \<noteq> 0 \<Longrightarrow> lock_step s (s\<lparr>lk := (lk s)\<lparr>locked := 1\<rparr>\<rparr>)"
| swap_win: "pcs s h = Spin \<Longrightarrow> locked (lk s) = 0 \<Longrightarrow>
     lock_step s (goto h Got (s\<lparr>lk := (lk s)\<lparr>locked := 1\<rparr>\<rparr>))"
| record_holder: "pcs s h = Got \<Longrightarrow>
     lock_step s (goto h Crit (s\<lparr>lk := (lk s)\<lparr>cpu_id := int h\<rparr>\<rparr>))"
| clear_holder: "pcs s h = Crit \<Longrightarrow> holding s h \<Longrightarrow>
     lock_step s (goto h Rel (s\<lparr>lk := (lk s)\<lparr>cpu_id := -1\<rparr>\<rparr>))"
| clear_panic: "pcs s h = Crit \<Longrightarrow> \<not> holding s h \<Longrightarrow> lock_step s (goto h Stuck s)"
| unlock: "pcs s h = Rel \<Longrightarrow> lock_step s (goto h Out (s\<lparr>lk := (lk s)\<lparr>locked := 0\<rparr>\<rparr>))"

inductive reachable :: "lock_sys \<Rightarrow> bool" where
  start: "reachable init_sys"
| step: "reachable s \<Longrightarrow> lock_step s t \<Longrightarrow> reachable t"

inductive_simps lock_step_simps: "lock_step s t"

text \<open>
  The invariant: either the lock word is clear and every hart is outside or
  spinning, or one hart \<open>c\<close> is between its winning swap and its unlocking store,
  and the holder field names it exactly while it is in its critical section.
\<close>

definition free_inv :: "lock_sys \<Rightarrow> bool" where
  "free_inv s \<longleftrightarrow> locked (lk s) = 0 \<and> cpu_id (lk s) < 0 \<and> (\<forall>h. pcs s h \<in> {Out, Spin})"

definition owned_inv :: "lock_sys \<Rightarrow> nat \<Rightarrow> bool" where
  "owned_inv s c \<longleftrightarrow> locked (lk s) \<noteq> 0 \<and> pcs s c \<in> {Got, Crit, Rel} \<and>
     (if pcs s c = Crit then cpu_id (lk s) = int c else cpu_id (lk s) < 0) \<and>
     (\<forall>h. h \<noteq> c \<longrightarrow> pcs s h \<in> {Out, Spin})"

definition lock_inv :: "lock_sys \<Rightarrow> bool" where
  "lock_inv s \<longleftrightarrow> free_inv s \<or> (\<exists>c. owned_inv s c)"

lemma lock_inv_init: "lock_inv init_sys"
  by (simp add: lock_inv_def free_inv_def init_sys_def spinlock_init_def)

lemma free_outside: "free_inv s \<Longrightarrow> pcs s h = Out \<or> pcs s h = Spin"
  by (simp add: free_inv_def)

lemma lock_step_free: "lock_step s t \<Longrightarrow> free_inv s \<Longrightarrow> free_inv t \<or> (\<exists>c. owned_inv t c)"
proof (induction rule: lock_step.induct)
  case (swap_win s h)
  then have "owned_inv (goto h Got (s\<lparr>lk := (lk s)\<lparr>locked := 1\<rparr>\<rparr>)) h"
    by (simp add: free_inv_def owned_inv_def goto_def)
  then show ?case by blast
next
  case (record_holder s h)
  then show ?case using free_outside [of s h] by simp
next
  case (clear_holder s h)
  then show ?case using free_outside [of s h] by simp
next
  case (clear_panic s h)
  then show ?case using free_outside [of s h] by simp
next
  case (unlock s h)
  then show ?case using free_outside [of s h] by simp
qed (simp_all add: free_inv_def holding_def goto_def)

lemma owned_other: "owned_inv s c \<Longrightarrow> pcs s h \<notin> {Out, Spin} \<Longrightarrow> h = c"
  by (auto simp: owned_inv_def)

lemma lock_step_owned: "lock_step s t \<Longrightarrow> owned_inv s c \<Longrightarrow> free_inv t \<or> owned_inv t c"
proof (induction rule: lock_step.induct)
  case (enter s h)
  then show ?case by (auto simp: owned_inv_def goto_def)
next
  case (enter_panic s h)
  then show ?case by (auto simp: owned_inv_def holding_def split: if_splits)
next
  case (swap_fail s h)
  then show ?case by (simp add: owned_inv_def)
next
  case (swap_win s h)
  then show ?case by (simp add: owned_inv_def)
next
  case (record_holder s h)
  then have "h = c" by (auto intro: owned_other)
  with record_holder show ?case by (simp add: owned_inv_def goto_def)
next
  case (clear_holder s h)
  then have "h = c" by (auto intro: owned_other)
  with clear_holder show ?case by (simp add: owned_inv_def goto_def)
next
  case (clear_panic s h)
  then have "h = c" by (auto intro: owned_other)
  with clear_panic show ?case by (simp add: owned_inv_def holding_def)
next
  case (unlock s h)
  then have "h = c" by (auto intro: owned_other)
  with unlock show ?case by (simp add: owned_inv_def free_inv_def goto_def)
qed

lemma lock_step_inv: "lock_step s t \<Longrightarrow> lock_inv s \<Longrightarrow> lock_inv t"
  using lock_step_free lock_step_owned unfolding lock_inv_def by blast

lemma reachable_inv: "reachable s \<Longrightarrow> lock_inv s"
  by (induction rule: reachable.induct) (auto intro: lock_inv_init lock_step_inv)

lemma lock_inv_crit_unique: "lock_inv s \<Longrightarrow> pcs s h = Crit \<Longrightarrow> pcs s k = Crit \<Longrightarrow> h = k"
  unfolding lock_inv_def free_inv_def by (metis insert_iff owned_other pc.distinct singletonD)

lemma lock_inv_not_stuck: "lock_inv s \<Longrightarrow> pcs s h \<noteq> Stuck"
  unfolding lock_inv_def free_inv_def owned_inv_def by (metis insert_iff pc.distinct singletonD)

text \<open>C8. In every interleaving of acquires and releases by any number of harts, at most
  one hart is inside the critical section and neither holding check ever panics.\<close>

theorem spinlock_mutual_exclusion:
  assumes "reachable s"
  shows "(\<forall>h. pcs s h \<noteq> Stuck) \<and> (\<forall>h k. pcs s h = Crit \<and> pcs s k = Crit \<longrightarrow> h = k)"
  using reachable_inv [OF assms] lock_inv_crit_unique lock_inv_not_stuck by blast

lemma reachable_crit: "\<exists>s. reachable s \<and> pcs s 0 = Crit \<and> pcs s 1 = Spin"
proof -
  define s1 where "s1 = goto 0 Spin init_sys"
  define s2 where "s2 = goto 1 Spin s1"
  define s3 where "s3 = goto 0 Got (s2\<lparr>lk := (lk s2)\<lparr>locked := 1\<rparr>\<rparr>)"
  define s4 where "s4 = goto 0 Crit (s3\<lparr>lk := (lk s3)\<lparr>cpu_id := int 0\<rparr>\<rparr>)"
  note defs = goto_def init_sys_def spinlock_init_def holding_def
  have "lock_step init_sys s1" unfolding s1_def by (rule enter) (simp_all add: defs)
  moreover have "lock_step s1 s2" unfolding s2_def by (rule enter) (simp_all add: s1_def defs)
  moreover have "lock_step s2 s3" unfolding s3_def
    by (rule swap_win) (simp_all add: s2_def s1_def defs)
  moreover have "lock_step s3 s4" unfolding s4_def by (rule record_holder) (simp add: s3_def defs)
  ultimately have "reachable s4" by (meson reachable.intros)
  moreover have "pcs s4 0 = Crit" "pcs s4 1 = Spin"
    by (simp_all add: s4_def s3_def s2_def s1_def defs)
  ultimately show ?thesis by blast
qed

theorem spinlock_mutual_exclusion_witness:
  "\<exists>s. reachable s \<and> pcs s 0 = Crit \<and> pcs s 1 = Spin \<and> (\<forall>h. pcs s h \<noteq> Stuck) \<and> (\<forall>h k. pcs s h = Crit \<and> pcs s k = Crit \<longrightarrow> h = k)"
proof -
  obtain s where s: "reachable s" "pcs s 0 = Crit" "pcs s 1 = Spin" using reachable_crit by blast
  show ?thesis using s spinlock_mutual_exclusion [OF s(1)] by blast
qed

end
