(* ===== verification/Buddy.thy ===== *)
theory Buddy
  imports Spinlock
begin

text \<open>
  Models \<open>kernel/buddy.c\<close>, the physical page allocator, and its wrapper
  \<open>kernel/pmem.c\<close>. The global \<open>bs\<close> is a record passed along; the array of
  \<open>buddy_block\<close> descriptors at the start of the managed memory is a list, and an
  access outside it, or outside \<open>indices\<close>, is undefined behaviour. Orders stay
  below 13 and are natural numbers; block indices are signed as in the source,
  where \<open>-1\<close> ends a free list.
\<close>

definition PAGE_SIZE :: u64 where
  "PAGE_SIZE = 4096"

definition MAX_BLOCK_POW :: nat where
  "MAX_BLOCK_POW = 12"

record buddy_block =
  bnext :: int
  adat :: u64
  bpow :: nat
  bused :: u8

definition BUDDY_BLOCK_USED :: u8 where
  "BUDDY_BLOCK_USED = 1"

definition BUDDY_BLOCK_FREE :: u8 where
  "BUDDY_BLOCK_FREE = 0"

text \<open>\<open>sizeof(buddy_block)\<close>: two 8-byte fields, two bytes and padding.\<close>

definition SIZEOF_BUDDY_BLOCK :: u64 where
  "SIZEOF_BUDDY_BLOCK = 24"

record buddy_system =
  pa_start :: u64
  pa_end :: u64
  pa_length :: u64
  buddies :: "buddy_block list"
  managed_start :: u64
  managed_end :: u64
  m_length :: u64
  free_pages :: u64
  total_pages :: u64
  indices :: "int list"
  bs_lock :: spinlock

section \<open>Access to the descriptor and index arrays\<close>

definition blk_get :: "int \<Rightarrow> buddy_system \<Rightarrow> buddy_block outcome" where
  "blk_get i bs = (if 0 \<le> i then arr_get (buddies bs) (nat i) else Inl Undefined)"

definition blk_upd :: "int \<Rightarrow> (buddy_block \<Rightarrow> buddy_block) \<Rightarrow> buddy_system \<Rightarrow> buddy_system outcome" where
  "blk_upd i f bs =
     bindO (blk_get i bs) (\<lambda>b. Inr (bs\<lparr>buddies := (buddies bs)[nat i := f b]\<rparr>))"

definition idx_get :: "nat \<Rightarrow> buddy_system \<Rightarrow> int outcome" where
  "idx_get p bs = arr_get (indices bs) p"

definition idx_set :: "nat \<Rightarrow> int \<Rightarrow> buddy_system \<Rightarrow> buddy_system outcome" where
  "idx_set p v bs = bindO (arr_set (indices bs) p v) (\<lambda>xs. Inr (bs\<lparr>indices := xs\<rparr>))"

section \<open>Initialisation\<close>

definition buddy_get_self_memreq :: "buddy_system \<Rightarrow> u64" where
  "buddy_get_self_memreq bs = (pa_length bs div PAGE_SIZE) * SIZEOF_BUDDY_BLOCK"

fun max_true_loop :: "u64 \<Rightarrow> nat \<Rightarrow> nat \<Rightarrow> nat" where
  "max_true_loop pi i 0 = 0"
| "max_true_loop pi i (Suc n) = (if pi AND POWER_OF_2 i \<noteq> 0 then i else max_true_loop pi (i + 1) n)"

definition buddy_aux_get_max_true :: "u64 \<Rightarrow> nat" where
  "buddy_aux_get_max_true pa = max_true_loop (drop_bit 12 pa) 0 (MAX_BLOCK_POW + 1)"

definition buddy_aux_data_init :: "u64 \<Rightarrow> u64 \<Rightarrow> buddy_system \<Rightarrow> buddy_system outcome" where
  "buddy_aux_data_init ps pe bs =
     (let bs = bs\<lparr>pa_start := ps, pa_end := pe, pa_length := pe - ps\<rparr>
      in bindO (align_to (ps + buddy_get_self_memreq bs) PAGE_SIZE) (\<lambda>ms.
         let ml = pe - ms
         in Inr (bs\<lparr>managed_start := ms, managed_end := pe, m_length := ml,
                    total_pages := ml div PAGE_SIZE, free_pages := ml div PAGE_SIZE,
                    indices := replicate MAX_BLOCK_POW (-1)\<rparr>)))"

definition buddy_aux_addr2index :: "u64 \<Rightarrow> buddy_system \<Rightarrow> int" where
  "buddy_aux_addr2index pa bs =
     (let d = sint (pa - managed_start bs)
      in if 0 \<le> d then d div 4096 else - (- d div 4096))"

definition buddy_aux_index2addr :: "int \<Rightarrow> buddy_system \<Rightarrow> u64" where
  "buddy_aux_index2addr index bs = managed_start bs + word_of_int index * PAGE_SIZE"

fun mark_loop :: "u8 \<Rightarrow> int \<Rightarrow> nat \<Rightarrow> buddy_system \<Rightarrow> buddy_system outcome" where
  "mark_loop u i 0 bs = Inr bs"
| "mark_loop u i (Suc n) bs = bindO (blk_upd i (\<lambda>b. b\<lparr>bused := u\<rparr>) bs) (mark_loop u (i + 1) n)"

definition buddy_set_used_index :: "int \<Rightarrow> buddy_system \<Rightarrow> buddy_system outcome" where
  "buddy_set_used_index index bs =
     bindO (blk_get index bs) (\<lambda>b. mark_loop BUDDY_BLOCK_USED index (2 ^ bpow b) bs)"

definition buddy_clear_used :: "int \<Rightarrow> buddy_system \<Rightarrow> buddy_system outcome" where
  "buddy_clear_used index bs =
     bindO (blk_get index bs) (\<lambda>b. mark_loop BUDDY_BLOCK_FREE index (2 ^ bpow b) bs)"

fun used_loop :: "u8 \<Rightarrow> int \<Rightarrow> nat \<Rightarrow> buddy_system \<Rightarrow> u8 outcome" where
  "used_loop u i 0 bs = Inr u"
| "used_loop u i (Suc n) bs =
     bindO (blk_get i bs) (\<lambda>b. guardO Panic (u = bused b) (used_loop u (i + 1) n bs))"

definition buddy_get_used :: "int \<Rightarrow> buddy_system \<Rightarrow> u8 outcome" where
  "buddy_get_used index bs =
     bindO (blk_get index bs) (\<lambda>b. used_loop (bused b) index (2 ^ bpow b) bs)"

text \<open>One block per set bit of the page count, greatest order first.\<close>

fun init_loop :: "nat \<Rightarrow> int \<Rightarrow> buddy_system \<Rightarrow> buddy_system outcome" where
  "init_loop 0 pos bs = Inr bs"
| "init_loop (Suc i) pos bs =
     (if total_pages bs AND POWER_OF_2 i \<noteq> 0
      then bindO (blk_upd pos (\<lambda>b. b\<lparr>bpow := i, bnext := -1\<rparr>) bs) (\<lambda>bs.
           bindO (idx_set i pos bs) (init_loop i (pos + 2 ^ i)))
      else init_loop i pos bs)"

definition buddy_init :: "u64 \<Rightarrow> u64 \<Rightarrow> buddy_system \<Rightarrow> buddy_system outcome" where
  "buddy_init ps pe bs =
     bindO (buddy_aux_data_init ps pe (bs\<lparr>bs_lock := spinlock_init ''buddy system''\<rparr>)) (\<lambda>bs.
     bindO (init_loop MAX_BLOCK_POW 0 bs) (\<lambda>bs.
       mark_loop BUDDY_BLOCK_FREE 0 (unat (total_pages bs)) bs))"

section \<open>Allocation\<close>

function scan_up :: "nat \<Rightarrow> buddy_system \<Rightarrow> nat outcome" where
  "scan_up i bs =
     (if i < MAX_BLOCK_POW
      then bindO (idx_get i bs) (\<lambda>h. if h \<noteq> -1 then Inr i else scan_up (i + 1) bs)
      else Inr i)"
  by pat_completeness auto
termination
  by (relation "measure (\<lambda>(i, bs). MAX_BLOCK_POW - i)") auto

declare scan_up.simps [simp del]

text \<open>Splitting the first block of order \<open>j\<close>.\<close>

definition split_at :: "nat \<Rightarrow> buddy_system \<Rightarrow> buddy_system outcome" where
  "split_at j bs =
     bindO (idx_get j bs) (\<lambda>p1.
     let p2 = p1 + 2 ^ (j - 1) in
     bindO (blk_get p1 bs) (\<lambda>b1.
     bindO (idx_set j (bnext b1) bs) (\<lambda>bs.
     bindO (blk_upd p1 (\<lambda>b. b\<lparr>bpow := j - 1\<rparr>) bs) (\<lambda>bs.
     bindO (blk_upd p2 (\<lambda>b. b\<lparr>bpow := j - 1\<rparr>) bs) (\<lambda>bs.
     bindO (blk_upd p1 (\<lambda>b. b\<lparr>bnext := p2\<rparr>) bs) (\<lambda>bs.
     bindO (blk_upd p2 (\<lambda>b. b\<lparr>bnext := -1\<rparr>) bs) (\<lambda>bs.
       idx_set (j - 1) p1 bs)))))))"

fun split_loop :: "nat \<Rightarrow> nat \<Rightarrow> buddy_system \<Rightarrow> buddy_system outcome" where
  "split_loop 0 pow bs = Inr bs"
| "split_loop (Suc j) pow bs =
     (if Suc j > pow then bindO (split_at (Suc j) bs) (split_loop j pow) else Inr bs)"

text \<open>
  When no block is found the source stores \<open>-1\<close> in \<open>ret\<close> and then goes on to
  the splitting loop from order \<open>MAX_BLOCK_POW\<close>, outside the index array.
\<close>

definition buddy_alloc_index :: "nat \<Rightarrow> buddy_system \<Rightarrow> (int \<times> buddy_system) outcome" where
  "buddy_alloc_index pow bs =
     bindO (idx_get pow bs) (\<lambda>h.
     bindO (if h \<noteq> -1
            then bindO (idx_set pow (-1) bs) (\<lambda>bs. Inr (h, bs))
            else bindO (scan_up (pow + 1) bs) (\<lambda>i.
                 bindO (split_loop i pow bs) (\<lambda>bs.
                 bindO (idx_get pow bs) (\<lambda>ret.
                 bindO (blk_get ret bs) (\<lambda>b.
                 bindO (idx_set pow (bnext b) bs) (\<lambda>bs. Inr (ret, bs)))))))
       (\<lambda>(ret, bs). bindO (buddy_set_used_index ret bs) (\<lambda>bs. Inr (ret, bs))))"

definition buddy_alloc :: "u8 \<Rightarrow> buddy_system \<times> machine \<Rightarrow> (u64 \<times> buddy_system \<times> machine) outcome" where
  "buddy_alloc pow = (\<lambda>(bs, m).
     bindO (spinlock_acquire (bs_lock bs) m) (\<lambda>(l, m).
     bindO (buddy_alloc_index (unat pow) (bs\<lparr>bs_lock := l\<rparr>)) (\<lambda>(index, bs).
     let (ret, bs) =
       (if index = -1 then (0, bs)
        else (buddy_aux_index2addr index bs, bs\<lparr>free_pages := free_pages bs - POWER_OF_2 (unat pow)\<rparr>))
     in bindO (spinlock_release (bs_lock bs) m) (\<lambda>(l, m). Inr (ret, bs\<lparr>bs_lock := l\<rparr>, m)))))"

section \<open>Freeing\<close>

definition buddy_aux_mergeable :: "int \<Rightarrow> int \<Rightarrow> nat \<Rightarrow> bool" where
  "buddy_aux_mergeable index1 index2 pow = (drop_bit pow index1 XOR drop_bit pow index2 = 1)"

text \<open>
  The inner \<open>while\<close> of \<open>buddy_free_index\<close>: the last entry before the freed block
  and its predecessor. More steps than there are descriptors means that the
  links form a cycle, on which the source would loop for ever.
\<close>

fun seek :: "nat \<Rightarrow> int \<Rightarrow> int \<Rightarrow> int \<Rightarrow> buddy_system \<Rightarrow> (int \<times> int) outcome" where
  "seek 0 fb pre it bs = Inl Hang"
| "seek (Suc n) fb pre it bs =
     bindO (blk_get it bs) (\<lambda>b.
       if bnext b \<noteq> -1 \<and> fb > bnext b then seek n fb it (bnext b) bs else Inr (pre, it))"

text \<open>
  The outer loop. Every iteration that continues has raised the order of the
  block by one, and an order above \<open>MAX_BLOCK_POW\<close> is outside the index array, so
  \<open>MAX_BLOCK_POW + 1\<close> iterations are the most the source can take.
\<close>

fun free_loop :: "nat \<Rightarrow> int \<Rightarrow> buddy_system \<Rightarrow> buddy_system outcome" where
  "free_loop 0 fb bs = Inl Hang"
| "free_loop (Suc n) fb bs =
     bindO (blk_get fb bs) (\<lambda>b.
     let pow = bpow b in
     bindO (idx_get pow bs) (\<lambda>l.
       if l = -1 then
         bindO (idx_set pow fb bs) (blk_upd fb (\<lambda>b. b\<lparr>bnext := -1\<rparr>))
       else if fb < l then
         (if buddy_aux_mergeable fb l pow then
            bindO (blk_get l bs) (\<lambda>lb.
            bindO (idx_set pow (bnext lb) bs) (\<lambda>bs.
            bindO (blk_upd fb (\<lambda>b. b\<lparr>bpow := pow + 1\<rparr>) bs) (free_loop n fb)))
          else
            bindO (idx_set pow fb bs) (blk_upd fb (\<lambda>b. b\<lparr>bnext := l\<rparr>)))
       else
         bindO (seek (Suc (length (buddies bs))) fb (-1) l bs) (\<lambda>(pre, it).
         bindO (blk_get it bs) (\<lambda>itb.
           if buddy_aux_mergeable it fb pow then
             bindO (if pre = -1 then idx_set pow (bnext itb) bs
                    else blk_upd pre (\<lambda>b. b\<lparr>bnext := bnext itb\<rparr>) bs) (\<lambda>bs.
             bindO (blk_upd it (\<lambda>b. b\<lparr>bpow := pow + 1\<rparr>) bs) (free_loop n it))
           else if bnext itb \<noteq> -1 \<and> buddy_aux_mergeable fb (bnext itb) pow then
             bindO (blk_get (bnext itb) bs) (\<lambda>nb.
             bindO (blk_upd it (\<lambda>b. b\<lparr>bnext := bnext nb\<rparr>) bs) (\<lambda>bs.
             bindO (blk_upd fb (\<lambda>b. b\<lparr>bpow := pow + 1\<rparr>) bs) (free_loop n fb)))
           else
             bindO (blk_upd fb (\<lambda>b. b\<lparr>bnext := bnext itb\<rparr>) bs)
               (blk_upd it (\<lambda>b. b\<lparr>bnext := fb\<rparr>))))))"

declare free_loop.simps [simp del]

definition buddy_free_index :: "int \<Rightarrow> buddy_system \<Rightarrow> (nat \<times> buddy_system) outcome" where
  "buddy_free_index index bs =
     bindO (blk_get index bs) (\<lambda>b.
     bindO (buddy_clear_used index bs) (\<lambda>bs.
     bindO (free_loop (MAX_BLOCK_POW + 1) index bs) (\<lambda>bs. Inr (bpow b, bs))))"

definition buddy_free :: "u64 \<Rightarrow> buddy_system \<times> machine \<Rightarrow> (buddy_system \<times> machine) outcome" where
  "buddy_free pa = (\<lambda>(bs, m).
     let index = buddy_aux_addr2index pa bs in
     bindO (spinlock_acquire (bs_lock bs) m) (\<lambda>(l, m).
     bindO (buddy_get_used index (bs\<lparr>bs_lock := l\<rparr>)) (\<lambda>u.
     guardO Panic (u \<noteq> BUDDY_BLOCK_FREE) (
     bindO (buddy_free_index index (bs\<lparr>bs_lock := l\<rparr>)) (\<lambda>(p, bs).
     let bs = bs\<lparr>free_pages := free_pages bs + POWER_OF_2 p\<rparr>
     in bindO (spinlock_release (bs_lock bs) m) (\<lambda>(l, m). Inr (bs\<lparr>bs_lock := l\<rparr>, m)))))))"

section \<open>Counters and additional data\<close>

definition buddy_get_free_pages_count :: "buddy_system \<Rightarrow> u64" where
  "buddy_get_free_pages_count bs = free_pages bs"

definition buddy_get_total_pages_count :: "buddy_system \<Rightarrow> u64" where
  "buddy_get_total_pages_count bs = total_pages bs"

fun adat_loop :: "u64 \<Rightarrow> int \<Rightarrow> nat \<Rightarrow> buddy_system \<Rightarrow> buddy_system outcome" where
  "adat_loop d i 0 bs = Inr bs"
| "adat_loop d i (Suc n) bs = bindO (blk_upd i (\<lambda>b. b\<lparr>adat := d\<rparr>) bs) (adat_loop d (i + 1) n)"

definition buddy_set_adat_index :: "int \<Rightarrow> u64 \<Rightarrow> buddy_system \<Rightarrow> buddy_system outcome" where
  "buddy_set_adat_index index d bs =
     bindO (blk_get index bs) (\<lambda>b. adat_loop d index (2 ^ bpow b) bs)"

definition buddy_get_adat_index :: "int \<Rightarrow> buddy_system \<Rightarrow> u64 outcome" where
  "buddy_get_adat_index index bs = bindO (blk_get index bs) (\<lambda>b. Inr (adat b))"

definition buddy_set_adat :: "u64 \<Rightarrow> u64 \<Rightarrow> buddy_system \<Rightarrow> buddy_system outcome" where
  "buddy_set_adat pa d bs = buddy_set_adat_index (buddy_aux_addr2index pa bs) d bs"

definition buddy_get_adat :: "u64 \<Rightarrow> buddy_system \<Rightarrow> u64 outcome" where
  "buddy_get_adat pa bs = buddy_get_adat_index (buddy_aux_addr2index pa bs) bs"

section \<open>pmem.c\<close>

definition pmem_init :: "u64 \<Rightarrow> u64 \<Rightarrow> buddy_system \<Rightarrow> buddy_system outcome" where
  "pmem_init ps pe bs = buddy_init ps pe bs"

text \<open>The \<open>int64_t\<close> order is converted to the \<open>uint8_t\<close> parameter of \<open>buddy_alloc\<close>.\<close>

definition pmem_alloc :: "u64 \<Rightarrow> buddy_system \<times> machine \<Rightarrow> (u64 \<times> buddy_system \<times> machine) outcome" where
  "pmem_alloc order s = buddy_alloc (ucast order) s"

definition pmem_free :: "u64 \<Rightarrow> buddy_system \<times> machine \<Rightarrow> (buddy_system \<times> machine) outcome" where
  "pmem_free pa s = buddy_free pa s"

definition pmem_set_adat :: "u64 \<Rightarrow> u64 \<Rightarrow> buddy_system \<Rightarrow> buddy_system outcome" where
  "pmem_set_adat pa d bs = buddy_set_adat pa d bs"

definition pmem_get_adat :: "u64 \<Rightarrow> buddy_system \<Rightarrow> u64 outcome" where
  "pmem_get_adat pa bs = buddy_get_adat pa bs"

end
