(* ===== verification/Buddy_Inv.thy ===== *)
theory Buddy_Inv
  imports Buddy
begin

text \<open>
  The safety of the page allocator of \<open>Buddy\<close>. The free lists are related to chains
  of block numbers, and an invariant says that free and allocated blocks are
  aligned, inside the managed memory and pairwise disjoint. Initialisation
  establishes it, allocation and freeing keep it, so no page is ever handed out
  twice; the interface \<open>page_allocator\<close> states this for the clients.
\<close>

section \<open>Chains of blocks\<close>

fun seg :: "buddy_block list \<Rightarrow> int \<Rightarrow> nat list \<Rightarrow> int \<Rightarrow> bool" where
  "seg B i [] k \<longleftrightarrow> i = k"
| "seg B i (x # xs) k \<longleftrightarrow> i = int x \<and> x < length B \<and> seg B (bnext (B ! x)) xs k"

lemma seg_append [simp]:
  "seg B i (xs @ ys) k \<longleftrightarrow> (\<exists>m. seg B i xs m \<and> seg B m ys k)"
  by (induction xs arbitrary: i) auto

lemma seg_cong:
  "length B' = length B \<Longrightarrow> (\<And>x. x \<in> set xs \<Longrightarrow> bnext (B' ! x) = bnext (B ! x)) \<Longrightarrow>
     seg B' i xs k \<longleftrightarrow> seg B i xs k"
  by (induction xs arbitrary: i) auto

lemma seg_bounds: "seg B i xs k \<Longrightarrow> x \<in> set xs \<Longrightarrow> x < length B"
  by (induction xs arbitrary: i) auto

lemma seg_end: "seg B i (xs @ [y]) k \<Longrightarrow> bnext (B ! y) = k"
  by (induction xs arbitrary: i) auto

lemma seg_head: "seg B i xs (-1) \<Longrightarrow> i = (case xs of [] \<Rightarrow> -1 | x # _ \<Rightarrow> int x)"
  by (cases xs) auto

section \<open>Blocks and the invariant\<close>

type_synonym block = "nat \<times> nat"

fun span :: "block \<Rightarrow> nat set" where
  "span (x, p) = {x..<x + 2 ^ p}"

definition block_ok :: "nat \<Rightarrow> buddy_block list \<Rightarrow> block \<Rightarrow> bool" where
  "block_ok N B b \<longleftrightarrow> (case b of (x, p) \<Rightarrow>
     p < MAX_BLOCK_POW \<and> 2 ^ p dvd x \<and> x + 2 ^ p \<le> N \<and> bpow (B ! x) = p)"

definition marked :: "u8 \<Rightarrow> buddy_block list \<Rightarrow> block \<Rightarrow> bool" where
  "marked u B b \<longleftrightarrow> (\<forall>i \<in> span b. bused (B ! i) = u)"

definition disjoint_blocks :: "block set \<Rightarrow> bool" where
  "disjoint_blocks S \<longleftrightarrow> (\<forall>b \<in> S. \<forall>c \<in> S. b \<noteq> c \<longrightarrow> span b \<inter> span c = {})"

definition core :: "nat \<Rightarrow> buddy_block list \<Rightarrow> block set \<Rightarrow> block set \<Rightarrow> bool" where
  "core N B Fr Al \<longleftrightarrow>
     N \<le> length B \<and> N < 2 ^ MAX_BLOCK_POW \<and>
     (\<forall>b \<in> Fr \<union> Al. block_ok N B b) \<and> disjoint_blocks (Fr \<union> Al) \<and>
     (\<forall>b \<in> Fr. marked BUDDY_BLOCK_FREE B b) \<and> (\<forall>b \<in> Al. marked BUDDY_BLOCK_USED B b)"

definition chains :: "int list \<Rightarrow> buddy_block list \<Rightarrow> (nat \<Rightarrow> nat list) \<Rightarrow> bool" where
  "chains I B F \<longleftrightarrow> length I = MAX_BLOCK_POW \<and>
     (\<forall>p < MAX_BLOCK_POW. seg B (I ! p) (F p) (-1) \<and> sorted_wrt (<) (F p))"

definition freeset :: "(nat \<Rightarrow> nat list) \<Rightarrow> block set" where
  "freeset F = {(x, p). p < MAX_BLOCK_POW \<and> x \<in> set (F p)}"

text \<open>The pages the allocator can hand out: those covered by orders below 12.\<close>

definition reach_pages :: "buddy_system \<Rightarrow> nat" where
  "reach_pages bs = unat (total_pages bs) mod 2 ^ MAX_BLOCK_POW"

definition buddy_inv :: "buddy_system \<Rightarrow> (nat \<Rightarrow> nat list) \<Rightarrow> block set \<Rightarrow> bool" where
  "buddy_inv bs F A \<longleftrightarrow>
     core (reach_pages bs) (buddies bs) (freeset F) A \<and> chains (indices bs) (buddies bs) F"

section \<open>Geometry\<close>

lemma span_nonempty: "x \<in> span (x, p)"
  by simp

lemma disjoint_start:
  "disjoint_blocks S \<Longrightarrow> (x, p) \<in> S \<Longrightarrow> (x, q) \<in> S \<Longrightarrow> p = q"
  unfolding disjoint_blocks_def using span_nonempty [of x] by (metis IntI Pair_inject empty_iff)

lemma disjoint_mono: "disjoint_blocks S \<Longrightarrow> T \<subseteq> S \<Longrightarrow> disjoint_blocks T"
  unfolding disjoint_blocks_def by blast

lemma core_mono: "core N B Fr Al \<Longrightarrow> Fr' \<subseteq> Fr \<Longrightarrow> Al' \<subseteq> Al \<Longrightarrow> core N B Fr' Al'"
  unfolding core_def by (meson Un_mono disjoint_mono subsetD)

lemma core_cong:
  assumes "length B' = length B"
    and "\<And>b. b \<in> Fr \<union> Al \<Longrightarrow> bpow (B' ! fst b) = bpow (B ! fst b)"
    and "\<And>b i. b \<in> Fr \<union> Al \<Longrightarrow> i \<in> span b \<Longrightarrow> bused (B' ! i) = bused (B ! i)"
  shows "core N B' Fr Al \<longleftrightarrow> core N B Fr Al"
proof -
  have "block_ok N B' b \<longleftrightarrow> block_ok N B b" if "b \<in> Fr \<union> Al" for b
    using assms(2) [OF that] by (cases b) (auto simp: block_ok_def)
  moreover have "marked u B' b \<longleftrightarrow> marked u B b" if "b \<in> Fr \<union> Al" for u b
    using assms(3) [OF that] by (auto simp: marked_def)
  ultimately show ?thesis using assms(1) unfolding core_def by auto
qed

lemma xor_one_iff: "k XOR l = 1 \<longleftrightarrow> l = (if even k then k + 1 else k - 1)" for k l :: int
proof -
  have "k XOR l = 1 \<longleftrightarrow> l = k XOR 1"
    by (metis xor.left_commute xor.right_neutral xor_self_eq)
  also have "k XOR 1 = (if even k then k + 1 else k - 1)"
    by (simp add: xor_one_eq)
  finally show ?thesis by simp
qed

lemma mergeable_iff:
  assumes "2 ^ q dvd a" "2 ^ q dvd b" "a < b"
  shows "buddy_aux_mergeable (int a) (int b) q \<longleftrightarrow> b = a + 2 ^ q \<and> 2 ^ Suc q dvd a"
    and "buddy_aux_mergeable (int b) (int a) q \<longleftrightarrow> b = a + 2 ^ q \<and> 2 ^ Suc q dvd a"
proof -
  obtain k l where k: "a = 2 ^ q * k" and l: "b = 2 ^ q * l" using assms by (auto elim!: dvdE)
  then have kl: "k < l" using assms(3) by simp
  have da: "drop_bit q (int a) = int k" and db: "drop_bit q (int b) = int l"
    by (simp_all add: k l drop_bit_eq_div)
  have "2 ^ Suc q dvd a \<longleftrightarrow> even k" by (simp add: k)
  moreover have "b = a + 2 ^ q \<longleftrightarrow> l = k + 1"
    using k l by (metis add_mult_distrib2 mult.right_neutral mult_cancel1 power_eq_0_iff zero_neq_numeral)
  ultimately show "buddy_aux_mergeable (int a) (int b) q \<longleftrightarrow> b = a + 2 ^ q \<and> 2 ^ Suc q dvd a"
    using kl by (auto simp: buddy_aux_mergeable_def da db xor_one_iff)
  then show "buddy_aux_mergeable (int b) (int a) q \<longleftrightarrow> b = a + 2 ^ q \<and> 2 ^ Suc q dvd a"
    by (simp add: buddy_aux_mergeable_def xor.commute)
qed


lemma core_block_ok: "core N B Fr Al \<Longrightarrow> b \<in> Fr \<union> Al \<Longrightarrow> block_ok N B b"
  by (simp add: core_def)

lemma block_ok_pow:
  "block_ok N B b \<Longrightarrow> bpow (B' ! fst b) = bpow (B ! fst b) \<Longrightarrow> block_ok N B' b"
  by (cases b) (simp add: block_ok_def)

lemma core_exchange:
  assumes c: "core N B (X \<union> Fr) Al" and new: "X \<inter> (Fr \<union> Al) = {}"
    and sub: "\<Union> (span ` Y) \<subseteq> \<Union> (span ` X)" and dY: "disjoint_blocks Y"
    and ok: "\<And>b. b \<in> Y \<Longrightarrow> block_ok N B' b"
    and len: "length B' = length B" and used: "\<And>i. bused (B' ! i) = bused (B ! i)"
    and pow: "\<And>b. b \<in> Fr \<union> Al \<Longrightarrow> bpow (B' ! fst b) = bpow (B ! fst b)"
  shows "core N B' (Y \<union> Fr) Al"
proof -
  have d: "disjoint_blocks (X \<union> Fr \<union> Al)" using c by (simp add: core_def)
  have yf: "span b \<inter> span e = {}" if "b \<in> Y" "e \<in> Fr \<union> Al" for b e
  proof -
    have "span x \<inter> span e = {}" if "x \<in> X" for x
      using d that \<open>e \<in> Fr \<union> Al\<close> new unfolding disjoint_blocks_def by (metis IntI UnCI UnE empty_iff)
    moreover have "span b \<subseteq> \<Union> (span ` X)" using sub that by blast
    ultimately show ?thesis by blast
  qed
  have "disjoint_blocks (Y \<union> Fr \<union> Al)"
    unfolding disjoint_blocks_def
  proof (intro ballI impI)
    fix b e assume b: "b \<in> Y \<union> Fr \<union> Al" and e: "e \<in> Y \<union> Fr \<union> Al" and ne: "b \<noteq> e"
    consider "b \<in> Y" "e \<in> Y" | "b \<in> Y" "e \<in> Fr \<union> Al" | "b \<in> Fr \<union> Al" "e \<in> Y" | "b \<in> Fr \<union> Al" "e \<in> Fr \<union> Al"
      using b e by blast
    then show "span b \<inter> span e = {}"
    proof cases
      case 1 then show ?thesis using dY ne by (simp add: disjoint_blocks_def)
    next
      case 2 then show ?thesis by (rule yf)
    next
      case 3 then show ?thesis using yf [of e b] by blast
    next
      case 4 then show ?thesis using d ne by (simp add: disjoint_blocks_def)
    qed
  qed
  moreover have "block_ok N B' b" if "b \<in> Fr \<union> Al" for b
    using core_block_ok [OF c, of b] pow [OF that] that by (auto intro: block_ok_pow)
  moreover have "marked u B' b \<longleftrightarrow> marked u B b" for u b by (simp add: marked_def used)
  moreover have "marked BUDDY_BLOCK_FREE B b" if "b \<in> Y" for b
  proof -
    have "\<forall>x \<in> X. marked BUDDY_BLOCK_FREE B x" using c by (simp add: core_def)
    then show ?thesis using sub that unfolding marked_def by blast
  qed
  ultimately show ?thesis using c ok len by (auto simp: core_def)
qed

lemma core_ok: "core N B Fr Al \<Longrightarrow> (x, p) \<in> Fr \<union> Al \<Longrightarrow>
    p < MAX_BLOCK_POW \<and> 2 ^ p dvd x \<and> x + 2 ^ p \<le> N \<and> bpow (B ! x) = p \<and> x < length B"
proof -
  assume c: "core N B Fr Al" and x: "(x, p) \<in> Fr \<union> Al"
  have "block_ok N B (x, p)" using c x by (rule core_block_ok)
  moreover have "N \<le> length B" using c by (simp add: core_def)
  moreover have "0 < (2 :: nat) ^ p" by simp
  ultimately show ?thesis unfolding block_ok_def prod.case by linarith
qed

lemma upd_bpow [simp]:
  "bused (B[a := (B ! a)\<lparr>bpow := v\<rparr>] ! i) = bused (B ! i)"
  "bnext (B[a := (B ! a)\<lparr>bpow := v\<rparr>] ! i) = bnext (B ! i)"
  by (cases "a < length B"; cases "i = a"; simp add: list_update_beyond)+

lemma upd_bnext [simp]:
  "bused (B[a := (B ! a)\<lparr>bnext := n\<rparr>] ! i) = bused (B ! i)"
  "bpow (B[a := (B ! a)\<lparr>bnext := n\<rparr>] ! i) = bpow (B ! i)"
  by (cases "a < length B"; cases "i = a"; simp add: list_update_beyond)+

lemma core_starts: "core N B Fr Al \<Longrightarrow> (x, p) \<in> Fr \<union> Al \<Longrightarrow> (x, q) \<in> Fr \<union> Al \<Longrightarrow> p = q"
  unfolding core_def by (meson disjoint_start)

lemma span_parts: "span (a, Suc q) = span (a, q) \<union> span (a + 2 ^ q, q)" 
  by auto

text \<open>Two free halves become the block of the next order, and conversely.\<close>

lemma core_merge:
  assumes c: "core N B (insert (a, q) (insert (a + 2 ^ q, q) R)) Al"
    and dv: "2 ^ Suc q dvd a" and new: "(a, q) \<notin> R" "(a + 2 ^ q, q) \<notin> R" "(a, q) \<notin> Al" "(a + 2 ^ q, q) \<notin> Al"
  shows "Suc q < MAX_BLOCK_POW"
    and "core N (B[a := (B ! a)\<lparr>bpow := Suc q\<rparr>]) (insert (a, Suc q) R) Al"
proof -
  have q: "q < MAX_BLOCK_POW" "a + 2 ^ q + 2 ^ q \<le> N" "a < length B" and N: "N < 2 ^ MAX_BLOCK_POW"
    using core_ok [OF c, of "a + 2 ^ q" q] core_ok [OF c, of a q] c by (auto simp: core_def)
  have "(2 :: nat) ^ Suc q < 2 ^ MAX_BLOCK_POW" using q N by simp
  then show s: "Suc q < MAX_BLOCK_POW" by (rule power_less_imp_less_exp [rotated]) simp
  have "core N (B[a := (B ! a)\<lparr>bpow := Suc q\<rparr>]) ({(a, Suc q)} \<union> R) Al"
  proof (rule core_exchange [where X = "{(a, q), (a + 2 ^ q, q)}"])
    show "core N B ({(a, q), (a + 2 ^ q, q)} \<union> R) Al" using c by simp
    show "{(a, q), (a + 2 ^ q, q)} \<inter> (R \<union> Al) = {}" using new by simp
    show "\<Union> (span ` {(a, Suc q)}) \<subseteq> \<Union> (span ` {(a, q), (a + 2 ^ q, q)})"
      using span_parts by simp
    show "disjoint_blocks {(a, Suc q)}" by (simp add: disjoint_blocks_def)
    show "bused (B[a := (B ! a)\<lparr>bpow := Suc q\<rparr>] ! i) = bused (B ! i)" for i
      by simp
    show "block_ok N (B[a := (B ! a)\<lparr>bpow := Suc q\<rparr>]) b" if "b \<in> {(a, Suc q)}" for b
      using that q s dv by (simp add: block_ok_def)
    show "bpow (B[a := (B ! a)\<lparr>bpow := Suc q\<rparr>] ! fst b) = bpow (B ! fst b)" if "b \<in> R \<union> Al" for b
    proof -
      have "fst b \<noteq> a"
        using that new core_starts [OF c, of a q "snd b"] by (cases b) auto
      then show ?thesis by simp
    qed
  qed simp
  then show "core N (B[a := (B ! a)\<lparr>bpow := Suc q\<rparr>]) (insert (a, Suc q) R) Al" by simp
qed

lemma core_split:
  assumes c: "core N B (insert (a, Suc q) R) Al" and new: "(a, Suc q) \<notin> R" "(a, Suc q) \<notin> Al"
    and len: "length B' = length B" and used: "\<And>i. bused (B' ! i) = bused (B ! i)"
    and pow: "bpow (B' ! a) = q" "bpow (B' ! (a + 2 ^ q)) = q"
      "\<And>i. i \<noteq> a \<Longrightarrow> i \<noteq> a + 2 ^ q \<Longrightarrow> bpow (B' ! i) = bpow (B ! i)"
  shows "core N B' (insert (a, q) (insert (a + 2 ^ q, q) R)) Al"
proof -
  have a: "Suc q < MAX_BLOCK_POW" "2 ^ Suc q dvd a" "a + 2 ^ Suc q \<le> N"
    using core_ok [OF c, of a "Suc q"] by auto
  have "2 ^ q dvd a" using a(2) by (rule power_le_dvd) simp
  have "core N B' ({(a, q), (a + 2 ^ q, q)} \<union> R) Al"
  proof (rule core_exchange [where X = "{(a, Suc q)}" and B = B])
    show "core N B ({(a, Suc q)} \<union> R) Al" using c by simp
    show "{(a, Suc q)} \<inter> (R \<union> Al) = {}" using new by simp
    show "\<Union> (span ` {(a, q), (a + 2 ^ q, q)}) \<subseteq> \<Union> (span ` {(a, Suc q)})"
      using span_parts by simp
    show "disjoint_blocks {(a, q), (a + 2 ^ q, q)}" by (auto simp: disjoint_blocks_def)
    show "block_ok N B' b" if "b \<in> {(a, q), (a + 2 ^ q, q)}" for b
      using that a pow \<open>2 ^ q dvd a\<close> by (auto simp: block_ok_def)
    show "bpow (B' ! fst b) = bpow (B ! fst b)" if b: "b \<in> R \<union> Al" for b
    proof (rule pow(3))
      have "b \<noteq> (a, Suc q)" using b new by auto
      then have "span b \<inter> span (a, Suc q) = {}"
        using c b unfolding core_def disjoint_blocks_def by (metis UnCI UnE insertCI)
      moreover have "fst b \<in> span b" by (cases b) simp
      ultimately show "fst b \<noteq> a" "fst b \<noteq> a + 2 ^ q" by auto
    qed
  qed (use len used in simp_all)
  then show ?thesis by simp
qed


section \<open>Operations on descriptors in range\<close>

lemma blk_get_ok [simp]: "x < length (buddies bs) \<Longrightarrow> blk_get (int x) bs = Inr (buddies bs ! x)"
  by (simp add: blk_get_def)

lemma blk_upd_ok [simp]:
  "x < length (buddies bs) \<Longrightarrow>
     blk_upd (int x) f bs = Inr (bs\<lparr>buddies := (buddies bs)[x := f (buddies bs ! x)]\<rparr>)"
  by (simp add: blk_upd_def)

lemma idx_get_ok [simp]: "p < length (indices bs) \<Longrightarrow> idx_get p bs = Inr (indices bs ! p)"
  by (simp add: idx_get_def)

lemma idx_set_ok [simp]:
  "p < length (indices bs) \<Longrightarrow> idx_set p v bs = Inr (bs\<lparr>indices := (indices bs)[p := v]\<rparr>)"
  by (simp add: idx_set_def)

definition inv_at :: "nat \<Rightarrow> buddy_system \<Rightarrow> (nat \<Rightarrow> nat list) \<Rightarrow> block set \<Rightarrow> block set \<Rightarrow> bool" where
  "inv_at N bs F X A \<longleftrightarrow> core N (buddies bs) (X \<union> freeset F) A \<and> chains (indices bs) (buddies bs) F"

definition same_rest :: "buddy_system \<Rightarrow> buddy_system \<Rightarrow> bool" where
  "same_rest bs bs' \<longleftrightarrow>
     (\<exists>B I. bs' = bs\<lparr>buddies := B, indices := I\<rparr> \<and> length B = length (buddies bs))"

lemma same_rest_refl [simp]: "same_rest bs bs"
  unfolding same_rest_def by (intro exI [of _ "buddies bs"] exI [of _ "indices bs"]) simp

lemma same_rest_set [simp]:
  "length B = length (buddies bs) \<Longrightarrow> same_rest bs (bs\<lparr>buddies := B\<rparr>)"
  "same_rest bs (bs\<lparr>indices := I\<rparr>)"
  "length B = length (buddies bs) \<Longrightarrow> same_rest bs (bs\<lparr>buddies := B, indices := I\<rparr>)"
  "length B = length (buddies bs) \<Longrightarrow> same_rest bs (bs\<lparr>indices := I, buddies := B\<rparr>)"
  unfolding same_rest_def
  by (intro exI [of _ B] exI [of _ "indices bs"], simp,
      intro exI [of _ "buddies bs"] exI [of _ I], simp, blast, intro exI [of _ B] exI [of _ I], simp)

lemma same_rest_trans:
  assumes "same_rest a b" "same_rest b c"
  shows "same_rest a c"
proof -
  obtain B I B' I' where "b = a\<lparr>buddies := B, indices := I\<rparr>" "length B = length (buddies a)"
    and "c = b\<lparr>buddies := B', indices := I'\<rparr>" "length B' = length (buddies b)"
    using assms by (auto simp: same_rest_def)
  then have "c = a\<lparr>buddies := B', indices := I'\<rparr>" "length B' = length (buddies a)" by simp_all
  then show ?thesis by (simp del: buddy_system.update_convs)
qed

lemma chains_length: "chains I B F \<Longrightarrow> length I = MAX_BLOCK_POW"
  by (simp add: chains_def)

lemma chains_at: "chains I B F \<Longrightarrow> p < MAX_BLOCK_POW \<Longrightarrow> seg B (I ! p) (F p) (-1) \<and> sorted_wrt (<) (F p)"
  by (simp add: chains_def)

lemma chains_set:
  assumes "chains I B F" "length B' = length B" "q < MAX_BLOCK_POW"
    and "seg B' i xs (-1)" "sorted_wrt (<) xs"
    and "\<And>p x. p < MAX_BLOCK_POW \<Longrightarrow> p \<noteq> q \<Longrightarrow> x \<in> set (F p) \<Longrightarrow> bnext (B' ! x) = bnext (B ! x)"
  shows "chains (I[q := i]) B' (F(q := xs))"
  unfolding chains_def
proof (intro conjI allI impI)
  show "length (I[q := i]) = MAX_BLOCK_POW" using assms(1) by (simp add: chains_def)
  fix p assume p: "p < MAX_BLOCK_POW"
  show "seg B' (I[q := i] ! p) ((F(q := xs)) p) (-1)"
  proof (cases "p = q")
    case True
    then show ?thesis using assms(1,3,4) by (simp add: chains_def)
  next
    case False
    then have "seg B' (I ! p) (F p) (-1)"
      using seg_cong [of B' B "F p"] assms(1,2,6) p by (simp add: chains_def)
    with False show ?thesis by simp
  qed
  show "sorted_wrt (<) ((F(q := xs)) p)" using assms(1,5) p by (simp add: chains_def)
qed

lemma freeset_upd:
  "q < MAX_BLOCK_POW \<Longrightarrow> freeset (F(q := xs)) = {(x, p). p < MAX_BLOCK_POW \<and> p \<noteq> q \<and> x \<in> set (F p)} \<union> (\<lambda>x. (x, q)) ` set xs"
  by (auto simp: freeset_def)

lemma freeset_in: "q < MAX_BLOCK_POW \<Longrightarrow> x \<in> set (F q) \<Longrightarrow> (x, q) \<in> freeset F"
  by (simp add: freeset_def)

section \<open>Splitting\<close>

lemma split_at_ok:
  assumes inv: "inv_at N bs F {} A" and q: "Suc q < MAX_BLOCK_POW"
    and hd: "F (Suc q) = a # rest" and nil: "F q = []" and new: "(a, Suc q) \<notin> A"
  shows "\<exists>bs'. split_at (Suc q) bs = Inr bs' \<and> same_rest bs bs' \<and>
           inv_at N bs' (F(Suc q := rest, q := [a, a + 2 ^ q])) {} A"
proof -
  define B where "B = buddies bs"
  define I where "I = indices bs"
  have core: "core N B (freeset F) A" and li: "chains I B F"
    using inv by (simp_all add: inv_at_def B_def I_def)
  have aF: "(a, Suc q) \<in> freeset F" using q hd by (simp add: freeset_in)
  have ok: "a + 2 ^ Suc q \<le> N" "N \<le> length B"
    using core_ok [OF core, of a "Suc q"] aF core by (auto simp: core_def)
  have "0 < (2 :: nat) ^ q" by simp
  then have ab: "a < length B" "a + 2 ^ q < length B" "a \<noteq> a + 2 ^ q" using ok unfolding power_Suc by linarith+
  have lenI: "length I = MAX_BLOCK_POW" using li by (rule chains_length)
  have chain: "seg B (I ! Suc q) (a # rest) (-1)" "sorted_wrt (<) (a # rest)"
    using chains_at [OF li q] hd by auto
  define B4 where "B4 = B[a := (B ! a)\<lparr>bpow := q, bnext := int (a + 2 ^ q)\<rparr>,
                          a + 2 ^ q := (B ! (a + 2 ^ q))\<lparr>bpow := q, bnext := -1\<rparr>]"
  define I4 where "I4 = I[Suc q := bnext (B ! a), q := int a]"
  have "split_at (Suc q) bs = Inr (bs\<lparr>buddies := B4, indices := I4\<rparr>)"
  proof -
    have "idx_get (Suc q) bs = Inr (int a)" using chain(1) lenI q by (simp add: I_def)
    then show ?thesis using ab lenI q blk_upd_ok [of "a + 2 ^ q"]
      by (simp add: split_at_def Let_def B4_def I4_def B_def I_def list_update_swap [of a])
  qed
  moreover have other: "x \<noteq> a \<and> x \<noteq> a + 2 ^ q" if "(x, p) \<in> freeset F" "(x, p) \<noteq> (a, Suc q)" for x p
  proof -
    have "span (x, p) \<inter> span (a, Suc q) = {}"
      using core that aF unfolding core_def disjoint_blocks_def by blast
    then show ?thesis by auto
  qed
  have "chains I4 B4 (F(Suc q := rest, q := [a, a + 2 ^ q]))"
    unfolding I4_def
  proof (rule chains_set)
    show "chains (I[Suc q := bnext (B ! a)]) B (F(Suc q := rest))"
      using chain q by (intro chains_set [OF li]) auto
    show "seg B4 (int a) [a, a + 2 ^ q] (-1)" "length B4 = length B" using ab by (simp_all add: B4_def)
    fix p x assume p: "p < MAX_BLOCK_POW" "p \<noteq> q" "x \<in> set ((F(Suc q := rest)) p)"
    then have "(x, p) \<in> freeset F" "(x, p) \<noteq> (a, Suc q)"
      using hd chain(2) by (auto simp: freeset_def split: if_splits)
    then have "x \<noteq> a" "x \<noteq> a + 2 ^ q" using other by blast+
    then show "bnext (B4 ! x) = bnext (B ! x)" by (simp only: B4_def nth_list_update_neq not_sym)
  qed (use q in auto)
  moreover have "core N B4 (freeset (F(Suc q := rest, q := [a, a + 2 ^ q]))) A"
  proof -
    define R where "R = freeset (F(Suc q := rest))"
    have "freeset F = insert (a, Suc q) R"
      using hd q by (auto simp: R_def freeset_def split: if_splits)
    moreover have "(a, Suc q) \<notin> R" using chain(2) by (auto simp: R_def freeset_def)
    moreover have "freeset (F(Suc q := rest, q := [a, a + 2 ^ q])) = insert (a, q) (insert (a + 2 ^ q, q) R)"
      using q nil by (auto simp: R_def freeset_def split: if_splits)
    moreover have "core N B4 (insert (a, q) (insert (a + 2 ^ q, q) R)) A"
    proof (rule core_split)
      show "core N B (insert (a, Suc q) R) A" "(a, Suc q) \<notin> R" using calculation core by simp_all
      show "bused (B4 ! i) = bused (B ! i)" for i
        using ab unfolding B4_def nth_list_update_eq nth_list_update by (simp add: nth_list_update)
    qed (use new ab in \<open>simp_all add: B4_def\<close>)
    ultimately show ?thesis by simp
  qed
  ultimately show ?thesis
    by (intro exI [of _ "bs\<lparr>buddies := B4, indices := I4\<rparr>"])
       (simp add: inv_at_def, simp add: B4_def B_def)
qed

lemma core_disj: "core N B Fr Al \<Longrightarrow> b \<in> Fr \<Longrightarrow> b \<notin> Al"
proof
  assume c: "core N B Fr Al" and b: "b \<in> Fr" "b \<in> Al"
  have m: "marked BUDDY_BLOCK_FREE B b" "marked BUDDY_BLOCK_USED B b" using c b by (simp_all add: core_def)
  have "fst b \<in> span b" by (cases b) simp
  with m have "bused (B ! fst b) = BUDDY_BLOCK_FREE" "bused (B ! fst b) = BUDDY_BLOCK_USED"
    unfolding marked_def by blast+
  then show False by (simp add: BUDDY_BLOCK_FREE_def BUDDY_BLOCK_USED_def)
qed

section \<open>Merging\<close>

text \<open>
  What merging means, independently of the lists: the block with which \<open>b\<close> forms an
  aligned block of the next order, that larger block, and the set of free blocks reached
  when \<open>b\<close> joins \<open>S\<close> and keeps absorbing its buddy as long as this is free.
\<close>

fun buddy_of :: "block \<Rightarrow> block" where
  "buddy_of (x, k) = (if 2 ^ Suc k dvd x then x + 2 ^ k else x - 2 ^ k, k)"

fun parent_of :: "block \<Rightarrow> block" where
  "parent_of (x, k) = (if 2 ^ Suc k dvd x then x else x - 2 ^ k, Suc k)"

inductive absorbs :: "block set \<Rightarrow> block \<Rightarrow> block set \<Rightarrow> bool" where
  alone: "buddy_of b \<notin> S \<Longrightarrow> absorbs S b (insert b S)"
| joined: "buddy_of b \<in> S \<Longrightarrow> absorbs (S - {buddy_of b}) (parent_of b) S' \<Longrightarrow> absorbs S b S'"

inductive_cases absorbs_cases: "absorbs S b S'"

definition merged :: "block set \<Rightarrow> bool" where
  "merged S \<longleftrightarrow> (\<forall>b \<in> S. buddy_of b \<notin> S)"

definition aligned :: "block \<Rightarrow> bool" where
  "aligned b \<longleftrightarrow> 2 ^ snd b dvd fst b"

lemma aligned_even_odd:
  assumes "aligned (x, k)" "\<not> 2 ^ Suc k dvd x"
  shows "2 ^ k \<le> x" "2 ^ Suc k dvd x - 2 ^ k"
proof -
  obtain j where j: "x = 2 ^ k * j" using assms(1) by (auto simp: aligned_def)
  have "odd j" using assms(2) j by auto
  then obtain i where "j = 2 * i + 1" by (rule oddE)
  then show "2 ^ k \<le> x" "2 ^ Suc k dvd x - 2 ^ k" using j by (simp_all add: algebra_simps)
qed

lemma buddy_of_aligned: "aligned b \<Longrightarrow> aligned (buddy_of b)" "aligned b \<Longrightarrow> aligned (parent_of b)"
proof -
  fix b :: block
  obtain x k where b: "b = (x, k)" by (cases b)
  assume al: "aligned b"
  have half: "2 ^ k dvd z" if "2 ^ Suc k dvd z" for z :: nat using that by (auto elim: dvd_mult_right)
  show "aligned (buddy_of b)"
    using al half [of x] half [of "x - 2 ^ k"] aligned_even_odd [of x k] by (auto simp: b aligned_def)
  show "aligned (parent_of b)"
    using al aligned_even_odd [of x k] by (auto simp: b aligned_def)
qed

lemma buddy_of_buddy: "aligned b \<Longrightarrow> buddy_of (buddy_of b) = b"
proof (cases b)
  fix x k assume b: "aligned b" "b = (x, k)"
  show ?thesis
  proof (cases "2 ^ Suc k dvd x")
    case True
    then have "\<not> 2 ^ Suc k dvd x + 2 ^ k"
      by (metis dvd_add_right_iff nat_dvd_not_less power_strict_increasing_iff lessI one_less_numeral_iff
          semiring_norm(76) zero_less_numeral zero_less_power)
    then show ?thesis using True b by simp
  next
    case False
    then show ?thesis using aligned_even_odd [of x k] b by simp
  qed
qed

lemma buddy_of_neq: "buddy_of b \<noteq> b"
proof (cases b)
  fix x k assume b: "b = (x, k)"
  have "x = 0" if "x - 2 ^ k = x" using that by (metis diff_less neq0_conv zero_less_numeral zero_less_power less_irrefl)
  then show ?thesis using b by auto
qed

text \<open>Merging leaves no two free buddies side by side, and the block is part of a free one.\<close>

lemma absorbs_merged:
  assumes "absorbs S b S'" "merged S" "aligned b" "\<forall>c \<in> S. aligned c"
  shows "merged S'"
  using assms
proof (induction rule: absorbs.induct)
  case (alone b S)
  have "buddy_of c \<noteq> b" if "c \<in> S" for c
    using alone that by (metis buddy_of_buddy)
  then show ?case using alone buddy_of_neq by (auto simp: merged_def)
next
  case (joined b S S')
  then show ?case by (auto simp: merged_def buddy_of_aligned)
qed

lemma span_parent: "aligned b \<Longrightarrow> span b \<subseteq> span (parent_of b)"
  by (cases b) (auto dest: aligned_even_odd)

lemma absorbs_inside:
  assumes "absorbs S b S'" "aligned b" "\<forall>c \<in> S. aligned c"
  shows "\<exists>c \<in> S'. span b \<subseteq> span c \<and> buddy_of c \<notin> S'"
  using assms
proof (induction rule: absorbs.induct)
  case (alone b S)
  then show ?case using buddy_of_neq [of b] by (intro bexI [of _ b]) auto
next
  case (joined b S S')
  then obtain c where "c \<in> S'" "span (parent_of b) \<subseteq> span c" "buddy_of c \<notin> S'"
    using buddy_of_aligned(2) by blast
  then show ?case using span_parent [of b] joined.prems(1) by blast
qed

text \<open>A list that loses blocks, or keeps a single one, has no two buddies.\<close>

lemma merged_upd:
  assumes "merged (freeset F)" "set xs \<subseteq> set (F q) \<or> (\<exists>x. set xs \<subseteq> {x})"
  shows "merged (freeset (F(q := xs)))"
proof -
  have "buddy_of (x, k) \<notin> freeset (F(q := xs))" if "(x, k) \<in> freeset (F(q := xs))" for x k
  proof (cases "k = q")
    case False
    then have "(x, k) \<in> freeset F" using that by (simp add: freeset_def)
    then have "buddy_of (x, k) \<notin> freeset F" using assms(1) unfolding merged_def by blast
    then show ?thesis using False by (simp add: freeset_def)
  next
    case True
    from assms(2) show ?thesis
    proof
      assume sub: "set xs \<subseteq> set (F q)"
      then have "(x, k) \<in> freeset F" using that True by (auto simp: freeset_def)
      then have "buddy_of (x, k) \<notin> freeset F" using assms(1) unfolding merged_def by blast
      then show ?thesis using True sub by (auto simp: freeset_def)
    next
      assume "\<exists>x. set xs \<subseteq> {x}"
      then have "y = x" if "(y, k) \<in> freeset (F(q := xs))" for y
        using that \<open>(x, k) \<in> freeset (F(q := xs))\<close> True by (auto simp: freeset_def)
      then show ?thesis using buddy_of_neq [of "(x, k)"] by (metis buddy_of.simps)
    qed
  qed
  then show ?thesis unfolding merged_def by auto
qed

text \<open>
  When no two buddies of \<open>S\<close> are side by side, every aligned block of pages that \<open>S\<close>
  covers lies inside one block of \<open>S\<close>; so the blocks are determined by the pages.
\<close>

lemma aligned_nested:
  assumes "aligned (x, j)" "aligned (y, k)" "j \<le> k" "z \<in> span (x, j)" "z \<in> span (y, k)"
  shows "span (x, j) \<subseteq> span (y, k)"
proof -
  obtain u where u: "x = 2 ^ j * u" using assms(1) by (auto simp: aligned_def)
  have "2 ^ j dvd y" using assms(2,3) dvd_trans [OF le_imp_power_dvd] by (simp add: aligned_def)
  then obtain v where "y = 2 ^ j * v" by (rule dvdE)
  moreover have "2 ^ k = 2 ^ j * (2 ^ (k - j) :: nat)" using assms(3) by (simp flip: power_add)
  ultimately have v: "y = 2 ^ j * v" "2 ^ k = 2 ^ j * (2 ^ (k - j) :: nat)" .
  have "2 ^ j * u < 2 ^ j * (v + 2 ^ (k - j))" "2 ^ j * v < 2 ^ j * (u + 1)"
    using assms(4,5) u v by (auto simp: algebra_simps)
  then have "u < v + 2 ^ (k - j)" "v < u + 1" unfolding nat_mult_less_cancel_disj by blast+
  then have "v \<le> u" "u + 1 \<le> v + 2 ^ (k - j)" by simp_all
  then have "2 ^ j * v \<le> 2 ^ j * u" "2 ^ j * (u + 1) \<le> 2 ^ j * (v + 2 ^ (k - j))" by (simp_all only: mult_le_mono2)
  then have "y \<le> x" "x + 2 ^ j \<le> y + 2 ^ k" using u v by (simp_all add: algebra_simps)
  then show ?thesis by auto
qed

lemma merged_maximal:
  assumes "merged S" "\<forall>c \<in> S. aligned c" "aligned (x, k)" "span (x, k) \<subseteq> \<Union> (span ` S)"
  shows "\<exists>c \<in> S. k \<le> snd c \<and> span (x, k) \<subseteq> span c"
  using assms(3,4)
proof (induction k arbitrary: x)
  case 0
  then show ?case by auto
next
  case (Suc k)
  have dv: "2 ^ Suc k dvd x" using Suc.prems(1) by (simp add: aligned_def)
  then have al: "aligned (x, k)" "aligned (x + 2 ^ k, k)"
    by (auto simp: aligned_def elim: dvd_mult_right)
  have sub: "span (x, k) \<subseteq> span (x, Suc k)" "span (x + 2 ^ k, k) \<subseteq> span (x, Suc k)" by auto
  obtain c where c: "c \<in> S" "k \<le> snd c" "span (x, k) \<subseteq> span c"
    using Suc.IH [OF al(1)] sub(1) Suc.prems(2) by blast
  obtain d where d: "d \<in> S" "k \<le> snd d" "span (x + 2 ^ k, k) \<subseteq> span d"
    using Suc.IH [OF al(2)] sub(2) Suc.prems(2) by blast
  have in1: "x \<in> span (x, k)" "x \<in> span (x, Suc k)" "x + 2 ^ k \<in> span (x + 2 ^ k, k)"
    "x + 2 ^ k \<in> span (x, Suc k)" by auto
  have big: "\<exists>c \<in> S. Suc k \<le> snd c \<and> span (x, Suc k) \<subseteq> span c"
    if "e \<in> S" "Suc k \<le> snd e" "z \<in> span e" "z \<in> span (x, Suc k)" for e z
    using aligned_nested [OF Suc.prems(1), of "fst e" "snd e" z] that assms(2) by auto
  have same: "e = (y, k)" if "e \<in> S" "snd e = k" "span (y, k) \<subseteq> span e" for e y
    using that by (cases e) auto
  show ?case
  proof (cases "snd c = k \<and> snd d = k")
    case True
    then have "c = (x, k)" "d = (x + 2 ^ k, k)" using same c d by blast+
    then have "buddy_of c = d" using dv by simp
    then show ?thesis using assms(1) c(1) d(1) unfolding merged_def by blast
  next
    case False
    then show ?thesis using big [of c x] big [of d "x + 2 ^ k"] c d in1 by fastforce
  qed
qed

lemma span_inj: "span b = span c \<Longrightarrow> b = c"
proof -
  assume e: "span b = span c"
  obtain x p y q where bc: "b = (x, p)" "c = (y, q)" by (cases b; cases c)
  have "(0 :: nat) < 2 ^ p" "(0 :: nat) < 2 ^ q" by simp_all
  then have lt: "x < x + 2 ^ p" "y < y + 2 ^ q" by linarith+
  have "{x..<x + 2 ^ p} = {y..<y + 2 ^ q}" using e unfolding bc span.simps .
  then have "x = y \<and> x + 2 ^ p = y + 2 ^ q" by (rule iffD1 [OF atLeastLessThan_eq_iff [OF lt]])
  then have "x = y" "(2 :: nat) ^ p = 2 ^ q" by linarith+
  moreover from this have "p = q" by (metis power_inject_exp one_less_numeral_iff semiring_norm(76))
  ultimately show ?thesis using bc by simp
qed

lemma merged_sub:
  assumes S: "merged S" "\<forall>c \<in> S. aligned c" "disjoint_blocks S"
    and T: "merged T" "\<forall>c \<in> T. aligned c" and cov: "\<Union> (span ` S) = \<Union> (span ` T)"
  shows "S \<subseteq> T"
proof
  fix b assume b: "b \<in> S"
  then have "aligned b" "span b \<subseteq> \<Union> (span ` T)" using S(2) cov by blast+
  then obtain c where c: "c \<in> T" "span b \<subseteq> span c"
    using merged_maximal [OF T, of "fst b" "snd b"] unfolding prod.collapse by blast
  have "aligned c" "span c \<subseteq> \<Union> (span ` S)" using T(2) cov c(1) by blast+
  then obtain d where d: "d \<in> S" "span c \<subseteq> span d"
    using merged_maximal [OF S(1,2), of "fst c" "snd c"] unfolding prod.collapse by blast
  have "span b \<noteq> {}" by (cases b) simp
  then have "b = d" using S(3) b d(1) c(2) d(2) unfolding disjoint_blocks_def by blast
  then have "span b = span c" using c(2) d(2) by blast
  then show "b \<in> T" using c(1) span_inj by blast
qed

section \<open>Splitting\<close>

lemma split_loop_ok:
  assumes "inv_at N bs F {} A" "pow \<le> i" "i < MAX_BLOCK_POW" "F i \<noteq> []"
    and "\<And>p. pow \<le> p \<Longrightarrow> p < i \<Longrightarrow> F p = []"
  shows "\<exists>bs' F'. split_loop i pow bs = Inr bs' \<and> same_rest bs bs' \<and> inv_at N bs' F' {} A \<and>
           F' pow \<noteq> [] \<and> \<Union> (span ` freeset F') = \<Union> (span ` freeset F) \<and>
           (merged (freeset (F(i := tl (F i)))) \<longrightarrow> merged (freeset (F'(pow := tl (F' pow)))))"
  using assms
proof (induction i arbitrary: bs F)
  case 0
  then show ?case by (intro exI [of _ bs] exI [of _ F]) simp
next
  case (Suc j)
  show ?case
  proof (cases "Suc j > pow")
    case False
    then have "pow = Suc j" using Suc.prems(2) by simp
    then show ?thesis using Suc.prems by (intro exI [of _ bs] exI [of _ F]) simp
  next
    case True
    obtain a rest where hd: "F (Suc j) = a # rest" using Suc.prems(4) by (meson list.exhaust)
    have nil: "F j = []" using Suc.prems(5) True by simp
    define F1 where "F1 = F(Suc j := rest, j := [a, a + 2 ^ j])"
    have "(a, Suc j) \<in> freeset F" using hd Suc.prems(3) by (simp add: freeset_in)
    then have "(a, Suc j) \<notin> A" using Suc.prems(1) core_disj by (fastforce simp: inv_at_def)
    from split_at_ok [OF Suc.prems(1,3) hd nil this] obtain bs1
      where 1: "split_at (Suc j) bs = Inr bs1" "same_rest bs bs1" "inv_at N bs1 F1 {} A"
      unfolding F1_def by blast
    have prem: "pow \<le> j" "j < MAX_BLOCK_POW" "F1 j \<noteq> []" and
      nils: "\<And>p. pow \<le> p \<Longrightarrow> p < j \<Longrightarrow> F1 p = []"
      using Suc.prems True by (simp_all add: F1_def)
    obtain bs' F' where r: "split_loop j pow bs1 = Inr bs'" "same_rest bs1 bs'" "inv_at N bs' F' {} A"
      "F' pow \<noteq> []" "\<Union> (span ` freeset F') = \<Union> (span ` freeset F1)"
      "merged (freeset (F1(j := tl (F1 j)))) \<longrightarrow> merged (freeset (F'(pow := tl (F' pow))))"
      using Suc.IH [OF 1(3) prem nils] by blast
    have "merged (freeset (F1(j := tl (F1 j))))" if "merged (freeset (F(Suc j := tl (F (Suc j)))))"
      using merged_upd [OF that, of "[a + 2 ^ j]" j] hd by (simp add: F1_def)
    then have m: "merged (freeset (F(Suc j := tl (F (Suc j))))) \<longrightarrow> merged (freeset (F'(pow := tl (F' pow))))"
      using r(6) by blast
    have c: "\<Union> (span ` freeset F1) = \<Union> (span ` freeset F)"
    proof -
      define R where "R = freeset (F(Suc j := rest))"
      have "freeset F = insert (a, Suc j) R"
        using hd Suc.prems(3) by (auto simp: R_def freeset_def split: if_splits)
      moreover have "freeset F1 = insert (a, j) (insert (a + 2 ^ j, j) R)"
        using nil Suc.prems(3) by (auto simp: F1_def R_def freeset_def split: if_splits)
      ultimately show ?thesis using span_parts [of a j] by auto
    qed
    have "split_loop (Suc j) pow bs = Inr bs'" using 1(1) r(1) True by simp
    moreover have "same_rest bs bs'" by (rule same_rest_trans [OF 1(2) r(2)])
    ultimately show ?thesis using r(3,4) r(5) [unfolded c] m by (intro exI conjI)
  qed
qed

section \<open>Marking\<close>

definition marks :: "u8 \<Rightarrow> block \<Rightarrow> buddy_block list \<Rightarrow> buddy_block list \<Rightarrow> bool" where
  "marks u b B B' \<longleftrightarrow> length B' = length B \<and>
     (\<forall>i < length B. bpow (B' ! i) = bpow (B ! i) \<and> bnext (B' ! i) = bnext (B ! i) \<and>
        bused (B' ! i) = (if i \<in> span b then u else bused (B ! i)))"

lemma mark_loop_ok:
  assumes "x + n \<le> length (buddies bs)"
  shows "\<exists>B. mark_loop u (int x) n bs = Inr (bs\<lparr>buddies := B\<rparr>) \<and> length B = length (buddies bs) \<and>
     (\<forall>i < length B. B ! i = (if x \<le> i \<and> i < x + n then (buddies bs ! i)\<lparr>bused := u\<rparr> else buddies bs ! i))"
  using assms
proof (induction n arbitrary: x bs)
  case 0
  then show ?case by (intro exI [of _ "buddies bs"]) auto
next
  case (Suc n)
  define bs1 where "bs1 = bs\<lparr>buddies := (buddies bs)[x := (buddies bs ! x)\<lparr>bused := u\<rparr>]\<rparr>"
  obtain B where B: "mark_loop u (int (x + 1)) n bs1 = Inr (bs1\<lparr>buddies := B\<rparr>)"
    "length B = length (buddies bs1)"
    "\<And>i. i < length B \<Longrightarrow> B ! i =
        (if x + 1 \<le> i \<and> i < x + 1 + n then (buddies bs1 ! i)\<lparr>bused := u\<rparr> else buddies bs1 ! i)"
    using Suc.IH [of "x + 1" bs1] Suc.prems by (auto simp: bs1_def)
  have "mark_loop u (int x) (Suc n) bs = Inr (bs\<lparr>buddies := B\<rparr>)"
    using B(1) Suc.prems by (simp add: bs1_def add.commute)
  moreover have "B ! i = (if x \<le> i \<and> i < x + Suc n then (buddies bs ! i)\<lparr>bused := u\<rparr> else buddies bs ! i)"
    if "i < length B" for i
    using B(3) [OF that] that B(2) by (cases "i = x") (auto simp: bs1_def)
  ultimately show ?case using B(2) by (auto simp: bs1_def)
qed

lemma mark_block:
  assumes "block_ok N (buddies bs) b" "N \<le> length (buddies bs)"
  shows "\<exists>B. mark_loop u (int (fst b)) (2 ^ bpow (buddies bs ! fst b)) bs = Inr (bs\<lparr>buddies := B\<rparr>) \<and>
           marks u b (buddies bs) B"
proof -
  obtain x p where b: "b = (x, p)" by (cases b)
  have "x + 2 ^ p \<le> length (buddies bs)" using assms b by (simp add: block_ok_def)
  from mark_loop_ok [OF this, of u] obtain B where
    "mark_loop u (int x) (2 ^ p) bs = Inr (bs\<lparr>buddies := B\<rparr>)" "length B = length (buddies bs)"
    "\<forall>i < length B. B ! i =
       (if x \<le> i \<and> i < x + 2 ^ p then (buddies bs ! i)\<lparr>bused := u\<rparr> else buddies bs ! i)" by blast
  then show ?thesis using assms b unfolding marks_def by (intro exI [of _ B]) (simp add: block_ok_def)
qed

lemma marks_lists: 
  assumes "marks u b B B'" "chains I B F" shows "chains I B' F"
proof -
  have "seg B' (I ! p) (F p) (-1)" if p: "p < MAX_BLOCK_POW" for p
  proof -
    have "seg B (I ! p) (F p) (-1)" using assms(2) p by (simp add: chains_def)
    moreover have "bnext (B' ! x) = bnext (B ! x)" if "x \<in> set (F p)" for x
      using assms(1) seg_bounds [OF calculation that] by (simp add: marks_def)
    ultimately show ?thesis using seg_cong [of B' B "F p"] assms(1) by (simp add: marks_def)
  qed
  then show ?thesis using assms(2) by (simp add: chains_def)
qed

lemma core_remark:
  assumes c: "core N B Fr Al" and m: "marks u b B B'"
    and b: "b \<in> Fr \<union> Al" and e: "e \<in> Fr \<union> Al"
  shows "block_ok N B' e" and "marked v B' e \<longleftrightarrow> (if e = b then v = u else marked v B e)"
proof -
  have N: "N \<le> length B" using c by (simp add: core_def)
  have k: "block_ok N B e" using core_block_ok [OF c e] .
  obtain x p where ep: "e = (x, p)" by (cases e)
  have "0 < (2 :: nat) ^ p" by simp
  then have len: "i < length B" if "i \<in> span e" for i
    using k N that unfolding ep block_ok_def by auto
  have start: "fst e \<in> span e" by (simp add: ep)
  then show "block_ok N B' e" using k m len by (auto intro: block_ok_pow simp: marks_def)
  have used: "bused (B' ! i) = (if i \<in> span b then u else bused (B ! i))" if "i \<in> span e" for i
    using m len [OF that] by (simp add: marks_def)
  show "marked v B' e \<longleftrightarrow> (if e = b then v = u else marked v B e)"
  proof (cases "e = b")
    case True
    then show ?thesis using used start unfolding marked_def by auto
  next
    case False
    then have "i \<notin> span b" if "i \<in> span e" for i
      using c b e that unfolding core_def disjoint_blocks_def by blast
    then show ?thesis using used False by (auto simp: marked_def)
  qed
qed

lemma core_take:
  assumes c: "core N B (insert b Fr) Al" and new: "b \<notin> Fr" and m: "marks BUDDY_BLOCK_USED b B B'"
  shows "core N B' Fr (insert b Al)"
proof -
  have "b \<notin> Al" using core_disj [OF c] by blast
  then show ?thesis
    using c new m core_remark [OF c m] unfolding core_def by (auto simp: marks_def)
qed

lemma core_give:
  assumes c: "core N B Fr (insert b Al)" and new: "b \<notin> Al" and m: "marks BUDDY_BLOCK_FREE b B B'"
  shows "core N B' (insert b Fr) Al"
proof -
  have "b \<notin> Fr" using core_disj [OF c] by blast
  then show ?thesis
    using c new m core_remark [OF c m] unfolding core_def by (auto simp: marks_def)
qed

section \<open>Allocation\<close>

lemma list_nonempty: "chains I B F \<Longrightarrow> p < MAX_BLOCK_POW \<Longrightarrow> I ! p = -1 \<longleftrightarrow> F p = []"
  using seg_head [of B "I ! p" "F p"] chains_at [of I B F p] by (simp split: list.splits)

lemma scan_up_ok:
  assumes li: "chains (indices bs) (buddies bs) F"
  shows "\<exists>j. scan_up i bs = Inr j \<and> (\<forall>p. i \<le> p \<longrightarrow> p < min j MAX_BLOCK_POW \<longrightarrow> F p = []) \<and> i \<le> j \<and>
           (j < MAX_BLOCK_POW \<longrightarrow> F j \<noteq> [])"
proof (induction "MAX_BLOCK_POW - i" arbitrary: i)
  case 0
  then show ?case by (simp add: scan_up.simps)
next
  case (Suc n)
  then have i: "i < MAX_BLOCK_POW" by simp
  have get: "idx_get i bs = Inr (indices bs ! i)" using i chains_length [OF li] by simp
  show ?case
  proof (cases "F i = []")
    case False
    then show ?thesis using i get list_nonempty [OF li i] by (auto simp: scan_up.simps)
  next
    case True
    then have "scan_up i bs = scan_up (i + 1) bs" using i get list_nonempty [OF li i]
      by (simp add: scan_up.simps [of i])
    moreover have "n = MAX_BLOCK_POW - (i + 1)" using Suc(2) by simp
    from Suc(1) [OF this] obtain j where "scan_up (i + 1) bs = Inr j" "i + 1 \<le> j"
      "j < MAX_BLOCK_POW \<longrightarrow> F j \<noteq> []" and
      nil: "\<And>p. i + 1 \<le> p \<Longrightarrow> p < min j MAX_BLOCK_POW \<Longrightarrow> F p = []"
      by blast
    moreover have "F p = []" if "i \<le> p" "p < min j MAX_BLOCK_POW" for p
      using nil [of p] True that by (cases "p = i") auto
    ultimately show ?thesis by (intro exI [of _ j]) auto
  qed
qed

text \<open>Taking the head of a list and marking it.\<close>

lemma take_head:
  assumes inv: "inv_at N bs F {} A" and p: "p < MAX_BLOCK_POW" and hd: "F p = r # rest"
    and v: "seg (buddies bs) v xs (-1)" "set xs \<subseteq> set rest" "sorted_wrt (<) xs"
  shows "\<exists>bs'. buddy_set_used_index (int r) (bs\<lparr>indices := (indices bs)[p := v]\<rparr>) = Inr bs' \<and>
           same_rest bs bs' \<and> inv_at N bs' (F(p := xs)) {} (insert (r, p) A) \<and>
           (r, p) \<notin> A"
proof -
  define bs1 where "bs1 = bs\<lparr>indices := (indices bs)[p := v]\<rparr>"
  have c: "core N (buddies bs) (freeset F) A" and li: "chains (indices bs) (buddies bs) F"
    using inv by (simp_all add: inv_at_def)
  have rF: "(r, p) \<in> freeset F" using p hd by (simp add: freeset_in)
  then have ok: "block_ok N (buddies bs) (r, p)" and N: "N \<le> length (buddies bs)"
    using c by (auto simp: core_def)
  have bs1: "buddies bs1 = buddies bs" by (simp add: bs1_def)
  obtain B where B: "mark_loop BUDDY_BLOCK_USED (int r) (2 ^ bpow (buddies bs ! r)) bs1 = Inr (bs1\<lparr>buddies := B\<rparr>)"
    "marks BUDDY_BLOCK_USED (r, p) (buddies bs) B"
    using mark_block [of N bs1 "(r, p)" BUDDY_BLOCK_USED] ok N by (auto simp: bs1)
  have "r < length (buddies bs)" using core_ok [OF c, of r p] rF by simp
  then have "buddy_set_used_index (int r) bs1 = Inr (bs1\<lparr>buddies := B\<rparr>)"
    using B(1) by (simp add: buddy_set_used_index_def bs1)
  moreover have "r \<notin> set xs" using chains_at [OF li p] hd v(2) by auto
  then have "(r, p) \<notin> freeset (F(p := xs))" by (simp add: freeset_def)
  then have "core N B (freeset (F(p := xs))) (insert (r, p) A)"
    using B(2) c rF hd v(2)
    by (intro core_take [of N "buddies bs"] core_mono [OF c]) (auto simp: freeset_def split: if_splits)
  moreover have "chains ((indices bs)[p := v]) B (F(p := xs))"
    using v p by (intro marks_lists [OF B(2)] chains_set [OF li]) auto
  moreover have "(r, p) \<notin> A" using core_disj [OF c rF] .
  ultimately show ?thesis
    using B(2) unfolding bs1_def [symmetric]
    by (intro exI [of _ "bs1\<lparr>buddies := B\<rparr>"]) (simp add: inv_at_def bs1_def marks_def)
qed

lemma alloc_cases:
  assumes inv: "inv_at N bs F {} A" and p: "p < MAX_BLOCK_POW"
  shows "F p = r # rest \<Longrightarrow>
      \<exists>bs'. buddy_alloc_index p bs = Inr (int r, bs') \<and> same_rest bs bs' \<and> (r, p) \<notin> A \<and>
        inv_at N bs' (F(p := [])) {} (insert (r, p) A)"
    and "F p = [] \<Longrightarrow> p < j \<Longrightarrow> j < MAX_BLOCK_POW \<Longrightarrow> F j \<noteq> [] \<Longrightarrow>
      \<exists>r bs' F'. buddy_alloc_index p bs = Inr (int r, bs') \<and> same_rest bs bs' \<and> (r, p) \<notin> A \<and>
        inv_at N bs' F' {} (insert (r, p) A) \<and>
        span (r, p) \<union> \<Union> (span ` freeset F') = \<Union> (span ` freeset F) \<and>
        (merged (freeset F) \<longrightarrow> merged (freeset F'))"
    and "(\<And>j. p \<le> j \<Longrightarrow> j < MAX_BLOCK_POW \<Longrightarrow> F j = []) \<Longrightarrow> buddy_alloc_index p bs = Inl Undefined"
proof -
  have li: "chains (indices bs) (buddies bs) F" using inv by (simp add: inv_at_def)
  have len: "p < length (indices bs)" using chains_length [OF li] p by simp
  show "\<exists>bs'. buddy_alloc_index p bs = Inr (int r, bs') \<and> same_rest bs bs' \<and> (r, p) \<notin> A \<and>
        inv_at N bs' (F(p := [])) {} (insert (r, p) A)" if hd: "F p = r # rest"
  proof -
    have "indices bs ! p = int r" using chains_at [OF li p] hd by simp
    then show ?thesis
      using take_head [OF inv p hd, of "-1" "[]"] len by (auto simp: buddy_alloc_index_def)
  qed
  show "\<exists>r bs' F'. buddy_alloc_index p bs = Inr (int r, bs') \<and> same_rest bs bs' \<and> (r, p) \<notin> A \<and>
        inv_at N bs' F' {} (insert (r, p) A) \<and>
        span (r, p) \<union> \<Union> (span ` freeset F') = \<Union> (span ` freeset F) \<and>
        (merged (freeset F) \<longrightarrow> merged (freeset F'))"
    if nil: "F p = []" and j: "p < j" "j < MAX_BLOCK_POW" "F j \<noteq> []"
  proof -
    obtain i where i: "scan_up (p + 1) bs = Inr i" "p + 1 \<le> i"
      "\<And>q. p + 1 \<le> q \<Longrightarrow> q < min i MAX_BLOCK_POW \<Longrightarrow> F q = []" "i < MAX_BLOCK_POW \<longrightarrow> F i \<noteq> []"
      using scan_up_ok [OF li, of "p + 1"] by blast
    have i12: "i < MAX_BLOCK_POW" using i(3) [of j] j by (cases "j < i") auto
    have nils: "F q = []" if "p \<le> q" "q < i" for q
      using nil i(3) [of q] that i12 by (cases "q = p") auto
    obtain bs1 F1 where 1: "split_loop i p bs = Inr bs1" "same_rest bs bs1" "inv_at N bs1 F1 {} A"
      "F1 p \<noteq> []" "\<Union> (span ` freeset F1) = \<Union> (span ` freeset F)"
      "merged (freeset (F(i := tl (F i)))) \<longrightarrow> merged (freeset (F1(p := tl (F1 p))))"
      using split_loop_ok [OF inv, of p i] i i12 nils by auto
    then obtain r rest where hd: "F1 p = r # rest" by (meson list.exhaust)
    have li1: "chains (indices bs1) (buddies bs1) F1" using 1(3) by (simp add: inv_at_def)
    have seg: "indices bs1 ! p = int r" "r < length (buddies bs1)"
      "seg (buddies bs1) (bnext (buddies bs1 ! r)) rest (-1)" "sorted_wrt (<) rest"
      using chains_at [OF li1 p] hd by auto
    obtain bs' where bs': "buddy_set_used_index (int r)
        (bs1\<lparr>indices := (indices bs1)[p := bnext (buddies bs1 ! r)]\<rparr>) = Inr bs'" "same_rest bs1 bs'"
      "inv_at N bs' (F1(p := rest)) {} (insert (r, p) A)" "(r, p) \<notin> A"
      using take_head [OF 1(3) p hd seg(3) _ seg(4)] by blast
    have "indices bs ! p = -1" using list_nonempty [OF li p] nil by simp
    then have "buddy_alloc_index p bs = Inr (int r, bs')"
      using len i(1) 1(1) seg(1,2) bs'(1) p chains_length [OF li1]
      by (simp add: buddy_alloc_index_def)
    moreover have "freeset F1 = insert (r, p) (freeset (F1(p := rest)))"
      using hd p by (auto simp: freeset_def split: if_splits)
    then have "span (r, p) \<union> \<Union> (span ` freeset (F1(p := rest))) = \<Union> (span ` freeset F)"
      using 1(5) by (simp del: span.simps)
    moreover have "merged (freeset (F1(p := rest)))" if "merged (freeset F)"
    proof -
      have "set (tl (F i)) \<subseteq> set (F i)" by (cases "F i") auto
      then have "merged (freeset (F(i := tl (F i))))" by (intro merged_upd [OF that] disjI1)
      then show ?thesis using 1(6) hd by simp
    qed
    ultimately show ?thesis using bs'(3,4) same_rest_trans [OF 1(2) bs'(2)]
      by (intro exI [of _ r] exI [of _ bs'] exI [of _ "F1(p := rest)"] conjI impI)
  qed
  show "buddy_alloc_index p bs = Inl Undefined" if nil: "\<And>j. p \<le> j \<Longrightarrow> j < MAX_BLOCK_POW \<Longrightarrow> F j = []"
  proof -
    have "indices bs ! p = -1" using list_nonempty [OF li p] nil p by simp
    moreover obtain i where "scan_up (p + 1) bs = Inr i" "i < MAX_BLOCK_POW \<longrightarrow> F i \<noteq> []" "p + 1 \<le> i"
      using scan_up_ok [OF li, of "p + 1"] by blast
    moreover from this nil have ge: "MAX_BLOCK_POW \<le> i" by force
    moreover have "split_loop i p bs = Inl Undefined"
    proof (cases i)
      case 0
      then show ?thesis using ge by (simp add: MAX_BLOCK_POW_def)
    next
      case (Suc k)
      then show ?thesis using ge chains_length [OF li] p
        by (simp add: split_at_def idx_get_def arr_get_def)
    qed
    ultimately show ?thesis using len by (simp add: buddy_alloc_index_def)
  qed
qed

section \<open>Freeing\<close>

lemma seek_ok:
  assumes "seg (buddies bs) (int it) (it # vs) (-1)" "sorted_wrt (<) (it # vs)"
    and "it < y" "y \<notin> set vs" "length vs < n"
  shows "\<exists>us it' vs'. it # vs = us @ it' # vs' \<and> it' < y \<and> (\<forall>v \<in> set vs'. y < v) \<and>
     seek n (int y) pre (int it) bs = Inr (if us = [] then pre else int (last us), int it')"
  using assms
proof (induction vs arbitrary: it pre n)
  case Nil
  then obtain k where "n = Suc k" by (cases n) auto
  with Nil have "seek n (int y) pre (int it) bs = Inr (pre, int it)" by simp
  with Nil show ?case by (intro exI [of _ "[]"] exI [of _ it]) simp
next
  case (Cons v vs)
  obtain k where n: "n = Suc k" using Cons.prems by (cases n) auto
  have it: "it < length (buddies bs)" "bnext (buddies bs ! it) = int v" using Cons.prems(1) by auto
  show ?case
  proof (cases "v < y")
    case True
    then have step: "seek n (int y) pre (int it) bs = seek k (int y) (int it) (int v) bs"
      using it n by simp
    obtain us it' vs' where r: "v # vs = us @ it' # vs'" "it' < y" "\<forall>v \<in> set vs'. y < v"
      "seek k (int y) (int it) (int v) bs = Inr (if us = [] then int it else int (last us), int it')"
      using Cons.IH [of v k "int it"] Cons.prems True n by auto
    have "it # v # vs = (it # us) @ it' # vs'" using r(1) by simp
    moreover have "seek n (int y) pre (int it) bs =
        Inr (if it # us = [] then pre else int (last (it # us)), int it')"
      using step r(4) by simp
    ultimately show ?thesis using r(2,3) by blast
  next
    case False
    then have "y < v" "\<forall>w \<in> set vs. y < w" using Cons.prems(2,4) by fastforce+
    moreover have "seek n (int y) pre (int it) bs = Inr (pre, int it)" using it n False by simp
    ultimately show ?thesis using Cons.prems(3)
      by (intro exI [of _ "[]"] exI [of _ it] exI [of _ "v # vs"]) simp
  qed
qed

lemma seg_length: "seg B i xs k \<Longrightarrow> sorted_wrt (<) xs \<Longrightarrow> length xs \<le> length B"
proof -
  assume s: "seg B i xs k" "sorted_wrt (<) xs"
  then have "distinct xs" by (simp add: strict_sorted_iff)
  moreover have "set xs \<subseteq> {..<length B}" using s(1) seg_bounds by blast
  ultimately show ?thesis by (metis card_lessThan card_mono distinct_card finite_lessThan)
qed

text \<open>Replacing what follows an entry of a chain.\<close>

lemma seg_relink:
  assumes "seg B i (us @ it # vs) (-1)" "it \<notin> set us" "seg B m ws (-1)" "it \<notin> set ws"
  shows "seg (B[it := (B ! it)\<lparr>bnext := m\<rparr>]) i (us @ it # ws) (-1)"
proof -
  let ?B = "B[it := (B ! it)\<lparr>bnext := m\<rparr>]"
  have "it < length B" using assms(1) by auto
  moreover have "seg ?B i us (int it)"
  proof -
    have "bnext (?B ! x) = bnext (B ! x)" if "x \<in> set us" for x
      using that assms(2) by (metis nth_list_update_neq)
    then show ?thesis using assms(1) seg_cong [of ?B B us i "int it"] by auto
  qed
  moreover have "seg ?B m ws (-1)"
  proof -
    have "bnext (?B ! x) = bnext (B ! x)" if "x \<in> set ws" for x
      using that assms(4) by (metis nth_list_update_neq)
    then show ?thesis using assms(3) seg_cong [of ?B B ws m "-1"] by simp
  qed
  ultimately show ?thesis by auto
qed

lemma chains_relink:
  assumes li: "chains I B F" and q: "q < MAX_BLOCK_POW" and F: "F q = us @ it # vs"
    and ws: "seg B m ws (-1)" "it \<notin> set ws" "sorted_wrt (<) (us @ it # ws)"
    and other: "\<And>p. p < MAX_BLOCK_POW \<Longrightarrow> p \<noteq> q \<Longrightarrow> it \<notin> set (F p)"
  shows "chains I (B[it := (B ! it)\<lparr>bnext := m\<rparr>]) (F(q := us @ it # ws))"
proof -
  have "chains (I[q := I ! q]) (B[it := (B ! it)\<lparr>bnext := m\<rparr>]) (F(q := us @ it # ws))"
  proof (rule chains_set [OF li])
    show "seg (B[it := (B ! it)\<lparr>bnext := m\<rparr>]) (I ! q) (us @ it # ws) (-1)"
      using chains_at [OF li q] F ws by (intro seg_relink) (auto simp: sorted_wrt_append)
    show "bnext (B[it := (B ! it)\<lparr>bnext := m\<rparr>] ! x) = bnext (B ! x)"
      if "p < MAX_BLOCK_POW" "p \<noteq> q" "x \<in> set (F p)" for p x
      using other [OF that(1,2)] that(3) by (metis nth_list_update_neq)
  qed (use q ws in auto)
  then show ?thesis by simp
qed

text \<open>The floating block goes into its list, or joins its partner.\<close>

lemma insert_step:
  assumes inv: "inv_at N bs F {(y, q)} A" and q: "q < MAX_BLOCK_POW" and F: "F q = us @ vs"
    and li: "chains I' B' (F(q := us @ y # vs))" and len: "length B' = length (buddies bs)"
    and same: "\<And>i. bpow (B' ! i) = bpow (buddies bs ! i)" "\<And>i. bused (B' ! i) = bused (buddies bs ! i)"
  shows "inv_at N (bs\<lparr>buddies := B', indices := I'\<rparr>) (F(q := us @ y # vs)) {} A \<and>
         \<Union> (span ` freeset (F(q := us @ y # vs))) = span (y, q) \<union> \<Union> (span ` freeset F)"
proof -
  have "freeset (F(q := us @ y # vs)) = insert (y, q) (freeset F)"
    using F q by (auto simp: freeset_def split: if_splits)
  moreover have "core N B' (insert (y, q) (freeset F)) A"
    using inv core_cong [of B' "buddies bs" "insert (y, q) (freeset F)" A N] len same
    by (simp add: inv_at_def)
  ultimately show ?thesis using li by (simp add: inv_at_def del: span.simps)
qed

lemma merge_step:
  assumes inv: "inv_at N bs F {(y, q)} A" and y: "(y, q) \<notin> freeset F" and q: "q < MAX_BLOCK_POW"
    and F: "F q = us @ z # vs"
    and ab: "(a, b) = (y, z) \<or> (a, b) = (z, y)" "b = a + 2 ^ q" "2 ^ Suc q dvd a"
    and li: "chains I' B' (F(q := us @ vs))" and len: "length B' = length (buddies bs)"
    and same: "\<And>i. bpow (B' ! i) = bpow (buddies bs ! i)" "\<And>i. bused (B' ! i) = bused (buddies bs ! i)"
  shows "inv_at N (bs\<lparr>buddies := B'[a := (B' ! a)\<lparr>bpow := Suc q\<rparr>], indices := I'\<rparr>)
           (F(q := us @ vs)) {(a, Suc q)} A"
    and "Suc q < MAX_BLOCK_POW" and "a < length B'"
    and "(a, Suc q) \<notin> freeset (F(q := us @ vs))"
    and "span (a, Suc q) \<union> \<Union> (span ` freeset (F(q := us @ vs))) = span (y, q) \<union> \<Union> (span ` freeset F)"
proof -
  define R where "R = freeset (F(q := us @ vs))"
  have dist: "distinct (us @ z # vs)"
    using chains_at [of _ _ _ q] inv q F by (metis inv_at_def strict_sorted_iff)
  have fs: "freeset F = insert (z, q) R" and z: "(z, q) \<notin> R"
    using dist F q by (auto simp: R_def freeset_def split: if_splits)
  have yR: "(y, q) \<notin> R" using y fs by simp
  have c0: "core N (buddies bs) (insert (y, q) (insert (z, q) R)) A"
    using inv fs by (simp add: inv_at_def insert_commute)
  then have c: "core N B' (insert (a, q) (insert (a + 2 ^ q, q) R)) A"
    using ab(1,2) core_cong [of B' "buddies bs" "insert (y, q) (insert (z, q) R)" A N] len same
    by (auto simp: insert_commute)
  have new: "(a, q) \<notin> R" "(a + 2 ^ q, q) \<notin> R" "(a, q) \<notin> A" "(a + 2 ^ q, q) \<notin> A"
    using yR z ab(1,2) core_disj [OF c] by auto
  show s: "Suc q < MAX_BLOCK_POW" using core_merge(1) [OF c ab(3) new] .
  have c2: "core N (B'[a := (B' ! a)\<lparr>bpow := Suc q\<rparr>]) (insert (a, Suc q) R) A"
    using core_merge(2) [OF c ab(3) new] .
  show a: "a < length B'" using core_ok [OF c, of a q] by simp
  have "chains I' (B'[a := (B' ! a)\<lparr>bpow := Suc q\<rparr>]) (F(q := us @ vs))"
    using li seg_cong [of "B'[a := (B' ! a)\<lparr>bpow := Suc q\<rparr>]" B'] unfolding chains_def by simp
  then show "inv_at N (bs\<lparr>buddies := B'[a := (B' ! a)\<lparr>bpow := Suc q\<rparr>], indices := I'\<rparr>)
           (F(q := us @ vs)) {(a, Suc q)} A"
    using c2 by (simp add: inv_at_def R_def)
  show "(a, Suc q) \<notin> freeset (F(q := us @ vs))"
  proof
    assume "(a, Suc q) \<in> freeset (F(q := us @ vs))"
    then show False using core_starts [OF c, of a q "Suc q"] by (simp add: R_def)
  qed
  show "span (a, Suc q) \<union> \<Union> (span ` freeset (F(q := us @ vs))) = span (y, q) \<union> \<Union> (span ` freeset F)"
    using ab(1,2) unfolding span_parts fs R_def [symmetric] by auto
qed

definition floating :: "nat \<Rightarrow> buddy_system \<Rightarrow> (nat \<Rightarrow> nat list) \<Rightarrow> nat \<Rightarrow> nat \<Rightarrow> block set \<Rightarrow> bool" where
  "floating N bs F y q A \<longleftrightarrow> inv_at N bs F {(y, q)} A \<and> (y, q) \<notin> freeset F"

definition free_post :: "nat \<Rightarrow> nat \<Rightarrow> buddy_system \<Rightarrow> (nat \<Rightarrow> nat list) \<Rightarrow> nat \<Rightarrow> nat \<Rightarrow> block set \<Rightarrow> bool" where
  "free_post n N bs F y q A \<longleftrightarrow> (\<exists>bs' F'. free_loop n (int y) bs = Inr bs' \<and> same_rest bs bs' \<and>
     inv_at N bs' F' {} A \<and> \<Union> (span ` freeset F') = span (y, q) \<union> \<Union> (span ` freeset F) \<and>
     absorbs (freeset F) (y, q) (freeset F') \<and> (\<exists>k \<ge> q. k < MAX_BLOCK_POW \<and> F' k \<noteq> []))"

lemma upd_swap [simp]: "bs\<lparr>indices := I, buddies := B\<rparr> = bs\<lparr>buddies := B, indices := I\<rparr>" for bs :: buddy_system
  by simp

lemma floating_facts:
  assumes "floating N bs F y q A"
  shows "q < MAX_BLOCK_POW" "length (indices bs) = MAX_BLOCK_POW" "y < length (buddies bs)"
    "bpow (buddies bs ! y) = q" "2 ^ q dvd y"
    "p < MAX_BLOCK_POW \<Longrightarrow> seg (buddies bs) (indices bs ! p) (F p) (-1)"
    "p < MAX_BLOCK_POW \<Longrightarrow> sorted_wrt (<) (F p)"
    "z \<in> set (F q) \<Longrightarrow> 2 ^ q dvd z"
    "p < MAX_BLOCK_POW \<Longrightarrow> y \<notin> set (F p)"
    "p < MAX_BLOCK_POW \<Longrightarrow> p' < MAX_BLOCK_POW \<Longrightarrow> p \<noteq> p' \<Longrightarrow> z \<in> set (F p) \<Longrightarrow> z \<notin> set (F p')"
proof -
  have c: "core N (buddies bs) (insert (y, q) (freeset F)) A" and li: "chains (indices bs) (buddies bs) F"
    and new: "(y, q) \<notin> freeset F"
    using assms by (simp_all add: floating_def inv_at_def)
  show q: "q < MAX_BLOCK_POW" and "y < length (buddies bs)" "bpow (buddies bs ! y) = q" "2 ^ q dvd y"
    using core_ok [OF c, of y q] by simp_all
  show "length (indices bs) = MAX_BLOCK_POW" using li by (rule chains_length)
  show "p < MAX_BLOCK_POW \<Longrightarrow> seg (buddies bs) (indices bs ! p) (F p) (-1)"
    "p < MAX_BLOCK_POW \<Longrightarrow> sorted_wrt (<) (F p)"
    using chains_at [OF li, of p] by auto
  show "z \<in> set (F q) \<Longrightarrow> 2 ^ q dvd z"
    using core_ok [OF c, of z q] q by (simp add: freeset_in)
  show "p < MAX_BLOCK_POW \<Longrightarrow> y \<notin> set (F p)"
    using core_starts [OF c, of y q p] new freeset_in [of p y F] by blast
  show "p < MAX_BLOCK_POW \<Longrightarrow> p' < MAX_BLOCK_POW \<Longrightarrow> p \<noteq> p' \<Longrightarrow> z \<in> set (F p) \<Longrightarrow> z \<notin> set (F p')"
    using core_starts [OF c, of z p p'] freeset_in [of _ z F] by blast
qed

text \<open>The chains are sorted: the neighbours of the block in its list are the only candidates.\<close>

lemma buddy_not_free:
  assumes f: "floating N bs F y q A" and F: "F q = us @ vs" and s: "sorted_wrt (<) (us @ y # vs)"
    and us: "us \<noteq> [] \<Longrightarrow> \<not> buddy_aux_mergeable (int (last us)) (int y) q"
    and vs: "vs \<noteq> [] \<Longrightarrow> \<not> buddy_aux_mergeable (int y) (int (hd vs)) q"
  shows "buddy_of (y, q) \<notin> freeset F"
proof
  note ff = floating_facts [OF f]
  assume "buddy_of (y, q) \<in> freeset F"
  then obtain z where z: "buddy_of (y, q) = (z, q)" "z \<in> set us \<union> set vs"
    using F by (auto simp: freeset_def)
  show False
  proof (cases "2 ^ Suc q dvd y")
    case True
    then have zy: "z = y + 2 ^ q" using z(1) by simp
    then have "z \<in> set vs" using z(2) s by (auto simp: sorted_wrt_append)
    then obtain v ws where v: "vs = v # ws" "v \<le> z" "y < v" "2 ^ q dvd v"
      using s ff(8) F by (cases vs) (auto simp: sorted_wrt_append less_imp_le)
    then have "2 ^ q dvd v - y" using ff(5) by (simp add: dvd_diff_nat)
    then have "v = z" using v zy dvd_imp_le [of "2 ^ q" "v - y"] by simp
    then show False using vs v(1,3,4) mergeable_iff(1) [OF ff(5), of v] True zy by simp
  next
    case False
    then have zy: "z = y - 2 ^ q" "2 ^ q \<le> y" "2 ^ Suc q dvd z"
      using z(1) aligned_even_odd [of y q] ff(5) by (simp_all add: aligned_def)
    then have "z < y" using zero_less_power [of "2 :: nat" q] by linarith
    then have "z \<in> set us" using z(2) s by (auto simp: sorted_wrt_append)
    then obtain ts u where u: "us = ts @ [u]" "z \<le> u" "u < y" "2 ^ q dvd u"
      using s ff(8) F by (cases us rule: rev_cases) (auto simp: sorted_wrt_append less_imp_le)
    then have "2 ^ q dvd y - u" using ff(5) by (simp add: dvd_diff_nat)
    then have "u = z" using u zy dvd_imp_le [of "2 ^ q" "y - u"] by simp
    then show False using us u(1,3,4) mergeable_iff(1) [OF _ ff(5), of u] zy by simp
  qed
qed

lemma free_insert:
  assumes f: "floating N bs F y q A" and F: "F q = us @ vs"
    and us: "us \<noteq> [] \<Longrightarrow> \<not> buddy_aux_mergeable (int (last us)) (int y) q"
    and vs: "vs \<noteq> [] \<Longrightarrow> \<not> buddy_aux_mergeable (int y) (int (hd vs)) q"
    and run: "free_loop n (int y) bs = Inr (bs\<lparr>buddies := B', indices := I'\<rparr>)"
    and li: "chains I' B' (F(q := us @ y # vs))" and len: "length B' = length (buddies bs)"
    and same: "\<And>i. bpow (B' ! i) = bpow (buddies bs ! i)" "\<And>i. bused (B' ! i) = bused (buddies bs ! i)"
  shows "free_post n N bs F y q A"
proof -
  have "inv_at N (bs\<lparr>buddies := B', indices := I'\<rparr>) (F(q := us @ y # vs)) {} A \<and>
         \<Union> (span ` freeset (F(q := us @ y # vs))) = span (y, q) \<union> \<Union> (span ` freeset F)"
    using f floating_facts(1) [OF f] F li len same by (intro insert_step) (auto simp: floating_def)
  moreover have "same_rest bs (bs\<lparr>buddies := B', indices := I'\<rparr>)" using len by simp
  moreover have "\<exists>k \<ge> q. k < MAX_BLOCK_POW \<and> (F(q := us @ y # vs)) k \<noteq> []"
    using floating_facts(1) [OF f] by (intro exI [of _ q]) simp
  moreover have "freeset (F(q := us @ y # vs)) = insert (y, q) (freeset F)"
    using F floating_facts(1) [OF f] by (auto simp: freeset_def split: if_splits)
  moreover have "sorted_wrt (<) (us @ y # vs)"
    using chains_at [OF li floating_facts(1) [OF f]] by simp
  then have "absorbs (freeset F) (y, q) (insert (y, q) (freeset F))"
    by (intro alone buddy_not_free [OF f F _ us vs])
  ultimately show ?thesis unfolding free_post_def run
    by (intro exI [of _ "bs\<lparr>buddies := B', indices := I'\<rparr>"] exI [of _ "F(q := us @ y # vs)"])
       (simp del: span.simps)
qed

lemma free_merge:
  assumes f: "floating N bs F y q A" and F: "F q = us @ z # vs"
    and ab: "(a, b) = (y, z) \<or> (a, b) = (z, y)" "b = a + 2 ^ q" "2 ^ Suc q dvd a"
    and run: "free_loop (Suc n) (int y) bs =
       free_loop n (int a) (bs\<lparr>buddies := B'[a := (B' ! a)\<lparr>bpow := Suc q\<rparr>], indices := I'\<rparr>)"
    and li: "chains I' B' (F(q := us @ vs))" and len: "length B' = length (buddies bs)"
    and same: "\<And>i. bpow (B' ! i) = bpow (buddies bs ! i)" "\<And>i. bused (B' ! i) = bused (buddies bs ! i)"
    and IH: "\<And>bs F y. floating N bs F y (Suc q) A \<Longrightarrow> free_post n N bs F y (Suc q) A"
  shows "free_post (Suc n) N bs F y q A"
proof -
  define bs1 where "bs1 = bs\<lparr>buddies := B'[a := (B' ! a)\<lparr>bpow := Suc q\<rparr>], indices := I'\<rparr>"
  have inv: "inv_at N bs F {(y, q)} A" "(y, q) \<notin> freeset F" using f by (simp_all add: floating_def)
  note m = merge_step [OF inv floating_facts(1) [OF f] F ab li len same]
  have "floating N bs1 (F(q := us @ vs)) a (Suc q) A"
    using m(1,4) by (simp add: floating_def bs1_def)
  from IH [OF this] obtain bs' F' where r: "free_loop n (int a) bs1 = Inr bs'" "same_rest bs1 bs'" "inv_at N bs' F' {} A"
    "\<Union> (span ` freeset F') = span (a, Suc q) \<union> \<Union> (span ` freeset (F(q := us @ vs)))"
    and ab': "absorbs (freeset (F(q := us @ vs))) (a, Suc q) (freeset F')"
    and av: "\<exists>k \<ge> Suc q. k < MAX_BLOCK_POW \<and> F' k \<noteq> []"
    unfolding free_post_def by blast
  have av: "\<exists>k \<ge> q. k < MAX_BLOCK_POW \<and> F' k \<noteq> []" using av Suc_leD by blast
  have "same_rest bs bs1" unfolding bs1_def by (rule same_rest_set) (simp add: len)
  then have "same_rest bs bs'" using r(2) by (rule same_rest_trans)
  moreover have "absorbs (freeset F) (y, q) (freeset F')"
  proof (rule joined)
    have dist: "distinct (us @ z # vs)"
      using floating_facts(7) [OF f floating_facts(1) [OF f]] F by (simp add: strict_sorted_iff)
    have p: "buddy_of (y, q) = (z, q)" "parent_of (y, q) = (a, Suc q)"
      using ab(1,2) ab(3) buddy_of_buddy [of "(a, q)"] dvd_trans [OF _ ab(3), of "2 ^ q"]
      by (auto simp: aligned_def split: if_splits)
    show "buddy_of (y, q) \<in> freeset F" using p F floating_facts(1) [OF f] by (simp add: freeset_def)
    have "freeset F - {(z, q)} = freeset (F(q := us @ vs))"
      using dist F by (auto simp: freeset_def split: if_splits)
    then show "absorbs (freeset F - {buddy_of (y, q)}) (parent_of (y, q)) (freeset F')"
      using ab' p by simp
  qed
  ultimately show ?thesis unfolding free_post_def run bs1_def [symmetric] using r(1,3,4) m(5) av
    by (intro exI [of _ bs'] exI [of _ F'] conjI) (simp_all del: span.simps)
qed

text \<open>The freed block becomes the head of its list.\<close>

lemma free_front:
  assumes f: "floating N bs F y q A" and lt: "\<And>z. z \<in> set (F q) \<Longrightarrow> y < z"
    and nm: "F q \<noteq> [] \<Longrightarrow> \<not> buddy_aux_mergeable (int y) (int (hd (F q))) q"
    and run: "free_loop (Suc n) (int y) bs = bindO (idx_set q (int y) bs)
        (blk_upd (int y) (\<lambda>b. b\<lparr>bnext := indices bs ! q\<rparr>))"
  shows "free_post (Suc n) N bs F y q A"
proof (rule free_insert [OF f, of "[]" "F q"])
  note ff = floating_facts [OF f]
  let ?B = "(buddies bs)[y := (buddies bs ! y)\<lparr>bnext := indices bs ! q\<rparr>]"
  show "free_loop (Suc n) (int y) bs = Inr (bs\<lparr>buddies := ?B, indices := (indices bs)[q := int y]\<rparr>)"
    using ff(1-3) by (simp add: run)
  have other: "bnext (?B ! x) = bnext (buddies bs ! x)" if "p < MAX_BLOCK_POW" "x \<in> set (F p)" for p x
    using ff(9) [OF that(1)] that(2) by (metis nth_list_update_neq)
  show "chains ((indices bs)[q := int y]) ?B (F(q := [] @ y # F q))"
  proof (rule chains_set)
    show "chains (indices bs) (buddies bs) F" using f by (simp add: floating_def inv_at_def)
    show "seg ?B (int y) ([] @ y # F q) (-1)"
      using ff(3) ff(6) [OF ff(1)] seg_cong [of ?B "buddies bs" "F q"] other [OF ff(1)] by simp
    show "sorted_wrt (<) ([] @ y # F q)" using lt ff(7) [OF ff(1)] by simp
  qed (use ff(1) other in simp_all)
qed (use nm in simp_all)

text \<open>The freed block goes behind the entry \<open>it\<close>.\<close>

lemma free_behind:
  assumes f: "floating N bs F y q A" and F: "F q = us @ it # vs" and lt: "it < y" "\<forall>v \<in> set vs. y < v"
    and nm: "\<not> buddy_aux_mergeable (int it) (int y) q"
      "vs \<noteq> [] \<Longrightarrow> \<not> buddy_aux_mergeable (int y) (int (hd vs)) q"
    and run: "free_loop n (int y) bs = bindO (blk_upd (int y) (\<lambda>b. b\<lparr>bnext := bnext (buddies bs ! it)\<rparr>) bs)
               (blk_upd (int it) (\<lambda>b. b\<lparr>bnext := int y\<rparr>))"
  shows "free_post n N bs F y q A"
proof (rule free_insert [OF f, of "us @ [it]" vs])
  note ff = floating_facts [OF f]
  let ?B1 = "(buddies bs)[y := (buddies bs ! y)\<lparr>bnext := bnext (buddies bs ! it)\<rparr>]"
  let ?B = "?B1[it := (?B1 ! it)\<lparr>bnext := int y\<rparr>]"
  have ne: "it \<noteq> y" using lt by simp
  have chain: "seg (buddies bs) (indices bs ! q) (us @ it # vs) (-1)" "sorted_wrt (<) (us @ it # vs)"
    using ff(6,7) [OF ff(1)] F by simp_all
  then have itlen: "it < length (buddies bs)" by auto
  show "free_loop n (int y) bs = Inr (bs\<lparr>buddies := ?B, indices := indices bs\<rparr>)"
    using ff(3) itlen by (simp add: run)
  have other: "bnext (?B1 ! x) = bnext (buddies bs ! x)" if "p < MAX_BLOCK_POW" "x \<in> set (F p)" for p x
    using ff(9) [OF that(1)] that(2) by (metis nth_list_update_neq)
  have li: "chains (indices bs) ?B1 F"
  proof -
    have "seg ?B1 (indices bs ! p) (F p) (-1)" if "p < MAX_BLOCK_POW" for p
      using seg_cong [of ?B1 "buddies bs" "F p"] other [OF that] ff(6) [OF that] by simp
    then show ?thesis using ff(2,7) by (simp add: chains_def)
  qed
  have "chains (indices bs) ?B (F(q := us @ it # y # vs))"
  proof (rule chains_relink [OF li ff(1) F])
    have "seg ?B1 (bnext (buddies bs ! it)) vs (-1)"
      using chain(1) seg_cong [of ?B1 "buddies bs" vs] other [OF ff(1)] F by auto
    then show "seg ?B1 (int y) (y # vs) (-1)" using ff(3) by simp
    show "it \<notin> set (y # vs)" "sorted_wrt (<) (us @ it # y # vs)"
      using lt chain(2) by (auto simp: sorted_wrt_append)
    show "it \<notin> set (F p)" if "p < MAX_BLOCK_POW" "p \<noteq> q" for p
      using ff(10) [OF ff(1) that(1)] that(2) F by (metis in_set_conv_decomp)
  qed
  then show "chains (indices bs) ?B (F(q := (us @ [it]) @ y # vs))" by simp
qed (use F nm in simp_all)

text \<open>Unlinking an entry: from the head of the list or behind its predecessor.\<close>

lemma unlink_head:
  assumes f: "floating N bs F y q A" and F: "F q = z # vs"
  shows "chains ((indices bs)[q := bnext (buddies bs ! z)]) (buddies bs) (F(q := vs))"
  using f floating_facts(1) [OF f] floating_facts(6,7) [OF f floating_facts(1) [OF f]] F
  by (intro chains_set [of "indices bs" "buddies bs"]) (auto simp: floating_def inv_at_def)

lemma unlink_behind:
  assumes f: "floating N bs F y q A" and F: "F q = us @ it # z # vs"
  shows "chains (indices bs) ((buddies bs)[it := (buddies bs ! it)\<lparr>bnext := bnext (buddies bs ! z)\<rparr>])
          (F(q := us @ it # vs))"
proof (rule chains_relink [of _ _ F])
  note ff = floating_facts [OF f]
  have chain: "seg (buddies bs) (indices bs ! q) (us @ it # z # vs) (-1)" "sorted_wrt (<) (us @ it # z # vs)"
    using ff(6,7) [OF ff(1)] F by simp_all
  show "seg (buddies bs) (bnext (buddies bs ! z)) vs (-1)" using chain(1) by auto
  show "it \<notin> set vs" "sorted_wrt (<) (us @ it # vs)" using chain(2) by (auto simp: sorted_wrt_append)
  show "it \<notin> set (F p)" if "p < MAX_BLOCK_POW" "p \<noteq> q" for p
    using ff(10) [OF ff(1) that(1)] that(2) F by (metis in_set_conv_decomp)
qed (use f F floating_facts(1) [OF f] in \<open>simp_all add: floating_def inv_at_def\<close>)

lemma free_small:
  assumes f: "floating N bs F y q A" and F: "F q = l # rest" and lt: "y < l"
    and IH: "\<And>bs F y. floating N bs F y (Suc q) A \<Longrightarrow> free_post n N bs F y (Suc q) A"
  shows "free_post (Suc n) N bs F y q A"
proof -
  note ff = floating_facts [OF f]
  have l: "indices bs ! q = int l" "l < length (buddies bs)" using ff(6) [OF ff(1)] F by simp_all
  have dl: "2 ^ q dvd l" using ff(8) [of l] F by simp
  show ?thesis
  proof (cases "buddy_aux_mergeable (int y) (int l) q")
    case True
    then have "l = y + 2 ^ q" "2 ^ Suc q dvd y" using mergeable_iff(1) [OF ff(5) dl lt] by simp_all
    moreover have "free_loop (Suc n) (int y) bs = free_loop n (int y)
        (bs\<lparr>buddies := (buddies bs)[y := (buddies bs ! y)\<lparr>bpow := Suc q\<rparr>],
            indices := (indices bs)[q := bnext (buddies bs ! l)]\<rparr>)"
      using True ff(1-4) l lt by (simp add: free_loop.simps)
    moreover have "F q = [] @ l # rest" using F by simp
    ultimately show ?thesis
      using unlink_head [OF f F] IH by (intro free_merge [OF f, of "[]" l rest y l]) simp_all
  next
    case False
    show ?thesis
    proof (rule free_front [OF f])
      show "y < z" if "z \<in> set (F q)" for z using ff(7) [OF ff(1)] F lt that by auto
      show "free_loop (Suc n) (int y) bs = bindO (idx_set q (int y) bs)
        (blk_upd (int y) (\<lambda>b. b\<lparr>bnext := indices bs ! q\<rparr>))"
        using False ff(1-4) l lt by (simp add: free_loop.simps)
    qed (use False F in simp)
  qed
qed

lemma free_large:
  assumes f: "floating N bs F y q A" and F: "F q = us @ it # vs" and lt: "it < y" "\<forall>v \<in> set vs. y < v"
    and sk: "seek (Suc (length (buddies bs))) (int y) (-1) (indices bs ! q) bs =
               Inr (if us = [] then -1 else int (last us), int it)"
    and hd: "indices bs ! q = int (hd (us @ [it]))"
    and IH: "\<And>bs F y. floating N bs F y (Suc q) A \<Longrightarrow> free_post n N bs F y (Suc q) A"
  shows "free_post (Suc n) N bs F y q A"
proof -
  note ff = floating_facts [OF f]
  have chain: "seg (buddies bs) (indices bs ! q) (us @ it # vs) (-1)" "sorted_wrt (<) (us @ it # vs)"
    using ff(6,7) [OF ff(1)] F by simp_all
  have len: "x < length (buddies bs)" if "x \<in> set (us @ it # vs)" for x
    using seg_bounds [OF chain(1) that] .
  have dv: "2 ^ q dvd x" if "x \<in> set (us @ it # vs)" for x using ff(8) [of x] that F by simp
  have nl: "\<not> int y < indices bs ! q"
    using hd lt(1) chain(2) by (cases us) (auto simp: sorted_wrt_append)
  have i1: "indices bs ! q \<noteq> -1" using hd by simp
  note run = free_loop.simps
  show ?thesis
  proof (cases "buddy_aux_mergeable (int it) (int y) q")
    case True
    then have y: "y = it + 2 ^ q" "2 ^ Suc q dvd it"
      using mergeable_iff(1) [OF dv ff(5) lt(1)] by simp_all
    show ?thesis
    proof (cases us rule: rev_cases)
      case Nil
      then have F0: "F q = it # vs" using F by simp
      have "free_loop (Suc n) (int y) bs = free_loop n (int it)
        (bs\<lparr>buddies := (buddies bs)[it := (buddies bs ! it)\<lparr>bpow := Suc q\<rparr>],
            indices := (indices bs)[q := bnext (buddies bs ! it)]\<rparr>)"
        using True ff(1-4) len [of it] Nil sk nl i1 by (simp add: run del: seek.simps)
      then show ?thesis using unlink_head [OF f F0] y IH Nil F
        by (intro free_merge [OF f F, of it y]) simp_all
    next
      case (snoc us0 p)
      have F1: "F q = us0 @ p # it # vs" using F snoc by simp
      have "free_loop (Suc n) (int y) bs = free_loop n (int it)
        (bs\<lparr>buddies := (buddies bs)[p := (buddies bs ! p)\<lparr>bnext := bnext (buddies bs ! it)\<rparr>,
              it := ((buddies bs)[p := (buddies bs ! p)\<lparr>bnext := bnext (buddies bs ! it)\<rparr>] ! it)\<lparr>bpow := Suc q\<rparr>],
            indices := indices bs\<rparr>)"
        using True ff(1-4) len [of it] len [of p] snoc sk nl i1 by (simp add: run del: seek.simps)
      then show ?thesis
        by (rule free_merge [OF f F, where a = it and b = y, rotated 3])
           (use unlink_behind [OF f F1] y IH snoc in simp_all)
    qed
  next
    case False
    have bn: "bnext (buddies bs ! it) = (case vs of [] \<Rightarrow> -1 | v # _ \<Rightarrow> int v)"
      using chain(1) by (cases vs) auto
    show ?thesis
    proof (cases "\<exists>v ws. vs = v # ws \<and> buddy_aux_mergeable (int y) (int v) q")
      case True
      then obtain v ws where v: "vs = v # ws" "buddy_aux_mergeable (int y) (int v) q" by blast
      then have m: "v = y + 2 ^ q" "2 ^ Suc q dvd y"
        using mergeable_iff(1) [OF ff(5) dv, of v] lt(2) by simp_all
      have F2: "F q = us @ it # v # ws" "F q = (us @ [it]) @ v # ws" using F v by simp_all
      have "free_loop (Suc n) (int y) bs = free_loop n (int y)
        (bs\<lparr>buddies := (buddies bs)[it := (buddies bs ! it)\<lparr>bnext := bnext (buddies bs ! v)\<rparr>,
              y := ((buddies bs)[it := (buddies bs ! it)\<lparr>bnext := bnext (buddies bs ! v)\<rparr>] ! y)\<lparr>bpow := Suc q\<rparr>],
            indices := indices bs\<rparr>)"
        using False v bn ff(1-4) len [of it] len [of v] sk nl i1 by (simp add: run del: seek.simps)
      then show ?thesis
        by (rule free_merge [OF f F2(2), where a = y and b = v, rotated 3])
           (use unlink_behind [OF f F2(1)] m IH in simp_all)
    next
      case none: False
      then have "(bnext (buddies bs ! it) \<noteq> -1 \<and>
          buddy_aux_mergeable (int y) (bnext (buddies bs ! it)) q) = False"
        by (cases vs) (simp_all add: bn)
      then have "free_loop (Suc n) (int y) bs =
          bindO (blk_upd (int y) (\<lambda>b. b\<lparr>bnext := bnext (buddies bs ! it)\<rparr>) bs)
               (blk_upd (int it) (\<lambda>b. b\<lparr>bnext := int y\<rparr>))"
        using False ff(1-4) len [of it] sk nl i1
        by (cases "bnext (buddies bs ! it) = -1") (simp_all add: run del: seek.simps)
      then show ?thesis
        by (rule free_behind [OF f F lt False, rotated]) (use none in \<open>cases vs; simp\<close>)
    qed
  qed
qed

lemma free_loop_ok:
  assumes "floating N bs F y q A" "MAX_BLOCK_POW \<le> n + q"
  shows "free_post n N bs F y q A"
  using assms
proof (induction n arbitrary: bs F y q)
  case 0
  then show ?case using floating_facts(1) [of N bs F y q A] by simp
next
  case (Suc n)
  note f = Suc.prems(1)
  note ff = floating_facts [OF f]
  have IH: "free_post n N bs F y (Suc q) A" if "floating N bs F y (Suc q) A" for bs F y
    using Suc.IH [OF that] Suc.prems(2) by simp
  have chain: "seg (buddies bs) (indices bs ! q) (F q) (-1)" "sorted_wrt (<) (F q)"
    using ff(6,7) [OF ff(1)] .
  show ?case
  proof (cases "F q")
    case Nil
    then have "indices bs ! q = -1" using chain(1) by simp
    then show ?thesis using Nil ff(1-4)
      by (intro free_front [OF f]) (simp_all add: free_loop.simps)
  next
    case (Cons l rest)
    have "y \<noteq> l" using ff(9) [OF ff(1)] Cons by auto
    show ?thesis
    proof (cases "y < l")
      case True
      then show ?thesis using free_small [OF f Cons _ IH] by blast
    next
      case False
      have "length rest < Suc (length (buddies bs))" using seg_length [OF chain] Cons by simp
      then obtain us it vs where s: "l # rest = us @ it # vs" "it < y" "\<forall>v \<in> set vs. y < v"
        "seek (Suc (length (buddies bs))) (int y) (-1) (int l) bs = Inr (if us = [] then -1 else int (last us), int it)"
        using seek_ok [of bs l rest y "Suc (length (buddies bs))" "-1"] chain Cons False \<open>y \<noteq> l\<close> ff(9) [OF ff(1)] by auto
      have "indices bs ! q = int l" using chain(1) Cons by simp
      moreover have "l = hd (us @ [it])" using s(1) by (cases us) simp_all
      ultimately show ?thesis using free_large [OF f _ s(2,3) _ _ IH] s(1,4) Cons
        by (simp del: seek.simps)
    qed
  qed
qed

lemma free_index_ok:
  assumes inv: "inv_at N bs F {} A" and x: "(x, p) \<in> A"
  shows "\<exists>bs' F'. buddy_free_index (int x) bs = Inr (p, bs') \<and> same_rest bs bs' \<and>
     inv_at N bs' F' {} (A - {(x, p)}) \<and>
     \<Union> (span ` freeset F') = span (x, p) \<union> \<Union> (span ` freeset F) \<and>
     absorbs (freeset F) (x, p) (freeset F') \<and> (\<exists>k \<ge> p. k < MAX_BLOCK_POW \<and> F' k \<noteq> [])"
proof -
  define A0 where "A0 = A - {(x, p)}"
  have A: "A = insert (x, p) A0" "(x, p) \<notin> A0" using x by (auto simp: A0_def)
  have c: "core N (buddies bs) (freeset F) (insert (x, p) A0)" and li: "chains (indices bs) (buddies bs) F"
    using inv A by (simp_all add: inv_at_def)
  have len: "x < length (buddies bs)" "bpow (buddies bs ! x) = p"
    using core_ok [OF c, of x p] by simp_all
  have "block_ok N (buddies bs) (x, p)" "N \<le> length (buddies bs)" using c by (auto simp: core_def)
  from mark_block [OF this, of BUDDY_BLOCK_FREE] obtain B where
    B: "mark_loop BUDDY_BLOCK_FREE (int x) (2 ^ bpow (buddies bs ! x)) bs = Inr (bs\<lparr>buddies := B\<rparr>)"
    "marks BUDDY_BLOCK_FREE (x, p) (buddies bs) B" by auto
  have "(x, p) \<notin> freeset F" using core_disj [OF c, of "(x, p)"] by blast
  then have "floating N (bs\<lparr>buddies := B\<rparr>) F x p A0"
    using core_give [OF c A(2) B(2)] marks_lists [OF B(2) li] by (simp add: floating_def inv_at_def)
  from free_loop_ok [OF this, of "MAX_BLOCK_POW + 1"] obtain bs' F' where
    r: "free_loop (MAX_BLOCK_POW + 1) (int x) (bs\<lparr>buddies := B\<rparr>) = Inr bs'"
    "same_rest (bs\<lparr>buddies := B\<rparr>) bs'" "inv_at N bs' F' {} A0"
    "\<Union> (span ` freeset F') = span (x, p) \<union> \<Union> (span ` freeset F)"
    "absorbs (freeset F) (x, p) (freeset F')" "\<exists>k \<ge> p. k < MAX_BLOCK_POW \<and> F' k \<noteq> []"
    unfolding free_post_def by auto
  have "same_rest bs (bs\<lparr>buddies := B\<rparr>)" using B(2) by (simp add: marks_def)
  then have "same_rest bs bs'" using r(2) by (rule same_rest_trans)
  moreover have "buddy_free_index (int x) bs = Inr (p, bs')"
    using len B(1) r(1) by (simp add: buddy_free_index_def buddy_clear_used_def)
  ultimately show ?thesis using r(3-6) unfolding A0_def by blast
qed

section \<open>Initialisation\<close>

definition trunc :: "nat \<Rightarrow> nat \<Rightarrow> nat" where
  "trunc k n = (n div 2 ^ k) * 2 ^ k"

lemma trunc_Suc: "trunc k n = trunc (Suc k) n + (if bit n k then 2 ^ k else 0)"
proof -
  have h: "n div 2 ^ Suc k = n div 2 ^ k div 2"
    by (simp add: div_mult2_eq [symmetric] mult.commute del: div_mult2_eq)
  have b: "bit n k = odd (n div 2 ^ k)" by (rule bit_iff_odd)
  have "m * 2 ^ k = (m div 2) * 2 ^ Suc k + (if odd m then 2 ^ k else 0)" for m :: nat
    by (cases "even m") (auto elim!: evenE oddE simp: algebra_simps)
  then show ?thesis unfolding trunc_def h b .
qed

lemma trunc_mono: "j \<le> k \<Longrightarrow> trunc k n \<le> trunc j n"
proof (induction k rule: dec_induct)
  case (step k)
  have "trunc (Suc k) n \<le> trunc k n" using trunc_Suc [of k n] by linarith
  then show ?case using step.IH by (rule le_trans)
qed simp

lemma trunc_0 [simp]: "trunc 0 n = n"
  by (simp add: trunc_def)

lemma trunc_le: "trunc k n \<le> n"
  using trunc_mono [of 0 k n] by simp

lemma trunc_big: "n < 2 ^ k \<Longrightarrow> trunc k n = 0"
  by (simp add: trunc_def)

lemma trunc_cover:
  assumes "x < n" "trunc i n \<le> x"
  shows "\<exists>k < i. bit n k \<and> x \<in> span (trunc (Suc k) n, k)"
  using assms(2)
proof (induction i)
  case 0
  then show ?case using assms(1) by simp
next
  case (Suc i)
  show ?case
  proof (cases "trunc i n \<le> x")
    case True
    then show ?thesis using Suc.IH less_Suc_eq by blast
  next
    case False
    then show ?thesis using Suc.prems trunc_Suc [of i n] by (intro exI [of _ i]) (auto split: if_splits)
  qed
qed

lemma init_loop_ok:
  assumes "i \<le> MAX_BLOCK_POW" "n \<le> length (buddies bs)" "length (indices bs) = MAX_BLOCK_POW"
    and "\<And>k. k < MAX_BLOCK_POW \<Longrightarrow> total_pages bs AND POWER_OF_2 k \<noteq> 0 \<longleftrightarrow> bit n k"
  shows "\<exists>B I. init_loop i (int (trunc i n)) bs = Inr (bs\<lparr>buddies := B, indices := I\<rparr>) \<and>
     length B = length (buddies bs) \<and> length I = MAX_BLOCK_POW \<and>
     (\<forall>k < i. bit n k \<longrightarrow> bpow (B ! trunc (Suc k) n) = k \<and> bnext (B ! trunc (Suc k) n) = -1) \<and>
     (\<forall>k < MAX_BLOCK_POW. I ! k = (if k < i \<and> bit n k then int (trunc (Suc k) n) else indices bs ! k)) \<and>
     (\<forall>x < trunc i n. B ! x = buddies bs ! x)"
  using assms
proof (induction i arbitrary: bs)
  case 0
  then show ?case by (intro exI [of _ "buddies bs"] exI [of _ "indices bs"]) simp
next
  case (Suc i)
  let ?p = "trunc (Suc i) n"
  show ?case
  proof (cases "bit n i")
    case False
    then have "trunc i n = ?p" using trunc_Suc [of i n] by simp
    moreover have "init_loop (Suc i) (int ?p) bs = init_loop i (int ?p) bs"
      using Suc.prems(1,4) False by simp
    moreover have "(k < Suc i \<and> bit n k) = (k < i \<and> bit n k)" for k
      using False by (auto simp: less_Suc_eq)
    moreover have "(k < Suc i \<longrightarrow> bit n k \<longrightarrow> P) = (k < i \<longrightarrow> bit n k \<longrightarrow> P)" for k P
      using False by (auto simp: less_Suc_eq)
    ultimately show ?thesis using Suc.IH [OF _ Suc.prems(2-4)] Suc.prems(1) by simp
  next
    case True
    have p: "trunc i n = ?p + 2 ^ i" using True trunc_Suc [of i n] by simp
    have "0 < (2 :: nat) ^ i" by simp
    then have pl: "?p < length (buddies bs)" "?p < trunc i n"
      using p trunc_le [of i n] Suc.prems(2) by linarith+
    define bs1 where "bs1 = bs\<lparr>buddies := (buddies bs)[?p := (buddies bs ! ?p)\<lparr>bpow := i, bnext := -1\<rparr>],
                               indices := (indices bs)[i := int ?p]\<rparr>"
    have step: "init_loop (Suc i) (int ?p) bs = init_loop i (int (trunc i n)) bs1"
      using Suc.prems(1,3,4) True pl(1) p by (simp add: bs1_def)
    obtain B I where BI: "init_loop i (int (trunc i n)) bs1 = Inr (bs1\<lparr>buddies := B, indices := I\<rparr>)"
      "length B = length (buddies bs1)" "length I = MAX_BLOCK_POW"
      "\<forall>k < i. bit n k \<longrightarrow> bpow (B ! trunc (Suc k) n) = k \<and> bnext (B ! trunc (Suc k) n) = -1"
      "\<forall>k < MAX_BLOCK_POW. I ! k = (if k < i \<and> bit n k then int (trunc (Suc k) n) else indices bs1 ! k)"
      "\<forall>x < trunc i n. B ! x = buddies bs1 ! x"
      using Suc.IH [of bs1] Suc.prems by (auto simp: bs1_def)
    have "B ! ?p = (buddies bs ! ?p)\<lparr>bpow := i, bnext := -1\<rparr>"
      using BI(6) pl by (simp add: bs1_def)
    moreover have "B ! x = buddies bs ! x" if "x < ?p" for x
      using BI(6) that p by (simp add: bs1_def)
    moreover have "init_loop (Suc i) (int ?p) bs = Inr (bs\<lparr>buddies := B, indices := I\<rparr>)"
      unfolding step BI(1) by (simp add: bs1_def)
    ultimately show ?thesis using BI(2-5) Suc.prems(1,3) True
      by (intro exI [of _ B] exI [of _ I]) (auto simp: bs1_def less_Suc_eq nth_list_update)
  qed
qed

lemma total_bits: "k < 64 \<Longrightarrow> t AND POWER_OF_2 k \<noteq> 0 \<longleftrightarrow> bit (unat t) k" for t :: u64
  by (simp add: POWER_OF_2_def push_bit_eq_mult and_exp_eq_0_iff_not_bit bit_unat)

lemma trunc_start:
  assumes "bit n k"
  shows "2 ^ k dvd trunc (Suc k) n" "trunc (Suc k) n + 2 ^ k = trunc k n"
  using trunc_Suc [of k n] assms by (simp_all add: trunc_def)

lemma trunc_disjoint:
  assumes "bit n j" "bit n k" "j < k"
  shows "span (trunc (Suc j) n, j) \<inter> span (trunc (Suc k) n, k) = {}"
proof -
  have "trunc (Suc k) n + 2 ^ k \<le> trunc (Suc j) n"
    using trunc_start(2) [OF assms(2)] trunc_mono [of "Suc j" k n] assms(3) by simp
  then show ?thesis by auto
qed

definition init_free :: "nat \<Rightarrow> nat \<Rightarrow> nat list" where
  "init_free n k = (if bit n k then [trunc (Suc k) n] else [])"

lemma init_merged: "merged (freeset (init_free n))"
proof -
  have "y = x" if "(x, k) \<in> freeset (init_free n)" "(y, k) \<in> freeset (init_free n)" for x y k
    using that by (auto simp: freeset_def init_free_def split: if_splits)
  then show ?thesis unfolding merged_def
    by (metis buddy_of.simps buddy_of_neq surj_pair)
qed

lemma init_core:
  assumes n: "n < 2 ^ MAX_BLOCK_POW" "n \<le> length B"
    and B: "\<And>k. k < MAX_BLOCK_POW \<Longrightarrow> bit n k \<Longrightarrow> bpow (B ! trunc (Suc k) n) = k"
    and used: "\<And>i. i < n \<Longrightarrow> bused (B ! i) = BUDDY_BLOCK_FREE"
  shows "core n B (freeset (init_free n)) {}"
proof -
  have mem: "(x, p) \<in> freeset (init_free n) \<longleftrightarrow> p < MAX_BLOCK_POW \<and> bit n p \<and> x = trunc (Suc p) n" for x p
    by (auto simp: freeset_def init_free_def)
  have inside: "trunc (Suc p) n + 2 ^ p \<le> n" if "bit n p" for p
    using trunc_start(2) [OF that] trunc_le [of p n] by simp
  have "block_ok n B b" if "b \<in> freeset (init_free n)" for b
    using that B trunc_start(1) inside by (cases b) (auto simp: mem block_ok_def)
  moreover have "marked BUDDY_BLOCK_FREE B b" if "b \<in> freeset (init_free n)" for b
    using that used inside by (cases b) (fastforce simp: mem marked_def)
  moreover have "disjoint_blocks (freeset (init_free n))"
    unfolding disjoint_blocks_def
  proof (clarify, rule ccontr)
    fix x p y q assume b: "(x, p) \<in> freeset (init_free n)" "(y, q) \<in> freeset (init_free n)"
      and ne: "\<not> (x = y \<and> p = q)" and int: "span (x, p) \<inter> span (y, q) \<noteq> {}"
    then have "p \<noteq> q" by (auto simp: mem)
    then show False
      using trunc_disjoint [of n p q] trunc_disjoint [of n q p] b int
      by (metis Int_commute mem nat_neq_iff)
  qed
  ultimately show ?thesis using n by (simp add: core_def)
qed

lemma init_cover:
  assumes "n < 2 ^ MAX_BLOCK_POW"
  shows "\<Union> (span ` freeset (init_free n)) = {..<n}"
proof
  show "\<Union> (span ` freeset (init_free n)) \<subseteq> {..<n}"
  proof
    fix x assume "x \<in> \<Union> (span ` freeset (init_free n))"
    then obtain k where k: "bit n k" "x \<in> span (trunc (Suc k) n, k)"
      by (auto simp: freeset_def init_free_def split: if_splits)
    then show "x \<in> {..<n}" using trunc_start(2) [OF k(1)] trunc_le [of k n] by simp
  qed
  show "{..<n} \<subseteq> \<Union> (span ` freeset (init_free n))"
  proof
    fix x assume "x \<in> {..<n}"
    then obtain k where "k < MAX_BLOCK_POW" "bit n k" "x \<in> span (trunc (Suc k) n, k)"
      using trunc_cover [of x n MAX_BLOCK_POW] assms by (auto simp: trunc_big)
    then show "x \<in> \<Union> (span ` freeset (init_free n))"
      by (intro UN_I [of "(trunc (Suc k) n, k)"]) (simp_all add: freeset_def init_free_def)
  qed
qed

lemma bit_mod_below: "k < p \<Longrightarrow> bit (n mod 2 ^ p) k \<longleftrightarrow> bit n k" for n :: nat
  by (simp add: bit_take_bit_iff flip: take_bit_eq_mod)

lemma init_run_ok:
  assumes len: "unat (total_pages bs) \<le> length (buddies bs)"
    and ind: "indices bs = replicate MAX_BLOCK_POW (-1)"
  shows "\<exists>bs'. bindO (init_loop MAX_BLOCK_POW 0 bs)
            (\<lambda>bs. mark_loop BUDDY_BLOCK_FREE 0 (unat (total_pages bs)) bs) = Inr bs' \<and>
          same_rest bs bs' \<and> buddy_inv bs' (init_free (reach_pages bs)) {}"
proof -
  define n where "n = reach_pages bs"
  have n: "n < 2 ^ MAX_BLOCK_POW" "n \<le> unat (total_pages bs)" by (simp_all add: n_def reach_pages_def)
  have bits: "total_pages bs AND POWER_OF_2 k \<noteq> 0 \<longleftrightarrow> bit n k" if "k < MAX_BLOCK_POW" for k
    using that total_bits [of k "total_pages bs"] bit_mod_below [OF that, of "unat (total_pages bs)"]
    by (simp add: n_def reach_pages_def MAX_BLOCK_POW_def)
  obtain B I where 1: "init_loop MAX_BLOCK_POW 0 bs = Inr (bs\<lparr>buddies := B, indices := I\<rparr>)"
    "length B = length (buddies bs)" "length I = MAX_BLOCK_POW"
    "\<And>k. k < MAX_BLOCK_POW \<Longrightarrow> bit n k \<Longrightarrow> bpow (B ! trunc (Suc k) n) = k \<and> bnext (B ! trunc (Suc k) n) = -1"
    "\<And>k. k < MAX_BLOCK_POW \<Longrightarrow> I ! k = (if bit n k then int (trunc (Suc k) n) else -1)"
    using init_loop_ok [of MAX_BLOCK_POW n bs, OF le_refl _ _ bits] len n ind trunc_big [OF n(1)] by auto
  define bs1 where "bs1 = bs\<lparr>buddies := B, indices := I\<rparr>"
  obtain B' where 2: "mark_loop BUDDY_BLOCK_FREE (int 0) (unat (total_pages bs)) bs1 = Inr (bs1\<lparr>buddies := B'\<rparr>)"
    "length B' = length B"
    "\<And>i. i < length B' \<Longrightarrow> B' ! i = (if i < unat (total_pages bs) then (B ! i)\<lparr>bused := BUDDY_BLOCK_FREE\<rparr> else B ! i)"
    using mark_loop_ok [of 0 "unat (total_pages bs)" bs1 BUDDY_BLOCK_FREE] len 1(2) by (auto simp: bs1_def)
  have lt: "trunc (Suc k) n < length B" if "bit n k" for k
  proof -
    have "0 < (2 :: nat) ^ k" by simp
    then show ?thesis using trunc_start(2) [OF that] trunc_le [of k n] n(2) len 1(2) by linarith
  qed
  have keep: "bpow (B' ! i) = bpow (B ! i)" "bnext (B' ! i) = bnext (B ! i)" if "i < length B" for i
    using 2(2,3) that by simp_all
  have "core n B' (freeset (init_free n)) {}"
    using n 1(2,4) 2(2,3) len lt keep by (intro init_core) simp_all
  moreover have "chains I B' (init_free n)"
    using 1(3-5) 2(2) lt keep by (simp add: chains_def init_free_def)
  ultimately have "buddy_inv (bs1\<lparr>buddies := B'\<rparr>) (init_free n) {}"
    by (simp add: buddy_inv_def bs1_def n_def reach_pages_def)
  moreover have "same_rest bs (bs1\<lparr>buddies := B'\<rparr>)" using 1(2) 2(2) by (simp add: bs1_def)
  ultimately show ?thesis using 1(1) 2(1) unfolding bs1_def [symmetric] n_def [symmetric]
    by (simp add: bs1_def)
qed

section \<open>The properties of the allocator\<close>

lemma buddy_inv_at: "buddy_inv bs F A \<longleftrightarrow> inv_at (reach_pages bs) bs F {} A"
  by (simp add: buddy_inv_def inv_at_def)

lemma same_rest_fields:
  assumes "same_rest bs bs'"
  shows "reach_pages bs' = reach_pages bs" "bs_lock bs' = bs_lock bs" "free_pages bs' = free_pages bs"
    "total_pages bs' = total_pages bs" "managed_start bs' = managed_start bs"
    "length (buddies bs') = length (buddies bs)"
  using assms by (auto simp: same_rest_def reach_pages_def)

definition covered :: "(nat \<Rightarrow> nat list) \<Rightarrow> nat set" where
  "covered F = \<Union> (span ` freeset F)"

lemma init_data_ok:
  "\<exists>bs1. buddy_aux_data_init ps pe bs = Inr bs1 \<and> buddies bs1 = buddies bs \<and> bs_lock bs1 = bs_lock bs \<and>
     indices bs1 = replicate MAX_BLOCK_POW (-1) \<and> total_pages bs1 = m_length bs1 div PAGE_SIZE \<and>
     free_pages bs1 = total_pages bs1 \<and> managed_end bs1 = pe \<and> m_length bs1 = pe - managed_start bs1"
  by (simp add: buddy_aux_data_init_def align_to_def PAGE_SIZE_def Let_def)

lemma alloc_any:
  assumes inv: "buddy_inv bs F A" and k: "p \<le> k" "k < MAX_BLOCK_POW" "F k \<noteq> []"
  shows "\<exists>r bs' F'. buddy_alloc_index p bs = Inr (int r, bs') \<and> same_rest bs bs' \<and> (r, p) \<notin> A \<and>
           buddy_inv bs' F' (insert (r, p) A) \<and>
           (F p = [] \<longrightarrow> span (r, p) \<union> covered F' = covered F) \<and>
           (F p \<noteq> [] \<longrightarrow> F p = r # tl (F p) \<and> F' = F(p := [])) \<and>
           (merged (freeset F) \<longrightarrow> merged (freeset F'))"
proof -
  have inv: "inv_at (reach_pages bs) bs F {} A" and p: "p < MAX_BLOCK_POW"
    using assms by (simp_all add: buddy_inv_at)
  show ?thesis
  proof (cases "F p")
    case Nil
    then have "p < k" using k by (cases "p = k") auto
    then show ?thesis using alloc_cases(2) [OF inv p Nil _ k(2,3)] same_rest_fields(1) Nil
      unfolding buddy_inv_at covered_def by metis
  next
    case (Cons r rest)
    have "merged (freeset F) \<longrightarrow> merged (freeset (F(p := [])))" using merged_upd [of F "[]" p] by simp
    then show ?thesis using alloc_cases(1) [OF inv p Cons] same_rest_fields(1) Cons
      unfolding buddy_inv_at by (metis list.distinct(1) list.sel(3))
  qed
qed

lemma free_any:
  assumes "buddy_inv bs F A" "(x, p) \<in> A"
  shows "\<exists>bs' F'. buddy_free_index (int x) bs = Inr (p, bs') \<and> same_rest bs bs' \<and>
           buddy_inv bs' F' (A - {(x, p)}) \<and> covered F' = span (x, p) \<union> covered F \<and>
           absorbs (freeset F) (x, p) (freeset F') \<and> (\<exists>k \<ge> p. k < MAX_BLOCK_POW \<and> F' k \<noteq> [])"
  using free_index_ok [of "reach_pages bs" bs F A x p] assms same_rest_fields(1)
  unfolding buddy_inv_at covered_def by metis

text \<open>C23. \<open>buddy_init\<close> on a region whose descriptor array has an entry per page: exactly
  the first \<open>total_pages mod 4096\<close> pages are free, each in one block, the blocks satisfy
  the invariant with nothing allocated, and no two of them are buddies. The other pages
  are in no list although \<open>free_pages\<close> counts them: of 5000 pages only the first 904 can be
  handed out, of 4096 pages none.\<close>

theorem buddy_init_establishes:
  assumes "buddy_aux_data_init ps pe bs = Inr bs0" "unat (total_pages bs0) \<le> length (buddies bs)"
  shows "\<exists>bs' F. buddy_init ps pe bs = Inr bs' \<and> buddy_inv bs' F {} \<and> merged (freeset F) \<and>
           covered F = {..<unat (total_pages bs0) mod 4096} \<and>
           total_pages bs' = total_pages bs0 \<and> free_pages bs' = total_pages bs0"
proof -
  let ?bs = "bs\<lparr>bs_lock := spinlock_init ''buddy system''\<rparr>"
  obtain bs1 where 1: "buddy_aux_data_init ps pe ?bs = Inr bs1" "buddies bs1 = buddies bs"
    "indices bs1 = replicate MAX_BLOCK_POW (-1)" "free_pages bs1 = total_pages bs1"
    using init_data_ok [of ps pe ?bs] by auto
  have t: "total_pages bs1 = total_pages bs0" using 1(1) assms(1)
    by (auto simp: buddy_aux_data_init_def align_to_def PAGE_SIZE_def Let_def buddy_get_self_memreq_def)
  then have "unat (total_pages bs1) \<le> length (buddies bs1)" using assms(2) 1(2) by simp
  from init_run_ok [OF this 1(3)] obtain bs2 where 2: "bindO (init_loop MAX_BLOCK_POW 0 bs1)
            (\<lambda>bs. mark_loop BUDDY_BLOCK_FREE 0 (unat (total_pages bs)) bs) = Inr bs2"
    "same_rest bs1 bs2" "buddy_inv bs2 (init_free (reach_pages bs1)) {}"
    by blast
  have "covered (init_free (reach_pages bs1)) = {..<unat (total_pages bs0) mod 4096}"
    using init_cover [of "reach_pages bs1"] t
    by (simp add: covered_def reach_pages_def MAX_BLOCK_POW_def)
  then show ?thesis using 1 2 t same_rest_fields [OF 2(2)] init_merged by (auto simp: buddy_init_def)
qed

text \<open>C10. Allocation when some list of an order from the requested one on is non-empty:
  the call succeeds, the block it returns was not allocated before, and the
  invariant holds with the block added to the allocated ones, so it is aligned, inside the
  managed pages and disjoint from every other block. When the list of the requested order
  itself is empty no page is lost; otherwise see \<open>buddy_alloc_drops_list\<close>.\<close>

theorem buddy_alloc_safe:
  assumes "buddy_inv bs F A" "p \<le> k" "k < MAX_BLOCK_POW" "F k \<noteq> []"
  shows "\<exists>r bs' F'. buddy_alloc_index p bs = Inr (int r, bs') \<and> same_rest bs bs' \<and> (r, p) \<notin> A \<and>
           buddy_inv bs' F' (insert (r, p) A) \<and>
           (F p = [] \<longrightarrow> span (r, p) \<union> covered F' = covered F)"
  using alloc_any [OF assms] by blast

text \<open>Taking a block from a non-empty list sets the head of that list to \<open>-1\<close>: the
  invariant holds afterwards with an empty list, the other blocks of that order are lost
  to the allocator although they are not in use.\<close>

lemma buddy_alloc_drops_list:
  assumes "buddy_inv bs F A" "p < MAX_BLOCK_POW" "F p = r # rest"
  shows "\<exists>bs'. buddy_alloc_index p bs = Inr (int r, bs') \<and> buddy_inv bs' (F(p := [])) (insert (r, p) A)"
  using alloc_cases(1) [of "reach_pages bs" bs F A p r rest] assms same_rest_fields(1) unfolding buddy_inv_at by metis

text \<open>C31. When no list from the requested order on has a block, the call does not
  return an error: after storing \<open>-1\<close> in \<open>ret\<close> it splits from order \<open>MAX_BLOCK_POW\<close>,
  reading \<open>indices\<close> out of bounds.\<close>

theorem buddy_alloc_exhausted:
  assumes "buddy_inv bs F A" "p < MAX_BLOCK_POW" "\<forall>k \<in> {p..<MAX_BLOCK_POW}. F k = []"
  shows "buddy_alloc_index p bs = Inl Undefined"
  using alloc_cases(3) [OF _ assms(2), of "reach_pages bs" bs F A] assms(1,3) by (simp add: buddy_inv_at)

lemma buddy_inv_aligned: "buddy_inv bs F A \<Longrightarrow> c \<in> freeset F \<union> A \<Longrightarrow> aligned c"
  using core_block_ok [of "reach_pages bs" "buddies bs" "freeset F" A c]
  by (cases c) (auto simp: buddy_inv_def block_ok_def aligned_def)

text \<open>The free lists are determined by the set of free blocks.\<close>

lemma buddy_inv_lists:
  assumes "buddy_inv bs F' A" "buddy_inv bs0 F A0" "freeset F' = freeset F"
  shows "buddy_inv bs F A"
proof -
  have "F' k = F k" if "k < MAX_BLOCK_POW" for k
  proof -
    have "set (F' k) = set (F k)" using assms(3) that unfolding freeset_def by blast
    then show ?thesis
      using assms(1,2) that strict_sorted_equal [of "F k" "F' k"] by (simp add: buddy_inv_def chains_def)
  qed
  then show ?thesis using assms(1) by (simp add: buddy_inv_def chains_def assms(3))
qed

text \<open>
  Allocating and freeing again: the same blocks are in use; the free blocks are exactly
  those from before when they were merged and the list of the order was empty; when it was
  not, its blocks other than the one taken are gone.
\<close>

lemma alloc_free_any:
  assumes "buddy_inv bs F A" "p \<le> k" "k < MAX_BLOCK_POW" "F k \<noteq> []"
  shows "\<exists>r bs1 F1. buddy_alloc_index p bs = Inr (int r, bs1) \<and> same_rest bs bs1 \<and> (r, p) \<notin> A \<and>
     buddy_inv bs1 F1 (insert (r, p) A) \<and>
     (\<forall>bs'. buddies bs' = buddies bs1 \<and> indices bs' = indices bs1 \<and> total_pages bs' = total_pages bs1 \<longrightarrow>
       (\<exists>bs2 F2. buddy_free_index (int r) bs' = Inr (p, bs2) \<and> same_rest bs' bs2 \<and> buddy_inv bs2 F2 A \<and>
        covered F2 = (if F p = [] then covered F else span (hd (F p), p) \<union> covered (F(p := []))) \<and>
        (merged (freeset F) \<longrightarrow> merged (freeset F2) \<and> (F p = [] \<longrightarrow> buddy_inv bs2 F A)) \<and>
        (\<exists>j \<ge> p. j < MAX_BLOCK_POW \<and> F2 j \<noteq> [])))"
proof -
  obtain r bs1 F1 where a: "buddy_alloc_index p bs = Inr (int r, bs1)" "same_rest bs bs1" "(r, p) \<notin> A"
    "buddy_inv bs1 F1 (insert (r, p) A)" "F p = [] \<longrightarrow> span (r, p) \<union> covered F1 = covered F"
    "F p \<noteq> [] \<longrightarrow> F p = r # tl (F p) \<and> F1 = F(p := [])"
    "merged (freeset F) \<longrightarrow> merged (freeset F1)"
    using alloc_any [OF assms] by blast
  have "\<exists>bs2 F2. buddy_free_index (int r) bs' = Inr (p, bs2) \<and> same_rest bs' bs2 \<and> buddy_inv bs2 F2 A \<and>
      covered F2 = (if F p = [] then covered F else span (hd (F p), p) \<union> covered (F(p := []))) \<and>
      (merged (freeset F) \<longrightarrow> merged (freeset F2) \<and> (F p = [] \<longrightarrow> buddy_inv bs2 F A)) \<and>
      (\<exists>j \<ge> p. j < MAX_BLOCK_POW \<and> F2 j \<noteq> [])"
    if bs': "buddies bs' = buddies bs1" "indices bs' = indices bs1" "total_pages bs' = total_pages bs1" for bs'
  proof -
    have inv1: "buddy_inv bs' F1 (insert (r, p) A)" using a(4) bs' by (simp add: buddy_inv_def reach_pages_def)
    have "insert (r, p) A - {(r, p)} = A" using a(3) by auto
    then obtain bs2 F2 where f: "buddy_free_index (int r) bs' = Inr (p, bs2)" "same_rest bs' bs2"
      "buddy_inv bs2 F2 A" "covered F2 = span (r, p) \<union> covered F1" "absorbs (freeset F1) (r, p) (freeset F2)"
      "\<exists>j \<ge> p. j < MAX_BLOCK_POW \<and> F2 j \<noteq> []"
      using free_any [OF inv1, of r p] by auto
    have m: "merged (freeset F2)" if "merged (freeset F)"
      using absorbs_merged [OF f(5)] a(7) that buddy_inv_aligned [OF inv1] by blast
    have cov: "covered F2 = (if F p = [] then covered F else span (hd (F p), p) \<union> covered (F(p := [])))"
    proof (cases "F p = []")
      case False
      then have "hd (F p) = r" "F1 = F(p := [])" using a(6) by (metis list.sel(1), blast)
      then show ?thesis using f(4) False by simp
    qed (use f(4) a(5) in simp)
    have "buddy_inv bs2 F A" if "merged (freeset F)" "F p = []"
    proof (rule buddy_inv_lists [OF f(3) assms(1)])
      have d: "disjoint_blocks (freeset F)" "disjoint_blocks (freeset F2)"
        using assms(1) f(3) by (simp_all add: buddy_inv_def core_def disjoint_blocks_def)
      have al: "\<forall>c \<in> freeset F. aligned c" "\<forall>c \<in> freeset F2. aligned c"
        using buddy_inv_aligned [OF assms(1)] buddy_inv_aligned [OF f(3)] by blast+
      have "\<Union> (span ` freeset F2) = \<Union> (span ` freeset F)" using cov that(2) by (simp add: covered_def)
      then show "freeset F2 = freeset F"
        using merged_sub [OF that(1) al(1) d(1) m [OF that(1)] al(2)]
          merged_sub [OF m [OF that(1)] al(2) d(2) that(1) al(1)] by auto
    qed
    then show ?thesis using f m cov by (intro exI [of _ bs2] exI [of _ F2]) (simp del: span.simps)
  qed
  then show ?thesis using a(1-4) by blast
qed

text \<open>C9. Freeing an allocated block succeeds and merges it with its buddies, order by
  order: the free blocks afterwards are those reached from the ones before by letting the
  block absorb its buddy, the block of twice the size its own buddy, and so on as long as
  that buddy is free. So the block is part of a free block whose own buddy is not free, and
  when no two buddies were free side by side before, none are afterwards. The invariant
  holds without the block, exactly its pages have become free, and a block of its order or
  a greater one is available.\<close>

theorem buddy_free_safe:
  assumes "buddy_inv bs F A" "(x, p) \<in> A"
  shows "\<exists>bs' F'. buddy_free_index (int x) bs = Inr (p, bs') \<and> same_rest bs bs' \<and>
           buddy_inv bs' F' (A - {(x, p)}) \<and> covered F' = span (x, p) \<union> covered F \<and>
           absorbs (freeset F) (x, p) (freeset F') \<and>
           (\<exists>c \<in> freeset F'. span (x, p) \<subseteq> span c \<and> buddy_of c \<notin> freeset F') \<and>
           (merged (freeset F) \<longrightarrow> merged (freeset F')) \<and>
           (\<exists>k \<ge> p. k < MAX_BLOCK_POW \<and> F' k \<noteq> [])"
proof -
  obtain bs' F' where r: "buddy_free_index (int x) bs = Inr (p, bs')" "same_rest bs bs'"
    "buddy_inv bs' F' (A - {(x, p)})" "covered F' = span (x, p) \<union> covered F"
    "absorbs (freeset F) (x, p) (freeset F')" "\<exists>k \<ge> p. k < MAX_BLOCK_POW \<and> F' k \<noteq> []"
    using free_any [OF assms] by blast
  have al: "aligned (x, p)" "\<forall>c \<in> freeset F. aligned c"
    using buddy_inv_aligned [OF assms(1)] assms(2) by blast+
  have "\<exists>c \<in> freeset F'. span (x, p) \<subseteq> span c \<and> buddy_of c \<notin> freeset F'"
    using absorbs_inside [OF r(5) al] .
  then show ?thesis using r absorbs_merged [OF r(5) _ al]
    by (intro exI [of _ bs'] exI [of _ F'] conjI impI)
qed

section \<open>A small memory\<close>

text \<open>Four pages, the first of which holds the descriptors.\<close>

definition blank_block :: buddy_block where
  "blank_block = \<lparr>bnext = 0, adat = 0, bpow = 0, bused = 0\<rparr>"

definition raw_memory :: buddy_system where
  "raw_memory = \<lparr>pa_start = 0, pa_end = 0, pa_length = 0, buddies = replicate 4 blank_block,
     managed_start = 0, managed_end = 0, m_length = 0, free_pages = 0, total_pages = 0,
     indices = [], bs_lock = spinlock_init ''buddy system''\<rparr>"

definition or_raw :: "buddy_system outcome \<Rightarrow> buddy_system" where
  "or_raw r = (case r of Inr bs \<Rightarrow> bs | Inl e \<Rightarrow> raw_memory)"

definition memory3 :: buddy_system where
  "memory3 = or_raw (buddy_init 0 16384 raw_memory)"

definition memory0 :: buddy_system where
  "memory0 = or_raw (buddy_init 0 4096 raw_memory)"

lemma buddy_init_run:
  assumes "buddy_aux_data_init ps pe bs = Inr bs0" "unat (total_pages bs0) \<le> length (buddies bs)"
    and "total_pages bs0 = t"
  shows "buddy_inv (or_raw (buddy_init ps pe bs)) (init_free (unat t mod 2 ^ MAX_BLOCK_POW)) {}"
proof -
  let ?bs = "bs\<lparr>bs_lock := spinlock_init ''buddy system''\<rparr>"
  obtain bs1 where 1: "buddy_aux_data_init ps pe ?bs = Inr bs1" "buddies bs1 = buddies bs"
    "indices bs1 = replicate MAX_BLOCK_POW (-1)" "free_pages bs1 = total_pages bs1"
    using init_data_ok [of ps pe ?bs] by auto
  have t: "total_pages bs1 = total_pages bs0" using 1(1) assms(1)
    by (auto simp: buddy_aux_data_init_def align_to_def PAGE_SIZE_def Let_def buddy_get_self_memreq_def)
  then have "unat (total_pages bs1) \<le> length (buddies bs1)" using assms(2) 1(2) by simp
  from init_run_ok [OF this 1(3)] show ?thesis
    using 1(1) t assms(3) by (auto simp: buddy_init_def or_raw_def reach_pages_def)
qed

lemma memory3_inv: "buddy_inv memory3 (init_free 3) {}"
  using buddy_init_run [of 0 16384 raw_memory _ 3]
  by (simp add: memory3_def buddy_aux_data_init_def align_to_def PAGE_SIZE_def Let_def MAX_BLOCK_POW_def
      buddy_get_self_memreq_def SIZEOF_BUDDY_BLOCK_def raw_memory_def)

lemma memory0_inv: "buddy_inv memory0 (init_free 0) {}"
  using buddy_init_run [of 0 4096 raw_memory _ 0]
  by (simp add: memory0_def buddy_aux_data_init_def align_to_def PAGE_SIZE_def Let_def MAX_BLOCK_POW_def
      buddy_get_self_memreq_def SIZEOF_BUDDY_BLOCK_def raw_memory_def)

text \<open>Two pages allocated and one freed again: the list of order 0 has two blocks.\<close>

definition fragmented :: buddy_system where
  "fragmented = or_raw (bindO (buddy_alloc_index 0 memory3) (\<lambda>(r, bs).
     bindO (buddy_alloc_index 0 bs) (\<lambda>(q, bs).
     bindO (buddy_free_index r bs) (\<lambda>(p, bs). Inr bs))))"

lemma seg_two:
  assumes "seg B i xs (-1)" "i = int a" "bnext (B ! a) = int b" "bnext (B ! b) = -1"
  shows "xs = [a, b]"
  using assms by (cases xs; cases "tl xs"; cases "tl (tl xs)") auto

lemma init_free3: "init_free 3 0 = [2]" "init_free 3 (Suc 0) = [0]"
  by (simp_all add: init_free_def trunc_def bit_iff_odd)

lemma memory3_alloc: "\<exists>bs F. buddy_alloc_index 0 memory3 = Inr (2, bs) \<and> buddy_inv bs F {(2, 0)} \<and> F 1 = [0]"
proof -
  have "inv_at (reach_pages memory3) memory3 (init_free 3) {} {}" "0 < MAX_BLOCK_POW"
    using memory3_inv buddy_inv_at by (auto simp: MAX_BLOCK_POW_def)
  from alloc_cases(1) [OF this, of 2 "[]"] obtain bs where
    b: "buddy_alloc_index 0 memory3 = Inr (2, bs)" "same_rest memory3 bs"
    "inv_at (reach_pages memory3) bs ((init_free 3)(0 := [])) {} {(2, 0)}"
    by (auto simp: init_free3)
  then have "buddy_inv bs ((init_free 3)(0 := [])) {(2, 0)}"
    unfolding buddy_inv_at same_rest_fields(1) [OF b(2)] by simp
  then show ?thesis using b(1) by (intro exI conjI) (assumption, assumption, simp add: init_free3)
qed

lemma fragmented_values:
  "indices fragmented ! 0 = 1 \<and> bnext (buddies fragmented ! 1) = 2 \<and> bnext (buddies fragmented ! 2) = -1"
  by code_simp

lemma fragmented_used: "bindO (buddy_alloc_index 0 memory3) (\<lambda>(r, bs).
     bindO (buddy_alloc_index 0 bs) (\<lambda>(q, bs). Inr q)) = Inr 0"
  by code_simp

lemma fragmented_inv: "\<exists>F. buddy_inv fragmented F {(0, 0)} \<and> F 0 = [1, 2]"
proof -
  obtain bs1 F1 where 1: "buddy_alloc_index 0 memory3 = Inr (2, bs1)" "buddy_inv bs1 F1 {(2, 0)}" "F1 1 = [0]"
    using memory3_alloc by blast
  obtain r bs2 F2 where 2: "buddy_alloc_index 0 bs1 = Inr (int r, bs2)" "buddy_inv bs2 F2 {(r, 0), (2, 0)}"
    using alloc_any [OF 1(2), of 0 1] 1(3) by (auto simp: MAX_BLOCK_POW_def)
  obtain bs3 F3 where 3: "buddy_free_index (int 2) bs2 = Inr (0, bs3)" "buddy_inv bs3 F3 ({(r, 0), (2, 0)} - {(2, 0)})"
    using free_any [OF 2(2), of 2 0] by auto
  have r: "r = 0" using 1(1) 2(1) fragmented_used by simp
  have frag: "fragmented = bs3" using 1(1) 2(1) 3(1) by (simp add: fragmented_def or_raw_def)
  have "seg (buddies bs3) (indices bs3 ! 0) (F3 0) (-1)"
    using 3(2) by (simp add: buddy_inv_def chains_def MAX_BLOCK_POW_def)
  then have "F3 0 = [1, 2]" using seg_two [of "buddies bs3" "indices bs3 ! 0" "F3 0" 1 2] fragmented_values
    by (simp add: frag)
  moreover have "{(r, 0), (2, 0)} - {(2, 0)} = {(0 :: nat, 0 :: nat)}" using r by auto
  ultimately show ?thesis using 3(2) frag by auto
qed

theorem buddy_init_establishes_witness:
  "\<exists>bs' F. buddy_init 0 16384 raw_memory = Inr bs' \<and> buddy_inv bs' F {} \<and> merged (freeset F) \<and>
           covered F = {..<3} \<and> total_pages bs' = 3 \<and> free_pages bs' = 3"
  using buddy_init_establishes [of 0 16384 raw_memory]
  by (simp add: buddy_aux_data_init_def align_to_def PAGE_SIZE_def Let_def
      buddy_get_self_memreq_def SIZEOF_BUDDY_BLOCK_def raw_memory_def)

theorem buddy_alloc_safe_witness:
  "\<exists>r bs' F'. buddy_alloc_index 1 memory3 = Inr (int r, bs') \<and> buddy_inv bs' F' {(r, 1)}"
  using buddy_alloc_safe [OF memory3_inv, of 1 1] by (auto simp: init_free3 MAX_BLOCK_POW_def)

theorem buddy_alloc_exhausted_witness: "buddy_alloc_index 2 memory0 = Inl Undefined"
  using buddy_alloc_exhausted [OF memory0_inv, of 2] by (simp add: init_free_def MAX_BLOCK_POW_def)

text \<open>Freeing page 0 merges it with page 1.\<close>

theorem buddy_free_safe_witness:
  "\<exists>bs F. buddy_free_index 0 fragmented = Inr (0, bs) \<and> buddy_inv bs F {} \<and>
     (\<exists>c \<in> freeset F. {0, 1} \<subseteq> span c) \<and> (1, 0) \<notin> freeset F"
proof -
  obtain F where F: "buddy_inv fragmented F {(0, 0)}" "F 0 = [1, 2]" using fragmented_inv by blast
  obtain bs F' where r: "buddy_free_index (int 0) fragmented = Inr (0, bs)"
    "buddy_inv bs F' ({(0, 0)} - {(0, 0)})" "absorbs (freeset F) (0, 0) (freeset F')"
    "\<exists>c \<in> freeset F'. span (0, 0) \<subseteq> span c \<and> buddy_of c \<notin> freeset F'"
    using buddy_free_safe [OF F(1), of 0 0] by blast
  have "(1, 0) \<in> freeset F" using F(2) by (simp add: freeset_def MAX_BLOCK_POW_def)
  then have "absorbs (freeset F - {(1, 0)}) (0, 1) (freeset F')"
    using r(3) by (auto elim: absorbs_cases)
  moreover have "\<forall>c \<in> freeset F. aligned c" using buddy_inv_aligned [OF F(1)] by blast
  ultimately obtain c where c: "c \<in> freeset F'" "span (0, 1) \<subseteq> span c"
    using absorbs_inside [of "freeset F - {(1, 0)}" "(0, 1)" "freeset F'"] by (auto simp: aligned_def)
  have "disjoint_blocks (freeset F')" using r(2) by (simp add: buddy_inv_def core_def)
  moreover have "c \<noteq> (1, 0)" "1 \<in> span c" using c(2) by auto
  ultimately have "(1, 0) \<notin> freeset F'" using c(1) unfolding disjoint_blocks_def by fastforce
  moreover have "{0, 1} \<subseteq> span c" using c(2) by auto
  ultimately show ?thesis using r(1,2) c(1)
    by (intro exI [of _ bs] exI [of _ F'] conjI bexI [of _ c]) simp_all
qed

end
