(* ===== verification/Pages.thy ===== *)
theory Pages
  imports Buddy_Inv Utils
begin

text \<open>
  The interface of the page allocator. \<open>page_allocator\<close> states what the rest of the
  kernel relies on when it calls \<open>pmem_alloc\<close> and \<open>pmem_free\<close>: blocks are known by the
  address handed out and their order. The interpretation at the end discharges it for
  the model of \<open>kernel/pmem.c\<close> and \<open>kernel/buddy.c\<close>, locks included.
\<close>

type_synonym ablock = "u64 \<times> nat"

text \<open>The page frames of a block.\<close>

definition pages :: "ablock \<Rightarrow> u64 set" where
  "pages b = (\<lambda>i. fst b + of_nat i * PAGE_SIZE) ` {..<2 ^ snd b}"

locale page_allocator =
  fixes alloc :: "u64 \<Rightarrow> 's \<Rightarrow> (u64 \<times> 's) outcome"
    and free :: "u64 \<Rightarrow> 's \<Rightarrow> 's outcome"
    and inv :: "'s \<Rightarrow> ablock set \<Rightarrow> bool"
    and avail :: "'s \<Rightarrow> nat \<Rightarrow> bool"
  assumes alloc_ok: "inv s B \<Longrightarrow> avail s p \<Longrightarrow>
      \<exists>a s'. alloc (of_nat p) s = Inr (a, s') \<and> (a, p) \<notin> B \<and> inv s' (insert (a, p) B)"
    and free_ok: "inv s B \<Longrightarrow> (a, p) \<in> B \<Longrightarrow>
      \<exists>s'. free a s = Inr s' \<and> inv s' (B - {(a, p)}) \<and> avail s' p"
    and placed: "inv s B \<Longrightarrow> (a, p) \<in> B \<Longrightarrow> a \<noteq> 0 \<and> ALIGN_4K a = a"
    and disjoint: "inv s B \<Longrightarrow> b \<in> B \<Longrightarrow> c \<in> B \<Longrightarrow> b \<noteq> c \<Longrightarrow> pages b \<inter> pages c = {}"
begin

text \<open>A new block shares no page with those in use, and freeing it makes room again.\<close>

lemma alloc_fresh:
  assumes "inv s B" "avail s p"
  shows "\<exists>a s'. alloc (of_nat p) s = Inr (a, s') \<and> inv s' (insert (a, p) B) \<and>
           a \<noteq> 0 \<and> ALIGN_4K a = a \<and> (\<forall>b \<in> B. pages (a, p) \<inter> pages b = {})"
proof -
  obtain a s' where a: "alloc (of_nat p) s = Inr (a, s')" "(a, p) \<notin> B" "inv s' (insert (a, p) B)"
    using alloc_ok [OF assms] by blast
  then have "pages (a, p) \<inter> pages b = {}" if "b \<in> B" for b
    using disjoint [OF a(3), of "(a, p)" b] that by auto
  then show ?thesis using a placed [OF a(3), of a p] by blast
qed

lemma alloc_free_alloc:
  assumes "inv s B" "avail s p"
  shows "\<exists>a s1 s2 b s3. alloc (of_nat p) s = Inr (a, s1) \<and> free a s1 = Inr s2 \<and> inv s2 B \<and>
           alloc (of_nat p) s2 = Inr (b, s3) \<and> inv s3 (insert (b, p) B)"
proof -
  obtain a s1 where a: "alloc (of_nat p) s = Inr (a, s1)" "(a, p) \<notin> B" "inv s1 (insert (a, p) B)"
    using alloc_ok [OF assms] by blast
  obtain s2 where f: "free a s1 = Inr s2" "inv s2 (insert (a, p) B - {(a, p)})" "avail s2 p"
    using free_ok [OF a(3)] by blast
  moreover have "insert (a, p) B - {(a, p)} = B" using a(2) by auto
  ultimately show ?thesis using a(1) alloc_ok [of s2 B p] by auto
qed

end

section \<open>Addresses of blocks\<close>

definition baddr :: "buddy_system \<Rightarrow> block \<Rightarrow> ablock" where
  "baddr bs b = (buddy_aux_index2addr (int (fst b)) bs, snd b)"

text \<open>The managed range starts at a page boundary above 0 and does not wrap around.\<close>

definition range_ok :: "buddy_system \<Rightarrow> bool" where
  "range_ok bs \<longleftrightarrow> 4096 dvd unat (managed_start bs) \<and> managed_start bs \<noteq> 0 \<and>
     unat (managed_start bs) + 4096 * 2 ^ MAX_BLOCK_POW \<le> 2 ^ 64"

definition pmem_inv :: "buddy_system \<times> machine \<Rightarrow> ablock set \<Rightarrow> bool" where
  "pmem_inv s B \<longleftrightarrow> lock_free (bs_lock (fst s)) \<and> hart_ok (snd s) \<and> range_ok (fst s) \<and>
     (\<exists>F A. buddy_inv (fst s) F A \<and> B = baddr (fst s) ` A)"

definition pmem_avail :: "buddy_system \<times> machine \<Rightarrow> nat \<Rightarrow> bool" where
  "pmem_avail s p \<longleftrightarrow> (\<exists>k \<in> {p..<MAX_BLOCK_POW}. indices (fst s) ! k \<noteq> -1)"

lemma index_addr:
  assumes "x < 2 ^ MAX_BLOCK_POW"
  shows "buddy_aux_addr2index (buddy_aux_index2addr (int x) bs) bs = int x"
proof -
  have "int x * 4096 < 2 ^ 63" using assms by (simp add: MAX_BLOCK_POW_def)
  then have "sint (word_of_int (int x * 4096) :: u64) = int x * 4096"
    by (subst signed_of_int) (simp add: signed_take_bit_int_eq_self)
  then show ?thesis
    by (simp add: buddy_aux_addr2index_def buddy_aux_index2addr_def PAGE_SIZE_def)
qed

lemma ALIGN_4K_fix:
  assumes "4096 dvd unat x"
  shows "ALIGN_4K x = x"
proof -
  have "unat (x AND mask 12) = 0" using assms by (simp add: word_and_mask_mod)
  then have "x AND mask 12 = 0" by (simp add: unsigned_eq_0_iff)
  then have "\<not> bit (x AND mask 12) n" for n by simp
  then have "x AND NOT (mask 12) = x" by (intro bit_eqI) (auto simp: bit_simps)
  then show ?thesis by (simp add: ALIGN_4K_def ALIGN_XBITS_def ALL_ONE_MASK_mask)
qed

lemma block_placed:
  assumes "range_ok bs" "x < 2 ^ MAX_BLOCK_POW"
  shows "buddy_aux_index2addr (int x) bs \<noteq> 0 \<and> ALIGN_4K (buddy_aux_index2addr (int x) bs) = buddy_aux_index2addr (int x) bs"
proof -
  let ?a = "buddy_aux_index2addr (int x) bs"
  have "unat (managed_start bs) + 4096 * x < 2 ^ 64" using assms by (simp add: range_ok_def)
  moreover from this have "unat (of_nat x * 4096 :: u64) = x * 4096"
    by (simp add: unat_word_ariths unsigned_of_nat take_bit_nat_eq_self)
  ultimately have u: "unat ?a = unat (managed_start bs) + x * 4096"
    by (simp add: buddy_aux_index2addr_def PAGE_SIZE_def unat_word_ariths)
  then have "unat ?a \<noteq> 0" using assms(1) by (simp add: range_ok_def unsigned_eq_0_iff)
  moreover have "4096 dvd unat ?a" using u assms(1) by (simp add: range_ok_def)
  ultimately show ?thesis using ALIGN_4K_fix by auto
qed

lemma pages_baddr: "pages (baddr bs (x, p)) = (\<lambda>i. buddy_aux_index2addr (int i) bs) ` span (x, p)"
proof -
  have "span (x, p) = (\<lambda>i. x + i) ` {..<2 ^ p}"
    by (simp add: lessThan_atLeast0 add.commute)
  then show ?thesis
    by (simp add: pages_def baddr_def image_image buddy_aux_index2addr_def algebra_simps)
qed

lemma block_index:
  assumes "buddy_inv bs F A" "(x, p) \<in> A" "i \<in> span (x, p)"
  shows "i < 2 ^ MAX_BLOCK_POW"
proof -
  have c: "core (reach_pages bs) (buddies bs) (freeset F) A" using assms(1) by (simp add: buddy_inv_def)
  then have "x + 2 ^ p \<le> reach_pages bs" "reach_pages bs < 2 ^ MAX_BLOCK_POW"
    using core_ok [OF c, of x p] assms(2) by (auto simp: core_def)
  then show ?thesis using assms(3) by simp
qed

lemma baddr_inj: "buddy_inv bs F A \<Longrightarrow> inj_on (baddr bs) A"
  using block_index index_addr span_nonempty
  by (intro inj_onI) (metis baddr_def fst_conv of_nat_eq_iff prod.collapse snd_conv)

lemma used_loop_ok:
  "x + n \<le> length (buddies bs) \<Longrightarrow> (\<And>i. x \<le> i \<Longrightarrow> i < x + n \<Longrightarrow> bused (buddies bs ! i) = u) \<Longrightarrow>
     used_loop u (int x) n bs = Inr u"
proof (induction n arbitrary: x)
  case (Suc n)
  then have "used_loop u (int (Suc x)) n bs = Inr u" by (intro Suc.IH) auto
  then show ?case using Suc.prems(1) Suc.prems(2) [of x] by (simp add: add.commute)
qed simp

lemma get_used_ok:
  assumes "buddy_inv bs F A" "(x, p) \<in> A"
  shows "buddy_get_used (int x) bs = Inr BUDDY_BLOCK_USED"
proof -
  have c: "core (reach_pages bs) (buddies bs) (freeset F) A" using assms(1) by (simp add: buddy_inv_def)
  have m: "marked BUDDY_BLOCK_USED (buddies bs) (x, p)" and n: "reach_pages bs \<le> length (buddies bs)"
    using c assms(2) by (auto simp: core_def)
  note ok = core_ok [OF c, of x p]
  have "x \<in> span (x, p)" by simp
  then have "bused (buddies bs ! x) = BUDDY_BLOCK_USED" using m unfolding marked_def by blast
  moreover have "used_loop BUDDY_BLOCK_USED (int x) (2 ^ p) bs = Inr BUDDY_BLOCK_USED"
    using ok m n assms(2) by (intro used_loop_ok) (auto simp: marked_def)
  ultimately show ?thesis using ok assms(2) by (simp add: buddy_get_used_def)
qed

lemma buddy_inv_counters [simp]:
  "buddy_inv (bs\<lparr>free_pages := n\<rparr>) F A = buddy_inv bs F A"
  "buddy_inv (bs\<lparr>bs_lock := l\<rparr>) F A = buddy_inv bs F A"
  by (simp_all add: buddy_inv_def reach_pages_def)

lemma baddr_counters [simp]:
  "baddr (bs\<lparr>free_pages := n\<rparr>) = baddr bs" "baddr (bs\<lparr>bs_lock := l\<rparr>) = baddr bs"
  by (simp_all add: fun_eq_iff baddr_def buddy_aux_index2addr_def)

lemma range_ok_same: "managed_start bs' = managed_start bs \<Longrightarrow> range_ok bs' = range_ok bs"
  by (simp add: range_ok_def)

lemma baddr_same: "same_rest bs bs' \<Longrightarrow> baddr bs' = baddr bs"
  using same_rest_fields(5) [of bs bs'] by (simp add: fun_eq_iff baddr_def buddy_aux_index2addr_def)

lemma pmem_alloc_run:
  assumes s: "lock_free (bs_lock bs)" "hart_ok m" and p: "p < MAX_BLOCK_POW"
    and r: "buddy_alloc_index p (bs\<lparr>bs_lock := (bs_lock bs)\<lparr>locked := 1, cpu_id := int (hartid m)\<rparr>\<rparr>) = Inr (int r, bs1)"
    and lk: "bs_lock bs1 = (bs_lock bs)\<lparr>locked := 1, cpu_id := int (hartid m)\<rparr>"
  shows "pmem_alloc (of_nat p) (bs, m) = Inr (buddy_aux_index2addr (int r) bs1,
           bs1\<lparr>free_pages := free_pages bs1 - POWER_OF_2 p,
               bs_lock := (bs_lock bs)\<lparr>cpu_id := -1, locked := 0\<rparr>\<rparr>, released m)"
proof -
  have "unat (ucast (of_nat p :: u64) :: u8) = p"
    using p by (simp add: MAX_BLOCK_POW_def unsigned_ucast_eq unsigned_of_nat take_bit_nat_eq_self)
  then show ?thesis
    using s r lk spinlock_release_ok [OF s(2), of "bs_lock bs1"]
    by (simp add: pmem_alloc_def buddy_alloc_def spinlock_acquire_ok Let_def)
qed

lemma pmem_alloc_ok:
  assumes "pmem_inv s B" "pmem_avail s p"
  shows "\<exists>a s'. pmem_alloc (of_nat p) s = Inr (a, s') \<and> (a, p) \<notin> B \<and> pmem_inv s' (insert (a, p) B)"
proof -
  obtain bs m where s: "s = (bs, m)" by (cases s)
  obtain F A where l: "lock_free (bs_lock bs)" "hart_ok m" and ro: "range_ok bs" and inv: "buddy_inv bs F A" and B: "B = baddr bs ` A"
    using assms(1) by (auto simp: pmem_inv_def s)
  obtain k where k: "p \<le> k" "k < MAX_BLOCK_POW" "indices bs ! k \<noteq> -1"
    using assms(2) by (auto simp: pmem_avail_def s)
  then have Fk: "F k \<noteq> []" using inv list_nonempty [of "indices bs" "buddies bs" F k] by (simp add: buddy_inv_def)
  define bs0 where "bs0 = bs\<lparr>bs_lock := (bs_lock bs)\<lparr>locked := 1, cpu_id := int (hartid m)\<rparr>\<rparr>"
  have "buddy_inv bs0 F A" using inv by (simp add: bs0_def)
  from alloc_any [OF this k(1,2) Fk] obtain r bs1 F1 where
    r: "buddy_alloc_index p bs0 = Inr (int r, bs1)" "same_rest bs0 bs1" "(r, p) \<notin> A" "buddy_inv bs1 F1 (insert (r, p) A)"
    by blast
  have ms: "managed_start bs1 = managed_start bs" using same_rest_fields(5) [OF r(2)] by (simp add: bs0_def)
  have eq: "baddr bs1 = baddr bs" using baddr_same [OF r(2)] by (simp add: bs0_def)
  have run: "pmem_alloc (of_nat p) (bs, m) = Inr (buddy_aux_index2addr (int r) bs1,
      bs1\<lparr>free_pages := free_pages bs1 - POWER_OF_2 p, bs_lock := (bs_lock bs)\<lparr>cpu_id := -1, locked := 0\<rparr>\<rparr>, released m)"
    using k r(1,2) same_rest_fields(2) [OF r(2)] l
    by (intro pmem_alloc_run) (simp_all add: bs0_def)
  have "insert (buddy_aux_index2addr (int r) bs1, p) B = baddr bs ` insert (r, p) A"
    using eq B by (auto simp: baddr_def fun_eq_iff)
  moreover have "baddr bs (r, p) \<notin> baddr bs ` A"
    using baddr_inj [OF r(4)] r(3) unfolding eq by (simp add: inj_on_def image_iff) blast
  then have "(buddy_aux_index2addr (int r) bs1, p) \<notin> B" using eq B by (simp add: baddr_def fun_eq_iff)
  ultimately show ?thesis
    using r(4) eq l(2) ro ms unfolding s run by (auto simp: pmem_inv_def lock_free_def range_ok_def)
qed

lemma pmem_free_run:
  assumes l: "lock_free (bs_lock bs)" "hart_ok m" and inv: "buddy_inv bs F A" and x: "(x, p) \<in> A"
    and f: "buddy_free_index (int x) (bs\<lparr>bs_lock := (bs_lock bs)\<lparr>locked := 1, cpu_id := int (hartid m)\<rparr>\<rparr>) = Inr (p, bs1)"
    and r: "same_rest (bs\<lparr>bs_lock := (bs_lock bs)\<lparr>locked := 1, cpu_id := int (hartid m)\<rparr>\<rparr>) bs1"
  shows "pmem_free (buddy_aux_index2addr (int x) bs) (bs, m) = Inr (bs1\<lparr>free_pages := free_pages bs1 + POWER_OF_2 p,
      bs_lock := (bs_lock bs)\<lparr>cpu_id := -1, locked := 0\<rparr>\<rparr>, released m)"
proof -
  define bs0 where "bs0 = bs\<lparr>bs_lock := (bs_lock bs)\<lparr>locked := 1, cpu_id := int (hartid m)\<rparr>\<rparr>"
  have "x < 2 ^ MAX_BLOCK_POW" using block_index [OF inv x, of x] by simp
  then have ix: "buddy_aux_addr2index (buddy_aux_index2addr (int x) bs) bs = int x" by (rule index_addr)
  have lk: "bs_lock bs1 = (bs_lock bs)\<lparr>locked := 1, cpu_id := int (hartid m)\<rparr>"
    using same_rest_fields(2) [OF r] by simp
  have "buddy_inv bs0 F A" using inv by (simp add: bs0_def)
  then have "buddy_get_used (int x) bs0 = Inr BUDDY_BLOCK_USED" using x by (rule get_used_ok)
  then show ?thesis
    using l ix f lk spinlock_release_ok [OF l(2), of "bs_lock bs1"] unfolding bs0_def
    by (simp add: pmem_free_def buddy_free_def spinlock_acquire_ok Let_def BUDDY_BLOCK_USED_def BUDDY_BLOCK_FREE_def)
qed

lemma pmem_free_ok:
  assumes "pmem_inv s B" "(a, p) \<in> B"
  shows "\<exists>s'. pmem_free a s = Inr s' \<and> pmem_inv s' (B - {(a, p)}) \<and> pmem_avail s' p"
proof -
  obtain bs m where s: "s = (bs, m)" by (cases s)
  obtain F A where l: "lock_free (bs_lock bs)" "hart_ok m" and ro: "range_ok bs" and inv: "buddy_inv bs F A" and B: "B = baddr bs ` A"
    using assms(1) by (auto simp: pmem_inv_def s)
  obtain x where x: "(x, p) \<in> A" "a = buddy_aux_index2addr (int x) bs"
    using assms(2) B by (auto simp: baddr_def)
  define bs0 where "bs0 = bs\<lparr>bs_lock := (bs_lock bs)\<lparr>locked := 1, cpu_id := int (hartid m)\<rparr>\<rparr>"
  have inv0: "buddy_inv bs0 F A" using inv by (simp add: bs0_def)
  from free_any [OF this x(1)] obtain bs1 F1 k where
    r: "buddy_free_index (int x) bs0 = Inr (p, bs1)" "same_rest bs0 bs1" "buddy_inv bs1 F1 (A - {(x, p)})"
      "p \<le> k" "k < MAX_BLOCK_POW" "F1 k \<noteq> []"
    by blast
  have ms: "managed_start bs1 = managed_start bs" using same_rest_fields(5) [OF r(2)] by (simp add: bs0_def)
  have eq: "baddr bs1 = baddr bs" using baddr_same [OF r(2)] by (simp add: bs0_def)
  have run: "pmem_free a (bs, m) = Inr (bs1\<lparr>free_pages := free_pages bs1 + POWER_OF_2 p,
      bs_lock := (bs_lock bs)\<lparr>cpu_id := -1, locked := 0\<rparr>\<rparr>, released m)"
    using pmem_free_run [OF l inv x(1)] r(1,2) unfolding bs0_def x(2) by blast
  have "indices bs1 ! k \<noteq> -1"
    using r(3,5,6) list_nonempty [of "indices bs1" "buddies bs1" F1 k] by (simp add: buddy_inv_def)
  then have av: "pmem_avail (bs1\<lparr>free_pages := free_pages bs1 + POWER_OF_2 p,
      bs_lock := (bs_lock bs)\<lparr>cpu_id := -1, locked := 0\<rparr>\<rparr>, released m) p"
    using r(4,5) by (auto simp: pmem_avail_def)
  have "B - {(a, p)} = baddr bs ` (A - {(x, p)})"
    using baddr_inj [OF inv] x B by (auto simp: inj_on_image_set_diff baddr_def inj_on_def)
  then show ?thesis using av r(3) eq l(2) ro ms unfolding s run by (auto simp: pmem_inv_def lock_free_def range_ok_def)
qed

lemma pmem_placed:
  assumes "pmem_inv s B" "(a, p) \<in> B"
  shows "a \<noteq> 0 \<and> ALIGN_4K a = a"
proof -
  obtain F A where inv: "buddy_inv (fst s) F A" and B: "B = baddr (fst s) ` A" and ro: "range_ok (fst s)"
    using assms(1) by (auto simp: pmem_inv_def)
  obtain x where x: "(x, p) \<in> A" "a = buddy_aux_index2addr (int x) (fst s)"
    using assms(2) B by (auto simp: baddr_def)
  have "x < 2 ^ MAX_BLOCK_POW" using block_index [OF inv x(1), of x] by simp
  then show ?thesis using block_placed [OF ro] x(2) by simp
qed

lemma pmem_disjoint:
  assumes "pmem_inv s B" "b \<in> B" "c \<in> B" "b \<noteq> c"
  shows "pages b \<inter> pages c = {}"
proof -
  obtain F A where inv: "buddy_inv (fst s) F A" and B: "B = baddr (fst s) ` A"
    using assms(1) by (auto simp: pmem_inv_def)
  obtain x p y q where xy: "b = baddr (fst s) (x, p)" "(x, p) \<in> A" "c = baddr (fst s) (y, q)" "(y, q) \<in> A"
    using assms(2,3) B by auto
  have "span (x, p) \<inter> span (y, q) = {}"
    using inv xy assms(4) unfolding buddy_inv_def core_def disjoint_blocks_def by (metis UnCI)
  moreover have "i = j" if "buddy_aux_index2addr (int i) (fst s) = buddy_aux_index2addr (int j) (fst s)"
    "i \<in> span (x, p)" "j \<in> span (y, q)" for i j
    using that block_index [OF inv xy(2)] block_index [OF inv xy(4)] index_addr by (metis of_nat_eq_iff)
  ultimately show ?thesis unfolding xy pages_baddr by blast
qed

interpretation pmem: page_allocator pmem_alloc pmem_free pmem_inv pmem_avail
  by unfold_locales (rule pmem_alloc_ok pmem_free_ok pmem_placed pmem_disjoint; assumption)+

text \<open>C11. A call of \<open>pmem_alloc\<close> that finds a block returns a page boundary whose frames are
  disjoint from those of every block in use, and leaves the allocator, its lock included,
  ready for the next call.\<close>

theorem pmem_alloc_fresh:
  assumes "pmem_inv s B" "pmem_avail s p"
  shows "\<exists>a s'. pmem_alloc (of_nat p) s = Inr (a, s') \<and> pmem_inv s' (insert (a, p) B) \<and>
           a \<noteq> 0 \<and> ALIGN_4K a = a \<and> (\<forall>b \<in> B. pages (a, p) \<inter> pages b = {})"
  by (rule pmem.alloc_fresh [OF assms])

text \<open>C22. Freeing what was just allocated, at the level of the free lists and of the
  counter: both calls succeed, the same blocks are in use as before, \<open>free_pages\<close> has its
  old value, the lock and the hart are ready, and the order can be allocated again. When
  the list of the order was empty, so that a larger block was split, the pages that are free
  are those from before, and if no two buddies were free side by side, every free list is
  exactly what it was. When the list was not empty, its blocks other than the one handed
  out are lost: of that list only the block freed again is free.\<close>

theorem pmem_alloc_free_restores:
  assumes "lock_free (bs_lock bs)" "hart_ok m" "range_ok bs" "buddy_inv bs F A"
    and "p \<le> k" "k < MAX_BLOCK_POW" "F k \<noteq> []"
  shows "\<exists>a s1 bs2 m2 F2. pmem_alloc (of_nat p) (bs, m) = Inr (a, s1) \<and> pmem_free a s1 = Inr (bs2, m2) \<and>
     buddy_inv bs2 F2 A \<and> baddr bs2 = baddr bs \<and> free_pages bs2 = free_pages bs \<and>
     lock_free (bs_lock bs2) \<and> hart_ok m2 \<and>
     covered F2 = (if F p = [] then covered F else span (hd (F p), p) \<union> covered (F(p := []))) \<and>
     (F p = [] \<and> merged (freeset F) \<longrightarrow> buddy_inv bs2 F A) \<and>
     (\<exists>b s3. pmem_alloc (of_nat p) (bs2, m2) = Inr (b, s3))"
proof -
  let ?taken = "(bs_lock bs)\<lparr>locked := 1, cpu_id := int (hartid m)\<rparr>"
  let ?idle = "(bs_lock bs)\<lparr>cpu_id := -1, locked := 0\<rparr>"
  define bs0 where "bs0 = bs\<lparr>bs_lock := ?taken\<rparr>"
  have p: "p < MAX_BLOCK_POW" using assms(5,6) by simp
  have "buddy_inv bs0 F A" using assms(4) by (simp add: bs0_def)
  from alloc_free_any [OF this assms(5-7)] obtain r bs1 F1 where
    a: "buddy_alloc_index p bs0 = Inr (int r, bs1)" "same_rest bs0 bs1" "buddy_inv bs1 F1 (insert (r, p) A)"
    and f: "\<And>bs'. buddies bs' = buddies bs1 \<Longrightarrow> indices bs' = indices bs1 \<Longrightarrow> total_pages bs' = total_pages bs1 \<Longrightarrow>
      \<exists>bs2 F2. buddy_free_index (int r) bs' = Inr (p, bs2) \<and> same_rest bs' bs2 \<and> buddy_inv bs2 F2 A \<and>
        covered F2 = (if F p = [] then covered F else span (hd (F p), p) \<union> covered (F(p := []))) \<and>
        (merged (freeset F) \<longrightarrow> merged (freeset F2) \<and> (F p = [] \<longrightarrow> buddy_inv bs2 F A)) \<and>
        (\<exists>j \<ge> p. j < MAX_BLOCK_POW \<and> F2 j \<noteq> [])"
    by auto
  define bsa where "bsa = bs1\<lparr>free_pages := free_pages bs1 - POWER_OF_2 p, bs_lock := ?idle\<rparr>"
  have lk: "bs_lock bs1 = ?taken" using same_rest_fields(2) [OF a(2)] by (simp add: bs0_def)
  have run1: "pmem_alloc (of_nat p) (bs, m) = Inr (buddy_aux_index2addr (int r) bs1, bsa, released m)"
    unfolding bsa_def using a(1) lk by (intro pmem_alloc_run assms(1,2) p) (simp_all add: bs0_def)
  have l1: "lock_free (bs_lock bsa)" "hart_ok (released m)" "buddy_inv bsa F1 (insert (r, p) A)"
    using assms(2) a(3) by (simp_all add: bsa_def lock_free_def)
  define bsf where "bsf = bsa\<lparr>bs_lock := (bs_lock bsa)\<lparr>locked := 1, cpu_id := int (hartid (released m))\<rparr>\<rparr>"
  obtain bs2 F2 where r: "buddy_free_index (int r) bsf = Inr (p, bs2)" "same_rest bsf bs2" "buddy_inv bs2 F2 A"
    "covered F2 = (if F p = [] then covered F else span (hd (F p), p) \<union> covered (F(p := [])))"
    "merged (freeset F) \<longrightarrow> merged (freeset F2) \<and> (F p = [] \<longrightarrow> buddy_inv bs2 F A)"
    "\<exists>j \<ge> p. j < MAX_BLOCK_POW \<and> F2 j \<noteq> []"
    using f [of bsf] by (auto simp: bsf_def bsa_def)
  define bsr where "bsr = bs2\<lparr>free_pages := free_pages bs2 + POWER_OF_2 p,
      bs_lock := (bs_lock bsa)\<lparr>cpu_id := -1, locked := 0\<rparr>\<rparr>"
  have run2: "pmem_free (buddy_aux_index2addr (int r) bsa) (bsa, released m) = Inr (bsr, released (released m))"
    unfolding bsr_def by (rule pmem_free_run [OF l1 insertI1]) (use r(1,2) in \<open>simp_all add: bsf_def\<close>)
  have same: "managed_start bs2 = managed_start bs" "free_pages bs2 = free_pages bs - POWER_OF_2 p"
    using same_rest_fields(3,5) [OF a(2)] same_rest_fields(3,5) [OF r(2)] by (simp_all add: bs0_def bsf_def bsa_def)
  have addr: "buddy_aux_index2addr (int r) bsa = buddy_aux_index2addr (int r) bs1"
    by (simp add: bsa_def buddy_aux_index2addr_def)
  have fin: "baddr bsr = baddr bs" "free_pages bsr = free_pages bs" "lock_free (bs_lock bsr)" "range_ok bsr"
    "buddy_inv bsr F2 A" "F p = [] \<and> merged (freeset F) \<longrightarrow> buddy_inv bsr F A"
    using same r(3,5) assms(3)
    by (simp_all add: bsr_def lock_free_def range_ok_def fun_eq_iff baddr_def buddy_aux_index2addr_def)
  have "pmem_inv (bsr, released (released m)) (baddr bsr ` A)"
    using fin l1(2) by (auto simp: pmem_inv_def)
  moreover obtain j where "p \<le> j" "j < MAX_BLOCK_POW" "F2 j \<noteq> []" using r(6) by blast
  then have "pmem_avail (bsr, released (released m)) p"
    using fin(5) list_nonempty [of "indices bsr" "buddies bsr" F2 j] by (auto simp: pmem_avail_def buddy_inv_def)
  ultimately have "\<exists>b s3. pmem_alloc (of_nat p) (bsr, released (released m)) = Inr (b, s3)"
    using pmem_alloc_ok by blast
  then show ?thesis using run1 run2 fin r(4) l1(2) unfolding addr
    by (intro exI [of _ "buddy_aux_index2addr (int r) bs1"] exI [of _ "(bsa, released m)"] exI [of _ bsr]
        exI [of _ "released (released m)"] exI [of _ F2]) simp
qed

lemma boot_pmem_inv: "pmem_inv (memory3, boot_machine) {} \<and> pmem_avail (memory3, boot_machine) 1"
proof -
  have "lock_free (bs_lock memory3)" "managed_start memory3 = 4096" by code_simp+
  then have "lock_free (bs_lock memory3)" "range_ok memory3" by (simp_all add: range_ok_def MAX_BLOCK_POW_def)
  then have "pmem_inv (memory3, boot_machine) {}"
    using memory3_inv by (auto simp: pmem_inv_def boot_machine_ok)
  moreover have "indices memory3 ! 1 \<noteq> -1" by code_simp
  then have "pmem_avail (memory3, boot_machine) 1" by (auto simp: pmem_avail_def MAX_BLOCK_POW_def)
  ultimately show ?thesis ..
qed

theorem pmem_alloc_fresh_witness:
  "\<exists>a s'. pmem_alloc 1 (memory3, boot_machine) = Inr (a, s') \<and> pmem_inv s' {(a, 1)}"
  using pmem_alloc_fresh [of "(memory3, boot_machine)" "{}" 1] boot_pmem_inv by auto

text \<open>Two managed pages form one block of order 1; a page of it is allocated and freed.\<close>

definition memory2 :: buddy_system where
  "memory2 = or_raw (buddy_init 0 12288 raw_memory)"

lemma memory2_inv: "buddy_inv memory2 (init_free 2) {}"
  using buddy_init_run [of 0 12288 raw_memory _ 2]
  by (simp add: memory2_def buddy_aux_data_init_def align_to_def PAGE_SIZE_def Let_def MAX_BLOCK_POW_def
      buddy_get_self_memreq_def SIZEOF_BUDDY_BLOCK_def raw_memory_def)

lemma memory2_ready: "lock_free (bs_lock memory2)" "range_ok memory2"
proof -
  have "managed_start memory2 = 4096" by code_simp
  then show "range_ok memory2" by (simp add: range_ok_def MAX_BLOCK_POW_def)
  show "lock_free (bs_lock memory2)" by code_simp
qed

theorem pmem_alloc_free_restores_witness:
  "init_free 2 0 = [] \<and> (\<exists>a s1 bs2 m2. pmem_alloc 0 (memory2, boot_machine) = Inr (a, s1) \<and>
     pmem_free a s1 = Inr (bs2, m2) \<and> buddy_inv bs2 (init_free 2) {})"
proof -
  have F: "init_free 2 0 = []" "init_free 2 1 \<noteq> []" by (simp_all add: init_free_def bit_iff_odd)
  then show ?thesis
    using pmem_alloc_free_restores [OF memory2_ready(1) boot_machine_ok memory2_ready(2) memory2_inv, of 0 1]
      init_merged [of 2] by (simp add: MAX_BLOCK_POW_def) blast
qed

end
