(* ===== verification/Slab.thy ===== *)
theory Slab
  imports Pages KList Utils
begin

text \<open>
  Models \<open>kernel/slab.c\<close>: a slab is a run of pages cut into objects of one size, the free
  objects of which are linked through their first word, in order of their addresses. The
  state holds these words (\<open>word_at\<close>) and the \<open>slab_t\<close> descriptors by address, the
  list heads of the descriptors (used by \<open>Kmem\<close>), and the page allocator. The fields of
  different types are kept in different maps, as no code reads an object of the kernel
  at one type after writing it at another.
\<close>

record slab_t =
  pg :: u64
  objs :: u64
  size_obj :: int
  free_obj :: int
  total_obj :: int
  order :: int

record kheap =
  word_at :: "u64 \<Rightarrow> u64"
  slab_at :: "u64 \<Rightarrow> slab_t"
  links :: "u64 lheap"
  objsize_at :: "u64 \<Rightarrow> u64"
  meta_slab :: u64
  pmem_st :: "buddy_system \<times> machine"

definition SLAB_STATIC_PAGE_ORDER :: int where
  "SLAB_STATIC_PAGE_ORDER = 2"

text \<open>\<open>sizeof(slab_t)\<close>: a list head, two pointers and four \<open>int\<close>s.\<close>

definition SIZEOF_SLAB :: int where
  "SIZEOF_SLAB = 48"

definition set_word :: "u64 \<Rightarrow> u64 \<Rightarrow> 'a kheap_scheme \<Rightarrow> 'a kheap_scheme" where
  "set_word p v h = h\<lparr>word_at := (word_at h)(p := v)\<rparr>"

definition set_slab :: "u64 \<Rightarrow> slab_t \<Rightarrow> 'a kheap_scheme \<Rightarrow> 'a kheap_scheme" where
  "set_slab s d h = h\<lparr>slab_at := (slab_at h)(s := d)\<rparr>"

definition SLAB_SET_NEXT :: "u64 \<Rightarrow> u64 \<Rightarrow> 'a kheap_scheme \<Rightarrow> 'a kheap_scheme outcome" where
  "SLAB_SET_NEXT p n h = guardO Undefined (p \<noteq> 0) (Inr (set_word p n h))"

definition SLAB_GET_NEXT :: "u64 \<Rightarrow> 'a kheap_scheme \<Rightarrow> u64 outcome" where
  "SLAB_GET_NEXT p h = guardO Undefined (p \<noteq> 0) (Inr (word_at h p))"

definition int32 :: "u64 \<Rightarrow> int" where
  "int32 x = sint (ucast x :: u32)"

definition slab_end :: "u64 \<Rightarrow> int \<Rightarrow> u64" where
  "slab_end page ord = page + PAGE_SIZE * POWER_OF_2 (nat ord)"

section \<open>Creating a slab\<close>

text \<open>
  The linking loop. It advances by at least one byte per iteration while it stays below
  the end, so the number of bytes bounds its iterations.
\<close>

fun link_loop :: "nat \<Rightarrow> u64 \<Rightarrow> u64 \<Rightarrow> u64 \<Rightarrow> 'a kheap_scheme \<Rightarrow> 'a kheap_scheme outcome" where
  "link_loop 0 p sz e h = Inl Hang"
| "link_loop (Suc n) p sz e h =
     (if p + sz < e then bindO (SLAB_SET_NEXT p (p + sz) h) (link_loop n (p + sz) sz e)
      else SLAB_SET_NEXT p 0 h)"

definition slab_create_ex :: "u64 \<Rightarrow> u64 \<Rightarrow> int \<Rightarrow> int \<Rightarrow> 'a kheap_scheme \<Rightarrow> 'a kheap_scheme outcome" where
  "slab_create_ex s page sz ord h =
     (let n = POWER_OF_2 (nat ord) * PAGE_SIZE; w = (word_of_int sz :: u64) in
      guardO Undefined (w \<noteq> 0)
       (link_loop (Suc (unat n)) page w (slab_end page ord)
         (set_slab s \<lparr>pg = page, objs = page, size_obj = sz, free_obj = int32 (n div w),
                      total_obj = int32 (n div w), order = ord\<rparr> h)))"

section \<open>Objects\<close>

definition slab_alloc :: "u64 \<Rightarrow> 'a kheap_scheme \<Rightarrow> (u64 \<times> 'a kheap_scheme) outcome" where
  "slab_alloc s h =
     (let d = slab_at h s in
      if free_obj d \<noteq> 0 then
        bindO (SLAB_GET_NEXT (objs d) h) (\<lambda>nx.
          Inr (objs d, set_slab s (d\<lparr>objs := nx, free_obj := free_obj d - 1\<rparr>) h))
      else Inr (0, h))"

text \<open>The walk to the place of a freed object; \<open>None\<close> when the links form a cycle.\<close>

partial_function (option) slab_walk :: "(u64 \<Rightarrow> u64) \<Rightarrow> u64 \<Rightarrow> u64 \<Rightarrow> u64 \<Rightarrow> (u64 \<times> u64) option" where
  [code]: "slab_walk w obj p_last p =
     (if p \<noteq> 0 \<and> p < obj then slab_walk w obj p (w p) else Some (p_last, p))"

definition slab_free :: "u64 \<Rightarrow> u64 \<Rightarrow> 'a kheap_scheme \<Rightarrow> 'a kheap_scheme outcome" where
  "slab_free s obj h =
     (let d = slab_at h s in
      bindO (if objs d = 0 then SLAB_SET_NEXT obj 0 (set_slab s (d\<lparr>objs := obj\<rparr>) h)
             else if obj < objs d then
               bindO (SLAB_SET_NEXT obj (objs d) h) (\<lambda>h. Inr (set_slab s (d\<lparr>objs := obj\<rparr>) h))
             else
               (case slab_walk (word_at h) obj 0 (objs d) of
                  None \<Rightarrow> Inl Hang
                | Some (p_last, p) \<Rightarrow>
                    bindO (SLAB_SET_NEXT obj p h) (SLAB_SET_NEXT p_last obj)))
        (\<lambda>h. let d = slab_at h s in Inr (set_slab s (d\<lparr>free_obj := free_obj d + 1\<rparr>) h)))"

definition slab_contain :: "slab_t \<Rightarrow> u64 \<Rightarrow> bool" where
  "slab_contain d a \<longleftrightarrow> pg d \<le> a \<and> a < slab_end (pg d) (order d)"

definition slab_get_total_obj :: "slab_t \<Rightarrow> int" where
  "slab_get_total_obj d = total_obj d"

definition slab_get_free_obj :: "slab_t \<Rightarrow> int" where
  "slab_get_free_obj d = free_obj d"

definition slab_empty :: "slab_t \<Rightarrow> bool" where
  "slab_empty d \<longleftrightarrow> total_obj d = free_obj d"

definition slab_full :: "slab_t \<Rightarrow> bool" where
  "slab_full d \<longleftrightarrow> free_obj d = 0"

section \<open>Slabs with their pages\<close>

definition kh_pmem_alloc :: "int \<Rightarrow> 'a kheap_scheme \<Rightarrow> (u64 \<times> 'a kheap_scheme) outcome" where
  "kh_pmem_alloc ord h =
     bindO (pmem_alloc (word_of_int ord) (pmem_st h)) (\<lambda>(a, s). Inr (a, h\<lparr>pmem_st := s\<rparr>))"

definition kh_pmem_free :: "u64 \<Rightarrow> 'a kheap_scheme \<Rightarrow> 'a kheap_scheme outcome" where
  "kh_pmem_free a h = bindO (pmem_free a (pmem_st h)) (\<lambda>s. Inr (h\<lparr>pmem_st := s\<rparr>))"

definition kh_set_adat :: "u64 \<Rightarrow> u64 \<Rightarrow> 'a kheap_scheme \<Rightarrow> 'a kheap_scheme outcome" where
  "kh_set_adat a d h =
     bindO (pmem_set_adat a d (fst (pmem_st h))) (\<lambda>bs. Inr (h\<lparr>pmem_st := (bs, snd (pmem_st h))\<rparr>))"

definition slab_create :: "u64 \<Rightarrow> int \<Rightarrow> int \<Rightarrow> u64 \<Rightarrow> 'a kheap_scheme \<Rightarrow> (u64 \<times> 'a kheap_scheme) outcome" where
  "slab_create pslab sz ord ad h =
     bindO (slab_alloc pslab h) (\<lambda>(s, h).
     if s = 0 then Inr (0, h) else
     bindO (kh_pmem_alloc ord h) (\<lambda>(page, h).
     if page = 0 then bindO (slab_free pslab s h) (\<lambda>h. Inr (0, h)) else
     bindO (kh_set_adat page ad h) (\<lambda>h.
     bindO (slab_create_ex s page sz ord h) (\<lambda>h. Inr (s, h)))))"

definition slab_create_static :: "int \<Rightarrow> int \<Rightarrow> 'a kheap_scheme \<Rightarrow> (u64 \<times> 'a kheap_scheme) outcome" where
  "slab_create_static sz ord h = slab_create (meta_slab h) sz ord 0 h"

definition slab_destory :: "u64 \<Rightarrow> u64 \<Rightarrow> 'a kheap_scheme \<Rightarrow> 'a kheap_scheme outcome" where
  "slab_destory pslab s h =
     (if slab_empty (slab_at h s)
      then bindO (kh_pmem_free (pg (slab_at h s)) h) (slab_free pslab s)
      else Inl Panic)"

definition slab_destory_static :: "u64 \<Rightarrow> 'a kheap_scheme \<Rightarrow> 'a kheap_scheme outcome" where
  "slab_destory_static s h = slab_destory (meta_slab h) s h"

definition slab_static_init :: "'a kheap_scheme \<Rightarrow> 'a kheap_scheme outcome" where
  "slab_static_init h =
     bindO (kh_pmem_alloc SLAB_STATIC_PAGE_ORDER h) (\<lambda>(page, h).
       slab_create_ex (meta_slab h) page SIZEOF_SLAB SLAB_STATIC_PAGE_ORDER h)"

definition slab_static_deinit :: "'a kheap_scheme \<Rightarrow> 'a kheap_scheme outcome" where
  "slab_static_deinit h = kh_pmem_free (pg (slab_at h (meta_slab h))) h"

section \<open>The free list\<close>

text \<open>\<open>wchain w a xs\<close>: the links lead from \<open>a\<close> through \<open>xs\<close> to the null pointer.\<close>

fun wchain :: "(u64 \<Rightarrow> u64) \<Rightarrow> u64 \<Rightarrow> u64 list \<Rightarrow> bool" where
  "wchain w a [] \<longleftrightarrow> a = 0"
| "wchain w a (x # xs) \<longleftrightarrow> a = x \<and> x \<noteq> 0 \<and> wchain w (w x) xs"

lemma wchain_upd [simp]: "p \<notin> set xs \<Longrightarrow> wchain (w(p := v)) a xs \<longleftrightarrow> wchain w a xs"
  by (induction xs arbitrary: a) auto

lemma wchain_cong: "(\<And>x. x \<in> set xs \<Longrightarrow> w' x = w x) \<Longrightarrow> wchain w' a xs \<longleftrightarrow> wchain w a xs"
  by (induction xs arbitrary: a) auto

lemma wchain_head: "wchain w a xs \<Longrightarrow> a = (case xs of [] \<Rightarrow> 0 | x # _ \<Rightarrow> x)"
  by (cases xs) auto

lemma wchain_nonnull: "wchain w a xs \<Longrightarrow> 0 \<notin> set xs"
  by (induction xs arbitrary: a) auto

text \<open>The free objects of a slab, in address order.\<close>

definition slab_list :: "'a kheap_scheme \<Rightarrow> u64 \<Rightarrow> u64 list \<Rightarrow> bool" where
  "slab_list h s fs \<longleftrightarrow> wchain (word_at h) (objs (slab_at h s)) fs \<and> sorted_wrt (<) fs"

lemma slab_alloc_ok:
  assumes "slab_list h s (x # fs)" "free_obj (slab_at h s) \<noteq> 0"
  shows "\<exists>h'. slab_alloc s h = Inr (x, h') \<and> slab_list h' s fs \<and>
           free_obj (slab_at h' s) = free_obj (slab_at h s) - 1 \<and> word_at h' = word_at h"
  using assms by (auto simp: slab_alloc_def slab_list_def SLAB_GET_NEXT_def set_slab_def Let_def)

lemma slab_walk_ok:
  assumes "wchain w p fs" "sorted_wrt (<) fs"
  shows "slab_walk w obj p_last p = Some (last (p_last # takeWhile (\<lambda>x. x < obj) fs),
           case dropWhile (\<lambda>x. x < obj) fs of [] \<Rightarrow> 0 | x # _ \<Rightarrow> x)"
  using assms
proof (induction fs arbitrary: p p_last)
  case Nil
  then show ?case by (simp add: slab_walk.simps)
next
  case (Cons x fs)
  show ?case
  proof (cases "x < obj")
    case True
    then have "slab_walk w obj p_last p = slab_walk w obj x (w x)"
      using Cons.prems by (simp add: slab_walk.simps [of w obj p_last])
    then show ?thesis using Cons True by auto
  next
    case False
    then show ?thesis using Cons.prems by (simp add: slab_walk.simps)
  qed
qed

definition insert_obj :: "u64 \<Rightarrow> u64 list \<Rightarrow> u64 list" where
  "insert_obj obj fs = takeWhile (\<lambda>x. x < obj) fs @ obj # dropWhile (\<lambda>x. x < obj) fs"

lemma insert_obj_set [simp]: "set (insert_obj obj fs) = insert obj (set fs)"
  unfolding insert_obj_def by (metis Un_insert_right list.simps(15) set_append takeWhile_dropWhile_id)

lemma insert_obj_sorted:
  assumes "sorted_wrt (<) fs" "obj \<notin> set fs"
  shows "sorted_wrt (<) (insert_obj obj fs)"
  using assms
proof (induction fs)
  case (Cons x fs)
  have "set (takeWhile (\<lambda>x. x < obj) fs) \<subseteq> set fs" "set (dropWhile (\<lambda>x. x < obj) fs) \<subseteq> set fs"
    by (auto dest: set_takeWhileD set_dropWhileD)
  then show ?case using Cons by (auto simp: insert_obj_def)
qed (simp add: insert_obj_def)

lemma wchain_insert:
  assumes "wchain w a (us @ vs)" "us \<noteq> []" "obj \<notin> set (us @ vs)" "obj \<noteq> 0" "distinct (us @ vs)"
  shows "wchain (w(obj := case vs of [] \<Rightarrow> 0 | v # _ \<Rightarrow> v, last us := obj)) a (us @ obj # vs)"
  using assms
proof (induction us arbitrary: a)
  case (Cons u us)
  show ?case
  proof (cases us)
    case Nil
    let ?w = "w(obj := case vs of [] \<Rightarrow> 0 | v # _ \<Rightarrow> v, u := obj)"
    have "wchain w (w u) vs" using Cons.prems(1) Nil by simp
    moreover have "wchain ?w (w u) vs = wchain w (w u) vs"
      using Cons.prems(3,5) Nil by (intro wchain_cong) auto
    ultimately have "wchain ?w (w u) vs" "w u = (case vs of [] \<Rightarrow> 0 | v # _ \<Rightarrow> v)"
      using wchain_head [of w "w u" vs] by simp_all
    then show ?thesis using Cons.prems(1,3,4) Nil by (simp add: fun_upd_def)
  next
    case (Cons u' us')
    then have "u \<noteq> last us" using Cons.prems(5) by (metis UnI1 distinct.simps(2) append_Cons last_in_set list.discI set_append)
    then show ?thesis using Cons.IH [of "w u"] Cons.prems Cons by auto
  qed
qed simp

lemma slab_free_ok:
  assumes l: "slab_list h s fs" and obj: "obj \<noteq> 0" "obj \<notin> set fs"
  shows "\<exists>h'. slab_free s obj h = Inr h' \<and> slab_list h' s (insert_obj obj fs) \<and>
           free_obj (slab_at h' s) = free_obj (slab_at h s) + 1"
proof -
  let ?d = "slab_at h s"
  have c: "wchain (word_at h) (objs ?d) fs" and so: "sorted_wrt (<) fs" using l by (simp_all add: slab_list_def)
  have di: "distinct fs" using so by (simp add: strict_sorted_iff)
  have si: "sorted_wrt (<) (insert_obj obj fs)" by (rule insert_obj_sorted [OF so obj(2)])
  show ?thesis
  proof (cases fs)
    case Nil
    then show ?thesis using c obj
      by (simp add: slab_free_def slab_list_def SLAB_SET_NEXT_def set_slab_def set_word_def Let_def insert_obj_def)
  next
    case (Cons x xs)
    have x: "objs ?d = x" "x \<noteq> 0" using c Cons by simp_all
    show ?thesis
    proof (cases "obj < x")
      case True
      then have "insert_obj obj fs = obj # fs" using Cons less_asym' [OF True] by (auto simp: insert_obj_def)
      then show ?thesis using True x obj c si Cons
        by (auto simp: slab_free_def slab_list_def SLAB_SET_NEXT_def set_slab_def set_word_def Let_def)
    next
      case False
      then have lt: "x < obj" using obj(2) Cons by auto
      define us where "us = takeWhile (\<lambda>x. x < obj) fs"
      define vs where "vs = dropWhile (\<lambda>x. x < obj) fs"
      have uv: "fs = us @ vs" "us \<noteq> []" "insert_obj obj fs = us @ obj # vs"
        using lt Cons by (simp_all add: us_def vs_def insert_obj_def)
      have "last us \<in> set fs" using uv by simp
      then have l0: "last us \<noteq> 0" using wchain_nonnull [OF c] by metis
      have w: "slab_walk (word_at h) obj 0 x = Some (last us, case vs of [] \<Rightarrow> 0 | v # _ \<Rightarrow> v)"
        using slab_walk_ok [OF c so, of obj 0] x(1) uv(2) by (simp add: us_def vs_def)
      have "wchain ((word_at h)(obj := case vs of [] \<Rightarrow> 0 | v # _ \<Rightarrow> v, last us := obj)) x (us @ obj # vs)"
        using c x(1) uv obj di by (intro wchain_insert) auto
      then show ?thesis using x w l0 obj False si uv(3)
        by (simp add: slab_free_def slab_list_def SLAB_SET_NEXT_def set_slab_def set_word_def Let_def)
    qed
  qed
qed

section \<open>A fresh slab\<close>

text \<open>The objects a slab of \<open>n\<close> bytes is cut into, the incomplete last one included.\<close>

fun cells :: "nat \<Rightarrow> u64 \<Rightarrow> u64 \<Rightarrow> u64 \<Rightarrow> u64 list" where
  "cells 0 p sz e = []"
| "cells (Suc n) p sz e = (if p + sz < e then p # cells n (p + sz) sz e else [p])"

lemma cells_range:
  assumes "x \<in> set (cells n p sz e)" "p < e" "unat e + unat sz < 2 ^ 64"
  shows "p \<le> x \<and> x < e"
  using assms
proof (induction n arbitrary: p)
  case (Suc n)
  show ?case
  proof (cases "p + sz < e")
    case True
    have "unat p + unat sz < 2 ^ 64" using Suc.prems(2,3) by (simp add: word_less_nat_alt)
    then have "p \<le> p + sz" by (simp add: no_olen_add_nat)
    then show ?thesis using Suc True by (auto intro: order_trans)
  next
    case False
    then show ?thesis using Suc.prems by simp
  qed
qed simp

lemma link_loop_ok:
  assumes "unat e - unat p < n" "p < e" "p \<noteq> 0" "0 < sz" "unat e + unat sz < 2 ^ 64"
  shows "\<exists>h'. link_loop n p sz e h = Inr h' \<and> slab_at h' = slab_at h \<and>
           wchain (word_at h') p (cells n p sz e) \<and> sorted_wrt (<) (cells n p sz e) \<and>
           (\<forall>x. x < p \<longrightarrow> word_at h' x = word_at h x)"
  using assms
proof (induction n arbitrary: p h)
  case (Suc n)
  show ?case
  proof (cases "p + sz < e")
    case True
    have s: "unat (p + sz) = unat p + unat sz"
      using Suc.prems(2,5) by (simp add: unat_word_ariths word_less_nat_alt)
    then have lt: "p < p + sz" using Suc.prems(4) by (simp add: word_less_nat_alt)
    have nz: "p + sz \<noteq> 0" using lt by auto
    have "unat (p + sz) < unat e" "0 < unat sz"
      using True Suc.prems(4) by (simp_all add: word_less_nat_alt)
    then have less: "unat e - unat (p + sz) < n" using Suc.prems(1) s by linarith
    obtain h' where h': "link_loop n (p + sz) sz e (set_word p (p + sz) h) = Inr h'"
      "slab_at h' = slab_at h" "wchain (word_at h') (p + sz) (cells n (p + sz) sz e)"
      "sorted_wrt (<) (cells n (p + sz) sz e)"
      "\<forall>x. x < p + sz \<longrightarrow> word_at h' x = word_at (set_word p (p + sz) h) x"
      using Suc.IH [of "p + sz" "set_word p (p + sz) h", OF _ True nz Suc.prems(4,5)] less
      by (auto simp: set_word_def)
    have "\<forall>x \<in> set (cells n (p + sz) sz e). p < x"
      using cells_range [of _ n "p + sz" sz e] True Suc.prems(5) lt less_le_trans by blast
    moreover have "word_at h' x = word_at h x" if "x < p" for x
      using h'(5) that lt less_trans [OF that lt] by (auto simp: set_word_def)
    moreover have "word_at h' p = p + sz" using h'(5) lt by (simp add: set_word_def)
    ultimately show ?thesis using h'(1-4) True Suc.prems(3) by (auto simp: SLAB_SET_NEXT_def)
  next
    case False
    then show ?thesis using Suc.prems(3) by (auto simp: SLAB_SET_NEXT_def set_word_def)
  qed
qed simp

lemma cells_eq:
  assumes "p < e" "unat e + unat sz < 2 ^ 64" "0 < sz" "unat e - unat p \<le> n"
  shows "cells n p sz e = map (\<lambda>k. p + of_nat k * sz) [0..<(unat e - unat p + unat sz - 1) div unat sz]"
  using assms
proof (induction n arbitrary: p)
  case 0
  then show ?case by (simp add: word_less_nat_alt)
next
  case (Suc n)
  let ?c = "\<lambda>p. (unat e - unat p + unat sz - 1) div unat sz"
  have sz: "0 < unat sz" and pe: "unat p < unat e"
    using Suc.prems by (simp_all add: word_less_nat_alt)
  have s: "unat (p + sz) = unat p + unat sz"
    using Suc.prems(2) pe by (simp add: unat_word_ariths)
  show ?case
  proof (cases "p + sz < e")
    case True
    then have lt: "unat p + unat sz < unat e" using s by (simp add: word_less_nat_alt)
    then have "unat e - unat p + unat sz - 1 = (unat e - unat (p + sz) + unat sz - 1) + unat sz"
      using s by simp
    then have c: "?c p = Suc (?c (p + sz))" using sz by (metis Suc_eq_plus1 div_add_self2 neq0_conv)
    have "unat e - unat (p + sz) \<le> n" using Suc.prems(4) s sz lt by linarith
    then have "cells n (p + sz) sz e = map (\<lambda>k. p + sz + of_nat k * sz) [0..<?c (p + sz)]"
      using Suc.IH [of "p + sz"] Suc.prems True by simp
    also have "\<dots> = map (\<lambda>k. p + of_nat k * sz) [Suc 0..<Suc (?c (p + sz))]"
      unfolding map_Suc_upt [symmetric] by (simp add: algebra_simps)
    finally have "cells (Suc n) p sz e = map (\<lambda>k. p + of_nat k * sz) (0 # [Suc 0..<Suc (?c (p + sz))])"
      using True by simp
    also have "0 # [Suc 0..<Suc (?c (p + sz))] = [0..<?c p]" unfolding c by (subst upt_conv_Cons [of 0]) simp_all
    finally show ?thesis .
  next
    case False
    then have "unat e - unat p \<le> unat sz" using s by (simp add: word_less_nat_alt not_less)
    then have "?c p = 1" using sz pe by (intro div_nat_eqI) auto
    then show ?thesis using False by simp
  qed
qed

section \<open>The interface of an object pool\<close>

text \<open>\<open>n\<close> allocations in a row.\<close>

fun take_many :: "('s \<Rightarrow> (u64 \<times> 's) outcome) \<Rightarrow> nat \<Rightarrow> 's \<Rightarrow> (u64 list \<times> 's) outcome" where
  "take_many get 0 s = Inr ([], s)"
| "take_many get (Suc n) s =
     bindO (get s) (\<lambda>(x, s). bindO (take_many get n s) (\<lambda>(xs, s). Inr (x # xs, s)))"

locale object_pool =
  fixes take :: "'s \<Rightarrow> (u64 \<times> 's) outcome"
    and put :: "u64 \<Rightarrow> 's \<Rightarrow> 's outcome"
    and pool :: "'s \<Rightarrow> u64 list \<Rightarrow> bool"
    and mine :: "u64 \<Rightarrow> bool"
  assumes take_ok: "pool s (x # fs) \<Longrightarrow> \<exists>s'. take s = Inr (x, s') \<and> pool s' fs"
    and take_none: "pool s [] \<Longrightarrow> take s = Inr (0, s)"
    and put_ok: "pool s fs \<Longrightarrow> mine x \<Longrightarrow> x \<notin> set fs \<Longrightarrow> \<exists>s'. put x s = Inr s' \<and> pool s' (insert_obj x fs)"
    and pool_sorted: "pool s fs \<Longrightarrow> sorted_wrt (<) fs"
    and pool_mine: "pool s fs \<Longrightarrow> x \<in> set fs \<Longrightarrow> mine x"
begin

lemma drain: "pool s fs \<Longrightarrow> \<exists>s'. take_many take (length fs) s = Inr (fs, s') \<and> take s' = Inr (0, s')"
proof (induction fs arbitrary: s)
  case Nil
  then show ?case using take_none by simp
next
  case (Cons x fs)
  obtain s1 where s1: "take s = Inr (x, s1)" "pool s1 fs" using take_ok [OF Cons.prems] by blast
  then show ?case using Cons.IH [OF s1(2)] by auto
qed

lemma take_put:
  assumes "pool s (x # fs)"
  shows "\<exists>s1 s2. take s = Inr (x, s1) \<and> pool s1 fs \<and> put x s1 = Inr s2 \<and> pool s2 (x # fs)"
proof -
  obtain s1 where s1: "take s = Inr (x, s1)" "pool s1 fs" using take_ok [OF assms] by blast
  have lt: "\<forall>y \<in> set fs. x < y" using pool_sorted [OF assms] by simp
  then have "insert_obj x fs = x # fs"
    by (cases fs) (auto simp: insert_obj_def dest: less_asym')
  moreover have "\<exists>s2. put x s1 = Inr s2 \<and> pool s2 (insert_obj x fs)"
    using s1(2) pool_mine [OF assms] lt by (intro put_ok) auto
  ultimately show ?thesis using s1 by auto
qed

end

text \<open>
  The pool of the slab \<open>s\<close>: its free objects are linked in address order, followed by \<open>t\<close>,
  the incomplete object at the end of the pages when there is one, which the counter keeps from
  being handed out.
\<close>

definition slab_pool :: "u64 \<Rightarrow> u64 list \<Rightarrow> 'a kheap_scheme \<Rightarrow> u64 list \<Rightarrow> bool" where
  "slab_pool s t h fs \<longleftrightarrow> slab_list h s (fs @ t) \<and> free_obj (slab_at h s) = int (length fs)"

definition slab_obj :: "u64 list \<Rightarrow> u64 \<Rightarrow> bool" where
  "slab_obj t x \<longleftrightarrow> x \<noteq> 0 \<and> (\<forall>y \<in> set t. x < y)"

lemma insert_obj_append:
  assumes "\<forall>y \<in> set t. x < y"
  shows "insert_obj x (fs @ t) = insert_obj x fs @ t"
proof -
  have "takeWhile (\<lambda>y. y < x) t = []" "dropWhile (\<lambda>y. y < x) t = t"
    using assms by (cases t; auto dest: less_asym')+
  then show ?thesis
    by (induction fs) (simp_all add: insert_obj_def)
qed

lemma insert_obj_length [simp]: "length (insert_obj x fs) = Suc (length fs)"
proof -
  have "length (takeWhile (\<lambda>y. y < x) fs) + length (dropWhile (\<lambda>y. y < x) fs) = length fs"
    by (metis length_append takeWhile_dropWhile_id)
  then show ?thesis by (simp add: insert_obj_def)
qed

interpretation slab: object_pool "slab_alloc s" "slab_free s" "slab_pool s t" "slab_obj t" for s t
proof
  fix h x fs assume p: "slab_pool s t h (x # fs)"
  then show "\<exists>h'. slab_alloc s h = Inr (x, h') \<and> slab_pool s t h' fs"
    using slab_alloc_ok [of h s x "fs @ t"] by (auto simp: slab_pool_def)
next
  fix h assume "slab_pool s t h []"
  then show "slab_alloc s h = Inr (0, h)" by (simp add: slab_pool_def slab_alloc_def)
next
  fix h fs x assume p: "slab_pool s t h fs" and m: "slab_obj t x" and n: "x \<notin> set fs"
  then have "x \<notin> set (fs @ t)" by (auto simp: slab_obj_def)
  then show "\<exists>h'. slab_free s x h = Inr h' \<and> slab_pool s t h' (insert_obj x fs)"
    using slab_free_ok [of h s "fs @ t" x] p m insert_obj_append [of t x fs]
    by (auto simp: slab_pool_def slab_obj_def)
next
  fix h fs assume "slab_pool s t h fs"
  then show "sorted_wrt (<) fs" by (simp add: slab_pool_def slab_list_def sorted_wrt_append)
next
  fix h fs x assume p: "slab_pool s t h fs" and x: "x \<in> set fs"
  then have "0 \<notin> set (fs @ t)" by (auto simp: slab_pool_def slab_list_def dest: wchain_nonnull)
  then show "slab_obj t x"
    using p x by (auto simp: slab_obj_def slab_pool_def slab_list_def sorted_wrt_append)
qed

section \<open>The properties of slabs\<close>

lemma int32_small:
  assumes "unat x < 2 ^ 31"
  shows "int32 x = int (unat x)"
proof -
  have "signed_take_bit 31 (uint x) = uint x"
  proof (rule signed_take_bit_int_eq_self)
    have "- (2 ^ 31) \<le> (0 :: int)" "0 \<le> uint x" by simp_all
    then show "- (2 ^ 31) \<le> uint x" by (rule order_trans)
    have "int (unat x) < int (2 ^ 31)" using assms by (simp only: of_nat_less_iff)
    then show "uint x < 2 ^ 31" by simp
  qed
  then show ?thesis unfolding int32_def by (simp add: signed_ucast_eq)
qed

lemma slab_bytes:
  assumes "4096 * 2 ^ k < (2 :: nat) ^ 64"
  shows "unat (PAGE_SIZE * POWER_OF_2 k) = 4096 * 2 ^ k"
proof -
  have "(2 :: nat) ^ k < 2 ^ 64" using assms by linarith
  then have "k < 64" by (rule power_less_imp_less_exp [rotated]) simp
  then show ?thesis using assms
    by (simp add: PAGE_SIZE_def unat_word_ariths unat_POWER_OF_2)
qed

text \<open>A slab on a run of pages is cut into as many objects as fit, side by side from the
  start of the run; all of them are free, and none reaches past the end.\<close>

lemma slab_create_objects:
  assumes "page \<noteq> 0" "0 < sz" "sz \<le> 4096 * 2 ^ nat ord"
    and "unat page + 4096 * 2 ^ nat ord + nat sz < 2 ^ 64" "4096 * 2 ^ nat ord div sz < 2 ^ 31"
  shows "\<exists>h' t. slab_create_ex s page sz ord h = Inr h' \<and>
     slab_pool s t h' (map (\<lambda>k. page + of_nat k * word_of_int sz) [0..<4096 * 2 ^ nat ord div nat sz]) \<and>
     (\<forall>k < 4096 * 2 ^ nat ord div nat sz. unat page + k * nat sz + nat sz \<le> unat (slab_end page ord))"
proof -
  define N where "N = 4096 * (2 :: nat) ^ nat ord"
  define w where "w = (word_of_int sz :: u64)"
  define e where "e = slab_end page ord"
  have lt: "unat page + N + nat sz < 2 ^ 64" using assms(4) by (simp add: N_def)
  have n: "unat (PAGE_SIZE * POWER_OF_2 (nat ord)) = N" using lt unfolding N_def by (intro slab_bytes) linarith
  have "nat sz < 2 ^ 64" using lt by linarith
  then have w: "unat w = nat sz" using assms(2) by (simp add: w_def unat_eq_nat_uint uint_word_of_int_eq take_bit_int_eq_self)
  have N0: "0 < N" "nat sz \<le> N" using assms(2,3) by (simp_all add: N_def nat_le_iff)
  have e: "unat e = unat page + N"
    using lt n by (simp add: e_def slab_end_def unat_word_ariths)
  have pe: "page < e" "0 < w" "w \<noteq> 0" using e N0 w assms(2) by (auto simp: word_less_nat_alt)
  have lim: "unat e + unat w < 2 ^ 64" using e w lt by simp
  define c where "c = (N + nat sz - 1) div nat sz"
  have cells: "cells (Suc N) page w e = map (\<lambda>k. page + of_nat k * w) [0..<c]"
    using cells_eq [OF pe(1) lim pe(2), of "Suc N"] e w by (simp add: c_def)
  have "N div nat sz \<le> c" unfolding c_def using assms(2) by (intro div_le_mono) linarith
  then have split: "[0..<c] = [0..<N div nat sz] @ [N div nat sz..<c]"
    by (metis le_add_diff_inverse upt_add_eq_append zero_le)
  define d where "d = \<lparr>pg = page, objs = page, size_obj = sz, free_obj = int (N div nat sz),
                       total_obj = int (N div nat sz), order = ord\<rparr>"
  have "unat (POWER_OF_2 (nat ord) * PAGE_SIZE div w) = N div nat sz"
    using n w by (simp add: unat_div mult.commute)
  moreover have "N div nat sz < 2 ^ 31"
    using assms(2,5) by (simp add: N_def nat_less_iff zdiv_int flip: of_nat_less_iff [where 'a = int])
  ultimately have i32: "int32 (POWER_OF_2 (nat ord) * PAGE_SIZE div w) = int (N div nat sz)"
    using int32_small [of "POWER_OF_2 (nat ord) * PAGE_SIZE div w"] by (metis)
  obtain h' where h': "link_loop (Suc N) page w e (set_slab s d h) = Inr h'" "slab_at h' = slab_at (set_slab s d h)"
    "wchain (word_at h') page (cells (Suc N) page w e)" "sorted_wrt (<) (cells (Suc N) page w e)"
    using link_loop_ok [of e page "Suc N" w "set_slab s d h"] e pe assms(1) lim by auto
  have "slab_create_ex s page sz ord h = Inr h'"
    using h'(1) pe(3) i32 n by (simp add: slab_create_ex_def w_def e_def d_def Let_def mult.commute del: link_loop.simps)
  moreover have "slab_pool s (map (\<lambda>k. page + of_nat k * w) [N div nat sz..<c]) h'
      (map (\<lambda>k. page + of_nat k * w) [0..<N div nat sz])"
    using h'(2-4) unfolding cells split
    by (simp add: slab_pool_def slab_list_def set_slab_def d_def)
  moreover have "unat page + k * nat sz + nat sz \<le> unat e" if "k < N div nat sz" for k
  proof -
    have "Suc k * nat sz \<le> N div nat sz * nat sz" using that by (intro mult_le_mono1) simp
    also have "\<dots> \<le> N" by simp
    finally show ?thesis using e by simp
  qed
  ultimately show ?thesis unfolding w_def e_def N_def by blast
qed

text \<open>C32. Taking all the objects of a slab hands out every free object once, in address order,
  and the next request returns the null pointer and changes nothing.\<close>

theorem slab_drain:
  assumes "slab_pool s t h fs"
  shows "\<exists>h'. take_many (slab_alloc s) (length fs) h = Inr (fs, h') \<and> slab_alloc s h' = Inr (0, h')"
  by (rule slab.drain [OF assms])

text \<open>Allocating an object and freeing it restores the list of free objects, order included.\<close>

lemma slab_alloc_free:
  assumes "slab_pool s t h (x # fs)"
  shows "\<exists>h1 h2. slab_alloc s h = Inr (x, h1) \<and> slab_pool s t h1 fs \<and>
           slab_free s x h1 = Inr h2 \<and> slab_pool s t h2 (x # fs)"
  by (rule slab.take_put [OF assms])

text \<open>A slab of 48-byte descriptors on four pages.\<close>

definition boot_heap :: kheap where
  "boot_heap = \<lparr>word_at = (\<lambda>_. 0), slab_at = (\<lambda>_. \<lparr>pg = 0, objs = 0, size_obj = 0, free_obj = 0, total_obj = 0, order = 0\<rparr>),
     links = \<lparr>lprev = (\<lambda>_. 0), lnext = (\<lambda>_. 0)\<rparr>, objsize_at = (\<lambda>_. 0), meta_slab = 64,
     pmem_st = (memory3, boot_machine)\<rparr>"

definition two_objects :: kheap where
  "two_objects = boot_heap\<lparr>word_at := (\<lambda>_. 0)(4096 := 4144),
     slab_at := (\<lambda>_. \<lparr>pg = 4096, objs = 4096, size_obj = 48, free_obj = 2, total_obj = 85, order = 0\<rparr>)\<rparr>"

lemma two_objects_pool: "slab_pool 64 [] two_objects [4096, 4144]"
  by (simp add: slab_pool_def slab_list_def two_objects_def)

theorem slab_drain_witness:
  "\<exists>h'. take_many (slab_alloc 64) 2 two_objects = Inr ([4096, 4144], h') \<and> slab_alloc 64 h' = Inr (0, h')"
  using slab_drain [OF two_objects_pool] by (simp add: numeral_2_eq_2)

end
