(* ===== verification/Kmem.thy ===== *)
theory Kmem
  imports Slab
begin

text \<open>
  Models \<open>kernel/kmem.c\<close>, the kernel heap: a chain of caches, one per object size, each with
  three lists of slabs (full, partly used, free). The chain extends the state of \<open>Slab\<close>. A
  \<open>kmem_cache_t\<close> is known by its address, its list heads lie at fixed offsets in it.
\<close>

record kchain = kheap +
  cache_list :: u64
  kmem_cache_slab :: u64
  pslab :: u64
  kmem_lock :: spinlock

definition KMEM_CACHE_SIZE_LIST :: "u64 list" where
  "KMEM_CACHE_SIZE_LIST = [8, 16, 32, 64, 128, 256, 512, 1024, 2048]"

definition KMEM_CACHE_SLAB_ORDER :: int where "KMEM_CACHE_SLAB_ORDER = 0"
definition KMEM_CACHE_PSLAB_ORDER :: int where "KMEM_CACHE_PSLAB_ORDER = 2"
definition KMEM_CACHE_CSLAB_ORDER :: int where "KMEM_CACHE_CSLAB_ORDER = 1"

text \<open>\<open>kmem_cache_t\<close>: four list heads and the object size.\<close>

definition SIZEOF_KMEM_CACHE :: int where "SIZEOF_KMEM_CACHE = 72"

definition full_head :: "u64 \<Rightarrow> u64" where "full_head kc = kc + 16"
definition partial_head :: "u64 \<Rightarrow> u64" where "partial_head kc = kc + 32"
definition free_head :: "u64 \<Rightarrow> u64" where "free_head kc = kc + 48"

definition on_links :: "(u64 lheap \<Rightarrow> u64 lheap) \<Rightarrow> kchain \<Rightarrow> kchain" where
  "on_links f h = h\<lparr>links := f (links h)\<rparr>"

text \<open>
  A \<open>list_for_each\<close> loop that breaks at the first entry with \<open>P\<close>; the result is the null
  pointer when the head is reached, and \<open>None\<close> when the loop never ends.
\<close>

partial_function (option) find_entry :: "u64 lheap \<Rightarrow> u64 \<Rightarrow> (u64 \<Rightarrow> bool) \<Rightarrow> u64 \<Rightarrow> u64 option" where
  [code]: "find_entry l head P pos =
     (if pos = head then Some 0 else if P pos then Some pos else find_entry l head P (lnext l pos))"

section \<open>Caches\<close>

definition kmem_cache_create :: "u64 \<Rightarrow> kchain \<Rightarrow> (u64 \<times> kchain) outcome" where
  "kmem_cache_create sz h =
     bindO (slab_alloc (kmem_cache_slab h) h) (\<lambda>(kc, h).
     guardO Undefined (kc \<noteq> 0)
       (let h = on_links (list_init kc) h;
            h = on_links (list_init (full_head kc)) h;
            h = on_links (list_init (partial_head kc)) h;
            h = on_links (list_init (free_head kc)) h
        in Inr (kc, h\<lparr>objsize_at := (objsize_at h)(kc := sz)\<rparr>)))"

text \<open>The \<open>list_for_each_safe\<close> loop of \<open>kmem_cache_shrink\<close>.\<close>

partial_function (option) shrink_loop :: "u64 \<Rightarrow> u64 \<Rightarrow> u64 \<Rightarrow> kchain \<Rightarrow> kchain outcome option" where
  [code]: "shrink_loop head pos n h =
     (if pos = head then Some (Inr h)
      else (case slab_destory (pslab h) pos (on_links (list_del pos) h) of
              Inl e \<Rightarrow> Some (Inl e)
            | Inr h \<Rightarrow> shrink_loop head n (lnext (links h) n) h))"

definition kmem_cache_shrink :: "u64 \<Rightarrow> kchain \<Rightarrow> kchain outcome" where
  "kmem_cache_shrink kc h =
     (let pos = lnext (links h) (free_head kc)
      in hang (shrink_loop (free_head kc) pos (lnext (links h) pos) h))"

definition kmem_cache_destory :: "u64 \<Rightarrow> kchain \<Rightarrow> kchain outcome" where
  "kmem_cache_destory kc h =
     bindO (kmem_cache_shrink kc h) (\<lambda>h. slab_free (kmem_cache_slab h) kc h)"

definition kmem_cache_alloc :: "u64 \<Rightarrow> kchain \<Rightarrow> (u64 \<times> kchain) outcome" where
  "kmem_cache_alloc kc h = guardO Undefined (kc \<noteq> 0)
     (if \<not> list_is_empty (partial_head kc) (links h) then
        let s = lnext (links h) (partial_head kc) in
        bindO (slab_alloc s h) (\<lambda>(ret, h).
          Inr (ret, if slab_full (slab_at h s)
                    then on_links (list_add s (full_head kc)) (on_links (list_del s) h) else h))
      else if \<not> list_is_empty (free_head kc) (links h) then
        let s = lnext (links h) (free_head kc) in
        bindO (slab_alloc s h) (\<lambda>(ret, h).
          let h = on_links (list_del s) h
          in Inr (ret, if slab_full (slab_at h s) then on_links (list_add s (full_head kc)) h
                       else on_links (list_add s (partial_head kc)) h))
      else
        bindO (slab_create (pslab h) (sint (ucast (objsize_at h kc) :: u32)) KMEM_CACHE_CSLAB_ORDER kc h) (\<lambda>(s, h).
        if s \<noteq> 0 then
          bindO (slab_alloc s h) (\<lambda>(ret, h).
            Inr (ret, if slab_full (slab_at h s) then on_links (list_add s (full_head kc)) h
                      else on_links (list_add s (partial_head kc)) h))
        else Inr (0, h)))"

definition kmem_cache_free :: "u64 \<Rightarrow> u64 \<Rightarrow> kchain \<Rightarrow> kchain outcome" where
  "kmem_cache_free kc obj h = guardO Undefined (kc \<noteq> 0)
     (case find_entry (links h) (partial_head kc) (\<lambda>s. slab_contain (slab_at h s) obj)
             (lnext (links h) (partial_head kc)) of
        None \<Rightarrow> Inl Hang
      | Some res \<Rightarrow>
          if res \<noteq> 0 then
            bindO (slab_free res obj h) (\<lambda>h.
              Inr (if slab_empty (slab_at h res)
                   then on_links (list_add res (free_head kc)) (on_links (list_del res) h) else h))
          else
            (case find_entry (links h) (full_head kc) (\<lambda>s. slab_contain (slab_at h s) obj)
                    (lnext (links h) (full_head kc)) of
               None \<Rightarrow> Inl Hang
             | Some res \<Rightarrow>
                 if res \<noteq> 0 then
                   bindO (slab_free res obj h) (\<lambda>h.
                     Inr (on_links (list_add res (partial_head kc)) (on_links (list_del res) h)))
                 else Inl Panic))"

section \<open>The chain of caches\<close>

definition kmem_add :: "u64 \<Rightarrow> kchain \<Rightarrow> kchain" where
  "kmem_add kc h = on_links (list_add_tail kc (cache_list h)) h"

definition kmem_del :: "u64 \<Rightarrow> kchain \<Rightarrow> kchain" where
  "kmem_del kc h = on_links (list_del kc) h"

fun create_caches :: "u64 list \<Rightarrow> kchain \<Rightarrow> kchain outcome" where
  "create_caches [] h = Inr h"
| "create_caches (sz # szs) h =
     bindO (kmem_cache_create sz h) (\<lambda>(kc, h). create_caches szs (kmem_add kc h))"

definition kmem_init :: "kchain \<Rightarrow> kchain outcome" where
  "kmem_init h =
     bindO (slab_static_init (h\<lparr>kmem_lock := spinlock_init ''kmem_cache''\<rparr>)) (\<lambda>h.
     bindO (slab_create_static SIZEOF_KMEM_CACHE KMEM_CACHE_SLAB_ORDER h) (\<lambda>(s, h).
     let h = on_links (list_init (cache_list h)) (h\<lparr>kmem_cache_slab := s\<rparr>) in
     bindO (slab_create_static SIZEOF_SLAB KMEM_CACHE_PSLAB_ORDER h) (\<lambda>(s, h).
       create_caches KMEM_CACHE_SIZE_LIST (h\<lparr>pslab := s\<rparr>))))"

definition kmem_acquire :: "kchain \<Rightarrow> kchain outcome" where
  "kmem_acquire h = bindO (spinlock_acquire (kmem_lock h) (snd (pmem_st h)))
     (\<lambda>(l, m). Inr (h\<lparr>kmem_lock := l, pmem_st := (fst (pmem_st h), m)\<rparr>))"

definition kmem_release :: "kchain \<Rightarrow> kchain outcome" where
  "kmem_release h = bindO (spinlock_release (kmem_lock h) (snd (pmem_st h)))
     (\<lambda>(l, m). Inr (h\<lparr>kmem_lock := l, pmem_st := (fst (pmem_st h), m)\<rparr>))"

text \<open>The cache that serves a size: the first one for the smallest sizes, otherwise the first
  that is large enough.\<close>

definition kmem_select :: "u64 \<Rightarrow> kchain \<Rightarrow> u64 outcome" where
  "kmem_select sz h =
     (if sz \<le> hd KMEM_CACHE_SIZE_LIST then Inr (lnext (links h) (cache_list h))
      else hang (map_option Inr (find_entry (links h) (cache_list h) (\<lambda>kc. sz \<le> objsize_at h kc)
                 (lnext (links h) (cache_list h)))))"

definition kmem_alloc :: "u64 \<Rightarrow> kchain \<Rightarrow> (u64 \<times> kchain) outcome" where
  "kmem_alloc sz h =
     (if sz > last KMEM_CACHE_SIZE_LIST then Inr (0, h)
      else bindO (kmem_acquire h) (\<lambda>h.
           bindO (kmem_select sz h) (\<lambda>kc.
           bindO (kmem_cache_alloc kc h) (\<lambda>(ret, h).
           bindO (kmem_release h) (\<lambda>h. Inr (ret, h))))))"

definition kmem_free :: "u64 \<Rightarrow> kchain \<Rightarrow> kchain outcome" where
  "kmem_free a h =
     bindO (kmem_acquire h) (\<lambda>h.
     bindO (pmem_get_adat (ALIGN_4K a) (fst (pmem_st h))) (\<lambda>kc.
     bindO (kmem_cache_free kc a h) kmem_release))"

partial_function (option) shrink_all :: "u64 \<Rightarrow> kchain \<Rightarrow> kchain outcome option" where
  [code]: "shrink_all pos h =
     (if pos = cache_list h then Some (Inr h)
      else (case kmem_cache_shrink pos h of
              Inl e \<Rightarrow> Some (Inl e)
            | Inr h \<Rightarrow> shrink_all (lnext (links h) pos) h))"

definition kmem_shrink :: "kchain \<Rightarrow> kchain outcome" where
  "kmem_shrink h =
     bindO (kmem_acquire h) (\<lambda>h.
     bindO (hang (shrink_all (lnext (links h) (cache_list h)) h)) kmem_release)"

definition kmalloc :: "u64 \<Rightarrow> kchain \<Rightarrow> (u64 \<times> kchain) outcome" where
  "kmalloc sz h = kmem_alloc sz h"

definition kfree :: "u64 \<Rightarrow> kchain \<Rightarrow> kchain outcome" where
  "kfree a h = kmem_free a h"

section \<open>Looking up caches and slabs\<close>

lemma find_entry_seg:
  "dseg l p xs head \<Longrightarrow> head \<notin> set xs \<Longrightarrow>
     find_entry l head P (lnext l p) = Some (case List.find P xs of None \<Rightarrow> 0 | Some x \<Rightarrow> x)"
proof (induction xs arbitrary: p)
  case Nil
  then show ?case by (simp add: find_entry.simps)
next
  case (Cons x xs)
  then have "lnext l p = x" "x \<noteq> head" "dseg l x xs head" by auto
  then show ?case using Cons.IH [of x] Cons.prems(2) by (simp add: find_entry.simps [of l head P x])
qed

lemma find_entry_ok:
  "dlist l head xs \<Longrightarrow>
     find_entry l head P (lnext l head) = Some (case List.find P xs of None \<Rightarrow> 0 | Some x \<Rightarrow> x)"
  by (rule find_entry_seg) (simp_all add: dlist_def)

section \<open>The lists of a cache\<close>

definition tri :: "u64 lheap \<Rightarrow> u64 \<Rightarrow> u64 list \<Rightarrow> u64 \<Rightarrow> u64 list \<Rightarrow> u64 \<Rightarrow> u64 list \<Rightarrow> bool" where
  "tri l a xs b ys c zs \<longleftrightarrow> dlist l a xs \<and> dlist l b ys \<and> dlist l c zs \<and> distinct (a # xs @ b # ys @ c # zs)"

definition cache_lists :: "kchain \<Rightarrow> u64 \<Rightarrow> u64 list \<Rightarrow> u64 list \<Rightarrow> u64 list \<Rightarrow> bool" where
  "cache_lists h kc fu pa fr \<longleftrightarrow>
     tri (links h) (full_head kc) fu (partial_head kc) pa (free_head kc) fr \<and> 0 \<notin> set (fu @ pa @ fr)"

lemma slab_ops_links:
  "slab_alloc s h = Inr (x, h') \<Longrightarrow> links h' = links h"
  "slab_free s y h = Inr h'' \<Longrightarrow> links h'' = links h"
  by (auto simp: slab_alloc_def slab_free_def set_slab_def set_word_def Let_def SLAB_GET_NEXT_def
      SLAB_SET_NEXT_def outcome_simps split: if_splits option.splits)

text \<open>Moving a slab from the front of one list to the front of another, a third list untouched.\<close>

lemma move_front:
  assumes "dlist l a (xs @ e # ys)" "dlist l b zs" "dlist l c ws"
    and "distinct (a # xs @ e # ys @ b # zs @ c # ws)"
  shows "dlist (list_add e b (list_del e l)) a (xs @ ys)"
    and "dlist (list_add e b (list_del e l)) b (e # zs)"
    and "dlist (list_add e b (list_del e l)) c ws"
proof -
  have 1: "dlist (list_del e l) a (xs @ ys)" by (rule klist.del [OF assms(1)])
  have 2: "dlist (list_del e l) b zs" by (rule list_del_frame [OF assms(2,1)]) (use assms(4) in auto)
  have 3: "dlist (list_del e l) c ws" by (rule list_del_frame [OF assms(3,1)]) (use assms(4) in auto)
  show "dlist (list_add e b (list_del e l)) b (e # zs)" by (rule klist.add [OF 2]) (use assms(4) in auto)
  show "dlist (list_add e b (list_del e l)) a (xs @ ys)"
    by (rule list_add_frame [OF 1 2]) (use assms(4) in auto)
  show "dlist (list_add e b (list_del e l)) c ws"
    by (rule list_add_frame [OF 3 2]) (use assms(4) in auto)
qed

lemma tri_swap: "tri l a xs b ys c zs \<Longrightarrow> tri l b ys a xs c zs" "tri l a xs b ys c zs \<Longrightarrow> tri l a xs c zs b ys"
  by (auto simp: tri_def)

lemma tri_move:
  assumes "tri l a (xs @ e # ys) b zs c ws"
  shows "tri (list_add e b (list_del e l)) a (xs @ ys) b (e # zs) c ws"
proof -
  have d: "distinct (a # (xs @ e # ys) @ b # zs @ c # ws)" using assms by (simp only: tri_def)
  then have "distinct (a # xs @ e # ys @ b # zs @ c # ws)" by simp
  moreover have "distinct (a # (xs @ ys) @ b # (e # zs) @ c # ws)" using d by auto
  ultimately show ?thesis using assms move_front [of l a xs e ys b zs c ws] by (simp only: tri_def simp_thms)
qed

lemma cache_move:
  assumes "links h' = list_add s b (list_del s (links h))"
  shows "cache_lists h kc fu (us @ s # vs) fr \<Longrightarrow> b = full_head kc \<Longrightarrow> cache_lists h' kc (s # fu) (us @ vs) fr"
    and "cache_lists h kc fu (us @ s # vs) fr \<Longrightarrow> b = free_head kc \<Longrightarrow> cache_lists h' kc fu (us @ vs) (s # fr)"
    and "cache_lists h kc (us @ s # vs) pa fr \<Longrightarrow> b = partial_head kc \<Longrightarrow> cache_lists h' kc (us @ vs) (s # pa) fr"
proof -
  note mv = tri_move [where l = "links h" and b = b and e = s, folded assms]
  show "cache_lists h kc fu (us @ s # vs) fr \<Longrightarrow> b = full_head kc \<Longrightarrow> cache_lists h' kc (s # fu) (us @ vs) fr"
    using tri_swap(1) [OF mv [OF tri_swap(1)]] by (auto simp: cache_lists_def)
  show "cache_lists h kc fu (us @ s # vs) fr \<Longrightarrow> b = free_head kc \<Longrightarrow> cache_lists h' kc fu (us @ vs) (s # fr)"
    using tri_swap(1) [OF tri_swap(2) [OF mv [OF tri_swap(2) [OF tri_swap(1)]]]] by (auto simp: cache_lists_def)
  show "cache_lists h kc (us @ s # vs) pa fr \<Longrightarrow> b = partial_head kc \<Longrightarrow> cache_lists h' kc (us @ vs) (s # pa) fr"
    using mv by (auto simp: cache_lists_def)
qed

lemma cache_lists_dlist:
  assumes "cache_lists h kc fu pa fr"
  shows "dlist (links h) (full_head kc) fu" "dlist (links h) (partial_head kc) pa" "dlist (links h) (free_head kc) fr"
    "0 \<notin> set fu" "0 \<notin> set pa"
  using assms by (simp_all add: cache_lists_def tri_def)

lemma cache_lists_same: "links h' = links h \<Longrightarrow> cache_lists h' kc = cache_lists h kc"
  by (simp add: fun_eq_iff cache_lists_def)

lemma on_links_fields [simp]:
  "links (on_links f h) = f (links h)" "slab_at (on_links f h) = slab_at h"
  "word_at (on_links f h) = word_at h"
  by (simp_all add: on_links_def)

lemma slab_pool_links [simp]: "slab_pool s t (on_links f h) fs = slab_pool s t h fs"
  by (simp add: slab_pool_def slab_list_def)

text \<open>With a partly used slab at the front of a cache, an allocation takes the first free
  object of that slab, and the slab moves to the list of full slabs exactly when this was its
  last free object.\<close>

lemma kmem_cache_alloc_partial:
  assumes "cache_lists h kc fu (s # pa) fr" "slab_pool s t h (x # os)" "kc \<noteq> 0"
  shows "\<exists>h'. kmem_cache_alloc kc h = Inr (x, h') \<and> slab_pool s t h' os \<and>
           (if os = [] then cache_lists h' kc (s # fu) pa fr else cache_lists h' kc fu (s # pa) fr)"
proof -
  obtain h1 where h1: "slab_alloc s h = Inr (x, h1)" "slab_pool s t h1 os"
    using slab.take_ok [OF assms(2)] by blast
  have l: "links h1 = links h" using slab_ops_links(1) [OF h1(1)] .
  have d: "dlist (links h) (partial_head kc) (s # pa)" "dlist (links h) (full_head kc) fu"
    "dlist (links h) (free_head kc) fr" using cache_lists_dlist [OF assms(1)] by simp_all
  have first: "lnext (links h) (partial_head kc) = s" "\<not> list_is_empty (partial_head kc) (links h)"
    using klist.first [OF d(1)] dlist_is_empty [OF d(1)] by simp_all
  have full: "slab_full (slab_at h1 s) \<longleftrightarrow> os = []" using h1(2) by (auto simp: slab_full_def slab_pool_def)
  let ?h2 = "on_links (list_add s (full_head kc)) (on_links (list_del s) h1)"
  have "cache_lists ?h2 kc (s # fu) pa fr"
    using cache_move(1) [of ?h2 s "full_head kc" h kc fu "[]" pa fr] l assms(1) by simp
  moreover have "cache_lists h1 kc fu (s # pa) fr" using assms(1) cache_lists_same [OF l] by simp
  ultimately show ?thesis using first full h1 assms(3)
    by (cases "os = []") (auto simp: kmem_cache_alloc_def Let_def)
qed

lemma find_split:
  "(\<And>u. u \<in> set us \<Longrightarrow> \<not> P u) \<Longrightarrow> P s \<Longrightarrow> List.find P (us @ s # vs) = Some s"
  by (induction us) auto

lemma find_none: "(\<And>u. u \<in> set us \<Longrightarrow> \<not> P u) \<Longrightarrow> List.find P us = None"
  by (induction us) auto

text \<open>Freeing an object of a partly used slab returns it to the first such slab whose pages
  contain it, and the slab moves to the free list exactly when all its objects are free.\<close>

lemma kmem_cache_free_partial:
  assumes c: "cache_lists h kc fu (us @ s # vs) fr" and kc: "kc \<noteq> 0"
    and s: "slab_contain (slab_at h s) x" "\<forall>u \<in> set us. \<not> slab_contain (slab_at h u) x"
    and pool: "slab_pool s t h os" "slab_obj t x" "x \<notin> set os"
  shows "\<exists>h'. kmem_cache_free kc x h = Inr h' \<and> slab_pool s t h' (insert_obj x os) \<and>
           (if slab_empty (slab_at h' s) then cache_lists h' kc fu (us @ vs) (s # fr)
            else cache_lists h' kc fu (us @ s # vs) fr)"
proof -
  obtain h1 where h1: "slab_free s x h = Inr h1" "slab_pool s t h1 (insert_obj x os)"
    using slab.put_ok [OF pool] by blast
  have l: "links h1 = links h" using slab_ops_links(2) [OF h1(1)] .
  have d: "dlist (links h) (partial_head kc) (us @ s # vs)" "dlist (links h) (full_head kc) fu"
    "dlist (links h) (free_head kc) fr" using cache_lists_dlist [OF c] by simp_all
  have find: "find_entry (links h) (partial_head kc) (\<lambda>s. slab_contain (slab_at h s) x)
      (lnext (links h) (partial_head kc)) = Some s" "s \<noteq> 0"
    using find_entry_ok [OF d(1)] find_split [of us _ s vs] s cache_lists_dlist(5) [OF c] by auto
  let ?h2 = "on_links (list_add s (free_head kc)) (on_links (list_del s) h1)"
  have "cache_lists ?h2 kc fu (us @ vs) (s # fr)"
    using cache_move(2) [of ?h2 s "free_head kc" h kc fu us vs fr] l c by simp
  moreover have "cache_lists h1 kc fu (us @ s # vs) fr" using c cache_lists_same [OF l] by simp
  ultimately show ?thesis using find h1 kc
    by (cases "slab_empty (slab_at h1 s)") (auto simp: kmem_cache_free_def)
qed

text \<open>Freeing an object of a full slab, when no partly used slab contains it, returns it to that
  slab and moves the slab to the partly used ones; an object of no slab makes the kernel panic.\<close>

lemma kmem_cache_free_full:
  assumes c: "cache_lists h kc fu pa fr" and kc: "kc \<noteq> 0"
    and pa: "\<forall>u \<in> set pa. \<not> slab_contain (slab_at h u) x"
    and fu: "fu = us @ s # vs \<or> s = 0 \<and> fu = us" "\<forall>u \<in> set us. \<not> slab_contain (slab_at h u) x"
    and s: "s \<noteq> 0 \<Longrightarrow> slab_contain (slab_at h s) x \<and> slab_pool s t h os \<and> slab_obj t x \<and> x \<notin> set os"
  shows "if s = 0 then kmem_cache_free kc x h = Inl Panic
         else \<exists>h'. kmem_cache_free kc x h = Inr h' \<and> slab_pool s t h' (insert_obj x os) \<and>
                cache_lists h' kc (us @ vs) (s # pa) fr"
proof -
  have d: "dlist (links h) (partial_head kc) pa" "dlist (links h) (full_head kc) fu"
    "dlist (links h) (free_head kc) fr" using cache_lists_dlist [OF c] by simp_all
  have p0: "find_entry (links h) (partial_head kc) (\<lambda>s. slab_contain (slab_at h s) x)
      (lnext (links h) (partial_head kc)) = Some 0"
    using find_entry_ok [OF d(1)] find_none [of pa "\<lambda>s. slab_contain (slab_at h s) x"] pa by simp
  show ?thesis
  proof (cases "s = 0")
    case True
    then have "fu = us" using fu(1) cache_lists_dlist(4) [OF c] by auto
    then have "find_entry (links h) (full_head kc) (\<lambda>s. slab_contain (slab_at h s) x)
        (lnext (links h) (full_head kc)) = Some 0"
      using find_entry_ok [OF d(2)] find_none [of us "\<lambda>s. slab_contain (slab_at h s) x"] fu(2) by simp
    then show ?thesis using p0 True kc by (simp add: kmem_cache_free_def)
  next
    case False
    then have f: "fu = us @ s # vs" using fu(1) by simp
    obtain h1 where h1: "slab_free s x h = Inr h1" "slab_pool s t h1 (insert_obj x os)"
      using slab.put_ok [of s t h os x] s [OF False] by blast
    have l: "links h1 = links h" using slab_ops_links(2) [OF h1(1)] .
    have "find_entry (links h) (full_head kc) (\<lambda>s. slab_contain (slab_at h s) x)
        (lnext (links h) (full_head kc)) = Some s"
      using find_entry_ok [OF d(2)] find_split [of us _ s vs] s [OF False] fu(2) f by auto
    moreover have "cache_lists (on_links (list_add s (partial_head kc)) (on_links (list_del s) h1)) kc
        (us @ vs) (s # pa) fr"
      using cache_move(3) [of _ s "partial_head kc" h kc us vs pa fr] l c f by simp
    ultimately show ?thesis using p0 h1 kc False by (simp add: kmem_cache_free_def)
  qed
qed

section \<open>Serving a request\<close>

definition caches :: "kchain \<Rightarrow> u64 list \<Rightarrow> bool" where
  "caches h kcs \<longleftrightarrow> dlist (links h) (cache_list h) kcs \<and> map (objsize_at h) kcs = KMEM_CACHE_SIZE_LIST"

lemma find_sorted:
  "sorted (map f xs) \<Longrightarrow> x \<in> set xs \<Longrightarrow> (sz :: 'a :: linorder) \<le> f x \<Longrightarrow>
     \<exists>y. List.find (\<lambda>x. sz \<le> f x) xs = Some y \<and> y \<in> set xs \<and> sz \<le> f y \<and>
         (\<forall>z \<in> set xs. sz \<le> f z \<longrightarrow> f y \<le> f z)"
  by (induction xs) auto

text \<open>A request of at most 2048 bytes is served by the cache with the smallest object size
  that is large enough.\<close>

lemma kmem_select_smallest:
  assumes c: "caches h kcs" and sz: "sz \<le> 2048"
  shows "\<exists>kc \<in> set kcs. kmem_select sz h = Inr kc \<and> sz \<le> objsize_at h kc \<and>
           (\<forall>k \<in> set kcs. sz \<le> objsize_at h k \<longrightarrow> objsize_at h kc \<le> objsize_at h k)"
proof -
  have d: "dlist (links h) (cache_list h) kcs" and m: "map (objsize_at h) kcs = KMEM_CACHE_SIZE_LIST"
    using c by (simp_all add: caches_def)
  have so: "sorted (map (objsize_at h) kcs)" unfolding m KMEM_CACHE_SIZE_LIST_def by simp
  obtain k1 rest where k: "kcs = k1 # rest" "objsize_at h k1 = 8"
    using m by (cases kcs) (auto simp: KMEM_CACHE_SIZE_LIST_def)
  show ?thesis
  proof (cases "sz \<le> 8")
    case True
    then have "kmem_select sz h = Inr k1"
      using klist.first [OF d] k by (simp add: kmem_select_def KMEM_CACHE_SIZE_LIST_def)
    moreover have "8 \<le> objsize_at h z" if "z \<in> set kcs" for z
      using so k that by auto
    ultimately show ?thesis using True k by auto
  next
    case False
    have "2048 \<in> set (map (objsize_at h) kcs)" unfolding m KMEM_CACHE_SIZE_LIST_def by simp
    then obtain x where "x \<in> set kcs" "sz \<le> objsize_at h x" using sz by auto
    from find_sorted [OF so this] obtain y where
      y: "List.find (\<lambda>x. sz \<le> objsize_at h x) kcs = Some y" "y \<in> set kcs" "sz \<le> objsize_at h y"
        "\<forall>z \<in> set kcs. sz \<le> objsize_at h z \<longrightarrow> objsize_at h y \<le> objsize_at h z"
      by blast
    have "kmem_select sz h = Inr y"
      using find_entry_ok [OF d] y(1) False by (simp add: kmem_select_def KMEM_CACHE_SIZE_LIST_def)
    then show ?thesis using y(2-4) by auto
  qed
qed

section \<open>A small heap\<close>

text \<open>One cache at address 1000 with one slab at address 64, and a chain of nine caches.\<close>

definition small_chain :: "(u64 lheap \<Rightarrow> u64 lheap) \<Rightarrow> u64 list \<Rightarrow> kchain" where
  "small_chain f os = kheap.extend
     (two_objects\<lparr>links := f (list_init 1016 (list_init 1032 (list_init 1048 (links two_objects)))),
       word_at := (\<lambda>_. 0)(4096 := if 4144 \<in> set os then 4144 else 0),
       slab_at := (\<lambda>_. \<lparr>pg = 4096, objs = (case os of [] \<Rightarrow> 0 | x # _ \<Rightarrow> x), size_obj = 48,
                          free_obj = int (length os), total_obj = 2, order = 0\<rparr>)\<rparr>)
     (kchain.fields 8 0 0 (spinlock_init ''kmem_cache''))"

lemma small_chain_fields [simp]:
  "links (small_chain f os) = f (list_init 1016 (list_init 1032 (list_init 1048 (links two_objects))))"
  "word_at (small_chain f os) = (\<lambda>_. 0)(4096 := if 4144 \<in> set os then 4144 else 0)"
  "slab_at (small_chain f os) = (\<lambda>_. \<lparr>pg = 4096, objs = (case os of [] \<Rightarrow> 0 | x # _ \<Rightarrow> x), size_obj = 48,
      free_obj = int (length os), total_obj = 2, order = 0\<rparr>)"
  "objsize_at (small_chain f os) = objsize_at two_objects" "cache_list (small_chain f os) = 8"
  by (simp_all add: small_chain_def kheap.defs kchain.defs)

lemma small_pool:
  "slab_pool 64 [] (small_chain f [4096, 4144]) [4096, 4144]" "slab_pool 64 [] (small_chain f [4144]) [4144]"
  "slab_pool 64 [] (small_chain f []) []"
  by (simp_all add: slab_pool_def slab_list_def)

lemma small_lists:
  "cache_lists (small_chain (list_add 64 1032) os) 1000 [] [64] []"
  "cache_lists (small_chain (list_add 64 1016) os) 1000 [64] [] []"
  by (simp_all add: cache_lists_def tri_def dlist_def full_head_def partial_head_def free_head_def
      list_init_def list_add_def list_add_between_def)

lemma foldl_add_tail:
  "dlist l head xs \<Longrightarrow> distinct (head # xs @ ks) \<Longrightarrow>
     dlist (foldl (\<lambda>l k. list_add_tail k head l) l ks) head (xs @ ks)"
proof (induction ks arbitrary: l xs)
  case (Cons k ks)
  have "dlist (list_add_tail k head l) head (xs @ [k])"
    using Cons.prems by (intro klist.add_tail) auto
  then show ?case using Cons.IH [of "list_add_tail k head l" "xs @ [k]"] Cons.prems(2) by simp
qed simp

definition nine_caches :: kchain where
  "nine_caches = (small_chain (\<lambda>l. foldl (\<lambda>l k. list_add_tail k 8 l) (list_init 8 l)
       [100, 200, 300, 400, 500, 600, 700, 800, 900]) [])
     \<lparr>objsize_at := (\<lambda>a. 2 ^ (unat a div 100 + 2))\<rparr>"

lemma nine_caches_ok: "caches nine_caches [100, 200, 300, 400, 500, 600, 700, 800, 900]"
proof -
  have "dlist (foldl (\<lambda>l k. list_add_tail k 8 l) (list_init 8 l) [100, 200, 300, 400, 500, 600, 700, 800, 900])
      8 [100, 200, 300, 400, 500, 600, 700, 800, 900]" for l :: "u64 lheap"
    using foldl_add_tail [of "list_init 8 l" 8 "[]" "[100, 200, 300, 400, 500, 600, 700, 800, 900]"]
      klist.init [of 8 l] by (simp del: foldl.simps foldl_Cons)
  then show ?thesis by (simp only: caches_def nine_caches_def small_chain_fields kheap.simps append_Nil)
      (simp add: KMEM_CACHE_SIZE_LIST_def)
qed

end
