(* ===== verification/Kustd.thy ===== *)
theory Kustd
  imports Utils Spinlock
begin

text \<open>
  Models \<open>kernel/kustd.c\<close>, the kernel's string and formatting library, with its users
  \<open>kernel/klog.c\<close> and \<open>kernel/earlylog.c\<close>. A byte array is a list; the copying functions
  take one array and two offsets in it, so that source and destination may overlap. Plain
  \<open>char\<close> is unsigned on the target.
\<close>

section \<open>Strings and memory\<close>

fun strlen_from :: "nat \<Rightarrow> u8 list \<Rightarrow> nat outcome" where
  "strlen_from n [] = Inl Undefined"
| "strlen_from n (c # cs) = (if c \<noteq> 0 then strlen_from (n + 1) cs else Inr n)"

definition strlen :: "u8 list \<Rightarrow> nat outcome" where
  "strlen s = strlen_from 0 s"

text \<open>\<open>strcpy_end mem d s\<close> copies the string at \<open>s\<close> to \<open>d\<close> and returns the position of the
  terminator it wrote; \<open>strcpy\<close> returns \<open>d\<close>.\<close>

function strcpy_end :: "u8 list \<Rightarrow> nat \<Rightarrow> nat \<Rightarrow> (nat \<times> u8 list) outcome" where
  "strcpy_end m d s =
     (if s < length m then
        if m ! s \<noteq> 0 then
          if d < length m then strcpy_end (m[d := m ! s]) (d + 1) (s + 1) else Inl Undefined
        else bindO (arr_set m d 0) (\<lambda>m. Inr (d, m))
      else Inl Undefined)"
  by pat_completeness auto
termination
  by (relation "measure (\<lambda>(m, d, s). length m - s)") auto

declare strcpy_end.simps [simp del]

definition strcpy :: "u8 list \<Rightarrow> nat \<Rightarrow> nat \<Rightarrow> (nat \<times> u8 list) outcome" where
  "strcpy m d s = bindO (strcpy_end m d s) (\<lambda>(e, m). Inr (d, m))"

fun strcmp :: "u8 list \<Rightarrow> u8 list \<Rightarrow> int outcome" where
  "strcmp (a # as) (b # bs) =
     (if a \<noteq> 0 \<and> b \<noteq> 0 \<and> a = b then strcmp as bs else Inr (int (unat a) - int (unat b)))"
| "strcmp as bs = Inl Undefined"

fun memset_loop :: "u8 list \<Rightarrow> nat \<Rightarrow> u8 \<Rightarrow> nat \<Rightarrow> nat \<Rightarrow> u8 list outcome" where
  "memset_loop m p v i 0 = Inr m"
| "memset_loop m p v i (Suc n) = bindO (arr_set m (p + i) v) (\<lambda>m. memset_loop m p v (i + 1) n)"

definition memset :: "u8 list \<Rightarrow> nat \<Rightarrow> u8 \<Rightarrow> u64 \<Rightarrow> u8 list outcome" where
  "memset m p v num = memset_loop m p v 0 (unat num)"

fun memcpy_loop :: "u8 list \<Rightarrow> nat \<Rightarrow> nat \<Rightarrow> nat \<Rightarrow> nat \<Rightarrow> u8 list outcome" where
  "memcpy_loop m d s i 0 = Inr m"
| "memcpy_loop m d s i (Suc n) =
     bindO (arr_get m (s + i)) (\<lambda>v. bindO (arr_set m (d + i) v) (\<lambda>m. memcpy_loop m d s (i + 1) n))"

definition memcpy :: "u8 list \<Rightarrow> nat \<Rightarrow> nat \<Rightarrow> u64 \<Rightarrow> u8 list outcome" where
  "memcpy m d s num = memcpy_loop m d s 0 (unat num)"

definition memmove :: "u8 list \<Rightarrow> nat \<Rightarrow> nat \<Rightarrow> u64 \<Rightarrow> u8 list outcome" where
  "memmove m d s num = memcpy m d s num"

section \<open>Formatting\<close>

text \<open>The variable arguments; fetching one at another type is undefined.\<close>

datatype va_arg = VInt u32 | VLong u64 | VStr "u8 list"

text \<open>\<open>strcpy(str, src)\<close> with \<open>src\<close> a separate NUL-terminated string, followed by the
  advance of \<open>str\<close> by \<open>strlen(src)\<close>.\<close>

fun put_str :: "u8 list \<Rightarrow> nat \<Rightarrow> u8 list \<Rightarrow> (nat \<times> u8 list) outcome" where
  "put_str buf p [] = Inl Undefined"
| "put_str buf p (c # cs) =
     bindO (arr_set buf p c) (\<lambda>buf. if c = 0 then Inr (p, buf) else put_str buf (p + 1) cs)"

text \<open>Numbers go through the local \<open>buf[30]\<close>.\<close>

definition number :: "u8 list option outcome \<Rightarrow> u8 list outcome" where
  "number r = bindO r (\<lambda>opt. case opt of None \<Rightarrow> Inl Undefined
                            | Some cs \<Rightarrow> guardO Undefined (length cs \<le> 30) (Inr cs))"

definition ch :: "char \<Rightarrow> u8" where
  "ch c = of_nat (of_char c)"

text \<open>One conversion: the text that replaces it and the arguments left.\<close>

definition convert :: "u8 \<Rightarrow> va_arg list \<Rightarrow> (u8 list list \<times> va_arg list) option outcome" where
  "convert d ap =
     (if d = ch CHR ''d'' then
        (case ap of VInt v # ap \<Rightarrow> bindO (number (itoa (scast v) 10)) (\<lambda>cs. Inr (Some ([cs], ap))) | _ \<Rightarrow> Inl Undefined)
      else if d = ch CHR ''l'' then
        (case ap of VLong v # ap \<Rightarrow> bindO (number (itoa v 10)) (\<lambda>cs. Inr (Some ([cs], ap))) | _ \<Rightarrow> Inl Undefined)
      else if d = ch CHR ''x'' then
        (case ap of VLong v # ap \<Rightarrow> bindO (number (utoa v 16)) (\<lambda>cs. Inr (Some ([[48, 120, 0], cs], ap))) | _ \<Rightarrow> Inl Undefined)
      else if d = ch CHR ''s'' then
        (case ap of VStr cs # ap \<Rightarrow> Inr (Some ([cs], ap)) | _ \<Rightarrow> Inl Undefined)
      else Inr None)"

fun put_strs :: "u8 list \<Rightarrow> nat \<Rightarrow> u8 list list \<Rightarrow> (nat \<times> u8 list) outcome" where
  "put_strs buf p [] = Inr (p, buf)"
| "put_strs buf p (s # ss) = bindO (put_str buf p s) (\<lambda>(p, buf). put_strs buf p ss)"

fun v_sprintf_at :: "u8 list \<Rightarrow> nat \<Rightarrow> u8 list \<Rightarrow> va_arg list \<Rightarrow> (nat \<times> u8 list) outcome" where
  "v_sprintf_at buf p [] ap = Inl Undefined"
| "v_sprintf_at buf p (c # f) ap =
     (if c = 0 then bindO (arr_set buf p 0) (\<lambda>buf. Inr (p, buf))
      else if c = ch CHR ''%'' then
        (case f of
           [] \<Rightarrow> Inl Undefined
         | d # f' \<Rightarrow>
             if d = ch CHR ''%'' then bindO (arr_set buf p c) (\<lambda>buf. v_sprintf_at buf (p + 1) f' ap)
             else bindO (convert d ap) (\<lambda>opt. case opt of
                 Some (ss, ap) \<Rightarrow> bindO (put_strs buf p ss) (\<lambda>(p, buf). v_sprintf_at buf p f' ap)
               | None \<Rightarrow> bindO (arr_set buf p c) (\<lambda>buf. v_sprintf_at buf (p + 1) f ap)))
      else bindO (arr_set buf p c) (\<lambda>buf. v_sprintf_at buf (p + 1) f ap))"

definition v_sprintf :: "u8 list \<Rightarrow> u8 list \<Rightarrow> va_arg list \<Rightarrow> (nat \<times> u8 list) outcome" where
  "v_sprintf buf fmt ap = v_sprintf_at buf 0 fmt ap"

definition sprintf :: "u8 list \<Rightarrow> u8 list \<Rightarrow> va_arg list \<Rightarrow> (nat \<times> u8 list) outcome" where
  "sprintf buf fmt ap = v_sprintf buf fmt ap"

text \<open>The output loop stops at the first NUL; the callback appends to the output.\<close>

fun out_loop :: "u8 list \<Rightarrow> u8 list outcome" where
  "out_loop [] = Inl Undefined"
| "out_loop (c # cs) = (if c = 0 then Inr [] else bindO (out_loop cs) (\<lambda>out. Inr (c # out)))"

text \<open>\<open>v_printf_callback\<close> with its 256-byte local buffer \<open>buf\<close>, whose contents are arbitrary at first.\<close>

definition v_printf_callback :: "u8 list \<Rightarrow> u8 list \<Rightarrow> va_arg list \<Rightarrow> (nat \<times> u8 list) outcome" where
  "v_printf_callback buf fmt ap =
     bindO (v_sprintf buf fmt ap) (\<lambda>(ret, buf). bindO (out_loop buf) (\<lambda>out. Inr (ret, out)))"

definition printf_func :: "u8 list \<Rightarrow> u8 list \<Rightarrow> va_arg list \<Rightarrow> (nat \<times> u8 list) outcome" where
  "printf_func buf fmt ap = v_printf_callback buf fmt ap"

section \<open>klog.c and earlylog.c\<close>

record logger =
  uart_out :: "u8 list"
  klog_spinlock :: spinlock
  log_mach :: machine

definition klog_putchar :: "u8 \<Rightarrow> logger \<Rightarrow> logger" where
  "klog_putchar c l = l\<lparr>uart_out := uart_out l @ [c]\<rparr>"

definition klog_lock_init :: "logger \<Rightarrow> logger" where
  "klog_lock_init l = l\<lparr>klog_spinlock := spinlock_init ''klog''\<rparr>"

definition klog_init :: "logger \<Rightarrow> logger" where
  "klog_init l = klog_lock_init l"

definition klog_lock_acquire :: "logger \<Rightarrow> logger outcome" where
  "klog_lock_acquire l = bindO (spinlock_acquire (klog_spinlock l) (log_mach l))
     (\<lambda>(k, m). Inr (l\<lparr>klog_spinlock := k, log_mach := m\<rparr>))"

definition klog_lock_release :: "logger \<Rightarrow> logger outcome" where
  "klog_lock_release l = bindO (spinlock_release (klog_spinlock l) (log_mach l))
     (\<lambda>(k, m). Inr (l\<lparr>klog_spinlock := k, log_mach := m\<rparr>))"

definition klog_va :: "u8 list \<Rightarrow> u8 list \<Rightarrow> va_arg list \<Rightarrow> logger \<Rightarrow> (nat \<times> logger) outcome" where
  "klog_va buf fmt ap l =
     bindO (v_printf_callback buf fmt ap) (\<lambda>(ret, out). Inr (ret, foldl (\<lambda>l c. klog_putchar c l) l out))"

definition klog :: "u8 list \<Rightarrow> u8 list \<Rightarrow> va_arg list \<Rightarrow> logger \<Rightarrow> (nat \<times> logger) outcome" where
  "klog buf fmt ap l =
     bindO (v_printf_callback buf fmt ap) (\<lambda>(ret, out). Inr (ret, foldl (\<lambda>l c. klog_putchar c l) l out))"

definition str :: "string \<Rightarrow> u8 list" where
  "str s = map ch s @ [0]"

definition puts_loop :: "u8 list \<Rightarrow> logger \<Rightarrow> logger outcome" where
  "puts_loop s l = bindO (out_loop s) (\<lambda>out. Inr (foldl (\<lambda>l c. klog_putchar c l) l out))"

definition level_str :: "string list" where
  "level_str = [''Debug'', ''Info'', ''Warning'', ''Error'']"

definition klog_level :: "int \<Rightarrow> u8 list \<Rightarrow> u8 list \<Rightarrow> va_arg list \<Rightarrow> logger \<Rightarrow> logger outcome" where
  "klog_level level buf fmt ap l = guardO Hang (\<not> (level < 0 \<or> level > 3))
     (bindO (puts_loop (str (level_str ! nat level)) l) (\<lambda>l.
      bindO (puts_loop (str '' | '') l) (\<lambda>l.
      bindO (klog_va buf fmt ap l) (\<lambda>(ret, l). Inr l))))"


definition puts :: "u8 list \<Rightarrow> logger \<Rightarrow> logger outcome" where
  "puts s l =
     bindO (klog_lock_acquire l) (\<lambda>l.
     bindO (puts_loop s l) (\<lambda>l.
     klog_lock_release (klog_putchar (ch CHR 0x0A) l)))"

section \<open>Copying\<close>

lemma memcpy_loop_ok:
  assumes "s + i + n \<le> length m" "d + i + n \<le> length m" "s + i + n \<le> d + i \<or> d \<le> s"
  shows "memcpy_loop m d s i n =
    Inr (take (d + i) m @ take n (drop (s + i) m) @ drop (d + i + n) m)"
  using assms
proof (induction n arbitrary: m i)
  case 0
  then show ?case by simp
next
  case (Suc n)
  have sm: "s + i < length m" "d + i < length m" using Suc.prems by simp_all
  let ?m = "m[d + i := m ! (s + i)]"
  have "memcpy_loop m d s i (Suc n) = memcpy_loop ?m d s (i + 1) n" using sm by simp
  also have "\<dots> = Inr (take (d + (i + 1)) ?m @ take n (drop (s + (i + 1)) ?m) @ drop (d + (i + 1) + n) ?m)"
    using Suc.prems by (intro Suc.IH) auto
  also have "take (d + (i + 1)) ?m = take (d + i) m @ [m ! (s + i)]"
    using sm by (simp add: take_Suc_conv_app_nth)
  also have "take n (drop (s + (i + 1)) ?m) = take n (drop (s + (i + 1)) m)"
  proof (cases "d \<le> s")
    case True
    then show ?thesis by simp
  next
    case False
    then have "s + i + Suc n \<le> d + i" using Suc.prems(3) by simp
    then have "take n (drop (s + (i + 1)) ?m) = drop (s + (i + 1)) (take (s + (i + 1) + n) ?m)"
      by (simp add: take_drop add.commute [of n])
    also have "take (s + (i + 1) + n) ?m = take (s + (i + 1) + n) m"
      using \<open>s + i + Suc n \<le> d + i\<close> by (simp add: take_update_cancel)
    finally show ?thesis by (simp add: take_drop add.commute [of n])
  qed
  also have "drop (d + (i + 1) + n) ?m = drop (d + i + Suc n) m" by simp
  finally have "memcpy_loop m d s i (Suc n) = Inr ((take (d + i) m @ [m ! (s + i)]) @
      take n (drop (s + (i + 1)) m) @ drop (d + i + Suc n) m)" .
  moreover have "take (Suc n) (drop (s + i) m) = m ! (s + i) # take n (drop (s + (i + 1)) m)"
    using sm(1) by (simp add: Cons_nth_drop_Suc [symmetric] del: Cons_nth_drop_Suc)
  ultimately show ?case by simp
qed

lemma memcpy_loop_smear:
  assumes "s + 1 + i + n \<le> length m"
  shows "memcpy_loop m (s + 1) s i n =
    Inr (take (s + 1 + i) m @ replicate n (m ! (s + i)) @ drop (s + 1 + i + n) m)"
  using assms
proof (induction n arbitrary: m i)
  case 0
  then show ?case by simp
next
  case (Suc n)
  let ?m = "m[s + 1 + i := m ! (s + i)]"
  have "memcpy_loop m (s + 1) s i (Suc n) = memcpy_loop ?m (s + 1) s (i + 1) n" using Suc.prems by simp
  also have "\<dots> = Inr (take (s + 1 + (i + 1)) ?m @ replicate n (?m ! (s + (i + 1))) @ drop (s + 1 + (i + 1) + n) ?m)"
    using Suc.prems by (intro Suc.IH) simp
  also have "take (s + 1 + (i + 1)) ?m = take (s + 1 + i) m @ [m ! (s + i)]"
    using Suc.prems by (simp add: take_Suc_conv_app_nth)
  finally show ?case using Suc.prems by simp
qed

text \<open>\<open>memcpy\<close> copies the bytes as they were, also when the areas overlap with the
  destination below the source, since it copies upwards.\<close>

lemma memcpy_copies:
  assumes "s + unat n \<le> length m" "d + unat n \<le> length m" "s + unat n \<le> d \<or> d \<le> s"
  shows "memcpy m d s n = Inr (take d m @ take (unat n) (drop s m) @ drop (d + unat n) m)"
  using memcpy_loop_ok [of s 0 "unat n" m d] assms by (simp add: memcpy_def)

text \<open>\<open>memmove\<close> is \<open>memcpy\<close>: moving bytes up by one repeats the first byte over
  the whole destination instead of moving them.\<close>

lemma memmove_overlap_smears:
  assumes "s + 1 + unat n \<le> length m"
  shows "memmove m (s + 1) s n = Inr (take (s + 1) m @ replicate (unat n) (m ! s) @ drop (s + 1 + unat n) m)"
  using memcpy_loop_smear [of s 0 "unat n" m] assms by (simp add: memmove_def memcpy_def)

section \<open>Comparing\<close>

lemma strcmp_terminated:
  assumes "0 \<notin> set as" "0 \<notin> set bs"
  shows "\<exists>r. strcmp (as @ 0 # xs) (bs @ 0 # ys) = Inr r \<and> (r = 0 \<longleftrightarrow> as = bs)"
  using assms
proof (induction as arbitrary: bs)
  case Nil
  then show ?case by (cases bs) (auto simp: unsigned_eq_0_iff)
next
  case (Cons a as)
  show ?case
  proof (cases bs)
    case Nil
    then show ?thesis using Cons.prems by (auto simp: unsigned_eq_0_iff)
  next
    case (Cons b bs')
    then show ?thesis using Cons.IH [of bs'] Cons.prems by (auto dest: unsigned_word_eqI)
  qed
qed

text \<open>\<open>strcmp\<close> returns 0 exactly for equal strings, whatever follows their terminators.\<close>

lemma strcmp_equal:
  assumes "0 \<notin> set as" "0 \<notin> set bs"
  shows "\<exists>r. strcmp (as @ 0 # xs) (bs @ 0 # ys) = Inr r \<and> (r = 0 \<longleftrightarrow> as = bs)"
  by (rule strcmp_terminated [OF assms])

section \<open>What is printed\<close>



















end
