(* ===== verification/Pte.thy ===== *)
theory Pte
  imports Pages Utils
begin

text \<open>
  Models \<open>kernel/pg.h\<close>, \<open>kernel/pte.h\<close> and \<open>kernel/pte.c\<close>, the three-level page tables of
  the Sv39 format. The state pairs the memory that holds the tables, word by word, with the state of
  the page allocator; the allocator's operations are arguments, so that the proofs below rest on
  the interface \<open>page_allocator\<close> only.
\<close>

section \<open>Entries (pg.h, pte.h)\<close>

type_synonym pte_t = u64

definition PTE_V_SET :: pte_t where "PTE_V_SET = 1"
definition PTE_R_SET :: pte_t where "PTE_R_SET = 2"
definition PTE_W_SET :: pte_t where "PTE_W_SET = 4"
definition PTE_X_SET :: pte_t where "PTE_X_SET = 8"
definition PTE_U_SET :: pte_t where "PTE_U_SET = 16"
definition PTE_INVALID :: pte_t where "PTE_INVALID = 0"
definition PTE_NON_LEAF :: pte_t where "PTE_NON_LEAF = PTE_V_SET"
definition PTE_RO_SET :: pte_t where "PTE_RO_SET = PTE_R_SET OR PTE_V_SET"
definition PTE_RW_SET :: pte_t where "PTE_RW_SET = PTE_R_SET OR PTE_W_SET OR PTE_V_SET"
definition PTE_XR_SET :: pte_t where "PTE_XR_SET = PTE_X_SET OR PTE_R_SET OR PTE_V_SET"
definition PTE_XWR_SET :: pte_t where "PTE_XWR_SET = PTE_R_SET OR PTE_W_SET OR PTE_X_SET OR PTE_V_SET"

definition PTE_NADDR :: "u64 \<Rightarrow> pte_t" where
  "PTE_NADDR a = drop_bit 2 (ALIGN_4K a)"

definition PTE_EXTRACT_XWRV :: "pte_t \<Rightarrow> pte_t" where
  "PTE_EXTRACT_XWRV p = p AND ALL_ONE_MASK 4"

definition PTE_EXTRACT_NADDR :: "pte_t \<Rightarrow> u64" where
  "PTE_EXTRACT_NADDR p = push_bit 2 p AND NOT (ALL_ONE_MASK 12)"

definition PTE_EXTRACT_FLAGS :: "pte_t \<Rightarrow> pte_t" where
  "PTE_EXTRACT_FLAGS p = p AND ALL_ONE_MASK 10"

datatype page_size = PTE_PAGE_4K | PTE_PAGE_2M | PTE_PAGE_1G | Other_size

definition VA_VPN :: "u64 \<Rightarrow> u64" where "VA_VPN va = drop_bit 12 va AND ALL_ONE_MASK 27"
definition VA_VPN2 :: "u64 \<Rightarrow> u64" where "VA_VPN2 va = drop_bit 30 va AND ALL_ONE_MASK 9"
definition VA_VPN1 :: "u64 \<Rightarrow> u64" where "VA_VPN1 va = drop_bit 21 va AND ALL_ONE_MASK 9"
definition VA_VPN0 :: "u64 \<Rightarrow> u64" where "VA_VPN0 va = drop_bit 12 va AND ALL_ONE_MASK 9"

section \<open>Operations (pte.c)\<close>

type_synonym ptmem = "u64 \<Rightarrow> pte_t"

text \<open>\<open>p + i\<close> for a \<open>pte_t *\<close>.\<close>

definition pte_at :: "u64 \<Rightarrow> u64 \<Rightarrow> u64" where
  "pte_at p i = p + 8 * i"

text \<open>\<open>memset(page, 0, PAGE_SIZE)\<close>.\<close>

definition zero_page :: "u64 \<Rightarrow> ptmem \<Rightarrow> ptmem" where
  "zero_page page m = (\<lambda>a. if a - page < PAGE_SIZE then 0 else m a)"

definition pte_create :: "(u64 \<Rightarrow> 's \<Rightarrow> (u64 \<times> 's) outcome) \<Rightarrow> ptmem \<times> 's \<Rightarrow> (u64 \<times> ptmem \<times> 's) outcome" where
  "pte_create alloc = (\<lambda>(m, s). bindO (alloc 0 s) (\<lambda>(p, s).
     Inr (p, if p \<noteq> 0 then zero_page p m else m, s)))"

text \<open>The allocation of a table in \<open>pte_map\<close>, which does not look for the null pointer.\<close>

definition new_table :: "(u64 \<Rightarrow> 's \<Rightarrow> (u64 \<times> 's) outcome) \<Rightarrow> ptmem \<times> 's \<Rightarrow> (u64 \<times> ptmem \<times> 's) outcome" where
  "new_table alloc = (\<lambda>(m, s). bindO (alloc 0 s) (\<lambda>(p, s).
     guardO Undefined (p \<noteq> 0) (Inr (p, zero_page p m, s))))"

definition pte_map :: "(u64 \<Rightarrow> 's \<Rightarrow> (u64 \<times> 's) outcome) \<Rightarrow> u64 \<Rightarrow> u64 \<Rightarrow> u64 \<Rightarrow> pte_t \<Rightarrow> page_size \<Rightarrow>
    ptmem \<times> 's \<Rightarrow> (ptmem \<times> 's) outcome" where
  "pte_map alloc p va pa flags ps = (\<lambda>(m, s).
     let p2 = pte_at p (VA_VPN2 va); xwrv2 = PTE_EXTRACT_XWRV (m p2) in
     case ps of
       PTE_PAGE_4K \<Rightarrow>
         if xwrv2 = PTE_NON_LEAF then
           let p1 = pte_at (PTE_EXTRACT_NADDR (m p2)) (VA_VPN1 va); xwrv1 = PTE_EXTRACT_XWRV (m p1) in
           if xwrv1 = PTE_NON_LEAF then
             let p0 = pte_at (PTE_EXTRACT_NADDR (m p1)) (VA_VPN0 va) in
             if PTE_EXTRACT_XWRV (m p0) = PTE_INVALID then Inr (m(p0 := PTE_NADDR pa OR flags), s)
             else Inl Panic
           else if xwrv1 = PTE_INVALID then
             bindO (new_table alloc (m, s)) (\<lambda>(t0, m, s).
             let m = m(pte_at t0 (VA_VPN0 va) := PTE_NADDR pa OR flags)
             in Inr (m(p1 := PTE_NON_LEAF OR PTE_NADDR t0), s))
           else Inl Panic
         else if xwrv2 = PTE_INVALID then
           bindO (new_table alloc (m, s)) (\<lambda>(t1, m, s).
           bindO (new_table alloc (m, s)) (\<lambda>(t0, m, s).
           let m = m(p2 := PTE_NADDR t1 OR PTE_NON_LEAF);
               m = m(pte_at t1 (VA_VPN1 va) := PTE_NADDR t0 OR PTE_NON_LEAF)
           in Inr (m(pte_at t0 (VA_VPN0 va) := PTE_NADDR pa OR flags), s)))
         else Inl Panic
     | PTE_PAGE_2M \<Rightarrow>
         if xwrv2 = PTE_NON_LEAF then
           let p1 = pte_at (PTE_EXTRACT_NADDR (m p2)) (VA_VPN1 va) in
           if PTE_EXTRACT_XWRV (m p1) = PTE_INVALID then Inr (m(p1 := flags OR PTE_NADDR pa), s)
           else Inl Panic
         else if xwrv2 = PTE_INVALID then
           bindO (new_table alloc (m, s)) (\<lambda>(t1, m, s).
           let m = m(p2 := PTE_NADDR t1 OR PTE_NON_LEAF)
           in Inr (m(pte_at t1 (VA_VPN1 va) := PTE_NADDR pa OR flags), s))
         else Inl Panic
     | PTE_PAGE_1G \<Rightarrow>
         guardO Panic (xwrv2 = PTE_INVALID) (Inr (m(p2 := flags OR PTE_NADDR pa), s))
     | Other_size \<Rightarrow> Inl Panic)"

text \<open>The loop of the range operations: it ends with the offset of the rest.\<close>

partial_function (option) range_loop ::
  "(u64 \<Rightarrow> 's \<Rightarrow> 's outcome) \<Rightarrow> u64 \<Rightarrow> u64 \<Rightarrow> 's \<Rightarrow> (u64 \<times> 's) outcome option" where
  [code]: "range_loop f len off s =
     (if off + POWER_OF_2 12 \<le> len
      then (case f off s of Inl e \<Rightarrow> Some (Inl e) | Inr s \<Rightarrow> range_loop f len (off + POWER_OF_2 12) s)
      else Some (Inr (off, s)))"

definition range_do :: "(u64 \<Rightarrow> 's \<Rightarrow> 's outcome) \<Rightarrow> u64 \<Rightarrow> 's \<Rightarrow> 's outcome" where
  "range_do f len s =
     bindO (hang (range_loop f len 0 s)) (\<lambda>(off, s). if off < len then f off s else Inr s)"

definition pte_range_map :: "(u64 \<Rightarrow> 's \<Rightarrow> (u64 \<times> 's) outcome) \<Rightarrow> u64 \<Rightarrow> u64 \<Rightarrow> u64 \<Rightarrow> pte_t \<Rightarrow> u64 \<Rightarrow>
    ptmem \<times> 's \<Rightarrow> (ptmem \<times> 's) outcome" where
  "pte_range_map alloc p va pa flags len =
     range_do (\<lambda>off. pte_map alloc p (va + off) (pa + off) flags PTE_PAGE_4K) len"

definition pte_unmap :: "u64 \<Rightarrow> u64 \<Rightarrow> ptmem \<times> 's \<Rightarrow> (ptmem \<times> 's) outcome" where
  "pte_unmap p va = (\<lambda>(m, s).
     let p2 = pte_at p (VA_VPN2 va); xwrv2 = PTE_EXTRACT_XWRV (m p2) in
     if xwrv2 = PTE_INVALID then Inl Panic
     else if xwrv2 = PTE_NON_LEAF then
       let p1 = pte_at (PTE_EXTRACT_NADDR (m p2)) (VA_VPN1 va); xwrv1 = PTE_EXTRACT_XWRV (m p1) in
       if xwrv1 = PTE_INVALID then Inl Panic
       else if xwrv1 = PTE_NON_LEAF then
         let p0 = pte_at (PTE_EXTRACT_NADDR (m p1)) (VA_VPN0 va) in
         if PTE_EXTRACT_XWRV (m p0) = PTE_INVALID then Inl Panic else Inr (m(p0 := 0), s)
       else Inr (m(p1 := 0), s)
     else Inr (m(p2 := 0), s))"

definition pte_range_unmap :: "u64 \<Rightarrow> u64 \<Rightarrow> u64 \<Rightarrow> ptmem \<times> 's \<Rightarrow> (ptmem \<times> 's) outcome" where
  "pte_range_unmap p va len = range_do (\<lambda>off. pte_unmap p (va + off)) len"

text \<open>The result with the flags and the page size that the source stores through its pointers.\<close>

definition pte_walk :: "u64 \<Rightarrow> u64 \<Rightarrow> ptmem \<Rightarrow> u64 \<times> pte_t \<times> page_size" where
  "pte_walk p va m =
     (let p2 = pte_at p (VA_VPN2 va);
          (res, ps) =
            (if PTE_EXTRACT_XWRV (m p2) = PTE_NON_LEAF then
               let p1 = pte_at (PTE_EXTRACT_NADDR (m p2)) (VA_VPN1 va) in
               if PTE_EXTRACT_XWRV (m p1) = PTE_NON_LEAF
               then (pte_at (PTE_EXTRACT_NADDR (m p1)) (VA_VPN0 va), PTE_PAGE_4K)
               else (p1, PTE_PAGE_2M)
             else (p2, PTE_PAGE_1G))
      in (PTE_EXTRACT_NADDR (m res), PTE_EXTRACT_FLAGS (m res), ps))"

fun free_level0 :: "(u64 \<Rightarrow> 's \<Rightarrow> 's outcome) \<Rightarrow> u64 \<Rightarrow> nat \<Rightarrow> ptmem \<Rightarrow> 's \<Rightarrow> 's outcome" where
  "free_level0 free p1 0 m s = Inr s"
| "free_level0 free p1 (Suc n) m s =
     (let e = m (pte_at p1 (of_nat (512 - Suc n)))
      in bindO (if PTE_EXTRACT_XWRV e = PTE_NON_LEAF then free (PTE_EXTRACT_NADDR e) s else Inr s)
           (free_level0 free p1 n m))"

fun free_level1 :: "(u64 \<Rightarrow> 's \<Rightarrow> 's outcome) \<Rightarrow> u64 \<Rightarrow> nat \<Rightarrow> ptmem \<Rightarrow> 's \<Rightarrow> 's outcome" where
  "free_level1 free p 0 m s = Inr s"
| "free_level1 free p (Suc n) m s =
     (let e = m (pte_at p (of_nat (512 - Suc n)))
      in bindO (if PTE_EXTRACT_XWRV e = PTE_NON_LEAF
                then bindO (free_level0 free (PTE_EXTRACT_NADDR e) 512 m s) (free (PTE_EXTRACT_NADDR e))
                else Inr s)
           (free_level1 free p n m))"

definition pte_destory :: "(u64 \<Rightarrow> 's \<Rightarrow> 's outcome) \<Rightarrow> u64 \<Rightarrow> ptmem \<times> 's \<Rightarrow> (ptmem \<times> 's) outcome" where
  "pte_destory free p = (\<lambda>(m, s).
     bindO (free_level1 free p 512 m s) (\<lambda>s. bindO (free p s) (\<lambda>s. Inr (m, s))))"

section \<open>Bits of entries\<close>

lemma ALIGN_4K_bits: "bit (ALIGN_4K x) n \<longleftrightarrow> 12 \<le> n \<and> n < 64 \<and> bit x n"
  by (auto simp: ALIGN_4K_def ALIGN_XBITS_def ALL_ONE_MASK_mask bit_simps dest: bit_imp_le_length)

lemma NADDR_bits: "bit (PTE_NADDR a) n \<longleftrightarrow> 10 \<le> n \<and> n < 62 \<and> bit a (n + 2)"
  by (auto simp: PTE_NADDR_def ALIGN_4K_bits bit_simps add.commute)

definition small_flags :: "pte_t \<Rightarrow> bool" where
  "small_flags f \<longleftrightarrow> f AND mask 10 = f"

lemma small_flags_bit: "small_flags f \<Longrightarrow> bit f n \<Longrightarrow> n < 10"
  unfolding small_flags_def by (metis bit_and_iff bit_mask_iff)

text \<open>An entry made from an address and flags gives both back.\<close>

lemma extract_naddr:
  assumes "small_flags f"
  shows "PTE_EXTRACT_NADDR (PTE_NADDR a OR f) = ALIGN_4K a"
proof (rule bit_eqI)
  fix n
  show "bit (PTE_EXTRACT_NADDR (PTE_NADDR a OR f)) n \<longleftrightarrow> bit (ALIGN_4K a) n"
  proof (cases "12 \<le> n")
    case True
    then obtain k where n: "n = 12 + k" by (metis le_Suc_ex)
    have "\<not> bit f (10 + k)" using small_flags_bit [OF assms, of "10 + k"] by auto
    then show ?thesis unfolding n
      by (auto simp: PTE_EXTRACT_NADDR_def ALL_ONE_MASK_mask bit_simps NADDR_bits ALIGN_4K_bits)
  next
    case False
    then show ?thesis by (simp add: PTE_EXTRACT_NADDR_def ALL_ONE_MASK_mask bit_simps ALIGN_4K_bits)
  qed
qed

lemma extract_flags: "small_flags f \<Longrightarrow> PTE_EXTRACT_FLAGS (PTE_NADDR a OR f) = f"
  by (rule bit_eqI)
     (auto simp: PTE_EXTRACT_FLAGS_def ALL_ONE_MASK_mask bit_simps NADDR_bits dest: small_flags_bit)

lemma extract_xwrv: "PTE_EXTRACT_XWRV (PTE_NADDR a OR f) = PTE_EXTRACT_XWRV f"
  by (rule bit_eqI) (auto simp: PTE_EXTRACT_XWRV_def ALL_ONE_MASK_mask bit_simps NADDR_bits)

lemma non_leaf_small [simp]: "small_flags PTE_NON_LEAF"
  by (simp add: small_flags_def PTE_NON_LEAF_def PTE_V_SET_def mask_eq_exp_minus_1)

lemma xwrv_non_leaf [simp]: "PTE_EXTRACT_XWRV PTE_NON_LEAF = PTE_NON_LEAF"
  by (simp add: PTE_EXTRACT_XWRV_def PTE_NON_LEAF_def PTE_V_SET_def ALL_ONE_MASK_mask mask_eq_exp_minus_1)

lemma xwrv_zero [simp]: "PTE_EXTRACT_XWRV 0 = PTE_INVALID"
  by (simp add: PTE_EXTRACT_XWRV_def PTE_INVALID_def)

lemma naddr_aligned: "ALIGN_4K (PTE_EXTRACT_NADDR e) = PTE_EXTRACT_NADDR e"
  by (rule bit_eqI) (auto simp: ALIGN_4K_bits PTE_EXTRACT_NADDR_def ALL_ONE_MASK_mask bit_simps)

section \<open>Tables as trees\<close>

definition nl :: "pte_t \<Rightarrow> bool" where
  "nl e \<longleftrightarrow> PTE_EXTRACT_XWRV e = PTE_NON_LEAF"

text \<open>The table at the end of a path of indices, and the entry where the walk along a path ends
  with the number of indices left.\<close>

fun tab :: "ptmem \<Rightarrow> u64 \<Rightarrow> u64 list \<Rightarrow> u64 option" where
  "tab m p [] = Some p"
| "tab m p (i # js) =
     (let e = m (pte_at p i) in if i < 512 \<and> nl e then tab m (PTE_EXTRACT_NADDR e) js else None)"

fun entry :: "ptmem \<Rightarrow> u64 \<Rightarrow> u64 list \<Rightarrow> pte_t \<times> nat" where
  "entry m p [] = (0, 0)"
| "entry m p (i # js) =
     (let e = m (pte_at p i)
      in if nl e \<and> js \<noteq> [] then entry m (PTE_EXTRACT_NADDR e) js else (e, length js))"

definition pt_ok :: "ptmem \<Rightarrow> u64 \<Rightarrow> ablock set \<Rightarrow> bool" where
  "pt_ok m p B \<longleftrightarrow> ALIGN_4K p = p \<and>
     (\<forall>xs ys t. length xs \<le> 2 \<and> length ys \<le> 2 \<and> tab m p xs = Some t \<and> tab m p ys = Some t \<longrightarrow> xs = ys) \<and>
     (\<forall>xs t. length xs \<le> 2 \<and> tab m p xs = Some t \<longrightarrow> (t, 0) \<in> B)"

lemma pt_ok_sub:
  assumes "pt_ok m p B" "\<And>js t. length js \<le> 2 \<Longrightarrow> tab m' p js = Some t \<Longrightarrow> tab m p js = Some t"
  shows "pt_ok m' p B"
  unfolding pt_ok_def
proof (intro conjI allI impI)
  show "ALIGN_4K p = p" using assms(1) by (simp add: pt_ok_def)
  fix xs ys t assume "length xs \<le> 2 \<and> length ys \<le> 2 \<and> tab m' p xs = Some t \<and> tab m' p ys = Some t"
  then show "xs = ys" using assms unfolding pt_ok_def by blast
next
  fix xs t assume "length xs \<le> 2 \<and> tab m' p xs = Some t"
  then show "(t, 0) \<in> B" using assms unfolding pt_ok_def by blast
qed

lemma tab_in: "pt_ok m p B \<Longrightarrow> length xs \<le> 2 \<Longrightarrow> tab m p xs = Some t \<Longrightarrow> (t, 0) \<in> B"
  unfolding pt_ok_def by blast

lemma tab_append: "tab m p (xs @ ys) = (case tab m p xs of None \<Rightarrow> None | Some t \<Rightarrow> tab m t ys)"
  by (induction xs arbitrary: p) (auto simp: Let_def)

lemma tab_aligned: "ALIGN_4K p = p \<Longrightarrow> tab m p xs = Some t \<Longrightarrow> ALIGN_4K t = t"
proof (induction xs arbitrary: p)
  case (Cons i xs)
  then show ?case using Cons.IH [OF naddr_aligned] by (auto simp: Let_def split: if_splits)
qed simp

lemma tab_snoc: "tab m p xs = Some t \<Longrightarrow> i < 512 \<Longrightarrow> nl (m (pte_at t i)) \<Longrightarrow>
    tab m p (xs @ [i]) = Some (PTE_EXTRACT_NADDR (m (pte_at t i)))"
  by (simp add: tab_append Let_def)

lemma unat_ALIGN_4K: "unat (ALIGN_4K x) = unat x div 4096 * 4096"
proof -
  have "ALIGN_4K x = push_bit 12 (drop_bit 12 x)"
    by (rule bit_eqI) (auto simp: ALIGN_4K_bits bit_simps)
  also have "unat (push_bit 12 (drop_bit 12 x)) = take_bit 64 (unat x div 4096 * 4096)"
    by (simp only: unsigned_push_bit_eq unat_drop_bit_div) (simp add: push_bit_eq_mult)
  also have "\<dots> = unat x div 4096 * 4096"
  proof (rule take_bit_nat_eq_self)
    have "unat x < 2 ^ 64" using unsigned_less [of x] by simp
    then show "unat x div 4096 * 4096 < 2 ^ 64"
      by (rule le_less_trans [rotated]) (rule div_times_less_eq_dividend)
  qed
  finally show ?thesis .
qed

lemma unat_pte_at:
  assumes "ALIGN_4K t = t" "i < 512"
  shows "unat (pte_at t i) = unat t + 8 * unat i" "4096 dvd unat t" "8 * unat i < 4096"
proof -
  have i: "unat i < 512" using assms(2) by (simp add: word_less_nat_alt)
  then show "8 * unat i < 4096" by simp
  show d: "4096 dvd unat t" by (metis assms(1) dvd_triv_right unat_ALIGN_4K)
  have "unat t < 2 ^ 64" using unsigned_less [of t] by simp
  then have "unat t + 8 * unat i < 2 ^ 64" using d i by auto
  then show "unat (pte_at t i) = unat t + 8 * unat i" using i
    by (simp add: pte_at_def unat_word_ariths)
qed

lemma pte_at_inj:
  assumes "ALIGN_4K t = t" "ALIGN_4K u = u" "i < 512" "j < 512" "pte_at t i = pte_at u j"
  shows "t = u \<and> i = j"
proof -
  note a = unat_pte_at [OF assms(1,3)] and b = unat_pte_at [OF assms(2,4)]
  have e: "unat t + 8 * unat i = unat u + 8 * unat j" using a(1) b(1) assms(5) by simp
  have "(unat t + 8 * unat i) div 4096 * 4096 = unat t" "(unat u + 8 * unat j) div 4096 * 4096 = unat u"
    using a(2,3) b(2,3) by auto
  then have "unat t = unat u" using e by simp
  then show ?thesis using e by (simp add: unsigned_word_eqI)
qed

lemma pte_at_page:
  assumes "ALIGN_4K t = t" "ALIGN_4K f = f" "i < 512"
  shows "pte_at t i - f < PAGE_SIZE \<longleftrightarrow> t = f"
proof
  note a = unat_pte_at [OF assms(1,3)]
  have f: "4096 dvd unat f" by (metis assms(2) dvd_triv_right unat_ALIGN_4K)
  assume "pte_at t i - f < PAGE_SIZE"
  then have lt: "unat (pte_at t i - f) < 4096" by (simp add: PAGE_SIZE_def word_less_nat_alt)
  have "pte_at t i = f + (pte_at t i - f)" by simp
  moreover have "unat f + unat (pte_at t i - f) < 2 ^ 64"
  proof -
    have "unat f < 2 ^ 64" using unsigned_less [of f] by simp
    then show ?thesis using f lt by auto
  qed
  ultimately have "unat t + 8 * unat i = unat f + unat (pte_at t i - f)"
  proof -
    have "unat (f + (pte_at t i - f)) = unat f + unat (pte_at t i - f)"
      using \<open>unat f + unat (pte_at t i - f) < 2 ^ 64\<close> by (subst unat_word_ariths) simp
    then show ?thesis using a(1) by simp
  qed
  then have "unat t = unat f" using a(2,3) f lt by (auto elim!: dvdE)
  then show "t = f" by (rule unsigned_word_eqI)
next
  assume "t = f"
  then show "pte_at t i - f < PAGE_SIZE"
    using unat_pte_at(3) [OF assms(1,3)] assms(3)
    by (simp add: pte_at_def PAGE_SIZE_def word_less_nat_alt unat_word_ariths)
qed

section \<open>Writing one entry\<close>

text \<open>The entry \<open>i\<close> of the table at the path \<open>us\<close> is written; it was not a pointer to a table.\<close>

definition slot :: "ptmem \<Rightarrow> u64 \<Rightarrow> ablock set \<Rightarrow> u64 list \<Rightarrow> u64 \<Rightarrow> u64 \<Rightarrow> bool" where
  "slot m p B us u i \<longleftrightarrow> pt_ok m p B \<and> length us \<le> 2 \<and> tab m p us = Some u \<and> i < 512 \<and> \<not> nl (m (pte_at u i))"

lemma slot_same:
  assumes "slot m p B us u i" "length ts \<le> 2" "tab m p ts = Some t" "j < 512" "pte_at t j = pte_at u i"
  shows "ts = us \<and> t = u \<and> j = i"
proof -
  have ok: "ALIGN_4K p = p" "tab m p us = Some u" "i < 512" "length us \<le> 2" using assms(1) by (auto simp: slot_def pt_ok_def)
  have "t = u \<and> j = i"
    using pte_at_inj [OF tab_aligned [OF ok(1) assms(3)] tab_aligned [OF ok(1,2)] assms(4) ok(3) assms(5)] .
  moreover have "ts = us" using assms(1-3) ok calculation unfolding slot_def pt_ok_def by metis
  ultimately show ?thesis by blast
qed

lemma slot_below:
  assumes "slot m p B us u i" "tab m p ts = Some t"
  shows "ts \<noteq> us @ i # rs"
proof
  assume "ts = us @ i # rs"
  then have "tab m u (i # rs) = Some t" using assms by (auto simp: slot_def tab_append split: option.splits)
  then show False using assms(1) by (auto simp: slot_def Let_def split: if_splits)
qed

lemma prefix_split:
  assumes "ts @ j # js = us @ i # rs"
  shows "ts = us \<and> j = i \<and> js = rs \<or> (\<exists>zs. us = ts @ j # zs) \<or> (\<exists>zs. ts = us @ i # zs)"
  using assms by (auto simp: append_eq_append_conv2 Cons_eq_append_conv append_eq_Cons_conv)

lemma entry_upd:
  assumes s: "slot m p B us u i" and t: "tab m p ts = Some t" and len: "length ts + length js = 3"
    and js: "js \<noteq> []" "\<forall>j \<in> set js. j < 512"
  shows "(\<forall>rs. ts @ js = us @ i # rs \<longrightarrow> entry (m(pte_at u i := v)) t js =
            (if nl v \<and> rs \<noteq> [] then entry (m(pte_at u i := v)) (PTE_EXTRACT_NADDR v) rs else (v, length rs))) \<and>
         ((\<nexists>rs. ts @ js = us @ i # rs) \<longrightarrow> entry (m(pte_at u i := v)) t js = entry m t js)"
  using t len js
proof (induction js arbitrary: ts t)
  case (Cons j js)
  let ?m = "m(pte_at u i := v)"
  have lt: "length ts \<le> 2" "j < 512" using Cons.prems by (auto simp: length_Suc_conv Suc_le_eq)
  have below: "ts \<noteq> us @ i # zs" for zs by (rule slot_below [OF s Cons.prems(1)])
  show ?case
  proof (cases "pte_at t j = pte_at u i")
    case True
    then have "ts = us" "t = u" "j = i" using slot_same [OF s lt(1) Cons.prems(1) lt(2)] by auto
    then show ?thesis by (simp add: Let_def fun_upd_def)
  next
    case ne: False
    show ?thesis
    proof (cases "nl (m (pte_at t j)) \<and> js \<noteq> []")
      case True
      then have "tab m p (ts @ [j]) = Some (PTE_EXTRACT_NADDR (m (pte_at t j)))"
        using Cons.prems(1) lt(2) by (intro tab_snoc) auto
      from Cons.IH [OF this] show ?thesis using Cons.prems True ne by (simp add: Let_def)
    next
      case False
      have "ts @ j # js \<noteq> us @ i # rs" for rs
      proof
        assume eq: "ts @ j # js = us @ i # rs"
        consider "ts = us" "j = i" | zs where "us = ts @ j # zs"
          using prefix_split [OF eq] below by blast
        then show False
        proof cases
          case 1
          then show False using ne s Cons.prems(1) by (auto simp: slot_def)
        next
          case 2
          then have "tab m t (j # zs) = Some u" using s Cons.prems(1)
            by (auto simp: slot_def tab_append split: option.splits)
          then have "nl (m (pte_at t j))" by (auto simp: Let_def split: if_splits)
          moreover have "js \<noteq> []" using eq 2 by auto
          ultimately show False using False by blast
        qed
      qed
      then show ?thesis using False ne by (cases js) (auto simp: Let_def)
    qed
  qed
qed simp

lemma tab_upd:
  assumes s: "slot m p B us u i" and t: "tab m p ts = Some t" and len: "length ts + length js \<le> 2"
  shows "(\<forall>rs. ts @ js = us @ i # rs \<longrightarrow> tab (m(pte_at u i := v)) t js =
            (if nl v then tab (m(pte_at u i := v)) (PTE_EXTRACT_NADDR v) rs else None)) \<and>
         ((\<nexists>rs. ts @ js = us @ i # rs) \<longrightarrow> tab (m(pte_at u i := v)) t js = tab m t js)"
  using t len
proof (induction js arbitrary: ts t)
  case Nil
  then show ?case using slot_below [OF s, of ts t] by auto
next
  case (Cons j js)
  let ?m = "m(pte_at u i := v)"
  have lt: "length ts \<le> 2" using Cons.prems by simp
  have below: "ts \<noteq> us @ i # zs" for zs by (rule slot_below [OF s Cons.prems(1)])
  have i: "i < 512" using s by (simp add: slot_def)
  show ?case
  proof (cases "j < 512 \<and> pte_at t j = pte_at u i")
    case True
    then have "ts = us" "t = u" "j = i" using slot_same [OF s lt Cons.prems(1)] by auto
    then show ?thesis using i by (simp add: Let_def fun_upd_def)
  next
    case ne: False
    show ?thesis
    proof (cases "j < 512 \<and> nl (m (pte_at t j))")
      case True
      then have "tab m p (ts @ [j]) = Some (PTE_EXTRACT_NADDR (m (pte_at t j)))"
        using Cons.prems(1) by (intro tab_snoc) auto
      from Cons.IH [OF this] show ?thesis using Cons.prems True ne by (auto simp: Let_def)
    next
      case False
      have "ts @ j # js \<noteq> us @ i # rs" for rs
      proof
        assume eq: "ts @ j # js = us @ i # rs"
        consider "ts = us" "j = i" | zs where "us = ts @ j # zs"
          using prefix_split [OF eq] below by blast
        then show False
        proof cases
          case 1
          then show False using ne s Cons.prems(1) i by (auto simp: slot_def)
        next
          case 2
          then have "tab m t (j # zs) = Some u" using s Cons.prems(1)
            by (auto simp: slot_def tab_append split: option.splits)
          then show False using False by (auto simp: Let_def split: if_splits)
        qed
      qed
      then show ?thesis using False ne by (auto simp: Let_def)
    qed
  qed
qed

text \<open>Clearing a page that is no table changes nothing.\<close>

lemma zero_page_slot:
  "ALIGN_4K t = t \<Longrightarrow> ALIGN_4K f = f \<Longrightarrow> i < 512 \<Longrightarrow> zero_page f m (pte_at t i) = (if t = f then 0 else m (pte_at t i))"
  by (simp add: zero_page_def pte_at_page)

lemma zero_page_tab:
  assumes "ALIGN_4K p = p" "ALIGN_4K f = f" "\<And>ts t. length ts \<le> 2 \<Longrightarrow> tab m p ts = Some t \<Longrightarrow> t \<noteq> f"
    and "tab m p ts = Some t" "length ts + length js \<le> 2"
  shows "tab (zero_page f m) t js = tab m t js"
  using assms(4,5)
proof (induction js arbitrary: ts t)
  case (Cons j js)
  have t: "t \<noteq> f" "ALIGN_4K t = t"
    using assms(3) [of ts t] tab_aligned [OF assms(1)] Cons.prems by auto
  show ?case
  proof (cases "j < 512 \<and> nl (m (pte_at t j))")
    case True
    then show ?thesis using Cons.IH [of "ts @ [j]"] tab_snoc [OF Cons.prems(1)] Cons.prems(2) t
        zero_page_slot [OF t(2) assms(2)] by (simp add: Let_def)
  next
    case False
    then show ?thesis using t zero_page_slot [OF t(2) assms(2)] by (auto simp: Let_def)
  qed
qed simp

lemma zero_page_entry:
  assumes "ALIGN_4K p = p" "ALIGN_4K f = f" "\<And>ts t. length ts \<le> 2 \<Longrightarrow> tab m p ts = Some t \<Longrightarrow> t \<noteq> f"
    and "tab m p ts = Some t" "length ts + length js \<le> 3" "\<forall>j \<in> set js. j < 512"
  shows "entry (zero_page f m) t js = entry m t js"
  using assms(4-6)
proof (induction js arbitrary: ts t)
  case (Cons j js)
  have t: "t \<noteq> f" "ALIGN_4K t = t"
    using assms(3) [of ts t] tab_aligned [OF assms(1)] Cons.prems by auto
  then show ?case using Cons.IH [of "ts @ [j]"] tab_snoc [OF Cons.prems(1)] Cons.prems(2,3)
        zero_page_slot [OF t(2) assms(2)] by (auto simp: Let_def)
qed simp

section \<open>Leaves and new tables\<close>

lemma slot_leaf:
  assumes s: "slot m p B us u i" and v: "\<not> nl v \<or> length us = 2"
  shows "pt_ok (m(pte_at u i := v)) p B"
    and "length js = 3 \<Longrightarrow> \<forall>j \<in> set js. j < 512 \<Longrightarrow>
       entry (m(pte_at u i := v)) p js =
         (if take (Suc (length us)) js = us @ [i] then (v, 2 - length us) else entry m p js)"
proof -
  let ?m = "m(pte_at u i := v)"
  have ok: "pt_ok m p B" "length us \<le> 2" using s by (simp_all add: slot_def)
  have "tab ?m p js = Some t \<Longrightarrow> tab m p js = Some t" if "length js \<le> 2" for js t
  proof (cases "\<exists>rs. js = us @ i # rs")
    case True
    then show "tab ?m p js = Some t \<Longrightarrow> tab m p js = Some t"
      using tab_upd [OF s, of "[]" p js v] that v by auto
  next
    case False
    then show "tab ?m p js = Some t \<Longrightarrow> tab m p js = Some t"
      using tab_upd [OF s, of "[]" p js v] that by auto
  qed
  then show "pt_ok ?m p B" using pt_ok_sub [OF ok(1), of ?m] by blast
  assume js: "length js = 3" "\<forall>j \<in> set js. j < 512"
  have e: "(\<forall>rs. js = us @ i # rs \<longrightarrow> entry ?m p js =
            (if nl v \<and> rs \<noteq> [] then entry ?m (PTE_EXTRACT_NADDR v) rs else (v, length rs))) \<and>
         ((\<nexists>rs. js = us @ i # rs) \<longrightarrow> entry ?m p js = entry m p js)"
    using entry_upd [OF s, of "[]" p js v] js by (cases js) auto
  show "entry ?m p js = (if take (Suc (length us)) js = us @ [i] then (v, 2 - length us) else entry m p js)"
  proof (cases "take (Suc (length us)) js = us @ [i]")
    case True
    then have d: "js = us @ i # drop (Suc (length us)) js"
      by (metis append.assoc append_Cons append_Nil append_take_drop_id)
    then have "\<not> (nl v \<and> drop (Suc (length us)) js \<noteq> [])" using v js by auto
    then show ?thesis using e d True js by (metis (no_types, lifting) diff_Suc_Suc length_drop numeral_2_eq_2 numeral_3_eq_3)
  next
    case False
    then have "\<nexists>rs. js = us @ i # rs" by auto
    then show ?thesis using e False by simp
  qed
qed

lemma zeroed_entry:
  assumes "ALIGN_4K f = f" "\<And>k. k < 512 \<Longrightarrow> m (pte_at f k) = 0" "\<forall>j \<in> set js. j < 512"
  shows "entry m f js = (0, length js - 1)" and "tab m f js = (if js = [] then Some f else None)"
  using assms by (cases js; auto simp: Let_def nl_def PTE_INVALID_def PTE_NON_LEAF_def PTE_V_SET_def)+

lemma slot_table:
  assumes s: "slot m p B us u i" and us: "length us \<le> 1"
    and f: "ALIGN_4K f = f" "(f, 0) \<notin> B"
  defines "m' \<equiv> (zero_page f m)(pte_at u i := PTE_NADDR f OR PTE_NON_LEAF)"
  shows "pt_ok m' p (insert (f, 0) B)" and "tab m' p (us @ [i]) = Some f"
    and "k < 512 \<Longrightarrow> m' (pte_at f k) = 0"
    and "length js = 3 \<Longrightarrow> \<forall>j \<in> set js. j < 512 \<Longrightarrow>
       entry m' p js =
         (if take (Suc (length us)) js = us @ [i] then (0, 1 - length us) else entry m p js)"
proof -
  define v where "v = PTE_NADDR f OR PTE_NON_LEAF"
  let ?m1 = "zero_page f m"
  have ok: "pt_ok m p B" "tab m p us = Some u" "i < 512" using s by (simp_all add: slot_def)
  have p: "ALIGN_4K p = p" using ok(1) by (simp add: pt_ok_def)
  have nf: "t \<noteq> f" if "length ts \<le> 2" "tab m p ts = Some t" for ts t
    using ok(1) that f(2) by (auto simp: pt_ok_def)
  have t1: "tab ?m1 p js = tab m p js" if "length js \<le> 2" for js
    using zero_page_tab [OF p f(1), of m "[]" p js] nf that by simp
  have ua: "ALIGN_4K u = u" using tab_aligned [OF p ok(2)] .
  have uf: "u \<noteq> f" using nf [OF _ ok(2)] us by simp
  have s1: "slot ?m1 p B us u i"
    using s t1 us zero_page_slot [OF ua f(1) ok(3)] uf pt_ok_sub [OF ok(1), of ?m1] unfolding slot_def by simp
  have v: "nl v" "PTE_EXTRACT_NADDR v = f"
    using f(1) extract_naddr [of PTE_NON_LEAF f] extract_xwrv [of f PTE_NON_LEAF] by (simp_all add: v_def nl_def)
  have ne: "pte_at f k \<noteq> pte_at u i" if "k < 512" for k
    using pte_at_inj [OF f(1) ua that ok(3)] uf by blast
  show z: "m' (pte_at f k) = 0" if "k < 512" for k
    using ne [OF that] zero_page_slot [OF f(1) f(1) that, of m] by (simp add: m'_def)
  have t2: "tab m' p js = (if \<exists>rs. js = us @ i # rs then (if js = us @ [i] then Some f else None) else tab m p js)"
    if js: "length js \<le> 2" for js
  proof (cases "\<exists>rs. js = us @ i # rs")
    case True
    then obtain rs where rs: "js = us @ i # rs" by blast
    have "tab m' p js = tab m' f rs"
      using tab_upd [OF s1, of "[]" p js v] js rs v by (simp add: m'_def v_def)
    moreover have "tab m' f rs = (if rs = [] then Some f else None)"
    proof (cases rs)
      case (Cons j js')
      then show ?thesis using z [of j]
        by (auto simp: Let_def nl_def PTE_INVALID_def PTE_NON_LEAF_def PTE_V_SET_def)
    qed simp
    ultimately show ?thesis using rs by auto
  next
    case False
    then have "tab m' p js = tab ?m1 p js"
      using tab_upd [OF s1, of "[]" p js v] js by (simp add: m'_def v_def)
    then show ?thesis using False t1 [OF js] by simp
  qed
  show "tab m' p (us @ [i]) = Some f" using t2 [of "us @ [i]"] us by auto
  have cases: "tab m p js = Some t \<or> js = us @ [i] \<and> t = f" if "length js \<le> 2" "tab m' p js = Some t" for js t
    using t2 [OF that(1)] that(2) by (auto split: if_splits)
  show "pt_ok m' p (insert (f, 0) B)"
    unfolding pt_ok_def
  proof (intro conjI allI impI)
    fix xs ys t assume a: "length xs \<le> 2 \<and> length ys \<le> 2 \<and> tab m' p xs = Some t \<and> tab m' p ys = Some t"
    then show "xs = ys" using cases [of xs t] cases [of ys t] nf ok(1) unfolding pt_ok_def by metis
  next
    fix xs t assume "length xs \<le> 2 \<and> tab m' p xs = Some t"
    then show "(t, 0) \<in> insert (f, 0) B" using cases [of xs t] ok(1) unfolding pt_ok_def by auto
  qed (rule p)
  assume js: "length js = 3" "\<forall>j \<in> set js. j < 512"
  have e: "(\<forall>rs. js = us @ i # rs \<longrightarrow> entry m' p js =
            (if nl v \<and> rs \<noteq> [] then entry m' f rs else (v, length rs))) \<and>
         ((\<nexists>rs. js = us @ i # rs) \<longrightarrow> entry m' p js = entry ?m1 p js)"
    using entry_upd [OF s1, of "[]" p js v] js v(2) by (cases js) (auto simp: m'_def v_def)
  have e1: "entry ?m1 p js = entry m p js"
    using zero_page_entry [OF p f(1), of m "[]" p js] nf js by simp
  show "entry m' p js = (if take (Suc (length us)) js = us @ [i] then (0, 1 - length us) else entry m p js)"
  proof (cases "take (Suc (length us)) js = us @ [i]")
    case True
    define rs where "rs = drop (Suc (length us)) js"
    have d: "js = us @ i # rs" using True unfolding rs_def
      by (metis append.assoc append_Cons append_Nil append_take_drop_id)
    then have "rs \<noteq> []" "length rs - 1 = 1 - length us" "\<forall>j \<in> set rs. j < 512" using us js by auto
    then show ?thesis using e d True v(1) zeroed_entry(1) [of f m' rs] f(1) z by auto
  next
    case False
    then have "\<nexists>rs. js = us @ i # rs" by auto
    then show ?thesis using e e1 False by simp
  qed
qed

section \<open>Translations\<close>

definition path :: "u64 \<Rightarrow> u64 list" where
  "path va = [VA_VPN2 va, VA_VPN1 va, VA_VPN0 va]"

text \<open>What a virtual address is translated to, as \<open>pte_walk\<close> reports it.\<close>

definition mapped :: "u64 \<Rightarrow> u64 \<Rightarrow> ptmem \<Rightarrow> (u64 \<times> pte_t \<times> page_size) option" where
  "mapped p va m =
     (let (a, f, ps) = pte_walk p va m in if PTE_EXTRACT_XWRV f = PTE_INVALID then None else Some (a, f, ps))"

definition size_of :: "nat \<Rightarrow> page_size" where
  "size_of n = (if n = 0 then PTE_PAGE_4K else if n = 1 then PTE_PAGE_2M else PTE_PAGE_1G)"

lemma xwrv_flags: "PTE_EXTRACT_XWRV (PTE_EXTRACT_FLAGS e) = PTE_EXTRACT_XWRV e"
  by (rule bit_eqI) (auto simp: PTE_EXTRACT_XWRV_def PTE_EXTRACT_FLAGS_def ALL_ONE_MASK_mask bit_simps)

lemma mapped_entry:
  "mapped p va m = (case entry m p (path va) of (e, n) \<Rightarrow>
     if PTE_EXTRACT_XWRV e = PTE_INVALID then None
     else Some (PTE_EXTRACT_NADDR e, PTE_EXTRACT_FLAGS e, size_of n))"
  by (auto simp: mapped_def pte_walk_def path_def Let_def nl_def xwrv_flags size_of_def)

lemma vpn_less: "VA_VPN2 va < 512" "VA_VPN1 va < 512" "VA_VPN0 va < 512"
  by (simp_all add: VA_VPN2_def VA_VPN1_def VA_VPN0_def ALL_ONE_MASK_mask word_less_nat_alt word_and_mask_mod)

lemma path_ok [simp]: "length (path va) = 3" "\<forall>j \<in> set (path va). j < 512"
  by (auto simp: path_def vpn_less)

lemma path_eq: "path va = path va' \<longleftrightarrow> VA_VPN va = VA_VPN va'"
proof
  assume p: "path va = path va'"
  have b: "bit (VA_VPN x) n \<longleftrightarrow> (if n < 9 then bit (VA_VPN0 x) n else if n < 18 then bit (VA_VPN1 x) (n - 9)
      else bit (VA_VPN2 x) (n - 18) \<and> n < 27)" for x n
    by (auto simp: VA_VPN_def VA_VPN0_def VA_VPN1_def VA_VPN2_def ALL_ONE_MASK_mask bit_simps add.commute)
  show "VA_VPN va = VA_VPN va'" using p by (intro bit_eqI) (simp add: b path_def)
next
  assume v: "VA_VPN va = VA_VPN va'"
  have b: "bit (VA_VPN0 x) n \<longleftrightarrow> n < 9 \<and> bit (VA_VPN x) n"
    "bit (VA_VPN1 x) n \<longleftrightarrow> n < 9 \<and> bit (VA_VPN x) (n + 9)"
    "bit (VA_VPN2 x) n \<longleftrightarrow> n < 9 \<and> bit (VA_VPN x) (n + 18)" for x n
    by (auto simp: VA_VPN_def VA_VPN0_def VA_VPN1_def VA_VPN2_def ALL_ONE_MASK_mask bit_simps add.commute)
  show "path va = path va'" using v by (auto simp: path_def b intro!: bit_eqI)
qed

lemma entry_at:
  assumes "tab m p us = Some u" "\<not> nl (m (pte_at u i)) \<or> rs = []"
  shows "entry m p (us @ i # rs) = (m (pte_at u i), length rs)"
  using assms by (induction us arbitrary: p) (auto simp: Let_def split: if_splits)

lemma take_path:
  "take (Suc (length us)) js = us @ [i] \<Longrightarrow> js = us @ i # drop (Suc (length us)) js"
  by (metis append.assoc append_Cons append_Nil append_take_drop_id)

lemma not_nl_invalid: "PTE_EXTRACT_XWRV e = PTE_INVALID \<Longrightarrow> \<not> nl e"
  by (simp add: nl_def PTE_INVALID_def PTE_NON_LEAF_def PTE_V_SET_def)

lemma mapped_leaf:
  assumes "slot m p B us u i" "\<not> nl v \<or> length us = 2" "PTE_EXTRACT_XWRV v \<noteq> PTE_INVALID"
  shows "mapped p va (m(pte_at u i := v)) =
     (if take (Suc (length us)) (path va) = us @ [i]
      then Some (PTE_EXTRACT_NADDR v, PTE_EXTRACT_FLAGS v, size_of (2 - length us)) else mapped p va m)"
  using slot_leaf(2) [OF assms(1,2) path_ok] assms(3) by (simp add: mapped_entry)

lemma mapped_clear:
  assumes "slot m p B us u i"
  shows "mapped p va (m(pte_at u i := 0)) =
     (if take (Suc (length us)) (path va) = us @ [i] then None else mapped p va m)"
proof -
  have "\<not> nl 0" by (rule not_nl_invalid) simp
  then show ?thesis using slot_leaf(2) [OF assms(1) _ path_ok, of 0] by (simp add: mapped_entry)
qed

lemma mapped_table:
  assumes s: "slot m p B us u i" "length us \<le> 1" "ALIGN_4K f = f" "(f, 0) \<notin> B"
    and e: "PTE_EXTRACT_XWRV (m (pte_at u i)) = PTE_INVALID"
  shows "mapped p va ((zero_page f m)(pte_at u i := PTE_NADDR f OR PTE_NON_LEAF)) = mapped p va m"
proof (cases "take (Suc (length us)) (path va) = us @ [i]")
  case True
  have "entry m p (path va) = (m (pte_at u i), length (drop (Suc (length us)) (path va)))"
    using entry_at [of m p us u i "drop (Suc (length us)) (path va)"] take_path [OF True] s(1)
    by (auto simp: slot_def)
  then show ?thesis using slot_table(4) [OF s path_ok] True e by (simp add: mapped_entry)
next
  case False
  then show ?thesis using slot_table(4) [OF s path_ok] by (simp add: mapped_entry)
qed

lemma zero_page_upd:
  "\<not> a - f < PAGE_SIZE \<Longrightarrow> zero_page f (m(a := v)) = (zero_page f m)(a := v)"
  by (auto simp: zero_page_def fun_eq_iff)

section \<open>Mapping a page\<close>

context page_allocator
begin

lemma fresh_table:
  assumes "inv s B" "avail s 0"
  shows "\<exists>f s'. new_table alloc (m, s) = Inr (f, zero_page f m, s') \<and> inv s' (insert (f, 0) B) \<and>
           ALIGN_4K f = f \<and> (f, 0) \<notin> B \<and> alloc 0 s = Inr (f, s')"
proof -
  obtain f s' where f: "alloc 0 s = Inr (f, s')" "(f, 0) \<notin> B" "inv s' (insert (f, 0) B)"
    using alloc_ok [OF assms] by auto
  then show ?thesis using placed [OF f(3), of f 0] by (simp add: new_table_def)
qed

definition map_post :: "u64 \<Rightarrow> u64 \<Rightarrow> u64 \<Rightarrow> pte_t \<Rightarrow> ptmem \<Rightarrow> ablock set \<Rightarrow> (ptmem \<times> 's) outcome \<Rightarrow> bool" where
  "map_post p va pa flags m B r \<longleftrightarrow> (\<exists>m' s' B'. r = Inr (m', s') \<and> inv s' B' \<and> B \<subseteq> B' \<and> pt_ok m' p B' \<and>
     (\<forall>va'. mapped p va' m' = (if VA_VPN va' = VA_VPN va then Some (ALIGN_4K pa, flags, PTE_PAGE_4K) else mapped p va' m)))"

text \<open>The leaf at the last level.\<close>

lemma map_leaf:
  assumes s: "slot m p B [VA_VPN2 va, VA_VPN1 va] u (VA_VPN0 va)" and i: "inv s B" and f: "small_flags flags"
    and v: "PTE_EXTRACT_XWRV flags \<noteq> PTE_INVALID"
  shows "map_post p va pa flags m B (Inr (m(pte_at u (VA_VPN0 va) := PTE_NADDR pa OR flags), s))"
proof -
  have "mapped p va' (m(pte_at u (VA_VPN0 va) := PTE_NADDR pa OR flags)) =
      (if VA_VPN va' = VA_VPN va then Some (ALIGN_4K pa, flags, PTE_PAGE_4K) else mapped p va' m)" for va'
  proof -
    have "take (Suc (length [VA_VPN2 va, VA_VPN1 va])) (path va') = [VA_VPN2 va, VA_VPN1 va] @ [VA_VPN0 va] \<longleftrightarrow>
        VA_VPN va' = VA_VPN va"
      using path_eq [of va' va] by (simp add: path_def)
    then show ?thesis
      using mapped_leaf [OF s, of "PTE_NADDR pa OR flags" va'] v
      by (simp add: extract_xwrv extract_naddr [OF f] extract_flags [OF f] size_of_def)
  qed
  moreover have "pt_ok (m(pte_at u (VA_VPN0 va) := PTE_NADDR pa OR flags)) p B"
    using slot_leaf(1) [OF s] by simp
  ultimately show ?thesis using i unfolding map_post_def by blast
qed

text \<open>A new table in an empty slot of the root or of a table below it.\<close>

lemma map_table:
  assumes s: "slot m p B us u i" "length us \<le> 1" "PTE_EXTRACT_XWRV (m (pte_at u i)) = PTE_INVALID"
    and f: "ALIGN_4K f = f" "(f, 0) \<notin> B" and j: "j < 512"
  defines "m' \<equiv> (zero_page f m)(pte_at u i := PTE_NADDR f OR PTE_NON_LEAF)"
  shows "slot m' p (insert (f, 0) B) (us @ [i]) f j" and "mapped p va m' = mapped p va m"
    and "m' (pte_at f j) = 0"
proof -
  note t = slot_table [OF s(1,2) f]
  show z: "m' (pte_at f j) = 0" using t(3) [OF j] by (simp add: m'_def)
  then show "slot m' p (insert (f, 0) B) (us @ [i]) f j"
    using t(1,2) j s(2) not_nl_invalid [of 0] unfolding slot_def m'_def by simp
  show "mapped p va m' = mapped p va m"
    unfolding m'_def by (rule mapped_table [OF s(1,2) f s(3)])
qed

lemma map_post_trans:
  assumes "map_post p va pa flags m' B' r" "\<And>va. mapped p va m' = mapped p va m" "B \<subseteq> B'"
  shows "map_post p va pa flags m B r"
proof -
  obtain m1 s1 B1 where "r = Inr (m1, s1)" "inv s1 B1" "B' \<subseteq> B1" "pt_ok m1 p B1"
    "\<forall>va'. mapped p va' m1 = (if VA_VPN va' = VA_VPN va then Some (ALIGN_4K pa, flags, PTE_PAGE_4K) else mapped p va' m)"
    using assms(1,2) unfolding map_post_def by auto
  moreover from this have "B \<subseteq> B1" using assms(3) by blast
  ultimately show ?thesis unfolding map_post_def by blast
qed

lemma map_4k:
  assumes i: "inv s B" and ok: "pt_ok m p B" and none: "mapped p va m = None"
    and f: "small_flags flags" and v: "PTE_EXTRACT_XWRV flags \<noteq> PTE_INVALID"
    and av: "avail s 0" "\<And>a s'. alloc 0 s = Inr (a, s') \<Longrightarrow> avail s' 0"
  shows "map_post p va pa flags m B (pte_map alloc p va pa flags PTE_PAGE_4K (m, s))"
proof -
  define v2 v1 v0 where "v2 = VA_VPN2 va" and "v1 = VA_VPN1 va" and "v0 = VA_VPN0 va"
  have vl: "v2 < 512" "v1 < 512" "v0 < 512" by (simp_all add: v2_def v1_def v0_def vpn_less)
  define p2 where "p2 = pte_at p v2"
  have pa: "path va = [v2, v1, v0]" by (simp add: path_def v2_def v1_def v0_def)
  have ap: "ALIGN_4K p = p" using ok by (simp add: pt_ok_def)
  have leaf: "map_post p va pa flags mx By (Inr (mx(pte_at u v0 := PTE_NADDR pa OR flags), sx))"
    if "slot mx p By [v2, v1] u v0" "inv sx By" for mx By u sx
    using map_leaf [OF that(1) [unfolded v2_def v1_def v0_def] that(2) f v] by (simp add: v0_def)
  show ?thesis
  proof (cases "nl (m p2)")
    case n2: True
    define u1 where "u1 = PTE_EXTRACT_NADDR (m p2)"
    define p1 where "p1 = pte_at u1 v1"
    have t1: "tab m p [v2] = Some u1" using n2 vl by (simp add: Let_def p2_def u1_def)
    have a1: "ALIGN_4K u1 = u1" by (simp add: u1_def naddr_aligned)
    show ?thesis
    proof (cases "nl (m p1)")
      case n1: True
      define u0 where "u0 = PTE_EXTRACT_NADDR (m p1)"
      have "tab m p [v2, v1] = Some u0" using n2 n1 vl by (simp add: Let_def p2_def u1_def p1_def u0_def)
      moreover have e: "PTE_EXTRACT_XWRV (m (pte_at u0 v0)) = PTE_INVALID"
        using none n2 n1 by (auto simp: mapped_entry pa Let_def p2_def [symmetric] u1_def [symmetric] p1_def [symmetric]
            u0_def [symmetric] split: if_splits)
      ultimately have "slot m p B [v2, v1] u0 v0" using ok vl not_nl_invalid [OF e] by (simp add: slot_def)
      then show ?thesis using leaf [OF _ i] n2 n1 e
        by (simp add: pte_map_def Let_def nl_def v2_def v1_def v0_def p2_def u1_def p1_def u0_def)
    next
      case n1: False
      have e1: "PTE_EXTRACT_XWRV (m p1) = PTE_INVALID"
        using none n2 n1 by (auto simp: mapped_entry pa Let_def p2_def [symmetric] u1_def [symmetric] p1_def [symmetric]
            split: if_splits)
      obtain g s1 where g: "new_table alloc (m, s) = Inr (g, zero_page g m, s1)" "inv s1 (insert (g, 0) B)"
        "ALIGN_4K g = g" "(g, 0) \<notin> B"
        using fresh_table [OF i av(1)] by blast
      have s1: "slot m p B [v2] u1 v1" using ok t1 vl n1 by (simp add: slot_def p1_def)
      note mt = map_table [OF s1 _ e1 [unfolded p1_def] g(3,4) vl(3)]
      have ne: "pte_at g v0 \<noteq> p1"
        using pte_at_inj [OF g(3) a1 vl(3,2)] tab_in [OF ok _ t1] g(4) by (auto simp: p1_def)
      have "map_post p va pa flags m B
          (Inr (((zero_page g m)(p1 := PTE_NADDR g OR PTE_NON_LEAF))(pte_at g v0 := PTE_NADDR pa OR flags), s1))"
        using mt by (intro map_post_trans [OF leaf [OF _ g(2)]]) (auto simp: p1_def)
      then show ?thesis using n2 n1 e1 g(1) ne
        by (simp add: pte_map_def Let_def nl_def v2_def v1_def v0_def p2_def u1_def p1_def or.commute fun_upd_twist)
    qed
  next
    case n2: False
    have e2: "PTE_EXTRACT_XWRV (m p2) = PTE_INVALID"
      using none n2 by (auto simp: mapped_entry pa Let_def p2_def [symmetric] split: if_splits)
    obtain g s1 where g: "new_table alloc (m, s) = Inr (g, zero_page g m, s1)" "inv s1 (insert (g, 0) B)"
      "ALIGN_4K g = g" "(g, 0) \<notin> B" "alloc 0 s = Inr (g, s1)"
      using fresh_table [OF i av(1)] by blast
    obtain h s2 where h: "new_table alloc (zero_page g m, s1) = Inr (h, zero_page h (zero_page g m), s2)"
      "inv s2 (insert (h, 0) (insert (g, 0) B))" "ALIGN_4K h = h" "(h, 0) \<notin> insert (g, 0) B"
      using fresh_table [OF g(2) av(2) [OF g(5)]] by blast
    define mA where "mA = (zero_page g m)(p2 := PTE_NADDR g OR PTE_NON_LEAF)"
    have "slot m p B [] p v2" using ok vl n2 by (simp add: slot_def p2_def)
    note m1 = map_table [OF this _ e2 [unfolded p2_def] g(3,4) vl(2), folded p2_def, folded mA_def]
    have z: "PTE_EXTRACT_XWRV (mA (pte_at g v1)) = PTE_INVALID" using m1(3) by simp
    define mB where "mB = (zero_page h mA)(pte_at g v1 := PTE_NADDR h OR PTE_NON_LEAF)"
    have s1: "slot mA p (insert (g, 0) B) [v2] g v1" using m1(1) by simp
    note m2 = map_table [OF s1 _ z h(3,4) vl(3), folded mB_def]
    have "p \<noteq> h" using tab_in [OF ok, of "[]" p] h(4) by auto
    then have "zero_page h mA = (zero_page h (zero_page g m))(p2 := PTE_NADDR g OR PTE_NON_LEAF)"
      unfolding mA_def using pte_at_page [OF ap h(3) vl(1)] by (intro zero_page_upd) (simp add: p2_def)
    then have mB: "mB = ((zero_page h (zero_page g m))(p2 := PTE_NADDR g OR PTE_NON_LEAF))
        (pte_at g v1 := PTE_NADDR h OR PTE_NON_LEAF)" by (simp add: mB_def)
    have "map_post p va pa flags m B (Inr (mB(pte_at h v0 := PTE_NADDR pa OR flags), s2))"
      using m1(2) m2(1,2) by (intro map_post_trans [OF leaf [OF _ h(2)]]) auto
    then show ?thesis using n2 e2 g(1) h(1) unfolding mB
      by (simp add: pte_map_def Let_def nl_def v2_def v1_def v0_def p2_def)
  qed
qed

lemma create_empty:
  assumes "inv s B" "avail s 0"
  shows "\<exists>p m' s'. pte_create alloc (m, s) = Inr (p, m', s') \<and> p \<noteq> 0 \<and> inv s' (insert (p, 0) B) \<and>
           pt_ok m' p (insert (p, 0) B) \<and> (\<forall>va. mapped p va m' = None) \<and> alloc 0 s = Inr (p, s')"
proof -
  obtain p s' where p: "alloc 0 s = Inr (p, s')" "(p, 0) \<notin> B" "inv s' (insert (p, 0) B)"
    using alloc_ok [OF assms] by auto
  have a: "p \<noteq> 0" "ALIGN_4K p = p" using placed [OF p(3), of p 0] by simp_all
  let ?m = "zero_page p m"
  have z: "?m (pte_at p i) = 0" if "i < 512" for i using zero_page_slot [OF a(2,2) that] by simp
  have t: "tab ?m p xs = (if xs = [] then Some p else None)" for xs
    using z by (cases xs) (auto simp: Let_def nl_def PTE_INVALID_def PTE_NON_LEAF_def PTE_V_SET_def)
  have "entry ?m p (path va) = (0, 2)" for va
    using zeroed_entry(1) [of p ?m "path va"] a(2) z by simp
  then have "mapped p va ?m = None" for va by (simp add: mapped_entry)
  moreover have "pt_ok ?m p (insert (p, 0) B)" unfolding pt_ok_def using a(2) by (simp add: t)
  ultimately show ?thesis using p(1,3) a(1) by (simp add: pte_create_def)
qed

end

section \<open>The properties of page tables\<close>

text \<open>A new page table is a table of its own, in a page no one else uses, and maps nothing.\<close>

lemma pte_create_empty:
  assumes "pmem_inv s B" "pmem_avail s 0"
  shows "\<exists>p m' s'. pte_create pmem_alloc (m, s) = Inr (p, m', s') \<and> p \<noteq> 0 \<and> pmem_inv s' (insert (p, 0) B) \<and>
           pt_ok m' p (insert (p, 0) B) \<and> (\<forall>va. mapped p va m' = None)"
  using pmem.create_empty [OF assms] by blast

text \<open>C12. Mapping a 4 KiB page at an address that is not mapped yet, with pages left for up to two
  new tables: afterwards \<open>pte_walk\<close> reports exactly this page and these flags for every
  address with the same page number, what it reports for any other address is unchanged, and the
  tables are still pairwise distinct pages of the allocator.\<close>

theorem pte_map_page:
  assumes "pmem_inv s B" "pt_ok m p B" "mapped p va m = None"
    and "small_flags flags" "PTE_EXTRACT_XWRV flags \<noteq> PTE_INVALID"
    and "pmem_avail s 0" "\<And>a s'. pmem_alloc 0 s = Inr (a, s') \<Longrightarrow> pmem_avail s' 0"
  shows "\<exists>m' s' B'. pte_map pmem_alloc p va pa flags PTE_PAGE_4K (m, s) = Inr (m', s') \<and>
     pmem_inv s' B' \<and> B \<subseteq> B' \<and> pt_ok m' p B' \<and>
     (\<forall>va'. mapped p va' m' = (if VA_VPN va' = VA_VPN va then Some (ALIGN_4K pa, flags, PTE_PAGE_4K)
                               else mapped p va' m))"
  using pmem.map_4k [OF assms] unfolding pmem.map_post_def .

text \<open>Mapping a page at an address that is mapped already makes the kernel panic, whatever the
  size of the existing page and whatever the allocator does.\<close>

lemma pte_map_remap_panics:
  assumes "mapped p va m \<noteq> None"
  shows "pte_map alloc p va pa flags PTE_PAGE_4K (m, s) = Inl Panic"
  using assms
  by (auto simp: mapped_def pte_walk_def pte_map_def Let_def xwrv_flags PTE_INVALID_def PTE_NON_LEAF_def PTE_V_SET_def
      split: if_splits)

text \<open>C24. Unmapping a mapped 4 KiB page removes the mapping of its addresses and no other.\<close>

theorem pte_unmap_page:
  assumes ok: "pt_ok m p B" and map: "mapped p va m = Some (a, f, PTE_PAGE_4K)" and f: "PTE_EXTRACT_XWRV f \<noteq> PTE_NON_LEAF"
  shows "\<exists>m'. pte_unmap p va (m, s) = Inr (m', s) \<and> pt_ok m' p B \<and>
     (\<forall>va'. mapped p va' m' = (if VA_VPN va' = VA_VPN va then None else mapped p va' m))"
proof -
  define u1 where "u1 = PTE_EXTRACT_NADDR (m (pte_at p (VA_VPN2 va)))"
  define u0 where "u0 = PTE_EXTRACT_NADDR (m (pte_at u1 (VA_VPN1 va)))"
  have w: "nl (m (pte_at p (VA_VPN2 va)))" "nl (m (pte_at u1 (VA_VPN1 va)))"
    "PTE_EXTRACT_XWRV (m (pte_at u0 (VA_VPN0 va))) \<noteq> PTE_INVALID" "\<not> nl (m (pte_at u0 (VA_VPN0 va)))"
    using map f by (auto simp: mapped_def pte_walk_def Let_def nl_def xwrv_flags u1_def u0_def split: if_splits)
  have s: "slot m p B [VA_VPN2 va, VA_VPN1 va] u0 (VA_VPN0 va)"
    using ok w vpn_less [of va] by (simp add: slot_def Let_def u1_def u0_def)
  have "take (Suc (length [VA_VPN2 va, VA_VPN1 va])) (path va') = [VA_VPN2 va, VA_VPN1 va] @ [VA_VPN0 va] \<longleftrightarrow>
      VA_VPN va' = VA_VPN va" for va'
    using path_eq [of va' va] by (simp add: path_def)
  then have "mapped p va' (m(pte_at u0 (VA_VPN0 va) := 0)) = (if VA_VPN va' = VA_VPN va then None else mapped p va' m)" for va'
    using mapped_clear [OF s, of va'] by simp
  moreover have "pt_ok (m(pte_at u0 (VA_VPN0 va) := 0)) p B" using slot_leaf(1) [OF s] by simp
  moreover have "pte_unmap p va (m, s) = Inr (m(pte_at u0 (VA_VPN0 va) := 0), s)"
    using w by (simp add: pte_unmap_def Let_def nl_def u1_def u0_def PTE_INVALID_def PTE_NON_LEAF_def PTE_V_SET_def)
  ultimately show ?thesis by blast
qed

section \<open>On the small memory\<close>

lemma small_pages:
  "case pmem_alloc 0 (memory3, boot_machine) of
     Inl e \<Rightarrow> False
   | Inr (p, s) \<Rightarrow> pmem_avail s 0 \<and> (case pmem_alloc 0 s of Inl e \<Rightarrow> False | Inr (a, s') \<Rightarrow> pmem_avail s' 0)"
  by code_simp

text \<open>A fresh table on the small memory, with pages left for two more.\<close>

lemma small_table:
  "\<exists>p m s B. pmem_inv s B \<and> pt_ok m p B \<and> (\<forall>va. mapped p va m = None) \<and> pmem_avail s 0 \<and>
     (\<forall>a s'. pmem_alloc 0 s = Inr (a, s') \<longrightarrow> pmem_avail s' 0)"
proof -
  have i: "pmem_inv (memory3, boot_machine) {}" "pmem_avail (memory3, boot_machine) 0"
    using boot_pmem_inv by (auto simp: pmem_avail_def)
  obtain p m s where c: "pmem_alloc 0 (memory3, boot_machine) = Inr (p, s)" "pmem_inv s {(p, 0)}"
    "pt_ok m p {(p, 0)}" "\<forall>va. mapped p va m = None"
    using pmem.create_empty [OF i, of "\<lambda>_. 7"] by auto
  then show ?thesis using small_pages
    by (intro exI [of _ p] exI [of _ m] exI [of _ s] exI [of _ "{(p, 0)}"]) (auto split: sum.splits)
qed

lemma rw_flags: "small_flags PTE_RW_SET" "PTE_EXTRACT_XWRV PTE_RW_SET \<noteq> PTE_INVALID"
    "PTE_EXTRACT_XWRV PTE_RW_SET \<noteq> PTE_NON_LEAF"
  by (simp_all add: small_flags_def PTE_EXTRACT_XWRV_def PTE_RW_SET_def PTE_R_SET_def PTE_W_SET_def PTE_V_SET_def
      PTE_INVALID_def PTE_NON_LEAF_def ALL_ONE_MASK_mask mask_eq_exp_minus_1)

theorem pte_map_page_witness:
  "\<exists>p m s m' s' B'. pte_map pmem_alloc p 0x1000 0x80200000 PTE_RW_SET PTE_PAGE_4K (m, s) = Inr (m', s') \<and>
     pt_ok m' p B' \<and> mapped p 0x1abc m' = Some (ALIGN_4K 0x80200000, PTE_RW_SET, PTE_PAGE_4K) \<and> mapped p 0x2000 m' = None"
proof -
  obtain p m s B where t: "pmem_inv s B" "pt_ok m p B" "\<forall>va. mapped p va m = None" "pmem_avail s 0"
    "\<forall>a s'. pmem_alloc 0 s = Inr (a, s') \<longrightarrow> pmem_avail s' 0" using small_table by blast
  have v: "VA_VPN 0x1abc = VA_VPN 0x1000" "VA_VPN 0x2000 \<noteq> VA_VPN 0x1000"
    by (simp_all add: VA_VPN_def ALL_ONE_MASK_mask mask_eq_exp_minus_1)
  have n: "mapped p 0x1000 m = None" "mapped p 0x2000 m = None" using t(3) by auto
  have "\<exists>m' s' B'. pte_map pmem_alloc p 0x1000 0x80200000 PTE_RW_SET PTE_PAGE_4K (m, s) = Inr (m', s') \<and>
     pmem_inv s' B' \<and> B \<subseteq> B' \<and> pt_ok m' p B' \<and>
     (\<forall>va'. mapped p va' m' = (if VA_VPN va' = VA_VPN 0x1000 then Some (ALIGN_4K 0x80200000, PTE_RW_SET, PTE_PAGE_4K)
                               else mapped p va' m))"
    by (rule pte_map_page [OF t(1,2) n(1) rw_flags(1,2) t(4)]) (use t(5) in blast)
  then obtain m' s' B' where
    r: "pte_map pmem_alloc p 0x1000 0x80200000 PTE_RW_SET PTE_PAGE_4K (m, s) = Inr (m', s')" "pt_ok m' p B'"
      "\<forall>va'. mapped p va' m' = (if VA_VPN va' = VA_VPN 0x1000 then Some (ALIGN_4K 0x80200000, PTE_RW_SET, PTE_PAGE_4K)
                               else mapped p va' m)"
    by blast
  have "mapped p 0x1abc m' = Some (ALIGN_4K 0x80200000, PTE_RW_SET, PTE_PAGE_4K)" "mapped p 0x2000 m' = None"
    unfolding r(3) [rule_format, of "0x1abc"] r(3) [rule_format, of "0x2000"] using v n(2) by simp_all
  then show ?thesis using r(1,2) by blast
qed

text \<open>One table by hand: the root at \<open>0x1000\<close> with a 1 GiB page, and three levels with one page.\<close>

theorem pte_unmap_page_witness:
  "\<exists>p m. mapped p 0x1000 m \<noteq> None \<and> (\<exists>m'. pte_unmap p 0x1000 (m, ()) = Inr (m', ()) \<and> mapped p 0x1000 m' = None)"
proof -
  obtain p m s B where t: "pmem_inv s B" "pt_ok m p B" "\<forall>va. mapped p va m = None" "pmem_avail s 0"
    "\<forall>a s'. pmem_alloc 0 s = Inr (a, s') \<longrightarrow> pmem_avail s' 0" using small_table by blast
  have n: "mapped p 0x1000 m = None" using t(3) by blast
  have "pmem.map_post p 0x1000 0 PTE_RW_SET m B (pte_map pmem_alloc p 0x1000 0 PTE_RW_SET PTE_PAGE_4K (m, s))"
    by (rule pmem.map_4k [OF t(1,2) n rw_flags(1,2) t(4)]) (use t(5) in blast)
  then obtain m' B' where
    m': "pt_ok m' p B'" "\<forall>va'. mapped p va' m' = (if VA_VPN va' = VA_VPN 0x1000 then Some (ALIGN_4K 0, PTE_RW_SET, PTE_PAGE_4K)
                               else mapped p va' m)"
    unfolding pmem.map_post_def by blast
  have m: "pt_ok m' p B'" "mapped p 0x1000 m' = Some (ALIGN_4K 0, PTE_RW_SET, PTE_PAGE_4K)" using m' by simp_all
  from pte_unmap_page [OF m rw_flags(3), of "()"] obtain m'' where
    u: "pte_unmap p 0x1000 (m', ()) = Inr (m'', ())"
       "\<forall>va'. mapped p va' m'' = (if VA_VPN va' = VA_VPN 0x1000 then None else mapped p va' m')" by blast
  have "mapped p 0x1000 m'' = None" using u(2) by simp
  then show ?thesis using m(2) u(1) by (metis option.distinct(1))
qed

end
