(* ===== verification/Kvm.thy ===== *)
theory Kvm
  imports Pte Spinlock
begin

text \<open>
  Models \<open>kernel/kvm.c\<close>, the kernel's own address space, with the control and status
  registers of \<open>kernel/riscv.h\<close> that the trap code uses, the layout of a process's address
  space (\<open>kernel/process.h\<close>) and the addresses of the devices that are mapped. The symbols of
  the linker script (\<open>kernel/extdef.h\<close>) are a parameter, a record of addresses.
\<close>

section \<open>Control and status registers\<close>

record csrs =
  satp :: u64
  sip :: u64
  sie :: u64
  sepc :: u64
  stvec :: u64
  sscratch :: u64
  scause :: u64
  stval :: u64

definition RISCV_SV39 :: u64 where
  "RISCV_SV39 = push_bit 60 8"

definition RISCV_MAKE_SATP :: "u64 \<Rightarrow> u64" where
  "RISCV_MAKE_SATP addr = RISCV_SV39 OR drop_bit 12 addr"

definition SCAUSE_USER_SOFT :: u64 where "SCAUSE_USER_SOFT = push_bit 63 1 OR 0"
definition SCAUSE_SUPV_SOFT :: u64 where "SCAUSE_SUPV_SOFT = push_bit 63 1 OR 1"
definition SCAUSE_USER_TIMER :: u64 where "SCAUSE_USER_TIMER = push_bit 63 1 OR 4"
definition SCAUSE_SUPV_TIMER :: u64 where "SCAUSE_SUPV_TIMER = push_bit 63 1 OR 5"
definition SCAUSE_USER_EXT :: u64 where "SCAUSE_USER_EXT = push_bit 63 1 OR 8"
definition SCAUSE_SUPV_EXT :: u64 where "SCAUSE_SUPV_EXT = push_bit 63 1 OR 9"
definition SCAUSE_INST_MA :: u64 where "SCAUSE_INST_MA = 0"
definition SCAUSE_INST_AF :: u64 where "SCAUSE_INST_AF = 1"
definition SCAUSE_ILLEGAL_INST :: u64 where "SCAUSE_ILLEGAL_INST = 2"
definition SCAUSE_BREAKPOINT :: u64 where "SCAUSE_BREAKPOINT = 3"
definition SCAUSE_LOAD_ADDR_MA :: u64 where "SCAUSE_LOAD_ADDR_MA = 4"
definition SCAUSE_LOAD_AF :: u64 where "SCAUSE_LOAD_AF = 5"
definition SCAUSE_STORE_ADDR_MA :: u64 where "SCAUSE_STORE_ADDR_MA = 6"
definition SCAUSE_STORE_AF :: u64 where "SCAUSE_STORE_AF = 6"
definition SCAUSE_ECALL_USER :: u64 where "SCAUSE_ECALL_USER = 8"
definition SCAUSE_ECALL_SUPV :: u64 where "SCAUSE_ECALL_SUPV = 9"
definition SCAUSE_ECALL_MACH :: u64 where "SCAUSE_ECALL_MACH = 11"
definition SCAUSE_INST_PF :: u64 where "SCAUSE_INST_PF = 12"
definition SCAUSE_LOAD_PF :: u64 where "SCAUSE_LOAD_PF = 13"
definition SCAUSE_STORE_PF :: u64 where "SCAUSE_STORE_PF = 15"

definition SIE_SSIE :: u64 where "SIE_SSIE = push_bit 1 1"
definition SIE_STIE :: u64 where "SIE_STIE = push_bit 5 1"
definition SIE_SEIE :: u64 where "SIE_SEIE = push_bit 9 1"
definition SIP_SSIE :: u64 where "SIP_SSIE = push_bit 1 1"
definition SIP_STIE :: u64 where "SIP_STIE = push_bit 5 1"
definition SIP_SEIE :: u64 where "SIP_SEIE = push_bit 9 1"

definition w_satp :: "u64 \<Rightarrow> csrs \<Rightarrow> csrs" where "w_satp x c = c\<lparr>satp := x\<rparr>"
definition w_sepc :: "u64 \<Rightarrow> csrs \<Rightarrow> csrs" where "w_sepc x c = c\<lparr>sepc := x\<rparr>"
definition w_stvec :: "u64 \<Rightarrow> csrs \<Rightarrow> csrs" where "w_stvec x c = c\<lparr>stvec := x\<rparr>"
definition w_sscratch :: "u64 \<Rightarrow> csrs \<Rightarrow> csrs" where "w_sscratch x c = c\<lparr>sscratch := x\<rparr>"
definition s_sie :: "u64 \<Rightarrow> csrs \<Rightarrow> csrs" where "s_sie x c = c\<lparr>sie := sie c OR x\<rparr>"
definition c_sip :: "u64 \<Rightarrow> csrs \<Rightarrow> csrs" where "c_sip x c = c\<lparr>sip := sip c AND NOT x\<rparr>"

section \<open>The layout of a process\<close>

definition PROC_VA_END :: u64 where "PROC_VA_END = 0xfffff000"
definition PROC_VA_TRAMPOLINE :: u64 where "PROC_VA_TRAMPOLINE = PROC_VA_END - PAGE_SIZE"
definition PROC_VA_GUARD :: u64 where "PROC_VA_GUARD = PROC_VA_TRAMPOLINE - PAGE_SIZE"
definition PROC_VA_KSTACK :: u64 where "PROC_VA_KSTACK = PROC_VA_GUARD - PAGE_SIZE * 2"
definition PROC_VA_KSTACK_SP :: u64 where "PROC_VA_KSTACK_SP = PROC_VA_GUARD - 32"
definition PROC_VA_GUARD2 :: u64 where "PROC_VA_GUARD2 = PROC_VA_KSTACK - PAGE_SIZE"
definition PROC_VA_TRAPFRAME :: u64 where "PROC_VA_TRAPFRAME = PROC_VA_GUARD2 - PAGE_SIZE"
definition PROC_VA_USER_MAX :: u64 where "PROC_VA_USER_MAX = PROC_VA_TRAPFRAME - PAGE_SIZE"
definition PROC_VA_USTACK :: u64 where "PROC_VA_USTACK = PROC_VA_USER_MAX - PAGE_SIZE"
definition PROC_VA_USTACK_SP :: u64 where "PROC_VA_USTACK_SP = PROC_VA_USER_MAX - 32"

lemmas layout_defs = PROC_VA_END_def PROC_VA_TRAMPOLINE_def PROC_VA_GUARD_def PROC_VA_KSTACK_def
  PROC_VA_KSTACK_SP_def PROC_VA_GUARD2_def PROC_VA_TRAPFRAME_def PROC_VA_USER_MAX_def
  PROC_VA_USTACK_def PROC_VA_USTACK_SP_def PAGE_SIZE_def

section \<open>The kernel's address space\<close>

text \<open>The addresses that the linker script defines.\<close>

record layout =
  TEXT_START :: u64
  TEXT_END :: u64
  DATA_START :: u64
  DATA_END :: u64
  RODATA_START :: u64
  RODATA_END :: u64
  BSS_START :: u64
  BSS_END :: u64
  KERNEL_START :: u64
  KERNEL_END :: u64
  RAM_END :: u64
  SBI_START :: u64
  SBI_END :: u64
  UVEC_START :: u64
  UVEC_END :: u64

datatype board = QEMU | K210

definition VIRTIO_BLK_MMIO_BASE :: u64 where "VIRTIO_BLK_MMIO_BASE = 0x10001000"
definition NS16550_BASE_ADDR :: u64 where "NS16550_BASE_ADDR = 0x10000000"
definition UARTHS_BASE_ADDR :: u64 where "UARTHS_BASE_ADDR = 0x38000000"
definition GPIOHS_BASE_ADDR :: u64 where "GPIOHS_BASE_ADDR = 0x38001000"
definition FPIOA_BASE_ADDR :: u64 where "FPIOA_BASE_ADDR = 0x502B0000"
definition SYSCTL_BASE_ADDR :: u64 where "SYSCTL_BASE_ADDR = 0x50440000"
definition SPI0_BASE_ADDR :: u64 where "SPI0_BASE_ADDR = 0x52000000"

type_synonym 's mapper = "ptmem \<times> 's \<Rightarrow> (ptmem \<times> 's) outcome"

text \<open>The mappings in the order the source makes them, each an operation on the tables.\<close>

fun run_all :: "'s mapper list \<Rightarrow> 's mapper" where
  "run_all [] s = Inr s"
| "run_all (f # fs) s = bindO (f s) (run_all fs)"

definition kvm_common :: "(u64 \<Rightarrow> 's \<Rightarrow> (u64 \<times> 's) outcome) \<Rightarrow> layout \<Rightarrow> u64 \<Rightarrow> 's mapper list" where
  "kvm_common alloc l kp =
    [pte_range_map alloc kp (SBI_START l) (SBI_START l) PTE_XWR_SET (SBI_END l - SBI_START l),
     pte_range_map alloc kp (TEXT_START l) (TEXT_START l) PTE_XR_SET (TEXT_END l - TEXT_START l),
     pte_range_map alloc kp (RODATA_START l) (RODATA_START l) PTE_RO_SET (RODATA_END l - RODATA_START l),
     pte_range_map alloc kp (DATA_START l) (DATA_START l) PTE_RW_SET (BSS_END l - DATA_START l),
     pte_range_map alloc kp (BSS_END l) (BSS_END l) PTE_RW_SET (RAM_END l - BSS_END l),
     pte_map alloc kp PROC_VA_TRAMPOLINE (UVEC_START l) PTE_XR_SET PTE_PAGE_4K]"

definition kvm_devices :: "(u64 \<Rightarrow> 's \<Rightarrow> (u64 \<times> 's) outcome) \<Rightarrow> board \<Rightarrow> u64 \<Rightarrow> 's mapper list" where
  "kvm_devices alloc b kp = (case b of
     QEMU \<Rightarrow>
       [pte_map alloc kp VIRTIO_BLK_MMIO_BASE VIRTIO_BLK_MMIO_BASE PTE_RW_SET PTE_PAGE_4K,
        pte_map alloc kp NS16550_BASE_ADDR NS16550_BASE_ADDR PTE_RW_SET PTE_PAGE_4K]
   | K210 \<Rightarrow>
       [pte_map alloc kp UARTHS_BASE_ADDR UARTHS_BASE_ADDR PTE_RW_SET PTE_PAGE_4K,
        pte_range_map alloc kp FPIOA_BASE_ADDR FPIOA_BASE_ADDR PTE_RW_SET 0x10000,
        pte_range_map alloc kp SYSCTL_BASE_ADDR SYSCTL_BASE_ADDR PTE_RW_SET 0x10000,
        pte_range_map alloc kp SPI0_BASE_ADDR SPI0_BASE_ADDR PTE_RW_SET 0x1000000,
        pte_map alloc kp GPIOHS_BASE_ADDR GPIOHS_BASE_ADDR PTE_RW_SET PTE_PAGE_4K])"

definition kvm_init :: "(u64 \<Rightarrow> 's \<Rightarrow> (u64 \<times> 's) outcome) \<Rightarrow> board \<Rightarrow> layout \<Rightarrow> u64 \<Rightarrow> 's mapper" where
  "kvm_init alloc b l kp = run_all (kvm_common alloc l kp @ kvm_devices alloc b kp)"

text \<open>\<open>sfence.vma\<close> only orders the accesses of the hart to its page tables.\<close>

definition kvm_install :: "u64 \<Rightarrow> csrs \<Rightarrow> csrs" where
  "kvm_install kp c = w_satp (RISCV_MAKE_SATP kp) c"

section \<open>Properties\<close>

text \<open>The table the hardware walks after \<open>kvm_install\<close>: 44 bits of page number in \<open>satp\<close>.\<close>

definition satp_root :: "csrs \<Rightarrow> u64" where
  "satp_root c = push_bit 12 (satp c AND mask 44)"

lemma kvm_install_root:
  assumes "ALIGN_4K kp = kp" "unat kp < 2 ^ 56"
  shows "satp_root (kvm_install kp c) = kp"
proof (rule bit_word_eqI)
  fix n :: nat assume n: "n < LENGTH(64)"
  have hi: "\<not> bit kp k" if "56 \<le> k" for k
    using assms(2) that by (metis bit_unat bit_nat_iff bit_take_bit_iff leD take_bit_nat_eq_self)
  have lo: "\<not> bit kp k" if "k < 12" for k
    using assms(1) that by (metis ALIGN_4K_bits not_le)
  have sv: "63 \<le> k" if "bit RISCV_SV39 k" for k
  proof -
    have "bit (push_bit 63 1 :: u64) k" using that by (simp add: RISCV_SV39_def)
    then show ?thesis by (simp only: bit_push_bit_iff)
  qed
  show "bit (satp_root (kvm_install kp c)) n = bit kp n"
  proof (cases "n < 12 \<or> 56 \<le> n")
    case True
    then show ?thesis using hi [of n] lo [of n] by (auto simp: satp_root_def bit_simps)
  next
    case False
    then have "n - 12 < 44" "n - 12 < 64" by linarith+
    moreover have "\<not> bit RISCV_SV39 (n - 12)" using False sv [of "n - 12"] by linarith
    ultimately show ?thesis using False n
      by (simp add: satp_root_def kvm_install_def w_satp_def RISCV_MAKE_SATP_def bit_simps)
  qed
qed

text \<open>Every area of the layout lies below the one before it, with room for its pages.\<close>

lemma layout_values:
  "PROC_VA_TRAMPOLINE = 0xffffe000" "PROC_VA_GUARD = 0xffffd000" "PROC_VA_KSTACK = 0xffffb000"
  "PROC_VA_KSTACK_SP = 0xffffcfe0" "PROC_VA_GUARD2 = 0xffffa000" "PROC_VA_TRAPFRAME = 0xffff9000"
  "PROC_VA_USER_MAX = 0xffff8000" "PROC_VA_USTACK = 0xffff7000" "PROC_VA_USTACK_SP = 0xffff7fe0"
  by (simp_all add: layout_defs)

end
