(* ===== verification/Bitmap.thy ===== *)
theory Bitmap
  imports Kmem
begin

text \<open>
  Models \<open>kernel/bitmap.c\<close> and \<open>kernel/pid.c\<close>. Bit 1 of the map means free. The state adds
  the bytes of memory and the \<open>struct bitmap\<close> objects to the allocators of \<open>Kmem\<close>.
\<close>

section \<open>The bit map\<close>

record bitmap =
  bm_map :: u64
  bm_length :: u64

record pid_sys =
  pheap :: kchain
  byte_at :: "u64 \<Rightarrow> u8"
  bitmap_at :: "u64 \<Rightarrow> bitmap"
  pid_bitmap :: u64

definition SIZEOF_BITMAP :: u64 where
  "SIZEOF_BITMAP = 16"

text \<open>A null result of \<open>kmalloc\<close> is written through, as in the source.\<close>

definition bitmap_init :: "u64 \<Rightarrow> u64 \<Rightarrow> pid_sys \<Rightarrow> (u64 \<times> pid_sys) outcome" where
  "bitmap_init addr byte_cnt s =
     bindO (kmalloc SIZEOF_BITMAP (pheap s)) (\<lambda>(bm, k).
     guardO Undefined (bm \<noteq> 0) (
     Inr (bm, s\<lparr>pheap := k,
                bitmap_at := (bitmap_at s)(bm := \<lparr>bm_map = addr, bm_length = byte_cnt\<rparr>)\<rparr>)))"

definition bitmap_destory :: "u64 \<Rightarrow> pid_sys \<Rightarrow> pid_sys outcome" where
  "bitmap_destory bm s = bindO (kfree bm (pheap s)) (\<lambda>k. Inr (s\<lparr>pheap := k\<rparr>))"

text \<open>The inner loop from bit \<open>j\<close> on: it stops at the first bit that is set.\<close>

function bit_loop :: "u8 \<Rightarrow> nat \<Rightarrow> nat \<Rightarrow> int \<Rightarrow> int" where
  "bit_loop b i j ret =
     (if j < 8
      then if b AND push_bit j 1 \<noteq> 0 then int (i * 8 + j) else bit_loop b i (Suc j) ret
      else ret)"
  by auto
termination by (relation "measure (\<lambda>(b, i, j, ret). 8 - j)") auto

declare bit_loop.simps [simp del]

text \<open>The outer loop over the bytes: the \<open>break\<close> leaves the inner loop only.\<close>

fun byte_loop :: "(u64 \<Rightarrow> u8) \<Rightarrow> u64 \<Rightarrow> nat list \<Rightarrow> int \<Rightarrow> int" where
  "byte_loop mem a [] ret = ret"
| "byte_loop mem a (i # is) ret = byte_loop mem a is (bit_loop (mem (a + of_nat i)) i 0 ret)"

definition bitmap_alloc_bit :: "u64 \<Rightarrow> pid_sys \<Rightarrow> int \<times> pid_sys" where
  "bitmap_alloc_bit bm s =
     (let b = bitmap_at s bm in (byte_loop (byte_at s) (bm_map b) [0..<unat (bm_length b)] (-1), s))"

text \<open>\<open>pos\<close> is an \<open>int64_t\<close>; a negative shift distance has no meaning in C.\<close>

definition bitmap_free_bit :: "u64 \<Rightarrow> int \<Rightarrow> pid_sys \<Rightarrow> pid_sys outcome" where
  "bitmap_free_bit bm pos s =
     (let i = (if 0 \<le> pos then pos div 8 else - ((- pos) div 8)); boff = pos - i * 8;
          a = bm_map (bitmap_at s bm) + of_int i
      in guardO Undefined (0 \<le> boff) (
         Inr (s\<lparr>byte_at := (byte_at s)(a := byte_at s a OR push_bit (nat boff) 1)\<rparr>)))"

section \<open>Process ids\<close>

definition pid_init :: "pid_sys \<Rightarrow> pid_sys outcome" where
  "pid_init s =
     bindO (kh_pmem_alloc 0 (pheap s)) (\<lambda>(pg, k).
     bindO (bitmap_init pg PAGE_SIZE (s\<lparr>pheap := k\<rparr>)) (\<lambda>(bm, s).
     Inr (s\<lparr>pid_bitmap := bm\<rparr>)))"

text \<open>The result is converted to \<open>int\<close>.\<close>

definition pid_alloc :: "pid_sys \<Rightarrow> int \<times> pid_sys" where
  "pid_alloc s = (let (r, s) = bitmap_alloc_bit (pid_bitmap s) s in (signed_take_bit 31 r, s))"

definition pid_free :: "int \<Rightarrow> pid_sys \<Rightarrow> pid_sys outcome" where
  "pid_free pid s = bitmap_free_bit (pid_bitmap s) pid s"

section \<open>What allocation finds\<close>

definition marked :: "(u64 \<Rightarrow> u8) \<Rightarrow> u64 \<Rightarrow> nat \<Rightarrow> bool" where
  "marked mem a p \<longleftrightarrow> bit (mem (a + of_nat (p div 8))) (p mod 8)"

lemma and_push_bit_1: "b AND push_bit j 1 = 0 \<longleftrightarrow> \<not> bit b j" for b :: u8
  by (simp add: and_exp_eq_0_iff_not_bit)

lemma bit_loop_char:
  "j \<le> 8 \<Longrightarrow> (bit_loop b i j ret = ret \<and> (\<forall>k. j \<le> k \<and> k < 8 \<longrightarrow> \<not> bit b k)) \<or>
     (\<exists>k. j \<le> k \<and> k < 8 \<and> bit b k \<and> (\<forall>l. j \<le> l \<and> l < k \<longrightarrow> \<not> bit b l) \<and> bit_loop b i j ret = int (i * 8 + k))"
proof (induction b i j ret rule: bit_loop.induct)
  case (1 b i j ret)
  show ?case
  proof (cases "j < 8 \<and> \<not> bit b j")
    case True
    then have e: "bit_loop b i j ret = bit_loop b i (Suc j) ret"
      by (subst bit_loop.simps) (simp del: push_bit_of_1 add: and_push_bit_1)
    have "(bit_loop b i (Suc j) ret = ret \<and> (\<forall>k. Suc j \<le> k \<and> k < 8 \<longrightarrow> \<not> bit b k)) \<or>
        (\<exists>k. Suc j \<le> k \<and> k < 8 \<and> bit b k \<and> (\<forall>l. Suc j \<le> l \<and> l < k \<longrightarrow> \<not> bit b l) \<and>
             bit_loop b i (Suc j) ret = int (i * 8 + k))"
      using 1 True by (auto simp: and_push_bit_1 simp del: push_bit_of_1)
    then show ?thesis using True unfolding e
      by (metis Suc_leI Suc_leD le_eq_less_or_eq)
  next
    case False
    then show ?thesis by (subst (1 2) bit_loop.simps) (auto simp: and_push_bit_1 simp del: push_bit_of_1)
  qed
qed

lemma bit_loop_none: "b = 0 \<Longrightarrow> bit_loop b i 0 ret = ret"
  using bit_loop_char [of 0 b i ret] by auto

lemma bit_loop_some:
  assumes "b \<noteq> 0"
  shows "\<exists>k < 8. bit_loop b i 0 ret = int (i * 8 + k) \<and> bit b k \<and> (\<forall>l < k. \<not> bit b l)"
proof -
  have "\<exists>k < 8. bit b k" using assms by (auto simp: bit_eq_iff dest: bit_imp_le_length)
  then show ?thesis using bit_loop_char [of 0 b i ret] by auto
qed

lemma byte_loop_append: "byte_loop mem a (is @ js) ret = byte_loop mem a js (byte_loop mem a is ret)"
  by (induction "is" arbitrary: ret) auto

lemma byte_loop_zero: "(\<forall>i \<in> set is. mem (a + of_nat i) = 0) \<Longrightarrow> byte_loop mem a is ret = ret"
  by (induction "is" arbitrary: ret) (auto simp: bit_loop_none)

lemma byte_loop_last:
  assumes "i < n" "mem (a + of_nat i) \<noteq> 0" "\<forall>k. i < k \<and> k < n \<longrightarrow> mem (a + of_nat k) = 0"
  shows "byte_loop mem a [0..<n] ret = bit_loop (mem (a + of_nat i)) i 0 ret'"
proof -
  have "[0..<n] = [0..<i] @ i # [Suc i..<n]"
    using assms(1) by (metis le_add_same_cancel1 less_imp_add_positive upt_add_eq_append upt_conv_Cons zero_le)
  then have "byte_loop mem a [0..<n] ret = bit_loop (mem (a + of_nat i)) i 0 (byte_loop mem a [0..<i] ret)"
    using assms(3) by (simp add: byte_loop_append byte_loop_zero)
  then show ?thesis using bit_loop_some [OF assms(2), of i ret'] bit_loop_some [OF assms(2), of i "byte_loop mem a [0..<i] ret"]
    by (metis linorder_neqE_nat)
qed

lemma last_nonzero:
  fixes f :: "nat \<Rightarrow> 'a::zero"
  assumes "\<exists>i < n. f i \<noteq> 0"
  shows "\<exists>i < n. f i \<noteq> 0 \<and> (\<forall>k. i < k \<and> k < n \<longrightarrow> f k = 0)"
proof -
  define i where "i = (GREATEST i. i < n \<and> f i \<noteq> 0)"
  obtain j where j: "j < n \<and> f j \<noteq> 0" using assms by blast
  have "i < n \<and> f i \<noteq> 0" unfolding i_def
    by (rule GreatestI_nat [where P = "\<lambda>i. i < n \<and> f i \<noteq> 0" and k = j and b = n]) (use j in auto)
  moreover have "k \<le> i" if "k < n \<and> f k \<noteq> 0" for k unfolding i_def
    by (rule Greatest_le_nat [where P = "\<lambda>i. i < n \<and> f i \<noteq> 0" and b = n]) (use that in auto)
  ultimately show ?thesis by (metis leD)
qed

lemma bit_or_push: "bit (b OR push_bit k 1) l \<longleftrightarrow> bit b l \<or> (l = k \<and> k < 8)" for b :: u8
  by (auto simp: bit_simps)

text \<open>C34. Allocation searches a map to its end: it returns -1 when no bit is set, and otherwise the
  lowest bit of the last byte that has one, so a set bit with no set bit below it in its byte
  and none in any later byte. The bit stays set: neither the map nor anything else of the state is
  changed, and of two process ids that are allocated one after the other the second is the first again.\<close>

theorem bitmap_alloc_bit_last:
  assumes "bitmap_alloc_bit bm s = (r, s')" "b = bitmap_at s bm"
  shows "s' = s \<and> (\<forall>p q s1 s2. pid_alloc s = (p, s1) \<and> pid_alloc s1 = (q, s2) \<longrightarrow> q = p \<and> s2 = s) \<and>
    ((r = -1 \<and> (\<forall>i < unat (bm_length b). byte_at s (bm_map b + of_nat i) = 0)) \<or>
     (\<exists>i k. i < unat (bm_length b) \<and> k < 8 \<and> r = int (i * 8 + k) \<and>
        marked (byte_at s) (bm_map b) (i * 8 + k) \<and>
        (\<forall>l < k. \<not> marked (byte_at s) (bm_map b) (i * 8 + l)) \<and>
        (\<forall>j. i < j \<and> j < unat (bm_length b) \<longrightarrow> byte_at s (bm_map b + of_nat j) = 0)))"
proof (intro conjI)
  show "s' = s" "\<forall>p q s1 s2. pid_alloc s = (p, s1) \<and> pid_alloc s1 = (q, s2) \<longrightarrow> q = p \<and> s2 = s"
    using assms by (auto simp: bitmap_alloc_bit_def pid_alloc_def Let_def)
  show "(r = -1 \<and> (\<forall>i < unat (bm_length b). byte_at s (bm_map b + of_nat i) = 0)) \<or>
     (\<exists>i k. i < unat (bm_length b) \<and> k < 8 \<and> r = int (i * 8 + k) \<and>
        marked (byte_at s) (bm_map b) (i * 8 + k) \<and>
        (\<forall>l < k. \<not> marked (byte_at s) (bm_map b) (i * 8 + l)) \<and>
        (\<forall>j. i < j \<and> j < unat (bm_length b) \<longrightarrow> byte_at s (bm_map b + of_nat j) = 0))"
  proof (cases "\<exists>i < unat (bm_length b). byte_at s (bm_map b + of_nat i) \<noteq> 0")
    case False
    then show ?thesis using assms by (auto simp: bitmap_alloc_bit_def Let_def byte_loop_zero)
  next
    case True
    obtain i where i: "i < unat (bm_length b)" "byte_at s (bm_map b + of_nat i) \<noteq> 0"
        "\<forall>k. i < k \<and> k < unat (bm_length b) \<longrightarrow> byte_at s (bm_map b + of_nat k) = 0"
      using last_nonzero [OF True] by blast
    have "r = bit_loop (byte_at s (bm_map b + of_nat i)) i 0 0"
      using assms byte_loop_last [OF i, of "-1" 0] by (auto simp: bitmap_alloc_bit_def Let_def)
    then obtain k where "k < 8" "r = int (i * 8 + k)" "bit (byte_at s (bm_map b + of_nat i)) k"
        "\<forall>l < k. \<not> bit (byte_at s (bm_map b + of_nat i)) l"
      using bit_loop_some [OF i(2), of i 0] by metis
    then show ?thesis using i by (intro disjI2 exI [of _ i] exI [of _ k]) (auto simp: marked_def)
  qed
qed

text \<open>A freed id that lies behind every other free one is handed out again.\<close>

lemma pid_free_alloc:
  assumes "pid_free (int p) s = Inr s'" "p < 8 * unat (bm_length (bitmap_at s (pid_bitmap s)))" "p < 2 ^ 31"
    and "\<forall>q. q \<noteq> p \<and> q < 8 * unat (bm_length (bitmap_at s (pid_bitmap s))) \<longrightarrow>
           \<not> marked (byte_at s) (bm_map (bitmap_at s (pid_bitmap s))) q"
    and "unat (bm_length (bitmap_at s (pid_bitmap s))) < 2 ^ 60"
  shows "pid_alloc s' = (int p, s')"
proof -
  define b where "b = bitmap_at s (pid_bitmap s)"
  define a where "a = bm_map b + of_nat (p div 8)"
  have "(of_int (int p div 8) :: u64) = of_nat (p div 8)"
    by (metis of_int_of_nat_eq zdiv_int of_nat_numeral)
  then have s': "s' = s\<lparr>byte_at := (byte_at s)(a := byte_at s a OR push_bit (p mod 8) 1)\<rparr>"
    using assms(1)
    by (auto simp: pid_free_def bitmap_free_bit_def Let_def guardO_eq_Inr a_def b_def
        minus_div_mult_eq_mod nat_mod_distrib simp flip: zdiv_int)
  have inj: "i = p div 8" if "i < unat (bm_length b)" "bm_map b + of_nat i = a" for i
  proof -
    have "unat (of_nat i :: u64) = i" "unat (of_nat (p div 8) :: u64) = p div 8"
      using that(1) assms(2,5) unfolding b_def by (simp_all add: unat_of_nat)
    then show ?thesis using that(2) unfolding a_def by (metis add_left_imp_eq)
  qed
  have z: "byte_at s (bm_map b + of_nat i) = 0" if "i < unat (bm_length b)" "i \<noteq> p div 8" for i
  proof (rule bit_eqI)
    fix n assume "possible_bit TYPE(u8) n"
    then have n: "n < 8" by (simp add: possible_bit_word)
    then have "i * 8 + n \<noteq> p" "i * 8 + n < 8 * unat (bm_length b)" using that by auto
    then have "\<not> marked (byte_at s) (bm_map b) (i * 8 + n)" using assms(4) by (simp add: b_def)
    then show "bit (byte_at s (bm_map b + of_nat i)) n = bit (0::u8) n" using n by (simp add: marked_def)
  qed
  have pi: "p div 8 < unat (bm_length b)" using assms(2) unfolding b_def by linarith
  have l: "\<not> bit (byte_at s a) l" if "l < 8" "l \<noteq> p mod 8" for l
  proof -
    have "p div 8 * 8 + l \<noteq> p" using that(2) div_mult_mod_eq [of p 8] by linarith
    moreover have "p div 8 * 8 + l < 8 * unat (bm_length b)" using that(1) pi by linarith
    moreover have "(p div 8 * 8 + l) div 8 = p div 8" "(p div 8 * 8 + l) mod 8 = l" using that by simp_all
    ultimately show ?thesis using assms(4) by (metis marked_def a_def b_def)
  qed
  have "bitmap_alloc_bit (pid_bitmap s) s' = (int (p div 8 * 8 + p mod 8), s')"
  proof -
    let ?m = "byte_at s'"
    have m: "?m a = byte_at s a OR push_bit (p mod 8) 1" "?m (bm_map b + of_nat (p div 8)) = ?m a"
      by (simp_all add: s' a_def)
    have b8: "bit (?m a) k \<longleftrightarrow> k = p mod 8" if "k < 8" for k
      using l [OF that] unfolding m bit_or_push by auto
    then have "?m a \<noteq> 0" by (metis bit_0_eq bot_apply mod_less_divisor zero_less_numeral bot_bool_def)
    moreover have "\<forall>k. p div 8 < k \<and> k < unat (bm_length b) \<longrightarrow> ?m (bm_map b + of_nat k) = 0"
      using z inj by (auto simp: s')
    ultimately have "byte_loop ?m (bm_map b) [0..<unat (bm_length b)] (-1) = bit_loop (?m a) (p div 8) 0 0"
      using byte_loop_last [OF pi, of ?m "bm_map b" "-1" 0] m(2) by simp
    moreover have "bit_loop (?m a) (p div 8) 0 0 = int (p div 8 * 8 + p mod 8)"
      using bit_loop_some [OF \<open>?m a \<noteq> 0\<close>, of "p div 8" 0] b8 by metis
    moreover have "bm_map b = bm_map (bitmap_at s' (pid_bitmap s))" "bm_length b = bm_length (bitmap_at s' (pid_bitmap s))"
      by (simp_all add: b_def s')
    ultimately show ?thesis by (simp only: bitmap_alloc_bit_def Let_def)
  qed
  moreover have "pid_bitmap s' = pid_bitmap s" by (simp add: s')
  moreover have "p div 8 * 8 + p mod 8 = p" by simp
  moreover have "signed_take_bit 31 (int p) = int p" using assms(3) by (simp add: signed_take_bit_int_eq_self)
  ultimately show ?thesis by (simp add: pid_alloc_def)
qed

theorem bitmap_alloc_bit_last_witness:
  "\<exists>s. bitmap_alloc_bit 5 s = (10, s) \<and> marked (byte_at s) 64 10 \<and> fst (pid_alloc (snd (pid_alloc s))) = fst (pid_alloc s)"
proof -
  define s where "s = \<lparr>pheap = undefined, byte_at = (\<lambda>x. if x = 65 then 0x14 else if x = 64 then 1 else 0),
    bitmap_at = (\<lambda>_. \<lparr>bm_map = 64, bm_length = 3\<rparr>), pid_bitmap = 5\<rparr>"
  have r: "bitmap_alloc_bit 5 s = (10, s)"
    by (simp add: s_def bitmap_alloc_bit_def Let_def upt_rec bit_loop.simps)
  have "fst (pid_alloc (snd (pid_alloc s))) = fst (pid_alloc s)"
    using bitmap_alloc_bit_last [OF r refl] by (metis prod.collapse)
  then show ?thesis
    using r bitmap_alloc_bit_last [OF r refl] by (intro exI [of _ s]) (auto simp: s_def marked_def)
qed

end
