(* ===== verification/Disk.thy ===== *)
theory Disk
  imports Prelude
begin

text \<open>
  Models \<open>hal/disk_hal.h\<close>, the table of operations through which the file system reads and
  writes sectors, and states as a locale what it relies on. A caller passes the address of
  its buffer and the memory from that address on; a driver touches 512 bytes of it.
\<close>

type_synonym 'd read_func = "u64 \<Rightarrow> u64 \<Rightarrow> u8 list \<Rightarrow> 'd \<Rightarrow> (bool \<times> u8 list \<times> 'd) outcome"
type_synonym 'd write_func = "u64 \<Rightarrow> u64 \<Rightarrow> u8 list \<Rightarrow> 'd \<Rightarrow> (bool \<times> 'd) outcome"

record 'd disk_hal =
  dev :: 'd
  read_op :: "'d read_func"
  write_op :: "'d write_func"

text \<open>
  \<open>content d\<close> is what the sectors hold, \<open>present\<close> tells which sectors exist and \<open>ok\<close> is the
  state between two requests.
\<close>

locale block_device =
  fixes read :: "'d read_func"
    and "write" :: "'d write_func"
    and content :: "'d \<Rightarrow> u64 \<Rightarrow> u8 list"
    and present :: "u64 \<Rightarrow> bool"
    and ok :: "'d \<Rightarrow> bool"
  assumes sector_size: "ok d \<Longrightarrow> length (content d s) = 512"
    and read_ok: "ok d \<Longrightarrow> present s \<Longrightarrow> 512 \<le> length b \<Longrightarrow>
      \<exists>d'. read s a b d = Inr (True, content d s @ drop 512 b, d') \<and> ok d' \<and> content d' = content d"
    and write_ok: "ok d \<Longrightarrow> present s \<Longrightarrow> 512 \<le> length b \<Longrightarrow>
      \<exists>d'. write s a b d = Inr (True, d') \<and> ok d' \<and> content d' = (content d)(s := take 512 b)"
begin

text \<open>A sector that was written is read back, even when another one was written in between.\<close>

lemma write_write_read:
  assumes "ok d" "present s" "present s'" "s \<noteq> s'" "512 \<le> length b" "512 \<le> length b'" "512 \<le> length c"
  shows "\<exists>d1 d2 d3. write s a b d = Inr (True, d1) \<and> write s' a' b' d1 = Inr (True, d2) \<and>
     read s a'' c d2 = Inr (True, take 512 b @ drop 512 c, d3) \<and> ok d3 \<and>
     content d3 = (content d)(s := take 512 b, s' := take 512 b')"
proof -
  obtain d1 where 1: "write s a b d = Inr (True, d1)" "ok d1" "content d1 = (content d)(s := take 512 b)"
    using write_ok [OF assms(1,2,5)] by blast
  obtain d2 where 2: "write s' a' b' d1 = Inr (True, d2)" "ok d2" "content d2 = (content d1)(s' := take 512 b')"
    using write_ok [OF 1(2) assms(3,6)] by blast
  show ?thesis using 1 2 read_ok [OF 2(2) assms(2,7), of a''] assms(4) by auto
qed

end

end
