(* ===== verification/Virtio.thy ===== *)
theory Virtio
  imports Kmem
begin

text \<open>
  Models \<open>driver/virtio.c\<close>, \<open>driver/virtio_blk.c\<close> and the part of \<open>hal/disk_hal.c\<close> that is
  compiled for QEMU: the split virtqueue, the driver's list of free descriptors and a
  request on the block device. The device is not part of the source. It is a parameter, the
  effect of reading and writing its registers, and may change the memory it shares with the
  driver at each access.
\<close>

section \<open>Registers, descriptors and queues\<close>

datatype virtio_reg = Magic_value | Version | Device_id | Vendor_id | Device_features
  | Device_features_sel | Driver_features | Driver_features_sel | Queue_sel | Queue_num_max
  | Queue_num | Queue_ready | Queue_notify | Interrupt_status | Interrupt_ack | Status
  | Queue_desc_low | Queue_desc_high | Queue_driver_low | Queue_driver_high
  | Queue_device_low | Queue_device_high | Config_generation

definition VIRTQ_DESC_F_NEXT :: u16 where "VIRTQ_DESC_F_NEXT = 1"
definition VIRTQ_DESC_F_WRITE :: u16 where "VIRTQ_DESC_F_WRITE = 2"

record virtqueue_desc =
  d_addr :: u64
  d_len :: u32
  d_flags :: u16
  d_next :: u16

text \<open>\<open>struct virtio_queue\<close>; the pointers are addresses in the page of the queue.\<close>

record virtio_queue =
  vq_len :: u64
  free_idx :: u64
  vq_desc :: u64
  vq_avail :: u64
  vq_used_event :: u64
  vq_used :: u64
  vq_avail_event :: u64

record virtio_blk_req =
  rq_type :: u32
  rq_sector :: u64
  rq_status :: u8
  rq_d1 :: u32
  rq_d2 :: u32
  rq_d3 :: u32

text \<open>
  The memory that driver and device share: the descriptor table, the two rings, the request
  and the bytes of the caller's buffer, the last two with their addresses.
\<close>

record vshared =
  descs :: "virtqueue_desc list"
  avail_flags :: u16
  avail_idx :: u16
  avail_ring :: "u16 list"
  used_idx :: u16
  used_event :: u16
  avail_event :: u16
  req_addr :: u64
  req :: virtio_blk_req
  buf_addr :: u64
  buf_bytes :: "u8 list"

text \<open>A device: what an access to a register does to the memory and to the device.\<close>

record 'd mmio =
  mmio_read :: "virtio_reg \<Rightarrow> vshared \<times> 'd \<Rightarrow> u32 \<times> vshared \<times> 'd"
  mmio_write :: "virtio_reg \<Rightarrow> u32 \<Rightarrow> vshared \<times> 'd \<Rightarrow> vshared \<times> 'd"

definition VIRTIO_QUEUE_MAX_SIZE :: u32 where "VIRTIO_QUEUE_MAX_SIZE = 150"
definition VIRTIO_MAGIC :: u32 where "VIRTIO_MAGIC = 0x74726976"
definition VIRTIO_VERSION :: u32 where "VIRTIO_VERSION = 2"
definition VIRTIO_DEV_BLK :: u32 where "VIRTIO_DEV_BLK = 2"
definition VIRTIO_STATUS_ACKNOWLEDGE :: u32 where "VIRTIO_STATUS_ACKNOWLEDGE = 1"
definition VIRTIO_STATUS_DRIVER :: u32 where "VIRTIO_STATUS_DRIVER = 2"
definition VIRTIO_STATUS_FEATURES_OK :: u32 where "VIRTIO_STATUS_FEATURES_OK = 8"
definition VIRTIO_STATUS_DRIVER_OK :: u32 where "VIRTIO_STATUS_DRIVER_OK = 4"
definition VIRTIO_F_RING_INDIRECT_DESC :: nat where "VIRTIO_F_RING_INDIRECT_DESC = 28"
definition VIRTIO_BLK_F_SIZE_MAX :: nat where "VIRTIO_BLK_F_SIZE_MAX = 1"
definition VIRTIO_BLK_F_SEG_MAX :: nat where "VIRTIO_BLK_F_SEG_MAX = 2"
definition VIRTIO_BLK_F_GEOMETRY :: nat where "VIRTIO_BLK_F_GEOMETRY = 4"
definition VIRTIO_BLK_F_BLK_SIZE :: nat where "VIRTIO_BLK_F_BLK_SIZE = 6"
definition VIRTIO_BLK_F_FLUSH :: nat where "VIRTIO_BLK_F_FLUSH = 9"
definition VIRTIO_BLK_F_TOPOLOGY :: nat where "VIRTIO_BLK_F_TOPOLOGY = 10"
definition VIRTIO_BLK_F_CONFIG_WCE :: nat where "VIRTIO_BLK_F_CONFIG_WCE = 11"
definition VIRTIO_BLK_F_DISCARD :: nat where "VIRTIO_BLK_F_DISCARD = 13"
definition VIRTIO_BLK_T_IN :: u32 where "VIRTIO_BLK_T_IN = 0"
definition VIRTIO_BLK_T_OUT :: u32 where "VIRTIO_BLK_T_OUT = 1"
definition VIRTIO_BLK_S_OK :: u8 where "VIRTIO_BLK_S_OK = 0"

section \<open>virtio.c\<close>

text \<open>\<open>RWV32(regs->r) = RWV32(regs->r) | bits\<close>.\<close>

definition mmio_or :: "'d mmio \<Rightarrow> virtio_reg \<Rightarrow> u32 \<Rightarrow> vshared \<times> 'd \<Rightarrow> vshared \<times> 'd" where
  "mmio_or D r bits io = (let (v, io) = mmio_read D r io in mmio_write D r (v OR bits) io)"

definition virtio_dev_init :: "'d mmio \<Rightarrow> vshared \<times> 'd \<Rightarrow> (u64 \<times> vshared \<times> 'd) outcome" where
  "virtio_dev_init D io =
     (let (magic, io) = mmio_read D Magic_value io in
      guardO Panic (magic = VIRTIO_MAGIC) (
      let (ver, io) = mmio_read D Version io in
      guardO Panic (ver = VIRTIO_VERSION) (
      let io = mmio_write D Status 0 io;
          io = mmio_or D Status VIRTIO_STATUS_ACKNOWLEDGE io;
          io = mmio_or D Status VIRTIO_STATUS_DRIVER io;
          (id, io) = mmio_read D Device_id io
      in Inr (ucast id, io))))"

definition SIZEOF_VIRTIO_QUEUE :: u64 where "SIZEOF_VIRTIO_QUEUE = 56"

definition queue_size_of :: "u32 \<Rightarrow> u32" where
  "queue_size_of queue_size =
     (if queue_size > VIRTIO_QUEUE_MAX_SIZE then VIRTIO_QUEUE_MAX_SIZE else queue_size)"

definition avail_offset :: "u32 \<Rightarrow> u64" where
  "avail_offset n = align_next (ucast n * 16) 2"

definition used_offset :: "u32 \<Rightarrow> u64" where
  "used_offset n = align_next (avail_offset n + ucast (n * 2 + 6)) 4"

text \<open>
  The memory is what a page of zeros holds after the writes of the source. Neither of the two
  allocations is tested for null.
\<close>

definition virtio_queue_alloc :: "u32 \<Rightarrow> kchain \<times> vshared \<Rightarrow> (u64 \<times> virtio_queue \<times> kchain \<times> vshared) outcome" where
  "virtio_queue_alloc queue_size = (\<lambda>(k, sh).
     let n = queue_size_of queue_size in
     bindO (kh_pmem_alloc 0 k) (\<lambda>(pm, k).
     guardO Undefined (pm \<noteq> 0) (
     bindO (kmalloc SIZEOF_VIRTIO_QUEUE k) (\<lambda>(p, k).
     guardO Undefined (p \<noteq> 0) (
     let avail = pm + avail_offset n; used = pm + used_offset n;
         vq = \<lparr>vq_len = ucast n, free_idx = 0, vq_desc = pm, vq_avail = avail,
               vq_used_event = avail + 4 + 2 * ucast n, vq_used = used,
               vq_avail_event = used + 4 + 8 * ucast n\<rparr>;
         sh = sh\<lparr>descs := map (\<lambda>i. \<lparr>d_addr = 0, d_len = 0, d_flags = 0, d_next = of_nat (i + 1)\<rparr>) [0..<unat n],
                 avail_flags := 0, avail_idx := 0, avail_ring := replicate (unat n) 0,
                 used_idx := 0, avail_event := 1, used_event := 0\<rparr>
     in Inr (p, vq, k, sh))))))"

definition desc_get :: "u64 \<Rightarrow> vshared \<Rightarrow> virtqueue_desc outcome" where
  "desc_get i sh = arr_get (descs sh) (unat i)"

definition desc_upd :: "u64 \<Rightarrow> (virtqueue_desc \<Rightarrow> virtqueue_desc) \<Rightarrow> vshared \<Rightarrow> vshared outcome" where
  "desc_upd i f sh =
     bindO (arr_get (descs sh) (unat i)) (\<lambda>d.
     bindO (arr_set (descs sh) (unat i) (f d)) (\<lambda>ds. Inr (sh\<lparr>descs := ds\<rparr>)))"

definition virtio_alloc_desc :: "virtio_queue \<times> vshared \<Rightarrow> (u64 \<times> virtio_queue \<times> vshared) outcome" where
  "virtio_alloc_desc = (\<lambda>(vq, sh).
     if free_idx vq = vq_len vq then Inl Panic
     else bindO (desc_get (free_idx vq) sh) (\<lambda>d.
          Inr (free_idx vq, vq\<lparr>free_idx := ucast (d_next d)\<rparr>, sh)))"

definition virtio_free_desc :: "u64 \<Rightarrow> virtio_queue \<times> vshared \<Rightarrow> (virtio_queue \<times> vshared) outcome" where
  "virtio_free_desc i = (\<lambda>(vq, sh).
     bindO (desc_upd i (\<lambda>d. d\<lparr>d_next := ucast (free_idx vq)\<rparr>) sh) (\<lambda>sh.
     Inr (vq\<lparr>free_idx := i\<rparr>, sh)))"

definition virtio_queue_free :: "u64 \<Rightarrow> virtio_queue \<Rightarrow> kchain \<Rightarrow> kchain outcome" where
  "virtio_queue_free p vq k = bindO (kh_pmem_free (vq_desc vq) k) (kfree p)"

definition virtio_add_queue :: "'d mmio \<Rightarrow> virtio_queue \<Rightarrow> u32 \<Rightarrow> vshared \<times> 'd \<Rightarrow> vshared \<times> 'd" where
  "virtio_add_queue D vq vq_id io =
     (let io = mmio_write D Queue_sel vq_id io;
          io = mmio_write D Queue_num (ucast (vq_len vq)) io;
          io = mmio_write D Queue_desc_low (ucast (vq_desc vq)) io;
          io = mmio_write D Queue_desc_high 0 io;
          io = mmio_write D Queue_driver_low (ucast (vq_avail vq)) io;
          io = mmio_write D Queue_driver_high 0 io;
          io = mmio_write D Queue_device_low (ucast (vq_used vq)) io;
          io = mmio_write D Queue_device_high 0 io
      in mmio_write D Queue_ready 1 io)"

section \<open>virtio_blk.c\<close>

text \<open>
  The source reads \<open>magic_value\<close> for the supported features. Messages are not modelled, so the
  read of the status register after \<open>FEATURES_OK\<close> only has its effect on the device.
\<close>

definition virtio_blk_set_feature :: "'d mmio \<Rightarrow> vshared \<times> 'd \<Rightarrow> vshared \<times> 'd" where
  "virtio_blk_set_feature D io =
     (let (fea, io) = mmio_read D Magic_value io;
          fea_sel = push_bit VIRTIO_BLK_F_BLK_SIZE 1 OR push_bit VIRTIO_BLK_F_CONFIG_WCE 1 OR
            push_bit VIRTIO_BLK_F_DISCARD 1 OR push_bit VIRTIO_BLK_F_FLUSH 1 OR
            push_bit VIRTIO_BLK_F_GEOMETRY 1 OR push_bit VIRTIO_BLK_F_SEG_MAX 1 OR
            push_bit VIRTIO_BLK_F_SIZE_MAX 1 OR push_bit VIRTIO_BLK_F_TOPOLOGY 1 OR
            push_bit VIRTIO_F_RING_INDIRECT_DESC 1;
          io = mmio_write D Driver_features fea_sel io;
          io = mmio_or D Status VIRTIO_STATUS_FEATURES_OK io;
          (st, io) = mmio_read D Status io
      in mmio_or D Status VIRTIO_STATUS_DRIVER_OK io)"

text \<open>\<open>struct virtio_blk\<close> with the memory and the device it works on.\<close>

record 'd virtio_blk =
  vq :: virtio_queue
  vmem :: vshared
  vdev :: 'd

definition SIZEOF_VIRTIO_BLK :: u64 where "SIZEOF_VIRTIO_BLK = 24"

text \<open>\<open>None\<close> is the null pointer returned for another kind of device.\<close>

definition virtio_blk_init :: "'d mmio \<Rightarrow> kchain \<times> vshared \<times> 'd \<Rightarrow>
    ('d virtio_blk option \<times> kchain \<times> vshared \<times> 'd) outcome" where
  "virtio_blk_init D = (\<lambda>(k, io).
     bindO (virtio_dev_init D io) (\<lambda>(device_id, io).
     if ucast device_id \<noteq> VIRTIO_DEV_BLK then Inr (None, k, io) else
     let io = virtio_blk_set_feature D io in
     bindO (kmalloc SIZEOF_VIRTIO_BLK k) (\<lambda>(blk, k).
     guardO Undefined (blk \<noteq> 0) (
     bindO (virtio_queue_alloc VIRTIO_QUEUE_MAX_SIZE (k, fst io)) (\<lambda>(p, q, k, sh).
     let io = virtio_add_queue D q 0 (sh, snd io)
     in Inr (Some \<lparr>vq = q, vmem = fst io, vdev = snd io\<rparr>, k, io))))))"

definition virtio_blk_send :: "'d mmio \<Rightarrow> u32 \<Rightarrow> 'd virtio_blk \<Rightarrow> 'd virtio_blk outcome" where
  "virtio_blk_send D desc v =
     (let sh = vmem v in
      guardO Undefined (vq_len (vq v) \<noteq> 0) (
      bindO (arr_set (avail_ring sh) (unat (avail_idx sh) mod unat (vq_len (vq v))) (ucast desc)) (\<lambda>ring.
      let sh = sh\<lparr>avail_ring := ring\<rparr>;
          sh = sh\<lparr>avail_idx := avail_idx sh + 1\<rparr>;
          io = mmio_write D Queue_notify 0 (sh, vdev v)
      in Inr (v\<lparr>vmem := fst io, vdev := snd io\<rparr>))))"

definition virtio_blk_submit :: "'d mmio \<Rightarrow> 'd virtio_blk \<Rightarrow> 'd virtio_blk outcome" where
  "virtio_blk_submit D v =
     (let datamode = (if rq_type (req (vmem v)) = VIRTIO_BLK_T_IN then VIRTQ_DESC_F_WRITE else 0) in
      bindO (virtio_alloc_desc (vq v, vmem v)) (\<lambda>(d1, qs).
      bindO (virtio_alloc_desc qs) (\<lambda>(d2, qs).
      bindO (virtio_alloc_desc qs) (\<lambda>(d3, q, sh).
      let d1 = (ucast d1 :: u32); d2 = (ucast d2 :: u32); d3 = (ucast d3 :: u32) in
      bindO (desc_upd (ucast d1) (\<lambda>_. \<lparr>d_addr = req_addr sh, d_len = 16, d_flags = VIRTQ_DESC_F_NEXT,
               d_next = ucast d2\<rparr>) sh) (\<lambda>sh.
      bindO (desc_upd (ucast d2) (\<lambda>_. \<lparr>d_addr = buf_addr sh, d_len = 512,
               d_flags = VIRTQ_DESC_F_NEXT OR datamode, d_next = ucast d3\<rparr>) sh) (\<lambda>sh.
      bindO (desc_upd (ucast d3) (\<lambda>d. d\<lparr>d_addr := req_addr sh + 16, d_len := 1,
               d_flags := VIRTQ_DESC_F_WRITE\<rparr>) sh) (\<lambda>sh.
      let sh = sh\<lparr>req := (req sh)\<lparr>rq_d1 := d1, rq_d2 := d2, rq_d3 := d3\<rparr>\<rparr>
      in virtio_blk_send D d1 (v\<lparr>vq := q, vmem := sh\<rparr>))))))))"

text \<open>The loop that waits for the interrupt status.\<close>

partial_function (option) wait_loop :: "'d mmio \<Rightarrow> vshared \<times> 'd \<Rightarrow> (vshared \<times> 'd) option" where
  [code]: "wait_loop D io =
     (case mmio_read D Interrupt_status io of (st, io) \<Rightarrow> if st = 0 then wait_loop D io else Some io)"

definition virtio_blk_wait :: "'d mmio \<Rightarrow> 'd virtio_blk \<Rightarrow> (bool \<times> 'd virtio_blk) outcome" where
  "virtio_blk_wait D v =
     bindO (case wait_loop D (vmem v, vdev v) of None \<Rightarrow> Inl Hang | Some io \<Rightarrow> Inr io) (\<lambda>(sh, d).
     let sh = sh\<lparr>used_event := used_idx sh\<rparr>;
         (st, io) = mmio_read D Interrupt_status (sh, d);
         (sh, d) = mmio_write D Interrupt_ack st io in
     bindO (virtio_free_desc (ucast (rq_d1 (req sh))) (vq v, sh)) (\<lambda>qs.
     bindO (virtio_free_desc (ucast (rq_d2 (req sh))) qs) (\<lambda>qs.
     bindO (virtio_free_desc (ucast (rq_d3 (req sh))) qs) (\<lambda>(q, sh).
     Inr (rq_status (req sh) = VIRTIO_BLK_S_OK, v\<lparr>vq := q, vmem := sh, vdev := d\<rparr>)))))"

section \<open>disk_hal.c\<close>

text \<open>
  The request is a local variable at an address \<open>ra\<close> that the compiler chooses; the fields the
  source does not set keep whatever \<open>junk\<close> the stack holds. A caller passes the address of
  its buffer and the memory from there on.
\<close>

definition disk_hal_op :: "'d mmio \<Rightarrow> u64 \<Rightarrow> virtio_blk_req \<Rightarrow> u32 \<Rightarrow> u64 \<Rightarrow> u64 \<Rightarrow> u8 list \<Rightarrow> 'd virtio_blk \<Rightarrow>
    (bool \<times> 'd virtio_blk) outcome" where
  "disk_hal_op D ra junk ty sector a bytes v =
     (let sh = (vmem v)\<lparr>req_addr := ra, req := junk\<lparr>rq_sector := sector, rq_type := ty\<rparr>,
                        buf_addr := a, buf_bytes := bytes\<rparr>
      in bindO (virtio_blk_submit D (v\<lparr>vmem := sh\<rparr>)) (virtio_blk_wait D))"

definition disk_hal_read :: "'d mmio \<Rightarrow> u64 \<Rightarrow> virtio_blk_req \<Rightarrow> u64 \<Rightarrow> u64 \<Rightarrow> u8 list \<Rightarrow> 'd virtio_blk \<Rightarrow>
    (bool \<times> u8 list \<times> 'd virtio_blk) outcome" where
  "disk_hal_read D ra junk sector a bytes v =
     bindO (disk_hal_op D ra junk VIRTIO_BLK_T_IN sector a bytes v) (\<lambda>(ok, v).
     Inr (ok, buf_bytes (vmem v), v))"

definition disk_hal_write :: "'d mmio \<Rightarrow> u64 \<Rightarrow> virtio_blk_req \<Rightarrow> u64 \<Rightarrow> u64 \<Rightarrow> u8 list \<Rightarrow> 'd virtio_blk \<Rightarrow>
    (bool \<times> 'd virtio_blk) outcome" where
  "disk_hal_write D ra junk sector a bytes v = disk_hal_op D ra junk VIRTIO_BLK_T_OUT sector a bytes v"

definition disk_hal_destory :: "'d virtio_blk \<Rightarrow> bool outcome" where
  "disk_hal_destory v = Inl Panic"

end
