(* ===== verification/Sdcard.thy ===== *)
theory Sdcard
  imports Disk
begin

text \<open>
  Models \<open>driver/sdcard.c\<close>, the driver for an SD card on the SPI bus of the K210 board, and the part
  of \<open>hal/disk_hal.c\<close> for that board. The functions of the vendored library are the
  operations of a bus. The messages that are printed are left out.
\<close>

section \<open>The bus\<close>

text \<open>
  \<open>set_pin\<close> sets the pin that selects the card, \<open>spi_init\<close> sets up the bus, \<open>spi_receive n\<close> gives the \<open>n\<close>
  bytes received as a function of their index, and \<open>fpioa_set\<close> gives a pin its function.
\<close>

record 'c spi_bus =
  set_drive_mode :: "'c \<Rightarrow> 'c"
  set_pin :: "bool \<Rightarrow> 'c \<Rightarrow> 'c"
  spi_init :: "'c \<Rightarrow> 'c"
  spi_send :: "u8 list \<Rightarrow> 'c \<Rightarrow> 'c"
  spi_receive :: "nat \<Rightarrow> 'c \<Rightarrow> (nat \<Rightarrow> u8) \<times> 'c"
  spi_send_dma :: "u8 list \<Rightarrow> 'c \<Rightarrow> 'c"
  spi_receive_dma :: "nat \<Rightarrow> 'c \<Rightarrow> (nat \<Rightarrow> u8) \<times> 'c"
  fpioa_set :: "nat \<Rightarrow> nat \<Rightarrow> 'c \<Rightarrow> 'c"

definition BSIZE :: nat where "BSIZE = 512"

definition SD_CS_HIGH :: "'c spi_bus \<Rightarrow> 'c \<Rightarrow> 'c" where
  "SD_CS_HIGH B c = set_pin B True c"

definition SD_CS_LOW :: "'c spi_bus \<Rightarrow> 'c \<Rightarrow> 'c" where
  "SD_CS_LOW B c = set_pin B False c"

definition sd_lowlevel_init :: "'c spi_bus \<Rightarrow> 'c \<Rightarrow> 'c" where
  "sd_lowlevel_init B c = set_drive_mode B c"

text \<open>The list holds the bytes that are sent; the caller checks that its buffer has them.\<close>

definition sd_write_data :: "'c spi_bus \<Rightarrow> u8 list \<Rightarrow> 'c \<Rightarrow> 'c" where
  "sd_write_data B bs c = spi_send B bs (spi_init B c)"

definition sd_read_data :: "'c spi_bus \<Rightarrow> nat \<Rightarrow> 'c \<Rightarrow> (nat \<Rightarrow> u8) \<times> 'c" where
  "sd_read_data B n c = spi_receive B n (spi_init B c)"

definition sd_write_data_dma :: "'c spi_bus \<Rightarrow> u8 list \<Rightarrow> 'c \<Rightarrow> 'c" where
  "sd_write_data_dma B bs c = spi_send_dma B bs (spi_init B c)"

definition sd_read_data_dma :: "'c spi_bus \<Rightarrow> nat \<Rightarrow> 'c \<Rightarrow> (nat \<Rightarrow> u8) \<times> 'c" where
  "sd_read_data_dma B n c = spi_receive_dma B n (spi_init B c)"

section \<open>Commands\<close>

definition SD_CMD0 :: u8 where "SD_CMD0 = 0"
definition SD_CMD8 :: u8 where "SD_CMD8 = 8"
definition SD_CMD58 :: u8 where "SD_CMD58 = 58"
definition SD_CMD55 :: u8 where "SD_CMD55 = 55"
definition SD_ACMD41 :: u8 where "SD_ACMD41 = 41"
definition SD_CMD16 :: u8 where "SD_CMD16 = 16"
definition SD_CMD17 :: u8 where "SD_CMD17 = 17"
definition SD_CMD24 :: u8 where "SD_CMD24 = 24"
definition SD_CMD13 :: u8 where "SD_CMD13 = 13"

definition sd_send_cmd :: "'c spi_bus \<Rightarrow> u8 \<Rightarrow> u32 \<Rightarrow> u8 \<Rightarrow> 'c \<Rightarrow> 'c" where
  "sd_send_cmd B cmd arg crc c =
     (let frame = [cmd OR 0x40, ucast (drop_bit 24 arg), ucast (drop_bit 16 arg), ucast (drop_bit 8 arg), ucast arg, crc]
      in sd_write_data B frame (SD_CS_LOW B c))"

definition sd_end_cmd :: "'c spi_bus \<Rightarrow> 'c \<Rightarrow> 'c" where
  "sd_end_cmd B c = sd_write_data B [0xFF] (SD_CS_HIGH B c)"

text \<open>
  The loops that read a byte at a time, at most \<open>n\<close> times, until one satisfies \<open>P\<close>. The result is
  the last byte and whether it does.
\<close>

fun wait_token :: "'c spi_bus \<Rightarrow> (u8 \<Rightarrow> bool) \<Rightarrow> nat \<Rightarrow> 'c \<Rightarrow> (bool \<times> u8) \<times> 'c" where
  "wait_token B P 0 c = ((False, 0xFF), c)"
| "wait_token B P (Suc n) c =
     (let (r, c) = sd_read_data B 1 c in if P (r 0) then ((True, r 0), c) else wait_token B P n c)"

text \<open>The bounds of the loops: \<open>while(timeout--)\<close> reads \<open>timeout\<close> times, \<open>while(--timeout)\<close> once less.\<close>

definition R1_TRIES :: nat where "R1_TRIES = 0xff"
definition CMD_TRIES :: nat where "CMD_TRIES = 0xfe"
definition ACMD_TRIES :: nat where "ACMD_TRIES = 0xffe"
definition READ_TRIES :: nat where "READ_TRIES = 0xfffffe"
definition TOKEN_TRIES :: nat where "TOKEN_TRIES = 0xffe"

definition sd_get_response_R1 :: "'c spi_bus \<Rightarrow> 'c \<Rightarrow> u8 \<times> 'c" where
  "sd_get_response_R1 B c =
     (let ((ok, r), c) = wait_token B (\<lambda>r. r \<noteq> 0xff) R1_TRIES c in if ok then (r, c) else (0xff, c))"

definition sd_get_response_R3_rest :: "'c spi_bus \<Rightarrow> 'c \<Rightarrow> (nat \<Rightarrow> u8) \<times> 'c" where
  "sd_get_response_R3_rest B c = sd_read_data B 4 c"

definition sd_get_response_R7_rest :: "'c spi_bus \<Rightarrow> 'c \<Rightarrow> (nat \<Rightarrow> u8) \<times> 'c" where
  "sd_get_response_R7_rest B c = sd_read_data B 4 c"

text \<open>A command with a response of one byte, from its frame to its end.\<close>

definition simple_cmd :: "'c spi_bus \<Rightarrow> u8 \<Rightarrow> u32 \<Rightarrow> u8 \<Rightarrow> 'c \<Rightarrow> u8 \<times> 'c" where
  "simple_cmd B cmd arg crc c =
     (let (r, c) = sd_get_response_R1 B (sd_send_cmd B cmd arg crc c) in (r, sd_end_cmd B c))"

text \<open>The command that reads the OCR register.\<close>

definition ocr_cmd :: "'c spi_bus \<Rightarrow> 'c \<Rightarrow> u8 \<times> (nat \<Rightarrow> u8) \<times> 'c" where
  "ocr_cmd B c =
     (let (r, c) = sd_get_response_R1 B (sd_send_cmd B SD_CMD58 0 0 c);
          (ocr, c) = sd_get_response_R3_rest B c
      in (r, ocr, sd_end_cmd B c))"

section \<open>Initialisation\<close>

fun spi_mode_loop :: "'c spi_bus \<Rightarrow> nat \<Rightarrow> 'c \<Rightarrow> int \<times> 'c" where
  "spi_mode_loop B 0 c = (0xff, c)"
| "spi_mode_loop B (Suc n) c = (let (r, c) = simple_cmd B SD_CMD0 0 0x95 c in if r = 0x01 then (0, c) else spi_mode_loop B n c)"

definition switch_to_SPI_mode :: "'c spi_bus \<Rightarrow> 'c \<Rightarrow> int \<times> 'c" where
  "switch_to_SPI_mode B c = spi_mode_loop B CMD_TRIES c"

definition verify_operation_condition :: "'c spi_bus \<Rightarrow> 'c \<Rightarrow> int \<times> 'c" where
  "verify_operation_condition B c =
     (let (r, c) = sd_get_response_R1 B (sd_send_cmd B SD_CMD8 0x01aa 0x87 c);
          (frame, c) = sd_get_response_R7_rest B c;
          c = sd_end_cmd B c
      in if r = 0x09 then (0xff, c)
         else if r = 0x01 \<and> frame 2 AND 0x0f = 0x01 \<and> frame 3 = 0xaa then (0, c)
         else (0xff, c))"

fun ocr_loop :: "'c spi_bus \<Rightarrow> nat \<Rightarrow> 'c \<Rightarrow> int \<times> 'c" where
  "ocr_loop B 0 c = (0xff, c)"
| "ocr_loop B (Suc n) c =
     (let (r, ocr, c) = ocr_cmd B c
      in if r = 0x01 \<and> ocr 1 AND 0x1f \<noteq> 0 \<and> ocr 2 AND 0x80 \<noteq> 0 then (0, c) else ocr_loop B n c)"

definition read_OCR :: "'c spi_bus \<Rightarrow> 'c \<Rightarrow> int \<times> 'c" where
  "read_OCR B c = ocr_loop B CMD_TRIES c"

fun capacity_loop :: "'c spi_bus \<Rightarrow> nat \<Rightarrow> 'c \<Rightarrow> int \<times> 'c" where
  "capacity_loop B 0 c = (0xff, c)"
| "capacity_loop B (Suc n) c =
     (let (r, c) = simple_cmd B SD_CMD55 0 0 c
      in if r \<noteq> 0x01 then (0xff, c)
         else let (r, c) = simple_cmd B SD_ACMD41 0x40000000 0 c in if r = 0 then (0, c) else capacity_loop B n c)"

definition set_SDXC_capacity :: "'c spi_bus \<Rightarrow> 'c \<Rightarrow> int \<times> 'c" where
  "set_SDXC_capacity B c = capacity_loop B ACMD_TRIES c"

text \<open>The driver's state: the bus and the static variable that tells how sectors are addressed.\<close>

record 'c sdcard =
  bus :: 'c
  is_standard_sd :: int

fun size_loop :: "'c spi_bus \<Rightarrow> nat \<Rightarrow> 'c \<Rightarrow> bool \<times> 'c" where
  "size_loop B 0 c = (False, c)"
| "size_loop B (Suc n) c =
     (let (r, c) = simple_cmd B SD_CMD16 (of_nat BSIZE) 0 c in if r = 0 then (True, c) else size_loop B n c)"

fun block_size_loop :: "'c spi_bus \<Rightarrow> nat \<Rightarrow> 'c sdcard \<Rightarrow> int \<times> 'c sdcard" where
  "block_size_loop B 0 sd = (0xff, sd)"
| "block_size_loop B (Suc n) sd =
     (let (r, ocr, c) = ocr_cmd B (bus sd); sd = sd\<lparr>bus := c\<rparr>
      in if r = 0 then
           if ocr 0 AND 0x40 \<noteq> 0 then
             if 512 \<noteq> BSIZE then (0xff, sd) else (0, sd\<lparr>is_standard_sd := 0\<rparr>)
           else
             let (ok, c) = size_loop B CMD_TRIES (bus sd); sd = sd\<lparr>bus := c\<rparr>
             in if \<not> ok then (0xff, sd) else (0, sd\<lparr>is_standard_sd := 1\<rparr>)
         else block_size_loop B n sd)"

definition check_block_size :: "'c spi_bus \<Rightarrow> 'c sdcard \<Rightarrow> int \<times> 'c sdcard" where
  "check_block_size B sd = block_size_loop B R1_TRIES sd"

text \<open>One step of the sequence: the next is only done when this one gives zero.\<close>

definition then_step :: "int \<times> 'c sdcard \<Rightarrow> ('c sdcard \<Rightarrow> int \<times> 'c sdcard) \<Rightarrow> int \<times> 'c sdcard" where
  "then_step r f = (if fst r \<noteq> 0 then (0xff, snd r) else f (snd r))"

definition on_bus :: "('c \<Rightarrow> int \<times> 'c) \<Rightarrow> 'c sdcard \<Rightarrow> int \<times> 'c sdcard" where
  "on_bus f sd = (let (r, c) = f (bus sd) in (r, sd\<lparr>bus := c\<rparr>))"

definition sd_init :: "'c spi_bus \<Rightarrow> 'c sdcard \<Rightarrow> int \<times> 'c sdcard" where
  "sd_init B sd =
     (let c = sd_write_data B (replicate 10 0xff) (SD_CS_LOW B (sd_lowlevel_init B (bus sd)));
          sd = sd\<lparr>bus := c\<rparr>
      in then_step (on_bus (switch_to_SPI_mode B) sd) (\<lambda>sd.
         then_step (on_bus (verify_operation_condition B) sd) (\<lambda>sd.
         then_step (on_bus (read_OCR B) sd) (\<lambda>sd.
         then_step (on_bus (set_SDXC_capacity B) sd) (\<lambda>sd.
         then_step (check_block_size B sd) (\<lambda>sd. (0, sd)))))))"

definition sdcard_init :: "'c spi_bus \<Rightarrow> 'c sdcard \<Rightarrow> 'c sdcard outcome" where
  "sdcard_init B sd = (let (r, sd) = sd_init B sd in if r \<noteq> 0 then Inl Panic else Inr sd)"

section \<open>Sectors\<close>

text \<open>The sector number is an \<open>int\<close>, and shifting a one bit into or past its sign is undefined.\<close>

definition sd_address :: "'c sdcard \<Rightarrow> u32 \<Rightarrow> u32 outcome" where
  "sd_address sd sectorno =
     (if is_standard_sd sd \<noteq> 0
      then guardO Undefined (0 \<le> sint sectorno \<and> sint sectorno * 512 < 2 ^ 31) (Inr (push_bit 9 sectorno))
      else Inr sectorno)"

definition sdcard_read_sector :: "'c spi_bus \<Rightarrow> u8 list \<Rightarrow> u32 \<Rightarrow> 'c sdcard \<Rightarrow> (u8 list \<times> 'c sdcard) outcome" where
  "sdcard_read_sector B buff sectorno sd =
     bindO (sd_address sd sectorno) (\<lambda>address.
     let (r, c) = sd_get_response_R1 B (sd_send_cmd B SD_CMD17 address 0 (bus sd)) in
     if r \<noteq> 0 then Inl Panic
     else
       let ((ok, r), c) = wait_token B (\<lambda>r. r = 0xfe) READ_TRIES c in
       if \<not> ok then Inl Panic
       else
         guardO Undefined (BSIZE \<le> length buff) (
         let (f, c) = sd_read_data B BSIZE c; (dummy_crc, c) = sd_read_data B 2 c
         in Inr (map f [0..<BSIZE] @ drop BSIZE buff, sd\<lparr>bus := sd_end_cmd B c\<rparr>)))"

definition sdcard_write_sector :: "'c spi_bus \<Rightarrow> u8 list \<Rightarrow> u32 \<Rightarrow> 'c sdcard \<Rightarrow> 'c sdcard outcome" where
  "sdcard_write_sector B buff sectorno sd =
     bindO (sd_address sd sectorno) (\<lambda>address.
     let (r, c) = sd_get_response_R1 B (sd_send_cmd B SD_CMD24 address 0 (bus sd)) in
     if r \<noteq> 0 then Inl Panic
     else
       let c = sd_write_data B [0xfe] c in
       guardO Undefined (BSIZE \<le> length buff) (
       let c = sd_write_data B (take BSIZE buff) c; c = sd_write_data B [0xff, 0xff] c;
           ((ok, r), c) = wait_token B (\<lambda>r. r AND 0x1f = 0x05) TOKEN_TRIES c in
       if \<not> ok then Inl Panic
       else
         let ((ok, r), c) = wait_token B (\<lambda>r. r \<noteq> 0) READ_TRIES c in
         if \<not> ok then Inl Panic
         else
           let c = sd_end_cmd B c;
               (r, c) = sd_get_response_R1 B (sd_send_cmd B SD_CMD13 0 0 c);
               (e, c) = sd_read_data B 1 c; c = sd_end_cmd B c
           in if r \<noteq> 0 \<or> e 0 \<noteq> 0 then Inl Panic else Inr (sd\<lparr>bus := c\<rparr>)))"

section \<open>The disk of the board\<close>

text \<open>The operations ignore the fields of the disk, and the number of the sector becomes an \<open>int\<close>.\<close>

definition k210_disk_hal_read :: "'c spi_bus \<Rightarrow> 'c sdcard read_func" where
  "k210_disk_hal_read B sector a buff sd =
     bindO (sdcard_read_sector B buff (ucast sector) sd) (\<lambda>(buff, sd). Inr (True, buff, sd))"

definition k210_disk_hal_write :: "'c spi_bus \<Rightarrow> 'c sdcard write_func" where
  "k210_disk_hal_write B sector a buff sd =
     bindO (sdcard_write_sector B buff (ucast sector) sd) (\<lambda>sd. Inr (True, sd))"

definition k210_disk_hal_destory :: "'c sdcard disk_hal \<Rightarrow> bool outcome" where
  "k210_disk_hal_destory disk = Inl Panic"

end
