(* ===== verification/Sdcard_Inv.thy ===== *)
theory Sdcard_Inv
  imports Sdcard
begin

text \<open>
  The driver of \<open>Sdcard\<close> with a card that answers: what the protocol of SD cards in SPI mode
  promises, and the proof that with such a card the disk of the K210 board is a \<open>block_device\<close>.
\<close>

section \<open>Cards\<close>

text \<open>
  The frame of a command: six bytes, the argument with its most significant byte first. In
  SPI mode the card ignores the last byte.
\<close>

definition card_frame :: "nat \<Rightarrow> nat \<Rightarrow> u8 \<Rightarrow> u8 list" where
  "card_frame cmd a crc = of_nat (64 + cmd) # map (\<lambda>i. of_nat (a div 256 ^ i mod 256)) [3, 2, 1, 0] @ [crc]"

definition sends :: "'c spi_bus \<Rightarrow> u8 list \<Rightarrow> 'c \<Rightarrow> 'c" where
  "sends B bs c = spi_send B bs (spi_init B c)"

text \<open>A command selects the card, and a byte behind it, without the card selected, ends it.\<close>

definition card_cmd :: "'c spi_bus \<Rightarrow> nat \<Rightarrow> nat \<Rightarrow> u8 \<Rightarrow> 'c \<Rightarrow> 'c" where
  "card_cmd B cmd a crc c = sends B (card_frame cmd a crc) (set_pin B False c)"

definition card_end :: "'c spi_bus \<Rightarrow> 'c \<Rightarrow> 'c" where
  "card_end B c = sends B [0xFF] (set_pin B True c)"

text \<open>Successive transfers from the card give the pieces \<open>xss\<close>.\<close>

fun gives :: "'c spi_bus \<Rightarrow> 'c \<Rightarrow> u8 list list \<Rightarrow> 'c \<Rightarrow> bool" where
  "gives B c [] c' \<longleftrightarrow> c' = c"
| "gives B c (xs # xss) c' \<longleftrightarrow>
     (let (f, d) = spi_receive B (length xs) (spi_init B c) in map f [0..<length xs] = xs \<and> gives B d xss c')"

text \<open>Fewer than \<open>n\<close> bytes that are no answer, and then the answer \<open>x\<close>.\<close>

definition answers :: "'c spi_bus \<Rightarrow> (u8 \<Rightarrow> bool) \<Rightarrow> nat \<Rightarrow> u8 \<Rightarrow> 'c \<Rightarrow> 'c \<Rightarrow> bool" where
  "answers B P n x c c' \<longleftrightarrow>
     (\<exists>ws. length ws < n \<and> (\<forall>w \<in> set ws. \<not> P w) \<and> P x \<and> gives B c (map (\<lambda>w. [w]) (ws @ [x])) c')"

abbreviation accepts :: "'c spi_bus \<Rightarrow> 'c \<Rightarrow> 'c \<Rightarrow> bool" where
  "accepts B c c' \<equiv> answers B (\<lambda>r. r \<noteq> 0xff) 255 0 c c'"

text \<open>
  \<open>READ_SINGLE_BLOCK\<close>: the card accepts the command, and sends the token \<open>0xfe\<close>, the block and two
  bytes of checksum.
\<close>

definition reads_sector :: "'c spi_bus \<Rightarrow> ('c \<Rightarrow> bool) \<Rightarrow> ('c \<Rightarrow> u64 \<Rightarrow> u8 list) \<Rightarrow> u64 \<Rightarrow> nat \<Rightarrow> 'c \<Rightarrow> bool" where
  "reads_sector B idle cont s a c \<longleftrightarrow>
     (\<forall>crc. \<exists>c1 c2 c3 chk. length chk = 2 \<and> accepts B (card_cmd B 17 a crc c) c1 \<and>
        answers B (\<lambda>r. r = 0xfe) 0xfffffe 0xfe c1 c2 \<and> gives B c2 [cont c s, chk] c3 \<and>
        idle (card_end B c3) \<and> cont (card_end B c3) = cont c)"

text \<open>
  \<open>WRITE_SINGLE_BLOCK\<close>: the card accepts the command, takes the token, the block and the checksum,
  answers that it has the block, is busy for a while, and reports no error to \<open>SEND_STATUS\<close>.
\<close>

definition writes_sector :: "'c spi_bus \<Rightarrow> ('c \<Rightarrow> bool) \<Rightarrow> ('c \<Rightarrow> u64 \<Rightarrow> u8 list) \<Rightarrow> u64 \<Rightarrow> nat \<Rightarrow> u8 list \<Rightarrow> 'c \<Rightarrow> bool" where
  "writes_sector B idle cont s a bs c \<longleftrightarrow>
     (\<forall>crc chk. length chk = 2 \<longrightarrow>
       (\<exists>c1 c2 c3 c4 c5 r e. accepts B (card_cmd B 24 a crc c) c1 \<and>
        answers B (\<lambda>r. r AND 0x1f = 0x05) 0xffe r (sends B chk (sends B bs (sends B [0xfe] c1))) c2 \<and>
        answers B (\<lambda>r. r \<noteq> 0) 0xfffffe e c2 c3 \<and>
        accepts B (card_cmd B 13 0 crc (card_end B c3)) c4 \<and> gives B c4 [[0]] c5 \<and>
        idle (card_end B c5) \<and> cont (card_end B c5) = (cont c)(s := bs)))"

text \<open>
  Standard cards are addressed by bytes, others by sectors. \<open>present\<close> are the sectors of the card; those of a
  standard card must have an address that fits an \<open>int\<close>.
\<close>

definition card_address :: "bool \<Rightarrow> u64 \<Rightarrow> nat" where
  "card_address std s = (if std then 512 * unat s else unat s)"

definition sd_card :: "'c spi_bus \<Rightarrow> ('c \<Rightarrow> bool) \<Rightarrow> ('c \<Rightarrow> u64 \<Rightarrow> u8 list) \<Rightarrow> (u64 \<Rightarrow> bool) \<Rightarrow> bool \<Rightarrow> bool" where
  "sd_card B idle cont present std \<longleftrightarrow>
     (\<forall>c s. idle c \<longrightarrow> length (cont c s) = 512 \<and>
       (present s \<longrightarrow> card_address std s < 2 ^ (if std then 31 else 32) \<and>
          reads_sector B idle cont s (card_address std s) c \<and>
          (\<forall>bs. length bs = 512 \<longrightarrow> writes_sector B idle cont s (card_address std s) bs c)))"

definition sd_ok :: "'c spi_bus \<Rightarrow> ('c \<Rightarrow> bool) \<Rightarrow> ('c \<Rightarrow> u64 \<Rightarrow> u8 list) \<Rightarrow> (u64 \<Rightarrow> bool) \<Rightarrow> 'c sdcard \<Rightarrow> bool" where
  "sd_ok B idle cont present sd \<longleftrightarrow> sd_card B idle cont present (is_standard_sd sd \<noteq> 0) \<and> idle (bus sd)"

section \<open>The driver and the protocol\<close>

lemma arg_byte: "ucast (drop_bit (8 * i) a) = (of_nat (unat a div 256 ^ i mod 256) :: u8)" for a :: u32
proof -
  have "unat (ucast (drop_bit (8 * i) a) :: u8) = unat a div 256 ^ i mod 256"
    by (simp add: unsigned_ucast_eq take_bit_eq_mod unat_drop_bit_div power_mult [of 2 8 i, simplified])
  then show ?thesis by (simp add: word_unat_eq_iff unsigned_of_nat take_bit_eq_mod)
qed

lemma send_frame:
  assumes "cmd OR 0x40 = of_nat (64 + n)"
  shows "sd_send_cmd B cmd a crc c = card_cmd B n (unat a) crc c"
  using arg_byte [of 3 a] arg_byte [of 2 a] arg_byte [of 1 a] arg_byte [of 0 a] assms
  by (simp add: sd_send_cmd_def card_cmd_def sends_def sd_write_data_def SD_CS_LOW_def card_frame_def)

lemma end_frame: "sd_end_cmd B c = card_end B c"
  by (simp add: sd_end_cmd_def card_end_def sends_def sd_write_data_def SD_CS_HIGH_def)

lemmas bus_simps = sd_write_data_def [folded sends_def] end_frame

lemma wait_token_answers:
  assumes "answers B P n x c c'"
  shows "wait_token B P n c = ((True, x), c')"
proof -
  obtain ws where "length ws < n" "\<forall>w \<in> set ws. \<not> P w" "P x" "gives B c (map (\<lambda>w. [w]) (ws @ [x])) c'"
    using assms by (auto simp: answers_def)
  then show ?thesis
  proof (induction ws arbitrary: n c)
    case Nil
    then show ?case by (cases n) (auto simp: sd_read_data_def Let_def split: prod.splits)
  next
    case (Cons w ws)
    then obtain m where n: "n = Suc m" by (cases n) auto
    then show ?case using Cons by (auto simp: sd_read_data_def Let_def split: prod.splits)
  qed
qed

lemma R1_accepts: "accepts B c c' \<Longrightarrow> sd_get_response_R1 B c = (0, c')"
  using wait_token_answers by (fastforce simp: sd_get_response_R1_def R1_TRIES_def)

lemma read_gives:
  "gives B c (xs # xss) c' \<Longrightarrow> length xs = n \<Longrightarrow> \<exists>f d. sd_read_data B n c = (f, d) \<and> map f [0..<n] = xs \<and> gives B d xss c'"
  by (cases "spi_receive B n (spi_init B c)") (auto simp: sd_read_data_def Let_def)

lemma sd_address_ok:
  assumes "card_address (is_standard_sd sd \<noteq> 0) s < 2 ^ (if is_standard_sd sd \<noteq> 0 then 31 else 32)"
  shows "\<exists>a. sd_address sd (ucast s) = Inr a \<and> unat a = card_address (is_standard_sd sd \<noteq> 0) s"
proof (cases "is_standard_sd sd = 0")
  case True
  then have "unat s < 2 ^ 32" using assms by (simp add: card_address_def)
  then show ?thesis using True by (simp add: sd_address_def card_address_def unsigned_ucast_eq take_bit_nat_eq_self)
next
  case False
  then have s: "unat s < 2 ^ 22" using assms by (simp add: card_address_def)
  then have u: "unat (ucast s :: u32) = unat s" by (simp add: unsigned_ucast_eq take_bit_nat_eq_self)
  have "uint (ucast s :: u32) = int (unat s)" using u by (simp only: uint_nat)
  then have "sint (ucast s :: u32) = signed_take_bit 31 (int (unat s))" by (simp only: sint_uint) simp
  moreover have "signed_take_bit 31 (int n) = int n" if "n < 2 ^ 22" for n
    using that by (simp add: signed_take_bit_int_eq_self)
  ultimately have i: "sint (ucast s :: u32) = int (unat s)" using s by metis
  have "unat (push_bit 9 (ucast s :: u32)) = 512 * unat s"
    using s by (simp add: push_bit_eq_mult unat_word_ariths u)
  moreover have "0 \<le> int n \<and> int n * 512 < 2 ^ 31" if "n < 2 ^ 22" for n using that by simp
  then have "0 \<le> sint (ucast s :: u32) \<and> sint (ucast s :: u32) * 512 < 2 ^ 31" using s unfolding i by blast
  then have "sd_address sd (ucast s) = Inr (push_bit 9 (ucast s))" using False by (simp only: sd_address_def guardO_def if_True simp_thms)
  ultimately show ?thesis using False by (simp add: card_address_def)
qed

section \<open>The card as a disk\<close>

lemma cmd_frames: "SD_CMD17 OR 0x40 = of_nat (64 + 17)" "SD_CMD24 OR 0x40 = of_nat (64 + 24)" "SD_CMD13 OR 0x40 = of_nat (64 + 13)"
  by (simp_all add: SD_CMD17_def SD_CMD24_def SD_CMD13_def)

lemmas send_frames = cmd_frames [THEN send_frame]

lemma sd_read_ok:
  assumes "sd_ok B idle cont present sd" "present s" "512 \<le> length b"
  shows "\<exists>sd'. k210_disk_hal_read B s a b sd = Inr (True, cont (bus sd) s @ drop 512 b, sd') \<and>
     sd_ok B idle cont present sd' \<and> cont (bus sd') = cont (bus sd)"
proof -
  have card: "sd_card B idle cont present (is_standard_sd sd \<noteq> 0)" "idle (bus sd)" using assms(1) by (auto simp: sd_ok_def)
  then obtain ad where ad: "sd_address sd (ucast s) = Inr ad" "unat ad = card_address (is_standard_sd sd \<noteq> 0) s"
    using sd_address_ok assms(2) unfolding sd_card_def by blast
  have len: "length (cont (bus sd) s) = 512" using card by (simp add: sd_card_def)
  obtain c1 c2 c3 chk where c: "length chk = 2" "accepts B (card_cmd B 17 (unat ad) 0 (bus sd)) c1"
      "answers B (\<lambda>r. r = 0xfe) 0xfffffe 0xfe c1 c2" "gives B c2 [cont (bus sd) s, chk] c3"
      "idle (card_end B c3)" "cont (card_end B c3) = cont (bus sd)"
    using card assms(2) unfolding sd_card_def reads_sector_def ad(2) by blast
  obtain f d where f: "sd_read_data B 512 c2 = (f, d)" "map f [0..<512] = cont (bus sd) s" "gives B d [chk] c3"
    using read_gives [OF c(4) len] by blast
  obtain g where g: "sd_read_data B 2 d = (g, c3)" using read_gives [OF f(3) c(1)] by auto
  have "k210_disk_hal_read B s a b sd = Inr (True, cont (bus sd) s @ drop 512 b, sd\<lparr>bus := card_end B c3\<rparr>)"
    using ad(1) R1_accepts [OF c(2)] wait_token_answers [OF c(3)] f(1,2) g assms(3)
    by (simp add: k210_disk_hal_read_def sdcard_read_sector_def send_frames end_frame READ_TRIES_def BSIZE_def)
  then show ?thesis using card(1) c(5,6) by (simp add: sd_ok_def)
qed

lemma sd_write_ok:
  assumes "sd_ok B idle cont present sd" "present s" "512 \<le> length b"
  shows "\<exists>sd'. k210_disk_hal_write B s a b sd = Inr (True, sd') \<and>
     sd_ok B idle cont present sd' \<and> cont (bus sd') = (cont (bus sd))(s := take 512 b)"
proof -
  have card: "sd_card B idle cont present (is_standard_sd sd \<noteq> 0)" "idle (bus sd)" using assms(1) by (auto simp: sd_ok_def)
  then obtain ad where ad: "sd_address sd (ucast s) = Inr ad" "unat ad = card_address (is_standard_sd sd \<noteq> 0) s"
    using sd_address_ok assms(2) unfolding sd_card_def by blast
  have len: "length (take 512 b) = 512" "length [0xff, 0xff :: u8] = 2" using assms(3) by simp_all
  have w: "writes_sector B idle cont s (unat ad) (take 512 b) (bus sd)"
    using card assms(2) len(1) unfolding sd_card_def ad(2) by blast
  obtain c1 c2 c3 c4 c5 r e where c: "accepts B (card_cmd B 24 (unat ad) 0 (bus sd)) c1"
      "answers B (\<lambda>r. r AND 0x1f = 0x05) 0xffe r (sends B [0xff, 0xff] (sends B (take 512 b) (sends B [0xfe] c1))) c2"
      "answers B (\<lambda>r. r \<noteq> 0) 0xfffffe e c2 c3" "accepts B (card_cmd B 13 0 0 (card_end B c3)) c4" "gives B c4 [[0]] c5"
      "idle (card_end B c5)" "cont (card_end B c5) = (cont (bus sd))(s := take 512 b)"
    using w [unfolded writes_sector_def, rule_format, OF len(2), of 0] by blast
  obtain f where f: "sd_read_data B 1 c4 = (f, c5)" "f 0 = 0" using read_gives [OF c(5), of 1] by auto
  have z: "sd_send_cmd B SD_CMD13 0 0 d = card_cmd B 13 0 0 d" for d using send_frames(3) [of B 0 0] by simp
  have "k210_disk_hal_write B s a b sd = Inr (True, sd\<lparr>bus := card_end B c5\<rparr>)"
    using ad(1) R1_accepts [OF c(1)] wait_token_answers [OF c(2)] wait_token_answers [OF c(3)] R1_accepts [OF c(4)] f assms(3)
    by (simp add: k210_disk_hal_write_def sdcard_write_sector_def send_frames(2) z bus_simps READ_TRIES_def TOKEN_TRIES_def BSIZE_def)
  then show ?thesis using card(1) c(6,7) by (simp add: sd_ok_def)
qed

interpretation sdblk: block_device "k210_disk_hal_read B" "k210_disk_hal_write B" "\<lambda>sd. cont (bus sd)" present "sd_ok B idle cont present"
  for B cont idle present
proof
  show "length (cont (bus sd) s) = 512" if "sd_ok B idle cont present sd" for sd s
    using that by (simp add: sd_ok_def sd_card_def)
qed (use sd_read_ok sd_write_ok in blast)+

text \<open>C19. With an SD card that follows the protocol, and that is addressed as the driver found out, a sector written through the disk of
  the K210 board is read back, even after another sector was written in between; the card has
  both sectors as they were written and is ready for the next request.\<close>

theorem sdcard_write_read:
  assumes "sd_ok B idle cont present sd" "present s" "present s'" "s \<noteq> s'"
    and "512 \<le> length b" "512 \<le> length b'" "512 \<le> length c"
  shows "\<exists>sd1 sd2 sd3. k210_disk_hal_write B s a b sd = Inr (True, sd1) \<and>
     k210_disk_hal_write B s' a' b' sd1 = Inr (True, sd2) \<and>
     k210_disk_hal_read B s a'' c sd2 = Inr (True, take 512 b @ drop 512 c, sd3) \<and>
     sd_ok B idle cont present sd3 \<and> cont (bus sd3) = (cont (bus sd))(s := take 512 b, s' := take 512 b')"
  by (rule sdblk.write_write_read [OF assms])

section \<open>Without a card\<close>

text \<open>A bus on which nothing answers gives ones.\<close>

definition silent :: "'c spi_bus \<Rightarrow> bool" where
  "silent B \<longleftrightarrow> (\<forall>n c i. fst (spi_receive B n c) i = 0xff)"

lemma silent_wait:
  assumes "silent B" "\<not> P 0xff"
  shows "fst (wait_token B P n c) = (False, 0xff)"
  using assms by (induction n arbitrary: c) (auto simp: silent_def sd_read_data_def split: prod.split, metis fst_conv)

lemma silent_R1:
  assumes "silent B"
  shows "\<exists>c'. sd_get_response_R1 B c = (0xff, c')"
  using silent_wait [OF assms, of "\<lambda>r. r \<noteq> 0xff" R1_TRIES c]
  by (cases "wait_token B (\<lambda>r. r \<noteq> 0xff) R1_TRIES c") (simp add: sd_get_response_R1_def)

lemma silent_mode: "silent B \<Longrightarrow> \<exists>c'. spi_mode_loop B n c = (0xff, c')"
proof (induction n arbitrary: c)
  case (Suc n)
  obtain c' where "simple_cmd B SD_CMD0 0 0x95 c = (0xff, c')"
    using silent_R1 [OF Suc.prems, of "sd_send_cmd B SD_CMD0 0 0x95 c"] by (auto simp: simple_cmd_def)
  then show ?case using Suc by simp
qed simp

text \<open>C25. Without a card nothing hangs and nothing is read: the initialisation gives up and panics, and should
  the card be taken out later, every read and every write panics, whichever way the card was addressed. The
  one exception is the shift of the sector number that comes first for a card addressed by bytes: it is undefined
  for a sector whose byte address does not fit an \<open>int\<close>.\<close>

theorem sdcard_missing_panics:
  assumes "silent B"
  shows "sdcard_init B sd = Inl Panic \<and>
     (let r = (if is_standard_sd sd = 0 \<or> 0 \<le> sint (ucast s :: u32) \<and> sint (ucast s :: u32) * 512 < 2 ^ 31
               then Panic else Undefined)
      in k210_disk_hal_read B s a b sd = Inl r \<and> k210_disk_hal_write B s a b sd = Inl r)"
proof -
  let ?sd = "sd\<lparr>bus := sd_write_data B (replicate 10 0xff) (SD_CS_LOW B (sd_lowlevel_init B (bus sd)))\<rparr>"
  obtain c' where "spi_mode_loop B CMD_TRIES (bus ?sd) = (0xff, c')" using silent_mode [OF assms] by blast
  then have i: "sdcard_init B sd = Inl Panic"
    by (simp add: sdcard_init_def sd_init_def then_step_def on_bus_def switch_to_SPI_mode_def)
  have "k210_disk_hal_read B s a b sd = Inl Panic \<and> k210_disk_hal_write B s a b sd = Inl Panic"
    if "sd_address sd (ucast s) = Inr ad" for ad
  proof -
    obtain c1 c2 where "sd_get_response_R1 B (sd_send_cmd B SD_CMD17 ad 0 (bus sd)) = (0xff, c1)"
        "sd_get_response_R1 B (sd_send_cmd B SD_CMD24 ad 0 (bus sd)) = (0xff, c2)"
      using silent_R1 [OF assms] by blast
    then show ?thesis
      using that by (simp add: k210_disk_hal_read_def k210_disk_hal_write_def sdcard_read_sector_def sdcard_write_sector_def)
  qed
  note card = this
  have un: "k210_disk_hal_read B s a b sd = Inl Undefined \<and> k210_disk_hal_write B s a b sd = Inl Undefined"
    if "sd_address sd (ucast s) = Inl Undefined"
    using that by (simp add: k210_disk_hal_read_def k210_disk_hal_write_def sdcard_read_sector_def sdcard_write_sector_def)
  let ?fits = "is_standard_sd sd = 0 \<or> 0 \<le> sint (ucast s :: u32) \<and> sint (ucast s :: u32) * 512 < 2 ^ 31"
  show ?thesis
  proof (cases ?fits)
    case True
    then have "\<exists>ad. sd_address sd (ucast s) = Inr ad" by (auto simp: sd_address_def guardO_def)
    then show ?thesis using i True card unfolding Let_def by (auto simp only: if_True)
  next
    case False
    then have "sd_address sd (ucast s) = Inl Undefined" by (simp add: sd_address_def guardO_def)
    then show ?thesis using i False un unfolding Let_def by (simp only: if_False)
  qed
qed

section \<open>Initialisation\<close>

text \<open>
  The start-up of a card in SPI mode as the SD specification describes it. \<open>responds r\<close>: within 255 bytes the card
  answers \<open>r\<close>, where \<open>0xff\<close> stands for no answer; \<open>replies\<close> and \<open>replies_more\<close> are a whole command,
  with four more bytes in the second case; \<open>retry n\<close>: fewer than \<open>n\<close> attempts of one kind, and then one of the other.
\<close>

definition responds :: "'c spi_bus \<Rightarrow> u8 \<Rightarrow> 'c \<Rightarrow> 'c \<Rightarrow> bool" where
  "responds B r c c' \<longleftrightarrow> answers B (\<lambda>r. r \<noteq> 0xff) 255 r c c' \<or> r = 0xff \<and> gives B c (replicate 255 [0xff]) c'"

definition replies :: "'c spi_bus \<Rightarrow> nat \<Rightarrow> nat \<Rightarrow> u8 \<Rightarrow> u8 \<Rightarrow> 'c \<Rightarrow> 'c \<Rightarrow> bool" where
  "replies B cmd arg crc r c c' \<longleftrightarrow> (\<exists>d. responds B r (card_cmd B cmd arg crc c) d \<and> c' = card_end B d)"

definition replies_more :: "'c spi_bus \<Rightarrow> nat \<Rightarrow> nat \<Rightarrow> u8 \<Rightarrow> u8 \<Rightarrow> u8 list \<Rightarrow> 'c \<Rightarrow> 'c \<Rightarrow> bool" where
  "replies_more B cmd arg crc r bs c c' \<longleftrightarrow>
     (\<exists>d e. responds B r (card_cmd B cmd arg crc c) d \<and> length bs = 4 \<and> gives B d [bs] e \<and> c' = card_end B e)"

definition retry :: "nat \<Rightarrow> ('c \<Rightarrow> 'c \<Rightarrow> bool) \<Rightarrow> ('c \<Rightarrow> 'c \<Rightarrow> bool) \<Rightarrow> 'c \<Rightarrow> 'c \<Rightarrow> bool" where
  "retry n bad good c c' \<longleftrightarrow> (\<exists>i < n. \<exists>d. (bad ^^ i) c d \<and> good d c')"

text \<open>
  \<open>GO_IDLE_STATE\<close>, until the card is in its idle state.
\<close>

definition goes_idle :: "'c spi_bus \<Rightarrow> 'c \<Rightarrow> 'c \<Rightarrow> bool" where
  "goes_idle B = retry 254 (\<lambda>c d. \<exists>r. r \<noteq> 1 \<and> replies B 0 0 0x95 r c d) (replies B 0 0 0x95 1)"

text \<open>\<open>SEND_IF_COND\<close>: the card is of version 2, takes the voltage and echoes the pattern.\<close>

definition takes_voltage :: "'c spi_bus \<Rightarrow> 'c \<Rightarrow> 'c \<Rightarrow> bool" where
  "takes_voltage B c c' \<longleftrightarrow> (\<exists>bs. replies_more B 8 0x1aa 0x87 1 bs c c' \<and> bs ! 2 AND 0x0f = 0x01 \<and> bs ! 3 = 0xaa)"

text \<open>\<open>READ_OCR\<close> in the idle state: some voltage of the range is supported.\<close>

definition volts :: "u8 \<Rightarrow> u8 list \<Rightarrow> bool" where
  "volts r ocr \<longleftrightarrow> r = 1 \<and> ocr ! 1 AND 0x1f \<noteq> 0 \<and> ocr ! 2 AND 0x80 \<noteq> 0"

definition tells_voltage :: "'c spi_bus \<Rightarrow> 'c \<Rightarrow> 'c \<Rightarrow> bool" where
  "tells_voltage B = retry 254 (\<lambda>c d. \<exists>r ocr. \<not> volts r ocr \<and> replies_more B 58 0 0 r ocr c d)
     (\<lambda>c d. \<exists>r ocr. volts r ocr \<and> replies_more B 58 0 0 r ocr c d)"

text \<open>\<open>APP_CMD\<close> and \<open>SD_SEND_OP_COND\<close> for a host with high capacity, until the card is ready.\<close>

definition op_cond :: "'c spi_bus \<Rightarrow> u8 \<Rightarrow> 'c \<Rightarrow> 'c \<Rightarrow> bool" where
  "op_cond B r c c' \<longleftrightarrow> (\<exists>d. replies B 55 0 0 1 c d \<and> replies B 41 0x40000000 0 r d c')"

definition gets_ready :: "'c spi_bus \<Rightarrow> 'c \<Rightarrow> 'c \<Rightarrow> bool" where
  "gets_ready B = retry 0xffe (\<lambda>c d. \<exists>r. r \<noteq> 0 \<and> op_cond B r c d) (op_cond B 0)"

text \<open>
  \<open>READ_OCR\<close> of the ready card, whose bit 30 is the capacity status \<open>ccs\<close>: set for the cards that are addressed by
  blocks. The other cards are told the length of a block with \<open>SET_BLOCKLEN\<close>.
\<close>

definition tells_capacity :: "'c spi_bus \<Rightarrow> bool \<Rightarrow> 'c \<Rightarrow> 'c \<Rightarrow> bool" where
  "tells_capacity B ccs = retry 255 (\<lambda>c d. \<exists>r ocr. r \<noteq> 0 \<and> replies_more B 58 0 0 r ocr c d)
     (\<lambda>c c'. \<exists>ocr d. replies_more B 58 0 0 0 ocr c d \<and> ccs = (ocr ! 0 AND 0x40 \<noteq> 0) \<and>
        (if ccs then c' = d
         else retry 254 (\<lambda>c d. \<exists>r. r \<noteq> 0 \<and> replies B 16 512 0 r c d) (replies B 16 512 0 0) d c'))"

definition starts_up :: "'c spi_bus \<Rightarrow> bool \<Rightarrow> 'c \<Rightarrow> 'c \<Rightarrow> bool" where
  "starts_up B ccs = goes_idle B OO takes_voltage B OO tells_voltage B OO gets_ready B OO tells_capacity B ccs"

text \<open>The clock with which the driver wakes the card.\<close>

definition wake_up :: "'c spi_bus \<Rightarrow> 'c \<Rightarrow> 'c" where
  "wake_up B c = sends B (replicate 10 0xff) (set_pin B False (set_drive_mode B c))"

lemma retry_0 [simp]: "\<not> retry 0 bad good c c'"
  by (simp add: retry_def)

lemma retry_Suc: "retry (Suc n) bad good c c' \<longleftrightarrow> good c c' \<or> (\<exists>d. bad c d \<and> retry n bad good d c')"
proof
  assume "retry (Suc n) bad good c c'"
  then obtain i d where i: "i < Suc n" "(bad ^^ i) c d" "good d c'" by (auto simp: retry_def)
  show "good c c' \<or> (\<exists>d. bad c d \<and> retry n bad good d c')"
  proof (cases i)
    case (Suc j)
    then show ?thesis using i relpowp_Suc_D2 [of j bad c d] unfolding retry_def by auto
  qed (use i in simp)
next
  assume "good c c' \<or> (\<exists>d. bad c d \<and> retry n bad good d c')"
  then show "retry (Suc n) bad good c c'"
  proof
    assume "\<exists>d. bad c d \<and> retry n bad good d c'"
    then obtain d i e where "bad c d" "i < n" "(bad ^^ i) d e" "good e c'" by (auto simp: retry_def)
    then show ?thesis using relpowp_Suc_I2 [of bad c d i e] unfolding retry_def by (intro exI [of _ "Suc i"]) auto
  qed (use relpowp_0_I in \<open>auto simp: retry_def\<close>)
qed

text \<open>A loop with a counter, whose iterations end it, go on, or fail.\<close>

lemma retry_loop:
  assumes "\<And>c c'. f 0 c \<noteq> res c'"
    and "\<And>n c c'. f (Suc n) c = res c' \<longleftrightarrow> good c c' \<or> (\<exists>d. bad c d \<and> f n d = res c')"
  shows "f n c = res c' \<longleftrightarrow> retry n bad good c c'"
  by (induction n arbitrary: c) (simp_all add: assms retry_Suc)

lemma wait_token_none:
  "wait_token B (\<lambda>r. r \<noteq> 0xff) n c = ((False, x), c') \<longleftrightarrow> x = 0xff \<and> gives B c (replicate n [0xff]) c'"
  by (induction n arbitrary: c) (auto simp: sd_read_data_def Let_def split: prod.splits)

lemma wait_token_some:
  "wait_token B P n c = ((True, x), c') \<longleftrightarrow> answers B P n x c c'"
proof
  show "wait_token B P n c = ((True, x), c') \<Longrightarrow> answers B P n x c c'"
  proof (induction n arbitrary: c)
    case (Suc n)
    obtain f d where f: "spi_receive B 1 (spi_init B c) = (f, d)" by (cases "spi_receive B 1 (spi_init B c)")
    show ?case
    proof (cases "P (f 0)")
      case True
      then show ?thesis using Suc.prems f
        by (auto simp: sd_read_data_def answers_def intro!: exI [of _ "[]"])
    next
      case False
      then have "answers B P n x d c'" using Suc f by (simp add: sd_read_data_def)
      then obtain ws where "length ws < n" "\<forall>w \<in> set ws. \<not> P w" "P x" "gives B d (map (\<lambda>w. [w]) (ws @ [x])) c'"
        by (auto simp: answers_def)
      then show ?thesis using f False unfolding answers_def by (intro exI [of _ "f 0 # ws"]) auto
    qed
  qed simp
qed (rule wait_token_answers)

lemma R1_responds: "sd_get_response_R1 B c = (r, c') \<longleftrightarrow> responds B r c c'"
proof -
  obtain ok x d where w: "wait_token B (\<lambda>r. r \<noteq> 0xff) 255 c = ((ok, x), d)" by (metis surj_pair)
  have "r \<noteq> 0xff" if "answers B (\<lambda>r. r \<noteq> 0xff) 255 r c c'" using that unfolding answers_def by blast
  then show ?thesis
    using w wait_token_none [of B 255 c x d] wait_token_none [of B 255 c r c'] wait_token_some [of B "\<lambda>r. r \<noteq> 0xff" 255 c r c']
    by (cases ok) (auto simp: responds_def sd_get_response_R1_def R1_TRIES_def)
qed

lemma simple_replies:
  assumes "cmd OR 0x40 = of_nat (64 + n)"
  shows "simple_cmd B cmd a crc c = (r, c') \<longleftrightarrow> replies B n (unat a) crc r c c'"
  by (cases "sd_get_response_R1 B (card_cmd B n (unat a) crc c)")
    (auto simp: simple_cmd_def send_frame [OF assms] end_frame replies_def simp flip: R1_responds)

lemma read_four: "sd_read_data B 4 c = (f, c') \<Longrightarrow> gives B c [map f [0..<4]] c'"
  by (simp add: sd_read_data_def)

lemma gives_four: "gives B c [bs] c' \<Longrightarrow> length bs = 4 \<Longrightarrow> \<exists>f. sd_read_data B 4 c = (f, c') \<and> map f [0..<4] = bs"
  using read_gives [of B c bs "[]" c' 4] by auto

lemma four_nth: "map f [0..<4] ! i = f i" if "i < 4" for f :: "nat \<Rightarrow> u8"
  using that by simp

lemma start_frames: "SD_CMD0 OR 0x40 = of_nat (64 + 0)" "SD_CMD8 OR 0x40 = of_nat (64 + 8)" "SD_CMD58 OR 0x40 = of_nat (64 + 58)"
  "SD_CMD55 OR 0x40 = of_nat (64 + 55)" "SD_ACMD41 OR 0x40 = of_nat (64 + 41)" "SD_CMD16 OR 0x40 = of_nat (64 + 16)"
  by (simp_all add: SD_CMD0_def SD_CMD8_def SD_CMD58_def SD_CMD55_def SD_ACMD41_def SD_CMD16_def)

lemma ocr_replies:
  "(\<exists>ocr. ocr_cmd B c = (r, ocr, c') \<and> map ocr [0..<4] = bs) \<longleftrightarrow> replies_more B 58 0 0 r bs c c'"
proof
  assume "\<exists>ocr. ocr_cmd B c = (r, ocr, c') \<and> map ocr [0..<4] = bs"
  then obtain ocr where o: "ocr_cmd B c = (r, ocr, c')" "map ocr [0..<4] = bs" by blast
  obtain x d where R: "sd_get_response_R1 B (card_cmd B 58 0 0 c) = (x, d)" by (metis surj_pair)
  obtain f e where f: "sd_read_data B 4 d = (f, e)" by (metis surj_pair)
  have "x = r" "f = ocr" "c' = card_end B e"
    using o(1) R f by (simp_all add: ocr_cmd_def send_frame [OF start_frames(3)] end_frame sd_get_response_R3_rest_def)
  then show "replies_more B 58 0 0 r bs c c'"
    using read_four [OF f] R o(2) unfolding replies_more_def R1_responds by auto
next
  assume "replies_more B 58 0 0 r bs c c'"
  then obtain d e where "responds B r (card_cmd B 58 0 0 c) d" "length bs = 4" "gives B d [bs] e" "c' = card_end B e"
    by (auto simp: replies_more_def)
  then show "\<exists>ocr. ocr_cmd B c = (r, ocr, c') \<and> map ocr [0..<4] = bs"
    using gives_four [of B d bs e] R1_responds [of B "card_cmd B 58 0 0 c" r d]
    by (auto simp: ocr_cmd_def send_frame [OF start_frames(3)] end_frame sd_get_response_R3_rest_def)
qed

lemma start_replies:
  "simple_cmd B SD_CMD0 0 0x95 c = (r, c') \<longleftrightarrow> replies B 0 0 0x95 r c c'"
  "simple_cmd B SD_CMD55 0 0 c = (r, c') \<longleftrightarrow> replies B 55 0 0 r c c'"
  "simple_cmd B SD_ACMD41 0x40000000 0 c = (r, c') \<longleftrightarrow> replies B 41 0x40000000 0 r c c'"
  "simple_cmd B SD_CMD16 (of_nat BSIZE) 0 c = (r, c') \<longleftrightarrow> replies B 16 512 0 r c c'"
  by (simp_all add: start_frames [THEN simple_replies] BSIZE_def)

lemma spi_mode_loop_ok: "spi_mode_loop B 254 c = (0, c') \<longleftrightarrow> goes_idle B c c'"
  unfolding goes_idle_def
proof (rule retry_loop [where res = "\<lambda>c'. (0, c')"])
  fix n c c'
  obtain r d where "simple_cmd B SD_CMD0 0 0x95 c = (r, d)" by (metis surj_pair)
  then show "spi_mode_loop B (Suc n) c = (0, c') \<longleftrightarrow> replies B 0 0 0x95 1 c c' \<or>
      (\<exists>d. (\<exists>r. r \<noteq> 1 \<and> replies B 0 0 0x95 r c d) \<and> spi_mode_loop B n d = (0, c'))"
    by (auto simp flip: start_replies)
qed simp

lemma verify_ok: "verify_operation_condition B c = (0, c') \<longleftrightarrow> takes_voltage B c c'"
proof -
  obtain x d where R: "sd_get_response_R1 B (card_cmd B 8 0x1aa 0x87 c) = (x, d)" by (metis surj_pair)
  obtain f e where f: "sd_read_data B 4 d = (f, e)" by (metis surj_pair)
  have "verify_operation_condition B c = (0, c') \<longleftrightarrow> x = 1 \<and> f 2 AND 0x0f = 1 \<and> f 3 = 0xaa \<and> c' = card_end B e"
    using R f send_frame [OF start_frames(2), of B "0x1aa" "0x87" c]
    by (auto simp: verify_operation_condition_def sd_get_response_R7_rest_def end_frame Let_def split: if_splits)
  moreover have "replies_more B 8 0x1aa 0x87 1 bs c c' \<longleftrightarrow> x = 1 \<and> bs = map f [0..<4] \<and> c' = card_end B e" for bs
  proof -
    have "gives B d [bs] e' \<longleftrightarrow> bs = map f [0..<4] \<and> e' = e" if "length bs = 4" for e'
      using f read_four [OF f] gives_four [of B d bs e'] that by (auto simp del: gives.simps)
    then show ?thesis using R unfolding replies_more_def R1_responds [symmetric] by (auto simp del: gives.simps)
  qed
  ultimately show ?thesis by (auto simp: takes_voltage_def numeral_2_eq_2)
qed

lemma ocr_loop_ok: "ocr_loop B 254 c = (0, c') \<longleftrightarrow> tells_voltage B c c'"
  unfolding tells_voltage_def
proof (rule retry_loop [where res = "\<lambda>c'. (0, c')"])
  fix n c c'
  obtain r ocr d where "ocr_cmd B c = (r, ocr, d)" by (metis surj_pair)
  then show "ocr_loop B (Suc n) c = (0, c') \<longleftrightarrow> (\<exists>r ocr. volts r ocr \<and> replies_more B 58 0 0 r ocr c c') \<or>
      (\<exists>d. (\<exists>r ocr. \<not> volts r ocr \<and> replies_more B 58 0 0 r ocr c d) \<and> ocr_loop B n d = (0, c'))"
    by (auto simp: volts_def numeral_2_eq_2 simp flip: ocr_replies)
qed simp

lemma capacity_loop_ok: "capacity_loop B 0xffe c = (0, c') \<longleftrightarrow> gets_ready B c c'"
  unfolding gets_ready_def
proof (rule retry_loop [where res = "\<lambda>c'. (0, c')"])
  fix n c c'
  obtain r d where r: "simple_cmd B SD_CMD55 0 0 c = (r, d)" by (metis surj_pair)
  obtain q e where q: "simple_cmd B SD_ACMD41 0x40000000 0 d = (q, e)" by (metis surj_pair)
  have o: "op_cond B x c c' \<longleftrightarrow> r = 1 \<and> x = q \<and> c' = e" for x c'
    using r q by (auto simp: op_cond_def simp flip: start_replies)
  show "capacity_loop B (Suc n) c = (0, c') \<longleftrightarrow> op_cond B 0 c c' \<or>
      (\<exists>d. (\<exists>r. r \<noteq> 0 \<and> op_cond B r c d) \<and> capacity_loop B n d = (0, c'))"
    using r q by (auto simp: o)
qed simp

lemma size_loop_ok:
  "size_loop B n c = (True, c') \<longleftrightarrow> retry n (\<lambda>c d. \<exists>r. r \<noteq> 0 \<and> replies B 16 512 0 r c d) (replies B 16 512 0 0) c c'"
proof (rule retry_loop [where res = "\<lambda>c'. (True, c')"])
  fix n c c'
  obtain r d where "simple_cmd B SD_CMD16 (of_nat BSIZE) 0 c = (r, d)" by (metis surj_pair)
  then show "size_loop B (Suc n) c = (True, c') \<longleftrightarrow> replies B 16 512 0 0 c c' \<or>
      (\<exists>d. (\<exists>r. r \<noteq> 0 \<and> replies B 16 512 0 r c d) \<and> size_loop B n d = (True, c'))"
    by (auto simp flip: start_replies)
qed simp

definition told :: "'c sdcard \<Rightarrow> bool \<Rightarrow> 'c \<Rightarrow> 'c sdcard" where
  "told sd ccs c = sd\<lparr>bus := c, is_standard_sd := (if ccs then 0 else 1)\<rparr>"

lemma block_size_ok:
  "block_size_loop B 255 sd = (0, sd') \<longleftrightarrow> (\<exists>ccs c'. tells_capacity B ccs (bus sd) c' \<and> sd' = told sd ccs c')"
proof -
  let ?bad = "\<lambda>c d. \<exists>r ocr. r \<noteq> 0 \<and> replies_more B 58 0 0 r ocr c d"
  let ?good = "\<lambda>ccs c c'. \<exists>ocr d. replies_more B 58 0 0 0 ocr c d \<and> ccs = (ocr ! 0 AND 0x40 \<noteq> 0) \<and>
        (if ccs then c' = d
         else retry 254 (\<lambda>c d. \<exists>r. r \<noteq> 0 \<and> replies B 16 512 0 r c d) (replies B 16 512 0 0) d c')"
  have "block_size_loop B n sd = (0, sd') \<longleftrightarrow> (\<exists>ccs c'. retry n ?bad (?good ccs) (bus sd) c' \<and> sd' = told sd ccs c')" for n sd
  proof (induction n arbitrary: sd)
    case (Suc n)
    obtain r ocr d where o: "ocr_cmd B (bus sd) = (r, ocr, d)" by (metis surj_pair)
    obtain ok e where z: "size_loop B 254 d = (ok, e)" by (metis surj_pair)
    have good: "?good ccs (bus sd) c' \<longleftrightarrow> r = 0 \<and> ccs = (ocr 0 AND 0x40 \<noteq> 0) \<and> (if ccs then c' = d else ok \<and> c' = e)" for ccs c'
      using o z by (auto simp flip: ocr_replies size_loop_ok)
    have bad: "?bad (bus sd) c' \<longleftrightarrow> r \<noteq> 0 \<and> c' = d" for c'
      using o by (auto simp flip: ocr_replies)
    have R: "retry (Suc n) ?bad (?good ccs) (bus sd) c' \<longleftrightarrow>
        r = 0 \<and> ccs = (ocr 0 AND 0x40 \<noteq> 0) \<and> (if ccs then c' = d else ok \<and> c' = e) \<or>
        r \<noteq> 0 \<and> retry n ?bad (?good ccs) d c'" for ccs c'
      unfolding retry_Suc good bad by blast
    show ?case
    proof (cases "r = 0")
      case True
      then show ?thesis using o z unfolding R
        by (cases "ocr 0 AND 0x40 = 0"; cases ok) (auto simp: told_def CMD_TRIES_def BSIZE_def)
    next
      case False
      have t: "told (sd\<lparr>bus := d\<rparr>) ccs c' = told sd ccs c'" for ccs c' by (simp add: told_def)
      have "block_size_loop B (Suc n) sd = block_size_loop B n (sd\<lparr>bus := d\<rparr>)" using o False by simp
      then show ?thesis using Suc [of "sd\<lparr>bus := d\<rparr>"] False unfolding R t by simp
    qed
  qed simp
  then show ?thesis by (simp add: tells_capacity_def)
qed

lemma sd_init_ok:
  "sd_init B sd = (0, sd') \<longleftrightarrow> (\<exists>ccs c'. starts_up B ccs (wake_up B (bus sd)) c' \<and> sd' = told sd ccs c')"
proof -
  let ?c0 = "wake_up B (bus sd)"
  have w: "sd_write_data B (replicate 10 0xff) (SD_CS_LOW B (sd_lowlevel_init B (bus sd))) = ?c0"
    by (simp add: wake_up_def bus_simps SD_CS_LOW_def sd_lowlevel_init_def)
  have step: "then_step (on_bus f sd) g = (0, sd') \<longleftrightarrow> (\<exists>c. f (bus sd) = (0, c) \<and> g (sd\<lparr>bus := c\<rparr>) = (0, sd'))"
    for f g and sd :: "'a sdcard"
    by (cases "f (bus sd)") (auto simp: then_step_def on_bus_def)
  have last: "then_step (check_block_size B sd) (\<lambda>sd. (0, sd)) = (0, sd') \<longleftrightarrow> block_size_loop B 255 sd = (0, sd')" for sd
    by (cases "block_size_loop B 255 sd") (auto simp: then_step_def check_block_size_def R1_TRIES_def)
  have "sd_init B sd = (0, sd') \<longleftrightarrow> (\<exists>c1. goes_idle B ?c0 c1 \<and> (\<exists>c2. takes_voltage B c1 c2 \<and>
      (\<exists>c3. tells_voltage B c2 c3 \<and> (\<exists>c4. gets_ready B c3 c4 \<and> (\<exists>ccs c'. tells_capacity B ccs c4 c' \<and> sd' = told sd ccs c')))))"
    by (simp add: sd_init_def w step last switch_to_SPI_mode_def read_OCR_def set_SDXC_capacity_def CMD_TRIES_def ACMD_TRIES_def
        spi_mode_loop_ok verify_ok ocr_loop_ok capacity_loop_ok block_size_ok) (simp add: told_def)
  then show ?thesis unfolding starts_up_def OO_def by blast
qed

text \<open>C26. The initialisation succeeds with exactly those cards that go through the start-up of the SD specification within
  the driver's number of attempts, \<open>goes_idle\<close> to \<open>tells_capacity\<close>; then the card is where the start-up left it, and
  the driver addresses it as it told, by sectors when its capacity bit is set and by bytes when not, so a
  card that keeps to the protocol of that addressing is ready for reads and writes. With any other card it panics.\<close>

theorem sdcard_init_starts:
  "(\<forall>sd'. sdcard_init B sd = Inr sd' \<longleftrightarrow>
      (\<exists>ccs c'. starts_up B ccs (wake_up B (bus sd)) c' \<and> sd' = sd\<lparr>bus := c', is_standard_sd := (if ccs then 0 else 1)\<rparr>)) \<and>
   (\<forall>ccs c'. starts_up B ccs (wake_up B (bus sd)) c' \<and> sd_card B idle cont present (\<not> ccs) \<and> idle c' \<longrightarrow>
      (\<exists>sd'. sdcard_init B sd = Inr sd' \<and> sd_ok B idle cont present sd' \<and> bus sd' = c')) \<and>
   ((\<nexists>ccs c'. starts_up B ccs (wake_up B (bus sd)) c') \<longrightarrow> sdcard_init B sd = Inl Panic)"
proof -
  obtain r sd1 where r: "sd_init B sd = (r, sd1)" by (metis surj_pair)
  have res: "sdcard_init B sd = Inr sd' \<longleftrightarrow> (\<exists>ccs c'. starts_up B ccs (wake_up B (bus sd)) c' \<and> sd' = told sd ccs c')" for sd'
    using r sd_init_ok [of B sd sd'] by (auto simp: sdcard_init_def)
  have "sdcard_init B sd = Inl Panic" if "\<nexists>ccs c'. starts_up B ccs (wake_up B (bus sd)) c'"
    using r sd_init_ok [of B sd sd1] that by (auto simp: sdcard_init_def)
  moreover have "sd_ok B idle cont present (told sd ccs c') \<and> bus (told sd ccs c') = c'"
    if "sd_card B idle cont present (\<not> ccs)" "idle c'" for ccs c'
    using that by (cases ccs) (simp_all add: sd_ok_def told_def)
  then have "\<exists>sd'. sdcard_init B sd = Inr sd' \<and> sd_ok B idle cont present sd' \<and> bus sd' = c'"
    if "starts_up B ccs (wake_up B (bus sd)) c' \<and> sd_card B idle cont present (\<not> ccs) \<and> idle c'" for ccs c'
    using that unfolding res by blast
  ultimately show ?thesis unfolding res told_def by blast
qed

section \<open>A card\<close>

text \<open>A card in memory, for the concrete instances: what it has to send, the sector that it is to be written,
  whether it is ready, and whether it is addressed by sectors.\<close>

record ram_card =
  rc_mem :: "u64 \<Rightarrow> u8 list"
  rc_out :: "u8 list list"
  rc_write :: "u64 option"
  rc_ready :: bool
  rc_ccs :: bool

definition rc_send :: "u8 list \<Rightarrow> ram_card \<Rightarrow> ram_card" where
  "rc_send bs c =
     (if length bs = 6 then
        let a = of_nat (foldl (\<lambda>n b. 256 * n + unat b) 0 (take 4 (tl bs)))
        in if hd bs = 0x51 then c\<lparr>rc_out := [[0], [0xfe], rc_mem c a, [1, 2]]\<rparr>
           else if hd bs = 0x58 then c\<lparr>rc_out := [[0]], rc_write := Some a\<rparr>
           else if hd bs = 0x4d then c\<lparr>rc_out := [[0], [0]]\<rparr>
           else if hd bs = 0x40 \<or> hd bs = 0x77 then c\<lparr>rc_out := [[1]]\<rparr>
           else if hd bs = 0x48 then c\<lparr>rc_out := [[1], [0, 0, 0x01, 0xaa]]\<rparr>
           else if hd bs = 0x7a then
             c\<lparr>rc_out := [[if rc_ready c then 0 else 1], [if rc_ready c \<and> rc_ccs c then 0xc0 else 0x80, 0xff, 0x80, 0]]\<rparr>
           else if hd bs = 0x69 then c\<lparr>rc_out := [[0]], rc_ready := True\<rparr>
           else if hd bs = 0x50 then c\<lparr>rc_out := [[0]]\<rparr>
           else c
      else if length bs = 512 then
        (case rc_write c of
           None \<Rightarrow> c
         | Some a \<Rightarrow> c\<lparr>rc_mem := (rc_mem c)(a := bs), rc_out := [[0xe5], [0], [1]], rc_write := None\<rparr>)
      else c)"

definition rc_receive :: "nat \<Rightarrow> ram_card \<Rightarrow> (nat \<Rightarrow> u8) \<times> ram_card" where
  "rc_receive n c = (case rc_out c of [] \<Rightarrow> (\<lambda>_. 0xff, c) | xs # xss \<Rightarrow> (nth xs, c\<lparr>rc_out := xss\<rparr>))"

definition ram_bus :: "ram_card spi_bus" where
  "ram_bus = \<lparr>set_drive_mode = id, set_pin = (\<lambda>_. id), spi_init = id, spi_send = rc_send, spi_receive = rc_receive,
     spi_send_dma = rc_send, spi_receive_dma = rc_receive, fpioa_set = (\<lambda>_ _. id)\<rparr>"

definition rc_idle :: "ram_card \<Rightarrow> bool" where
  "rc_idle c \<longleftrightarrow> rc_out c = [] \<and> rc_write c = None \<and> (\<forall>s. length (rc_mem c s) = 512)"

definition two_sectors :: "u64 \<Rightarrow> bool" where
  "two_sectors s \<longleftrightarrow> s = 5 \<or> s = 6"

lemma ram_bus_simps [simp]:
  "spi_init ram_bus c = c" "set_pin ram_bus x c = c" "spi_send ram_bus bs c = rc_send bs c"
  "spi_receive ram_bus n c = rc_receive n c"
  by (simp_all add: ram_bus_def)

lemma rc_frame:
  "s = 5 \<or> s = 6 \<Longrightarrow> foldl (\<lambda>n b. 256 * n + unat b) 0 (take 4 (tl (card_frame cmd (unat (s :: u64)) crc))) = unat s"
  by (auto simp: card_frame_def)

lemma ram_gives: "rc_out c = xss @ rest \<Longrightarrow> gives ram_bus c xss (c\<lparr>rc_out := rest\<rparr>)"
proof (induction xss arbitrary: c)
  case (Cons xs xss)
  have "gives ram_bus (c\<lparr>rc_out := xss @ rest\<rparr>) xss (c\<lparr>rc_out := xss @ rest, rc_out := rest\<rparr>)" by (rule Cons.IH) simp
  then show ?case using Cons.prems by (simp add: rc_receive_def map_nth)
qed simp

lemma ram_answers:
  assumes "rc_out c = map (\<lambda>w. [w]) (ws @ [x]) @ rest" "length ws < n" "\<forall>w \<in> set ws. \<not> P w" "P x"
  shows "answers ram_bus P n x c (c\<lparr>rc_out := rest\<rparr>)"
  using assms ram_gives [OF assms(1)] unfolding answers_def by blast

lemma ram_cmds:
  assumes "s = 5 \<or> s = 6"
  shows "card_cmd ram_bus 17 (unat s) crc c = c\<lparr>rc_out := [[0], [0xfe], rc_mem c s, [1, 2]]\<rparr>"
    and "card_cmd ram_bus 24 (unat s) crc c = c\<lparr>rc_out := [[0]], rc_write := Some s\<rparr>"
    and "card_cmd ram_bus 13 0 crc c = c\<lparr>rc_out := [[0], [0]]\<rparr>"
    and "card_end ram_bus c = c"
  using rc_frame [OF assms] by (simp_all add: card_cmd_def sends_def card_end_def rc_send_def card_frame_def)

lemma ram_reads:
  assumes "rc_idle c" "two_sectors s"
  shows "reads_sector ram_bus rc_idle rc_mem s (unat s) c"
  unfolding reads_sector_def
proof
  fix crc
  note s = assms(2) [unfolded two_sectors_def]
  let ?c = "\<lambda>xs. c\<lparr>rc_out := xs\<rparr>"
  have 1: "accepts ram_bus (card_cmd ram_bus 17 (unat s) crc c) (?c [[0xfe], rc_mem c s, [1, 2]])"
    using ram_answers [of "?c [[0], [0xfe], rc_mem c s, [1, 2]]" "[]" 0 _ 255] by (simp add: ram_cmds [OF s])
  have 2: "answers ram_bus (\<lambda>r. r = 0xfe) 0xfffffe 0xfe (?c [[0xfe], rc_mem c s, [1, 2]]) (?c [rc_mem c s, [1, 2]])"
    using ram_answers [of "?c [[0xfe], rc_mem c s, [1, 2]]" "[]" "0xfe" "[rc_mem c s, [1, 2]]" "0xfffffe" "\<lambda>r. r = 0xfe"] by simp
  have 3: "gives ram_bus (?c [rc_mem c s, [1, 2]]) [rc_mem (?c [rc_mem c s, [1, 2]]) s, [1, 2]] (?c [])"
    using ram_gives [of "?c [rc_mem c s, [1, 2]]" "[rc_mem c s, [1, 2]]" "[]"] by simp
  show "\<exists>c1 c2 c3 chk. length chk = 2 \<and> accepts ram_bus (card_cmd ram_bus 17 (unat s) crc c) c1 \<and>
      answers ram_bus (\<lambda>r. r = 0xfe) 0xfffffe 0xfe c1 c2 \<and> gives ram_bus c2 [rc_mem c s, chk] c3 \<and>
      rc_idle (card_end ram_bus c3) \<and> rc_mem (card_end ram_bus c3) = rc_mem c"
    using 1 2 3 assms(1)
    by (intro exI [of _ "?c [[0xfe], rc_mem c s, [1, 2]]"] exI [of _ "?c [rc_mem c s, [1, 2]]"] exI [of _ "?c []"] exI [of _ "[1, 2]"])
      (simp add: ram_cmds [OF s] rc_idle_def)
qed

lemma ram_writes:
  assumes "rc_idle c" "two_sectors s" "length bs = 512"
  shows "writes_sector ram_bus rc_idle rc_mem s (unat s) bs c"
  unfolding writes_sector_def
proof (intro allI impI)
  fix crc and chk :: "u8 list"
  assume chk: "length chk = 2"
  note s = assms(2) [unfolded two_sectors_def]
  let ?c = "\<lambda>xs. c\<lparr>rc_mem := (rc_mem c)(s := bs), rc_write := None, rc_out := xs\<rparr>"
  let ?c1 = "c\<lparr>rc_write := Some s, rc_out := []\<rparr>"
  have 1: "accepts ram_bus (card_cmd ram_bus 24 (unat s) crc c) ?c1"
    using ram_answers [of "c\<lparr>rc_out := [[0]], rc_write := Some s\<rparr>" "[]" 0 "[]" 255] by (simp add: ram_cmds [OF s])
  have "sends ram_bus chk (sends ram_bus bs (sends ram_bus [0xfe] ?c1)) = ?c [[0xe5], [0], [1]]"
    using assms(3) chk by (simp add: sends_def rc_send_def)
  then have 2: "answers ram_bus (\<lambda>r. r AND 0x1f = 0x05) 0xffe 0xe5 (sends ram_bus chk (sends ram_bus bs (sends ram_bus [0xfe] ?c1))) (?c [[0], [1]])"
    using ram_answers [of "?c [[0xe5], [0], [1]]" "[]" "0xe5" "[[0], [1]]" "0xffe" "\<lambda>r. r AND 0x1f = 0x05"] by simp
  have 3: "answers ram_bus (\<lambda>r. r \<noteq> 0) 0xfffffe 1 (?c [[0], [1]]) (?c [])"
    using ram_answers [of "?c [[0], [1]]" "[0]" 1 "[]" "0xfffffe" "\<lambda>r. r \<noteq> 0"] by simp
  have 4: "accepts ram_bus (card_cmd ram_bus 13 0 crc (card_end ram_bus (?c []))) (?c [[0]])"
    using ram_answers [of "?c [[0], [0]]" "[]" 0 _ 255] by (simp add: ram_cmds [OF s])
  have 5: "gives ram_bus (?c [[0]]) [[0]] (?c [])" using ram_gives [of "?c [[0]]" "[[0]]" "[]"] by simp
  have 6: "rc_idle (card_end ram_bus (?c [])) \<and> rc_mem (card_end ram_bus (?c [])) = (rc_mem c)(s := bs)"
    using assms(1,3) by (simp add: ram_cmds [OF s] rc_idle_def)
  show "\<exists>c1 c2 c3 c4 c5 r e. accepts ram_bus (card_cmd ram_bus 24 (unat s) crc c) c1 \<and>
      answers ram_bus (\<lambda>r. r AND 0x1f = 0x05) 0xffe r (sends ram_bus chk (sends ram_bus bs (sends ram_bus [0xfe] c1))) c2 \<and>
      answers ram_bus (\<lambda>r. r \<noteq> 0) 0xfffffe e c2 c3 \<and>
      accepts ram_bus (card_cmd ram_bus 13 0 crc (card_end ram_bus c3)) c4 \<and> gives ram_bus c4 [[0]] c5 \<and>
      rc_idle (card_end ram_bus c5) \<and> rc_mem (card_end ram_bus c5) = (rc_mem c)(s := bs)"
    using 1 2 3 4 5 6 by blast
qed

lemma ram_card_ok: "sd_card ram_bus rc_idle rc_mem two_sectors False"
  using ram_reads ram_writes by (auto simp: sd_card_def card_address_def rc_idle_def two_sectors_def)

text \<open>The card starts up at the first attempt of each command.\<close>

lemma retry_now: "good c c' \<Longrightarrow> 0 < n \<Longrightarrow> retry n bad good c c'"
  using relpowp_0_I by (auto simp: retry_def)

lemma ram_replies:
  assumes "card_cmd ram_bus cmd arg crc c = e\<lparr>rc_out := [[r]]\<rparr>" "r \<noteq> 0xff"
  shows "replies ram_bus cmd arg crc r c (e\<lparr>rc_out := []\<rparr>)"
  using ram_answers [of "e\<lparr>rc_out := [[r]]\<rparr>" "[]" r "[]" 255 "\<lambda>r. r \<noteq> 0xff"] assms ram_cmds(4) [of 5]
  by (auto simp: replies_def responds_def)

lemma ram_replies_more:
  assumes "card_cmd ram_bus cmd arg crc c = e\<lparr>rc_out := [[r], bs]\<rparr>" "r \<noteq> 0xff" "length bs = 4"
  shows "replies_more ram_bus cmd arg crc r bs c (e\<lparr>rc_out := []\<rparr>)"
  unfolding replies_more_def
proof (intro exI conjI)
  show "responds ram_bus r (card_cmd ram_bus cmd arg crc c) (e\<lparr>rc_out := [bs]\<rparr>)"
    using ram_answers [of "e\<lparr>rc_out := [[r], bs]\<rparr>" "[]" r "[bs]" 255 "\<lambda>r. r \<noteq> 0xff"] assms by (simp add: responds_def)
  show "gives ram_bus (e\<lparr>rc_out := [bs]\<rparr>) [bs] (e\<lparr>rc_out := []\<rparr>)"
    using ram_gives [of "e\<lparr>rc_out := [bs]\<rparr>" "[bs]" "[]"] by simp
qed (use assms(3) ram_cmds(4) [of 5] in simp_all)

lemma ram_start_cmds:
  "card_cmd ram_bus 0 0 0x95 c = c\<lparr>rc_out := [[1]]\<rparr>"
  "card_cmd ram_bus 8 0x1aa 0x87 c = c\<lparr>rc_out := [[1], [0, 0, 0x01, 0xaa]]\<rparr>"
  "card_cmd ram_bus 58 0 0 c = c\<lparr>rc_out := [[if rc_ready c then 0 else 1], [if rc_ready c \<and> rc_ccs c then 0xc0 else 0x80, 0xff, 0x80, 0]]\<rparr>"
  "card_cmd ram_bus 55 0 0 c = c\<lparr>rc_out := [[1]]\<rparr>"
  "card_cmd ram_bus 41 0x40000000 0 c = c\<lparr>rc_out := [[0]], rc_ready := True\<rparr>"
  "card_cmd ram_bus 16 512 0 c = c\<lparr>rc_out := [[0]]\<rparr>"
  by (simp_all add: card_cmd_def sends_def rc_send_def card_frame_def)

lemma ram_starts_up:
  assumes "\<not> rc_ready c"
  shows "starts_up ram_bus (rc_ccs c) c (c\<lparr>rc_ready := True, rc_out := []\<rparr>)"
  unfolding starts_up_def
proof (intro relcomppI)
  let ?c = "c\<lparr>rc_out := []\<rparr>" and ?d = "c\<lparr>rc_ready := True, rc_out := []\<rparr>"
  show "goes_idle ram_bus c ?c" unfolding goes_idle_def
    using ram_replies [of 0 0 "0x95" c 1 c] by (intro retry_now) (simp_all add: ram_start_cmds)
  show "takes_voltage ram_bus ?c ?c"
    using ram_replies_more [of 8 "0x1aa" "0x87" ?c 1 "[0, 0, 0x01, 0xaa]" ?c]
    by (auto simp: takes_voltage_def ram_start_cmds intro!: exI [of _ "[0, 0, 0x01, 0xaa]"])
  show "tells_voltage ram_bus ?c ?c" unfolding tells_voltage_def
    using ram_replies_more [of 58 0 0 ?c 1 "[0x80, 0xff, 0x80, 0]" ?c] assms
    by (intro retry_now exI [of _ "1 :: u8"] exI [of _ "[0x80, 0xff, 0x80, 0]"]) (simp_all add: ram_start_cmds volts_def)
  have "replies ram_bus 55 0 0 1 ?c ?c" "replies ram_bus 41 0x40000000 0 0 ?c ?d"
    using ram_replies [of 55 0 0 ?c 1 ?c] ram_replies [of 41 "0x40000000" 0 ?c 0 ?d] by (simp_all add: ram_start_cmds)
  then show "gets_ready ram_bus ?c ?d" unfolding gets_ready_def op_cond_def by (intro retry_now exI conjI) simp_all
  show "tells_capacity ram_bus (rc_ccs c) ?d ?d"
  proof -
    let ?o = "[if rc_ccs c then 0xc0 else 0x80, 0xff, 0x80, 0 :: u8]"
    have "replies_more ram_bus 58 0 0 0 ?o ?d ?d"
      using ram_replies_more [of 58 0 0 ?d 0 ?o ?d] by (simp add: ram_start_cmds)
    moreover have "replies ram_bus 16 512 0 0 ?d ?d"
      using ram_replies [of 16 512 0 ?d 0 ?d] by (simp add: ram_start_cmds)
    ultimately show ?thesis unfolding tells_capacity_def
      by (intro retry_now exI [of _ ?o] exI [of _ ?d]) (auto intro: retry_now)
  qed
qed

definition new_card :: "bool \<Rightarrow> ram_card" where
  "new_card ccs = \<lparr>rc_mem = (\<lambda>_. replicate 512 7), rc_out = [], rc_write = None, rc_ready = False, rc_ccs = ccs\<rparr>"

definition card_with_sevens :: "ram_card sdcard" where
  "card_with_sevens = \<lparr>bus = \<lparr>rc_mem = (\<lambda>_. replicate 512 7), rc_out = [], rc_write = None, rc_ready = True, rc_ccs = True\<rparr>, is_standard_sd = 0\<rparr>"

theorem sdcard_write_read_witness:
  "\<exists>sd1 sd2 sd3. k210_disk_hal_write ram_bus 5 4096 (replicate 600 1) card_with_sevens = Inr (True, sd1) \<and>
     k210_disk_hal_write ram_bus 6 4096 (replicate 512 2) sd1 = Inr (True, sd2) \<and>
     k210_disk_hal_read ram_bus 5 8192 (replicate 513 3) sd2 = Inr (True, replicate 512 1 @ [3], sd3)"
proof -
  have "sd_ok ram_bus rc_idle rc_mem two_sectors card_with_sevens"
    using ram_card_ok by (simp add: sd_ok_def card_with_sevens_def rc_idle_def)
  moreover have "two_sectors 5" "two_sectors 6" "(5 :: u64) \<noteq> 6" by (simp_all add: two_sectors_def)
  moreover have "512 \<le> length (replicate 600 (1 :: u8))" "512 \<le> length (replicate 512 (2 :: u8))" "512 \<le> length (replicate 513 (3 :: u8))"
    by simp_all
  ultimately have "\<exists>sd1 sd2 sd3. k210_disk_hal_write ram_bus 5 4096 (replicate 600 1) card_with_sevens = Inr (True, sd1) \<and>
     k210_disk_hal_write ram_bus 6 4096 (replicate 512 2) sd1 = Inr (True, sd2) \<and>
     k210_disk_hal_read ram_bus 5 8192 (replicate 513 3) sd2 = Inr (True, take 512 (replicate 600 1) @ drop 512 (replicate 513 3), sd3)"
    using sdcard_write_read [of ram_bus rc_idle rc_mem two_sectors card_with_sevens 5 6] by blast
  moreover have "drop 512 (replicate 513 (3 :: u8)) = [3]" "take 512 (replicate 600 (1 :: u8)) = replicate 512 1"
    by (simp_all add: drop_replicate take_replicate)
  ultimately show ?thesis by simp
qed

text \<open>A card that is addressed by sectors starts up and is ready; one that is addressed by bytes is found out.\<close>

theorem sdcard_init_starts_witness:
  "(\<exists>sd. sdcard_init ram_bus \<lparr>bus = new_card True, is_standard_sd = 7\<rparr> = Inr sd \<and> sd_ok ram_bus rc_idle rc_mem two_sectors sd \<and>
      rc_ready (bus sd)) \<and>
   (\<exists>sd. sdcard_init ram_bus \<lparr>bus = new_card False, is_standard_sd = 7\<rparr> = Inr sd \<and> is_standard_sd sd = 1)"
proof -
  let ?sd = "\<lambda>ccs. \<lparr>bus = new_card ccs, is_standard_sd = 7\<rparr>"
  let ?c = "\<lambda>ccs. new_card ccs\<lparr>rc_ready := True, rc_out := []\<rparr>"
  have w: "wake_up ram_bus (bus (?sd ccs)) = new_card ccs" for ccs
    by (simp add: wake_up_def sends_def rc_send_def) (simp add: ram_bus_def)
  have s: "starts_up ram_bus ccs (wake_up ram_bus (bus (?sd ccs))) (?c ccs)" for ccs
    using ram_starts_up [of "new_card ccs"] unfolding w by (simp add: new_card_def)
  have i: "rc_idle (?c True)" by (simp add: rc_idle_def new_card_def)
  note start = sdcard_init_starts [where B = ram_bus and idle = rc_idle and cont = rc_mem and present = two_sectors]
  have "sd_card ram_bus rc_idle rc_mem two_sectors (\<not> True)" using ram_card_ok by simp
  then have "\<exists>sd. sdcard_init ram_bus (?sd True) = Inr sd \<and> sd_ok ram_bus rc_idle rc_mem two_sectors sd \<and> bus sd = ?c True"
    using conjunct1 [OF conjunct2 [OF start [of "?sd True"]]] s [of True] i by blast
  moreover have "sdcard_init ram_bus (?sd False) = Inr ((?sd False)\<lparr>bus := ?c False, is_standard_sd := (if False then 0 else 1)\<rparr>)"
    using conjunct1 [OF start [of "?sd False"]] s [of False] by blast
  then have "\<exists>sd. sdcard_init ram_bus (?sd False) = Inr sd \<and> is_standard_sd sd = 1" by simp
  ultimately show ?thesis by (auto simp: new_card_def)
qed

definition empty_bus :: "unit spi_bus" where
  "empty_bus = \<lparr>set_drive_mode = id, set_pin = (\<lambda>_. id), spi_init = id, spi_send = (\<lambda>_. id), spi_receive = (\<lambda>n c. (\<lambda>_. 0xff, c)),
     spi_send_dma = (\<lambda>_. id), spi_receive_dma = (\<lambda>n c. (\<lambda>_. 0xff, c)), fpioa_set = (\<lambda>_ _. id)\<rparr>"

theorem sdcard_missing_panics_witness:
  "sdcard_init empty_bus \<lparr>bus = (), is_standard_sd = 0\<rparr> = Inl Panic \<and>
   k210_disk_hal_read empty_bus 5 4096 (replicate 512 0) \<lparr>bus = (), is_standard_sd = 0\<rparr> = Inl Panic \<and>
   k210_disk_hal_write empty_bus 5 4096 (replicate 512 0) \<lparr>bus = (), is_standard_sd = 0\<rparr> = Inl Panic"
  using sdcard_missing_panics [of empty_bus "\<lparr>bus = (), is_standard_sd = 0\<rparr>" 5 4096 "replicate 512 0"]
  by (simp add: silent_def empty_bus_def)

end
