(* ===== verification/Demo.thy ===== *)
theory Demo
  imports Kmem
begin

text \<open>
  A small running kernel for the concrete instances: three pages to allocate, and one cache
  of 512-byte objects with eight of them free in a partly used slab.
\<close>

definition demo_heap :: kchain where
  "demo_heap = kheap.extend
     (boot_heap\<lparr>links := list_add 64 (partial_head 1000) (list_init (full_head 1000) (list_init (partial_head 1000)
          (list_init (free_head 1000) (list_add 1000 8 (list_init 8 (links boot_heap)))))),
       objsize_at := (\<lambda>_. 512),
       word_at := (\<lambda>a. if a < 0x100e00 then a + 512 else 0),
       slab_at := (\<lambda>_. \<lparr>pg = 0x100000, objs = 0x100000, size_obj = 512,
                          free_obj = 8, total_obj = 16, order = 1\<rparr>)\<rparr>)
     (kchain.fields 8 0 0 (spinlock_init ''kmem_cache''))"

text \<open>The addresses that a sequence of requests yields: \<open>Inl\<close> a page order, \<open>Inr\<close> a size.\<close>

fun requests :: "(int + u64) list \<Rightarrow> kchain \<Rightarrow> u64 list outcome" where
  "requests [] k = Inr []"
| "requests (r # rs) k =
     bindO (case r of Inl ord \<Rightarrow> kh_pmem_alloc ord k | Inr sz \<Rightarrow> kmalloc sz k) (\<lambda>(a, k).
     bindO (requests rs k) (\<lambda>as. Inr (a # as)))"

lemma demo_page_object: "requests [Inl 0, Inr 56] demo_heap = Inr [12288, 0x100000]"
  by code_simp

lemma demo_volume: "requests [Inr 128, Inl 0, Inr 32, Inr 8, Inr 128] demo_heap =
    Inr [0x100000, 12288, 0x100200, 0x100400, 0x100600]"
  by code_simp

end
