(* ===== verification/Vblk.thy ===== *)
theory Vblk
  imports Virtio Disk Demo
begin

text \<open>
  The block device behind \<open>disk_hal.c\<close>: the driver keeps its free descriptors in a list, posts
  every request as the chain of three descriptors that the virtio specification asks for,
  and so provides the interface \<open>block_device\<close> on a device that serves such chains.
\<close>

section \<open>The list of free descriptors\<close>

fun dpath :: "virtqueue_desc list \<Rightarrow> u64 \<Rightarrow> nat list \<Rightarrow> u64 \<Rightarrow> bool" where
  "dpath ds a [] e \<longleftrightarrow> a = e"
| "dpath ds a (i # is) e \<longleftrightarrow> a = of_nat i \<and> i < length ds \<and> dpath ds (ucast (d_next (ds ! i))) is e"

text \<open>\<open>xs\<close> are the free descriptors of a queue of \<open>n\<close>, in the order they are handed out.\<close>

definition vq_inv :: "nat \<Rightarrow> virtio_queue \<Rightarrow> vshared \<Rightarrow> nat list \<Rightarrow> bool" where
  "vq_inv n q sh xs \<longleftrightarrow> 0 < n \<and> n \<le> 150 \<and> vq_len q = of_nat n \<and> length (descs sh) = n \<and>
     length (avail_ring sh) = n \<and> distinct xs \<and> dpath (descs sh) (free_idx q) xs (of_nat n)"

lemma dpath_upd: "i \<notin> set xs \<Longrightarrow> dpath (ds[i := d]) a xs e = dpath ds a xs e"
  by (induction xs arbitrary: a) auto

lemma dpath_bound: "dpath ds a xs e \<Longrightarrow> set xs \<subseteq> {..<length ds}"
  by (induction xs arbitrary: a) auto

lemma small_word: "i \<le> 150 \<Longrightarrow> unat (of_nat i :: u64) = i" "i \<le> 150 \<Longrightarrow> unat (of_nat i :: u32) = i"
    "i \<le> 150 \<Longrightarrow> unat (of_nat i :: u16) = i"
  by (simp_all add: unat_of_nat)

lemma small_ucast:
  assumes "i \<le> 150"
  shows "ucast (ucast (of_nat i :: u64) :: u16) = (of_nat i :: u64)" "ucast (ucast (of_nat i :: u64) :: u32) = (of_nat i :: u64)"
    "ucast (of_nat i :: u16) = (of_nat i :: u64)" "ucast (ucast (of_nat i :: u64) :: u32) = (of_nat i :: u16)"
    "ucast (of_nat i :: u32) = (of_nat i :: u64)" "ucast (of_nat i :: u64) = (of_nat i :: u32)"
    "ucast (of_nat i :: u32) = (of_nat i :: u16)"
  using assms
  by (simp_all add: unsigned_word_eqI [where ?'a = nat] word_eq_iff_unsigned [where ?'a = nat] unsigned_ucast_eq unsigned_of_nat take_bit_nat_eq_self)

lemma alloc_desc:
  assumes "vq_inv n q sh (i # xs)"
  shows "\<exists>f. virtio_alloc_desc (q, sh) = Inr (of_nat i, q\<lparr>free_idx := f\<rparr>, sh) \<and> vq_inv n (q\<lparr>free_idx := f\<rparr>) sh xs"
proof -
  have i: "i < n" "free_idx q = of_nat i" using assms by (auto simp: vq_inv_def)
  then have "free_idx q \<noteq> vq_len q" using assms small_word(1) [of i] small_word(1) [of n] by (auto simp: vq_inv_def)
  then show ?thesis using assms i small_word(1) [of i]
    by (auto simp: virtio_alloc_desc_def desc_get_def vq_inv_def)
qed

lemma alloc_desc_empty: "vq_inv n q sh [] \<Longrightarrow> virtio_alloc_desc (q, sh) = Inl Panic"
  by (simp add: virtio_alloc_desc_def vq_inv_def)

lemma desc_upd_ok:
  assumes "vq_inv n q sh xs" "i < n"
  shows "desc_upd (of_nat i) f sh = Inr (sh\<lparr>descs := (descs sh)[i := f (descs sh ! i)]\<rparr>)"
  using assms small_word(1) [of i] by (simp add: desc_upd_def vq_inv_def)

lemma vq_inv_desc:
  assumes "vq_inv n q sh xs" "i \<notin> set xs"
  shows "vq_inv n q (sh\<lparr>descs := (descs sh)[i := d]\<rparr>) xs"
  using assms by (simp add: vq_inv_def dpath_upd)

lemma free_desc:
  assumes "vq_inv n q sh xs" "i < n" "i \<notin> set xs"
  shows "\<exists>ds. virtio_free_desc (of_nat i) (q, sh) = Inr (q\<lparr>free_idx := of_nat i\<rparr>, sh\<lparr>descs := ds\<rparr>) \<and>
           vq_inv n (q\<lparr>free_idx := of_nat i\<rparr>) (sh\<lparr>descs := ds\<rparr>) (i # xs)"
proof -
  have f: "ucast (ucast (free_idx q) :: u16) = free_idx q"
  proof -
    have p: "dpath (descs sh) (free_idx q) xs (of_nat n)" "length (descs sh) = n" "n \<le> 150"
      using assms(1) by (auto simp: vq_inv_def)
    have "\<exists>k \<le> 150. free_idx q = of_nat k"
    proof (cases xs)
      case Nil
      then show ?thesis using p by auto
    next
      case (Cons k ys)
      then have "k \<le> 150" "free_idx q = of_nat k" using p by auto
      then show ?thesis by blast
    qed
    then obtain k where "k \<le> 150" "free_idx q = of_nat k" by blast
    then show ?thesis by (simp add: small_ucast(1))
  qed
  have u: "virtio_free_desc (of_nat i) (q, sh) = Inr (q\<lparr>free_idx := of_nat i\<rparr>,
      sh\<lparr>descs := (descs sh)[i := (descs sh ! i)\<lparr>d_next := ucast (free_idx q)\<rparr>]\<rparr>)"
    by (simp add: virtio_free_desc_def desc_upd_ok [OF assms(1,2)])
  show ?thesis unfolding u using assms f
    by (intro exI [of _ "(descs sh)[i := (descs sh ! i)\<lparr>d_next := ucast (free_idx q)\<rparr>]"]) (simp add: vq_inv_def dpath_upd)
qed

section \<open>The device\<close>

text \<open>
  The request that the entry of the available ring before \<open>avail_idx\<close> names: a header the
  device reads, 512 bytes of data it writes for a read request and reads for a write
  request, and a status byte it writes (virtio 1.1, sections 2.6 and 5.2.6).
\<close>

definition posted :: "nat \<Rightarrow> vshared \<Rightarrow> bool" where
  "posted n sh \<longleftrightarrow>
     (\<exists>d1 d2 d3. distinct [d1, d2, d3] \<and> {d1, d2, d3} \<subseteq> {..<n} \<and>
        avail_ring sh ! (unat (avail_idx sh - 1) mod n) = of_nat d1 \<and>
        descs sh ! d1 = \<lparr>d_addr = req_addr sh, d_len = 16, d_flags = VIRTQ_DESC_F_NEXT, d_next = of_nat d2\<rparr> \<and>
        descs sh ! d2 = \<lparr>d_addr = buf_addr sh, d_len = 512, d_flags = VIRTQ_DESC_F_NEXT OR
            (if rq_type (req sh) = VIRTIO_BLK_T_IN then VIRTQ_DESC_F_WRITE else 0), d_next = of_nat d3\<rparr> \<and>
        d_addr (descs sh ! d3) = req_addr sh + 16 \<and> d_len (descs sh ! d3) = 1 \<and>
        d_flags (descs sh ! d3) = VIRTQ_DESC_F_WRITE)"

text \<open>The memory and the sectors after the device has served the request.\<close>

definition served_mem :: "(u64 \<Rightarrow> u8 list) \<Rightarrow> u16 \<Rightarrow> vshared \<Rightarrow> vshared" where
  "served_mem c u sh = sh\<lparr>used_idx := u, req := (req sh)\<lparr>rq_status := VIRTIO_BLK_S_OK\<rparr>,
     buf_bytes := (if rq_type (req sh) = VIRTIO_BLK_T_IN
                   then c (rq_sector (req sh)) @ drop 512 (buf_bytes sh) else buf_bytes sh)\<rparr>"

definition served_disk :: "vshared \<Rightarrow> (u64 \<Rightarrow> u8 list) \<Rightarrow> u64 \<Rightarrow> u8 list" where
  "served_disk sh c = (if rq_type (req sh) = VIRTIO_BLK_T_OUT
     then c(rq_sector (req sh) := take 512 (buf_bytes sh)) else c)"

text \<open>
  What the driver relies on: an idle device that is notified of a request for a sector it has
  raises its interrupt at some later poll, with the request served, and is idle again once
  the interrupt is acknowledged.
\<close>

definition blk_device :: "'d mmio \<Rightarrow> ('d \<Rightarrow> u64 \<Rightarrow> u8 list) \<Rightarrow> ('d \<Rightarrow> bool) \<Rightarrow> (u64 \<Rightarrow> bool) \<Rightarrow> nat \<Rightarrow> bool" where
  "blk_device D cont idle present n \<longleftrightarrow>
     (\<forall>d s. idle d \<longrightarrow> length (cont d s) = 512) \<and>
     (\<forall>sh d. idle d \<and> posted n sh \<and> 512 \<le> length (buf_bytes sh) \<and> present (rq_sector (req sh)) \<and>
             rq_type (req sh) \<in> {VIRTIO_BLK_T_IN, VIRTIO_BLK_T_OUT} \<longrightarrow>
        (\<exists>u d1. wait_loop D (mmio_write D Queue_notify 0 (sh, d)) = Some (served_mem (cont d) u sh, d1) \<and>
           (\<forall>sh'. \<exists>st d2 d3. mmio_read D Interrupt_status (sh', d1) = (st, sh', d2) \<and>
                mmio_write D Interrupt_ack st (sh', d2) = (sh', d3) \<and> idle d3 \<and>
                cont d3 = served_disk sh (cont d))))"

definition vblk_ok :: "'d mmio \<Rightarrow> ('d \<Rightarrow> u64 \<Rightarrow> u8 list) \<Rightarrow> ('d \<Rightarrow> bool) \<Rightarrow> (u64 \<Rightarrow> bool) \<Rightarrow> 'd virtio_blk \<Rightarrow> bool" where
  "vblk_ok D cont idle present v \<longleftrightarrow> idle (vdev v) \<and>
     (\<exists>n xs. vq_inv n (vq v) (vmem v) xs \<and> 3 \<le> length xs \<and> blk_device D cont idle present n)"

section \<open>Requests\<close>

text \<open>What \<open>virtio_blk_submit\<close> has put into the shared memory when it notifies the device.\<close>

lemma submit_posts:
  assumes inv: "vq_inv n (vq v) (vmem v) (d1 # d2 # d3 # xs)"
  shows "\<exists>f sh. virtio_blk_submit D v =
             Inr (v\<lparr>vq := (vq v)\<lparr>free_idx := f\<rparr>, vmem := fst (mmio_write D Queue_notify 0 (sh, vdev v)),
                   vdev := snd (mmio_write D Queue_notify 0 (sh, vdev v))\<rparr>) \<and>
           posted n sh \<and> vq_inv n ((vq v)\<lparr>free_idx := f\<rparr>) sh xs \<and>
           req sh = (req (vmem v))\<lparr>rq_d1 := of_nat d1, rq_d2 := of_nat d2, rq_d3 := of_nat d3\<rparr> \<and>
           buf_bytes sh = buf_bytes (vmem v)"
proof -
  let ?q = "vq v" and ?m = "vmem v"
  obtain f1 where a1: "virtio_alloc_desc (?q, ?m) = Inr (of_nat d1, ?q\<lparr>free_idx := f1\<rparr>, ?m)"
      "vq_inv n (?q\<lparr>free_idx := f1\<rparr>) ?m (d2 # d3 # xs)"
    using alloc_desc [OF inv] by blast
  obtain f2 where a2: "virtio_alloc_desc (?q\<lparr>free_idx := f1\<rparr>, ?m) = Inr (of_nat d2, ?q\<lparr>free_idx := f2\<rparr>, ?m)"
      "vq_inv n (?q\<lparr>free_idx := f2\<rparr>) ?m (d3 # xs)"
    using alloc_desc [OF a1(2)] by auto
  obtain f3 where a3: "virtio_alloc_desc (?q\<lparr>free_idx := f2\<rparr>, ?m) = Inr (of_nat d3, ?q\<lparr>free_idx := f3\<rparr>, ?m)"
      "vq_inv n (?q\<lparr>free_idx := f3\<rparr>) ?m xs"
    using alloc_desc [OF a2(2)] by auto
  have d: "distinct (d1 # d2 # d3 # xs)" and n: "0 < n" "n \<le> 150" "length (descs ?m) = n" "length (avail_ring ?m) = n"
      "vq_len ?q = of_nat n"
    using inv by (auto simp: vq_inv_def)
  have lt: "d1 < n" "d2 < n" "d3 < n" using inv by (auto simp: vq_inv_def)
  define q where "q = ?q\<lparr>free_idx := f3\<rparr>"
  define m1 where "m1 = ?m\<lparr>descs := (descs ?m)[d1 := \<lparr>d_addr = req_addr ?m, d_len = 16, d_flags = VIRTQ_DESC_F_NEXT, d_next = of_nat d2\<rparr>]\<rparr>"
  define m2 where "m2 = m1\<lparr>descs := (descs m1)[d2 := \<lparr>d_addr = buf_addr m1, d_len = 512, d_flags = VIRTQ_DESC_F_NEXT OR
       (if rq_type (req ?m) = VIRTIO_BLK_T_IN then VIRTQ_DESC_F_WRITE else 0), d_next = of_nat d3\<rparr>]\<rparr>"
  define m3 where "m3 = m2\<lparr>descs := (descs m2)[d3 := (descs m2 ! d3)\<lparr>d_addr := req_addr m2 + 16, d_len := 1, d_flags := VIRTQ_DESC_F_WRITE\<rparr>]\<rparr>"
  define sh where "sh = m3\<lparr>req := (req m3)\<lparr>rq_d1 := of_nat d1, rq_d2 := of_nat d2, rq_d3 := of_nat d3\<rparr>,
      avail_ring := (avail_ring m3)[unat (avail_idx m3) mod n := of_nat d1], avail_idx := avail_idx m3 + 1\<rparr>"
  have i0: "vq_inv n q ?m xs" using a3(2) by (simp add: q_def)
  have i1: "vq_inv n q m1 xs" unfolding m1_def using vq_inv_desc [OF i0] d by auto
  have i2: "vq_inv n q m2 xs" unfolding m2_def using vq_inv_desc [OF i1] d by auto
  have i3: "vq_inv n q m3 xs" unfolding m3_def using vq_inv_desc [OF i2] d by auto
  have mem: "req_addr m1 = req_addr ?m" "buf_addr m1 = buf_addr ?m" "req m3 = req ?m" "avail_ring m3 = avail_ring ?m"
      "avail_idx m3 = avail_idx ?m" "req_addr m2 = req_addr ?m" "req_addr m3 = req_addr ?m" "buf_addr m3 = buf_addr ?m"
      "buf_bytes m3 = buf_bytes ?m" "length (descs m1) = n" "length (descs m2) = n"
    using n by (simp_all add: m1_def m2_def m3_def)
  let ?d = "\<lambda>i. of_nat i :: u64"
  have u1: "desc_upd (?d d1) (\<lambda>_. \<lparr>d_addr = req_addr ?m, d_len = 16, d_flags = VIRTQ_DESC_F_NEXT, d_next = of_nat d2\<rparr>) ?m = Inr m1"
    unfolding m1_def by (rule desc_upd_ok [OF i0 lt(1)])
  have u2: "desc_upd (?d d2) (\<lambda>_. \<lparr>d_addr = buf_addr m1, d_len = 512, d_flags = VIRTQ_DESC_F_NEXT OR
       (if rq_type (req ?m) = VIRTIO_BLK_T_IN then VIRTQ_DESC_F_WRITE else 0), d_next = of_nat d3\<rparr>) m1 = Inr m2"
    unfolding m2_def by (rule desc_upd_ok [OF i1 lt(2)])
  have u3: "desc_upd (?d d3) (\<lambda>d. d\<lparr>d_addr := req_addr m2 + 16, d_len := 1, d_flags := VIRTQ_DESC_F_WRITE\<rparr>) m2 = Inr m3"
    unfolding m3_def by (rule desc_upd_ok [OF i2 lt(3)])
  have le: "d1 \<le> 150" "d2 \<le> 150" "d3 \<le> 150" using lt n(2) by linarith+
  have sub: "virtio_blk_submit D v = virtio_blk_send D (of_nat d1)
      (v\<lparr>vq := q, vmem := m3\<lparr>req := (req m3)\<lparr>rq_d1 := of_nat d1, rq_d2 := of_nat d2, rq_d3 := of_nat d3\<rparr>\<rparr>\<rparr>)"
    by (simp only: virtio_blk_submit_def Let_def a1(1) a2(1) a3(1) bindO_Inr prod.case small_ucast [OF le(1)]
        small_ucast [OF le(2)] small_ucast [OF le(3)] u1 u2 u3 q_def)
  have "virtio_blk_send D (of_nat d1)
      (v\<lparr>vq := q, vmem := m3\<lparr>req := (req m3)\<lparr>rq_d1 := of_nat d1, rq_d2 := of_nat d2, rq_d3 := of_nat d3\<rparr>\<rparr>\<rparr>) =
      Inr (v\<lparr>vq := q, vmem := fst (mmio_write D Queue_notify 0 (sh, vdev v)),
             vdev := snd (mmio_write D Queue_notify 0 (sh, vdev v))\<rparr>)"
  proof -
    have l: "vq_len q = of_nat n" "unat (of_nat n :: u64) = n" "(of_nat n :: u64) \<noteq> 0" "unat (avail_idx m3) mod n < n"
      using n small_word(1) [of n] by (auto simp: q_def simp flip: unat_eq_0)
    show ?thesis using l n lt mem
      by (simp add: virtio_blk_send_def Let_def sh_def small_ucast)
  qed
  moreover have "posted n sh"
  proof -
    have "descs sh ! d1 = descs m1 ! d1" "descs sh ! d2 = descs m2 ! d2" "descs sh ! d3 = descs m3 ! d3"
      using d by (auto simp: sh_def m3_def m2_def)
    moreover have "avail_ring sh ! (unat (avail_idx sh - 1) mod n) = of_nat d1"
      using n mem by (simp add: sh_def)
    moreover have "distinct [d1, d2, d3]" "{d1, d2, d3} \<subseteq> {..<n}" using d lt by auto
    ultimately show ?thesis unfolding posted_def
      by (intro exI [of _ d1] exI [of _ d2] exI [of _ d3])
        (use lt n mem in \<open>auto simp: m1_def m2_def m3_def sh_def\<close>)
  qed
  moreover have "vq_inv n q sh xs" using i3 by (simp add: vq_inv_def sh_def)
  ultimately show ?thesis unfolding sub
    by (intro exI [of _ f3] exI [of _ sh]) (auto simp: q_def sh_def mem)
qed



lemma wait_frees:
  assumes w: "wait_loop D (vmem v, vdev v) = Some (sh, d)"
    and ack: "mmio_read D Interrupt_status (sh\<lparr>used_event := used_idx sh\<rparr>, d) = (st, sh\<lparr>used_event := used_idx sh\<rparr>, d')"
      "mmio_write D Interrupt_ack st (sh\<lparr>used_event := used_idx sh\<rparr>, d') = (sh\<lparr>used_event := used_idx sh\<rparr>, d'')"
    and inv: "vq_inv n (vq v) sh xs"
    and ds: "distinct (d1 # d2 # d3 # xs)" "d1 < n" "d2 < n" "d3 < n"
    and r: "rq_d1 (req sh) = of_nat d1" "rq_d2 (req sh) = of_nat d2" "rq_d3 (req sh) = of_nat d3"
      "rq_status (req sh) = VIRTIO_BLK_S_OK"
  shows "\<exists>q sh'. virtio_blk_wait D v = Inr (True, v\<lparr>vq := q, vmem := sh', vdev := d''\<rparr>) \<and>
           vq_inv n q sh' (d3 # d2 # d1 # xs) \<and> buf_bytes sh' = buf_bytes sh"
proof -
  let ?sh = "sh\<lparr>used_event := used_idx sh\<rparr>"
  have "n \<le> 150" using inv by (simp add: vq_inv_def)
  then have le: "d1 \<le> 150" "d2 \<le> 150" "d3 \<le> 150" using ds by linarith+
  have i0: "vq_inv n (vq v) ?sh xs" using inv by (simp add: vq_inv_def)
  obtain e1 where f1: "virtio_free_desc (of_nat d1) (vq v, ?sh) = Inr ((vq v)\<lparr>free_idx := of_nat d1\<rparr>, ?sh\<lparr>descs := e1\<rparr>)"
      "vq_inv n ((vq v)\<lparr>free_idx := of_nat d1\<rparr>) (?sh\<lparr>descs := e1\<rparr>) (d1 # xs)"
    using free_desc [OF i0 ds(2)] ds(1) by auto
  obtain e2 where f2: "virtio_free_desc (of_nat d2) ((vq v)\<lparr>free_idx := of_nat d1\<rparr>, ?sh\<lparr>descs := e1\<rparr>) =
        Inr ((vq v)\<lparr>free_idx := of_nat d2\<rparr>, ?sh\<lparr>descs := e2\<rparr>)"
      "vq_inv n ((vq v)\<lparr>free_idx := of_nat d2\<rparr>) (?sh\<lparr>descs := e2\<rparr>) (d2 # d1 # xs)"
    using free_desc [OF f1(2) ds(3)] ds(1) by auto
  obtain e3 where f3: "virtio_free_desc (of_nat d3) ((vq v)\<lparr>free_idx := of_nat d2\<rparr>, ?sh\<lparr>descs := e2\<rparr>) =
        Inr ((vq v)\<lparr>free_idx := of_nat d3\<rparr>, ?sh\<lparr>descs := e3\<rparr>)"
      "vq_inv n ((vq v)\<lparr>free_idx := of_nat d3\<rparr>) (?sh\<lparr>descs := e3\<rparr>) (d3 # d2 # d1 # xs)"
    using free_desc [OF f2(2) ds(4)] ds(1) by auto
  have "virtio_blk_wait D v = Inr (True, v\<lparr>vq := (vq v)\<lparr>free_idx := of_nat d3\<rparr>, vmem := ?sh\<lparr>descs := e3\<rparr>, vdev := d''\<rparr>)"
    using f1(1) f2(1) f3(1)
    by (simp add: virtio_blk_wait_def w ack Let_def r small_ucast [OF le(1)] small_ucast [OF le(2)] small_ucast [OF le(3)])
  then show ?thesis using f3(2)
    by (intro exI [of _ "(vq v)\<lparr>free_idx := of_nat d3\<rparr>"] exI [of _ "?sh\<lparr>descs := e3\<rparr>"]) simp
qed

lemma disk_op_ok:
  assumes ok: "vblk_ok D cont idle present v" and s: "present s" and b: "512 \<le> length b"
    and ty: "ty = VIRTIO_BLK_T_IN \<or> ty = VIRTIO_BLK_T_OUT"
  shows "\<exists>v'. disk_hal_op D ra junk ty s a b v = Inr (True, v') \<and> vblk_ok D cont idle present v' \<and>
     buf_bytes (vmem v') = (if ty = VIRTIO_BLK_T_IN then cont (vdev v) s @ drop 512 b else b) \<and>
     cont (vdev v') = (if ty = VIRTIO_BLK_T_OUT then (cont (vdev v))(s := take 512 b) else cont (vdev v))"
proof -
  obtain n xs where n: "idle (vdev v)" "vq_inv n (vq v) (vmem v) xs" "3 \<le> length xs" "blk_device D cont idle present n"
    using ok unfolding vblk_ok_def by blast
  obtain d1 d2 d3 ys where xs: "xs = d1 # d2 # d3 # ys"
    using n(3) by (auto simp: numeral_3_eq_3 Suc_le_length_iff)
  define v0 where "v0 = v\<lparr>vmem := (vmem v)\<lparr>req_addr := ra, req := junk\<lparr>rq_sector := s, rq_type := ty\<rparr>,
                        buf_addr := a, buf_bytes := b\<rparr>\<rparr>"
  have i0: "vq_inv n (vq v0) (vmem v0) (d1 # d2 # d3 # ys)" using n(2) by (simp add: v0_def vq_inv_def xs)
  have f0: "vdev v0 = vdev v" "req (vmem v0) = junk\<lparr>rq_sector := s, rq_type := ty\<rparr>" "buf_bytes (vmem v0) = b"
    by (simp_all add: v0_def)
  obtain f sh where sub: "virtio_blk_submit D v0 =
             Inr (v0\<lparr>vq := (vq v0)\<lparr>free_idx := f\<rparr>, vmem := fst (mmio_write D Queue_notify 0 (sh, vdev v0)),
                   vdev := snd (mmio_write D Queue_notify 0 (sh, vdev v0))\<rparr>)"
      and p: "posted n sh" "vq_inv n ((vq v0)\<lparr>free_idx := f\<rparr>) sh ys"
      and r: "req sh = (req (vmem v0))\<lparr>rq_d1 := of_nat d1, rq_d2 := of_nat d2, rq_d3 := of_nat d3\<rparr>"
      and bb: "buf_bytes sh = buf_bytes (vmem v0)"
    using submit_posts [OF i0] by blast
  define v1 where "v1 = v0\<lparr>vq := (vq v0)\<lparr>free_idx := f\<rparr>, vmem := fst (mmio_write D Queue_notify 0 (sh, vdev v0)),
                   vdev := snd (mmio_write D Queue_notify 0 (sh, vdev v0))\<rparr>"
  have rq: "rq_sector (req sh) = s" "rq_type (req sh) = ty" "buf_bytes sh = b" by (simp_all add: r bb f0)
  obtain u e1 where w: "wait_loop D (mmio_write D Queue_notify 0 (sh, vdev v)) = Some (served_mem (cont (vdev v)) u sh, e1)"
      and a: "\<forall>sh'. \<exists>st e2 e3. mmio_read D Interrupt_status (sh', e1) = (st, sh', e2) \<and>
                mmio_write D Interrupt_ack st (sh', e2) = (sh', e3) \<and> idle e3 \<and> cont e3 = served_disk sh (cont (vdev v))"
    using n(1,4) p(1) rq s b ty unfolding blk_device_def by (metis insertCI)
  let ?m = "served_mem (cont (vdev v)) u sh"
  obtain st e2 e3 where ack: "mmio_read D Interrupt_status (?m\<lparr>used_event := used_idx ?m\<rparr>, e1) = (st, ?m\<lparr>used_event := used_idx ?m\<rparr>, e2)"
      "mmio_write D Interrupt_ack st (?m\<lparr>used_event := used_idx ?m\<rparr>, e2) = (?m\<lparr>used_event := used_idx ?m\<rparr>, e3)"
      "idle e3" "cont e3 = served_disk sh (cont (vdev v))"
    using a by blast
  have "wait_loop D (vmem v1, vdev v1) = Some (?m, e1)" using w by (simp add: v1_def f0)
  moreover have "vq_inv n (vq v1) ?m ys" using p(2) by (simp add: vq_inv_def v1_def served_mem_def)
  moreover have "distinct (d1 # d2 # d3 # ys)" "d1 < n" "d2 < n" "d3 < n" using i0 by (auto simp: vq_inv_def)
  moreover have "rq_d1 (req ?m) = of_nat d1" "rq_d2 (req ?m) = of_nat d2" "rq_d3 (req ?m) = of_nat d3"
      "rq_status (req ?m) = VIRTIO_BLK_S_OK" by (simp_all add: served_mem_def r)
  ultimately obtain q sh' where fin: "virtio_blk_wait D v1 = Inr (True, v1\<lparr>vq := q, vmem := sh', vdev := e3\<rparr>)"
      "vq_inv n q sh' (d3 # d2 # d1 # ys)" "buf_bytes sh' = buf_bytes ?m"
    using wait_frees [OF _ ack(1,2)] by blast
  have op: "disk_hal_op D ra junk ty s a b v = Inr (True, v1\<lparr>vq := q, vmem := sh', vdev := e3\<rparr>)"
    using sub fin(1) by (simp add: disk_hal_op_def flip: v0_def v1_def)
  have "\<exists>n xs. vq_inv n q sh' xs \<and> 3 \<le> length xs \<and> blk_device D cont idle present n"
    using fin(2) n(4) by (intro exI [of _ n] exI [of _ "d3 # d2 # d1 # ys"]) simp
  then show ?thesis unfolding op
    using fin(3) ack(3,4) rq
    by (intro exI [of _ "v1\<lparr>vq := q, vmem := sh', vdev := e3\<rparr>"])
      (auto simp: vblk_ok_def served_mem_def served_disk_def)
qed

lemma blk_type_neq: "VIRTIO_BLK_T_IN \<noteq> VIRTIO_BLK_T_OUT"
  by (simp add: VIRTIO_BLK_T_IN_def VIRTIO_BLK_T_OUT_def)

interpretation vblk: block_device "disk_hal_read D ra junk" "disk_hal_write D ra junk"
    "\<lambda>v. cont (vdev v)" present "vblk_ok D cont idle present" for D ra junk cont idle present
proof
  fix v s
  assume "vblk_ok D cont idle present v"
  then show "length (cont (vdev v) s) = 512" by (auto simp: vblk_ok_def blk_device_def)
next
  fix v s b a
  assume "vblk_ok D cont idle present v" "present s" "512 \<le> length (b :: u8 list)"
  from disk_op_ok [OF this, of VIRTIO_BLK_T_IN ra junk a]
  show "\<exists>v'. disk_hal_read D ra junk s a b v = Inr (True, cont (vdev v) s @ drop 512 b, v') \<and>
      vblk_ok D cont idle present v' \<and> cont (vdev v') = cont (vdev v)"
    using blk_type_neq by (auto simp: disk_hal_read_def)
next
  fix v s b a
  assume "vblk_ok D cont idle present v" "present s" "512 \<le> length (b :: u8 list)"
  from disk_op_ok [OF this, of VIRTIO_BLK_T_OUT ra junk a]
  show "\<exists>v'. disk_hal_write D ra junk s a b v = Inr (True, v') \<and>
      vblk_ok D cont idle present v' \<and> cont (vdev v') = (cont (vdev v))(s := take 512 b)"
    using blk_type_neq by (auto simp: disk_hal_write_def)
qed


section \<open>The queue in its page\<close>

lemma and_not_mask: "t AND NOT (mask n) = t - (t AND mask n)" for t :: u64
proof -
  have "t AND NOT (mask n) = push_bit n (drop_bit n t)"
    by (rule bit_word_eqI) (auto simp: bit_simps)
  then show ?thesis by (metis add_diff_cancel_right' bits_ident take_bit_eq_mask)
qed

lemma align_next_bounds:
  assumes "unat t + 2 ^ n < 2 ^ 64"
  shows "unat t \<le> unat (align_next t (2 ^ n))" "unat (align_next t (2 ^ n)) < unat t + 2 ^ n"
proof -
  have "(2 :: nat) ^ n < 2 ^ 64" using assms by linarith
  then have n: "n < 64" by (simp only: power_strict_increasing_iff [of 2] one_less_numeral_iff semiring_norm)
  have m: "(2 ^ n :: u64) - 1 = mask n" by (simp add: mask_eq_decr_exp)
  have r: "unat (t AND mask n) = unat t mod 2 ^ n" by (rule word_and_mask_mod)
  then have le: "t AND mask n \<le> t" by (simp add: word_le_nat_alt)
  have lo: "unat (t AND NOT (mask n)) = unat t - unat t mod 2 ^ n"
    using unat_sub [OF le] by (simp add: and_not_mask r)
  have z: "t AND mask n = 0 \<longleftrightarrow> unat t mod 2 ^ n = 0" using r by (metis unsigned_eq_0_iff)
  have p: "unat (2 ^ n :: u64) = 2 ^ n"
    using \<open>(2 :: nat) ^ n < 2 ^ 64\<close> unsigned_of_nat [of "2 ^ n", where ?'a = nat and ?'b = 64] n
    by (simp add: take_bit_nat_eq_self)
  have "unat (align_next t (2 ^ n)) = (if unat t mod 2 ^ n = 0 then unat t else unat t - unat t mod 2 ^ n + 2 ^ n)"
  proof (cases "unat t mod 2 ^ n = 0")
    case True
    then show ?thesis using z lo by (simp add: align_next_def m)
  next
    case False
    have "unat (t AND NOT (mask n)) + unat (2 ^ n :: u64) < 2 ^ 64" using lo p assms by simp
    then show ?thesis using False z lo p by (simp add: align_next_def m unat_word_ariths)
  qed
  moreover have "T \<le> A \<and> A < T + P" if "A = (if R = 0 then T else T - R + P)" "R < P" "R \<le> T" for A T R P :: nat
    using that by (cases "R = 0") auto
  ultimately show "unat t \<le> unat (align_next t (2 ^ n))" "unat (align_next t (2 ^ n)) < unat t + 2 ^ n"
    by (meson mod_less_divisor mod_less_eq_dividend zero_less_numeral zero_less_power)+
qed

lemma queue_offsets:
  fixes m :: u32
  defines "n \<equiv> unat (queue_size_of m)"
  shows "n \<le> 150" "16 * n \<le> unat (avail_offset (queue_size_of m))"
    "unat (avail_offset (queue_size_of m)) + 6 + 2 * n \<le> unat (used_offset (queue_size_of m))"
    "unat (used_offset (queue_size_of m)) + 6 + 8 * n \<le> 4096"
proof -
  let ?q = "queue_size_of m"
  show n: "n \<le> 150"
    by (auto simp: n_def queue_size_of_def VIRTIO_QUEUE_MAX_SIZE_def word_less_nat_alt split: if_splits)
  have u: "unat (ucast ?q :: u64) = n" "unat (ucast ?q * 16 :: u64) = 16 * n"
    using n by (simp_all add: n_def unsigned_ucast_eq unat_word_ariths take_bit_nat_eq_self)
  have u6: "unat (ucast (?q * 2 + 6) :: u64) = 2 * n + 6"
    using n by (simp add: n_def unsigned_ucast_eq unat_word_ariths take_bit_nat_eq_self)
  have a: "16 * n \<le> unat (avail_offset ?q)" "unat (avail_offset ?q) < 16 * n + 2"
    using align_next_bounds [of "ucast ?q * 16" 1] u n by (simp_all add: avail_offset_def)
  have s: "unat (avail_offset ?q + ucast (?q * 2 + 6)) = unat (avail_offset ?q) + (2 * n + 6)"
    using a n u6 by (simp add: unat_word_ariths)
  have b: "unat (avail_offset ?q) + (2 * n + 6) \<le> unat (used_offset ?q)"
      "unat (used_offset ?q) < unat (avail_offset ?q) + (2 * n + 6) + 4"
    using align_next_bounds [of "avail_offset ?q + ucast (?q * 2 + 6)" 2] s a n by (simp_all add: used_offset_def)
  show "16 * n \<le> unat (avail_offset ?q)" "unat (avail_offset ?q) + 6 + 2 * n \<le> unat (used_offset ?q)"
    "unat (used_offset ?q) + 6 + 8 * n \<le> 4096"
    using a b n by linarith+
qed

lemma dpath_fresh:
  assumes "length ds = n" "n \<le> 150" "\<forall>i < n. d_next (ds ! i) = of_nat (i + 1)" "k \<le> n"
  shows "dpath ds (of_nat k) [k..<n] (of_nat n)"
  using assms(4)
proof (induction "n - k" arbitrary: k)
  case 0
  then show ?case by simp
next
  case (Suc x)
  then have k: "k < n" by simp
  have "ucast (of_nat (k + 1) :: u16) = (of_nat (k + 1) :: u64)" using k assms(2) by (intro small_ucast) simp
  then show ?case using Suc(1) [of "k + 1"] Suc(2) k assms by (simp add: upt_conv_Cons)
qed

section \<open>The properties\<close>

text \<open>C18. On a block device that behaves as the specification says, a sector written through the
  driver is read back, even after another sector was written in between, and both requests
  return their descriptors: the driver is ready for the next request.\<close>

theorem disk_write_read:
  assumes "vblk_ok D cont idle present v" "present s" "present s'" "s \<noteq> s'"
    and "512 \<le> length b" "512 \<le> length b'" "512 \<le> length c"
  shows "\<exists>v1 v2 v3. disk_hal_write D ra junk s a b v = Inr (True, v1) \<and>
           disk_hal_write D ra junk s' a' b' v1 = Inr (True, v2) \<and>
           disk_hal_read D ra junk s a'' c v2 = Inr (True, take 512 b @ drop 512 c, v3) \<and>
           vblk_ok D cont idle present v3 \<and>
           cont (vdev v3) = (cont (vdev v))(s := take 512 b, s' := take 512 b')"
  using vblk.write_write_read [OF assms] by blast

text \<open>C35. A new queue fits the page allocated for it: its table and its two rings, with the event
  words behind them, lie one after the other inside the 4096 bytes, for every number of
  descriptors asked for, from one on. All descriptors are free, in order.\<close>

theorem virtio_queue_alloc_fits:
  assumes "kh_pmem_alloc 0 k = Inr (pm, k1)" "pm \<noteq> 0" "kmalloc SIZEOF_VIRTIO_QUEUE k1 = Inr (p, k2)" "p \<noteq> 0"
    and "0 < m" "unat pm + 4096 < 2 ^ 64"
  shows "\<exists>q sh' n. virtio_queue_alloc m (k, sh) = Inr (p, q, k2, sh') \<and> n = min (unat m) 150 \<and>
     vq_inv n q sh' [0..<n] \<and> vq_desc q = pm \<and>
     unat pm + 16 * n \<le> unat (vq_avail q) \<and>
     vq_used_event q = vq_avail q + of_nat (4 + 2 * n) \<and> unat (vq_avail q) + 4 + 2 * n + 2 \<le> unat (vq_used q) \<and>
     vq_avail_event q = vq_used q + of_nat (4 + 8 * n) \<and> unat (vq_used q) + 4 + 8 * n + 2 \<le> unat pm + 4096"
proof -
  let ?s = "queue_size_of m"
  define N where "N = unat ?s"
  define sh' where "sh' = sh\<lparr>descs := map (\<lambda>i. \<lparr>d_addr = 0, d_len = 0, d_flags = 0, d_next = of_nat (i + 1)\<rparr>) [0..<N],
                 avail_flags := 0, avail_idx := 0, avail_ring := replicate N 0,
                 used_idx := 0, avail_event := 1, used_event := 0\<rparr>"
  define q where "q = \<lparr>vq_len = ucast ?s, free_idx = 0, vq_desc = pm, vq_avail = pm + avail_offset ?s,
               vq_used_event = pm + avail_offset ?s + 4 + 2 * ucast ?s, vq_used = pm + used_offset ?s,
               vq_avail_event = pm + used_offset ?s + 4 + 8 * ucast ?s\<rparr>"
  note o = queue_offsets [of m, folded N_def]
  have n: "N = min (unat m) 150"
    by (auto simp: N_def queue_size_of_def VIRTIO_QUEUE_MAX_SIZE_def word_less_nat_alt)
  have pos: "0 < N" using assms(5) n by (simp add: word_less_nat_alt)
  have r: "virtio_queue_alloc m (k, sh) = Inr (p, q, k2, sh')"
    using assms(1-4) by (simp add: virtio_queue_alloc_def Let_def q_def sh'_def N_def)
  have u: "ucast ?s = (of_nat N :: u64)" by (simp add: N_def of_nat_unat)
  have q: "vq_len q = of_nat N" "free_idx q = 0" "vq_desc q = pm" "vq_avail q = pm + avail_offset ?s"
      "vq_used q = pm + used_offset ?s" by (simp_all add: q_def u)
  have l: "length (descs sh') = N" "length (avail_ring sh') = N" by (simp_all add: sh'_def)
  have "dpath (descs sh') (of_nat 0) [0..<N] (of_nat N)"
    by (rule dpath_fresh [OF l(1) o(1)]) (simp_all add: sh'_def)
  then have "vq_inv N q sh' [0..<N]" using l pos o(1) q(1,2) by (simp add: vq_inv_def)
  moreover have "unat (pm + avail_offset ?s) = unat pm + unat (avail_offset ?s)"
      "unat (pm + used_offset ?s) = unat pm + unat (used_offset ?s)"
    using o assms(6) by (simp_all add: unat_word_ariths)
  moreover have "vq_used_event q = vq_avail q + of_nat (4 + 2 * N)" "vq_avail_event q = vq_used q + of_nat (4 + 8 * N)"
    by (simp_all add: q_def u add.assoc)
  ultimately show ?thesis using r n q o
    by (intro exI [of _ q] exI [of _ sh'] exI [of _ N]) simp
qed


section \<open>A device of memory\<close>

text \<open>A device that serves a request at once.\<close>

type_synonym ramdisk = "(u64 \<Rightarrow> u8 list) \<times> u32"

definition ram_mmio :: "ramdisk mmio" where
  "ram_mmio = \<lparr>
     mmio_read = (\<lambda>r (sh, d). (if r = Interrupt_status then snd d else 0, sh, d)),
     mmio_write = (\<lambda>r x (sh, c, i).
       if r = Queue_notify then (served_mem c (used_idx sh + 1) sh, served_disk sh c, 1)
       else if r = Interrupt_ack then (sh, c, i AND NOT x) else (sh, c, i))\<rparr>"

definition ram_idle :: "ramdisk \<Rightarrow> bool" where
  "ram_idle d \<longleftrightarrow> snd d = 0 \<and> (\<forall>s. length (fst d s) = 512)"

lemma ram_device: "blk_device ram_mmio fst ram_idle present n"
proof -
  have "wait_loop ram_mmio (mmio_write ram_mmio Queue_notify 0 (sh, d)) =
      Some (served_mem (fst d) (used_idx sh + 1) sh, served_disk sh (fst d), 1)" for sh d
    by (cases d) (simp add: wait_loop.simps ram_mmio_def)
  then show ?thesis unfolding blk_device_def
    by (auto simp: ram_mmio_def ram_idle_def served_disk_def intro!: exI)
qed

definition ram_queue :: "(u64 \<Rightarrow> u8 list) \<Rightarrow> vshared \<Rightarrow> ramdisk virtio_blk" where
  "ram_queue c sh = \<lparr>vq = \<lparr>vq_len = 3, free_idx = 0, vq_desc = 0, vq_avail = 0, vq_used_event = 0, vq_used = 0, vq_avail_event = 0\<rparr>,
     vmem = sh\<lparr>descs := map (\<lambda>i. \<lparr>d_addr = 0, d_len = 0, d_flags = 0, d_next = of_nat (i + 1)\<rparr>) [0..<3], avail_ring := [0, 0, 0]\<rparr>,
     vdev = (c, 0)\<rparr>"

lemma ram_queue_ok:
  assumes "\<And>s. length (c s) = 512"
  shows "vblk_ok ram_mmio fst ram_idle present (ram_queue c sh)"
proof -
  have "vq_inv 3 (vq (ram_queue c sh)) (vmem (ram_queue c sh)) [0, 1, 2]"
    by (simp add: vq_inv_def ram_queue_def upt_rec)
  then show ?thesis using ram_device assms
    by (auto simp: vblk_ok_def ram_queue_def ram_idle_def intro!: exI [of _ 3] exI [of _ "[0, 1, 2]"])
qed

abbreviation sevens :: "u64 \<Rightarrow> u8 list" where
  "sevens \<equiv> \<lambda>_. replicate 512 7"

theorem disk_write_read_witness:
  "\<forall>sh junk. \<exists>v1 v2 v3. disk_hal_write ram_mmio 64 junk 5 4096 (replicate 600 1) (ram_queue sevens sh) = Inr (True, v1) \<and>
     disk_hal_write ram_mmio 64 junk 6 4096 (replicate 512 2) v1 = Inr (True, v2) \<and>
     disk_hal_read ram_mmio 64 junk 5 8192 (replicate 513 3) v2 = Inr (True, replicate 512 1 @ [3], v3)"
proof (intro allI)
  fix sh junk
  show "\<exists>v1 v2 v3. disk_hal_write ram_mmio 64 junk 5 4096 (replicate 600 1) (ram_queue sevens sh) = Inr (True, v1) \<and>
     disk_hal_write ram_mmio 64 junk 6 4096 (replicate 512 2) v1 = Inr (True, v2) \<and>
     disk_hal_read ram_mmio 64 junk 5 8192 (replicate 513 3) v2 = Inr (True, replicate 512 1 @ [3], v3)"
  proof -
    have n: "(5 :: u64) \<noteq> 6" and l: "512 \<le> length (replicate 600 (1 :: u8))" "512 \<le> length (replicate 512 (2 :: u8))"
        "512 \<le> length (replicate 513 (3 :: u8))" by simp_all
    have d: "drop 512 (replicate 513 (3 :: u8)) = [3]" "take 512 (replicate 600 (1 :: u8)) = replicate 512 1"
      by (simp_all add: drop_replicate take_replicate)
    from disk_write_read [OF ram_queue_ok [of sevens "\<lambda>_. True" sh, OF length_replicate] TrueI TrueI n l, of 64 junk 4096 4096 8192] d
    show ?thesis by auto
  qed
qed

theorem virtio_queue_alloc_fits_witness:
  "\<forall>sh. \<exists>q k2 sh'. virtio_queue_alloc 200 (demo_heap, sh) = Inr (0x100000, q, k2, sh') \<and>
     vq_inv 150 q sh' [0..<150] \<and> unat (vq_used q) + 4 + 8 * 150 + 2 \<le> 12288 + 4096"
proof (intro allI)
  fix sh
  show "\<exists>q k2 sh'. virtio_queue_alloc 200 (demo_heap, sh) = Inr (0x100000, q, k2, sh') \<and>
     vq_inv 150 q sh' [0..<150] \<and> unat (vq_used q) + 4 + 8 * 150 + 2 \<le> 12288 + 4096"
  proof -
    obtain pm k1 p k2 where a: "kh_pmem_alloc 0 demo_heap = Inr (pm, k1)" "kmalloc 56 k1 = Inr (p, k2)"
        and v: "pm = 12288" "p = 0x100000"
      using demo_page_object by (auto simp: bindO_eq_Inr)
    show ?thesis
      using virtio_queue_alloc_fits [of demo_heap pm k1 p k2 200 sh] a v
      by (auto simp: SIZEOF_VIRTIO_QUEUE_def)
  qed
qed

end
