(* ===== verification/Bio.thy ===== *)
theory Bio
  imports Vblk KList Utils
begin

text \<open>
  Models the sector cache of \<open>kernel/fat32.c\<close> (the \<open>fat32_bio_\<close> functions): a buffer cut into
  slots, a flag and a sector number for each slot, and a list of the slots in use that is
  kept in the order of their last access, through which the least recently used slot is
  found. \<open>view\<close> is the disk as the file system sees it; every operation refines a read or a
  write of the view.
\<close>

section \<open>The state\<close>

datatype buf_node = Buf_seq | Buf_lists nat

text \<open>
  The fields of \<open>struct fat32_fs\<close> that the cache uses. \<open>buf\<close> is the address of the buffer and
  \<open>buf_mem\<close> the memory it points to.
\<close>

record 'd bio =
  disk :: "'d disk_hal"
  dsidx :: u32
  byte_per_sector :: u32
  buf :: u64
  buf_mem :: "u8 list"
  buf_num :: u32
  buf_flags :: "u8 list"
  buf_sidx :: "u32 list"
  buf_seq :: "buf_node lheap"

definition FAT32_BIO_FLAG_INVALID :: u8 where "FAT32_BIO_FLAG_INVALID = 0"
definition FAT32_BIO_FLAG_CLEAN :: u8 where "FAT32_BIO_FLAG_CLEAN = 1"
definition FAT32_BIO_FLAG_DIRTY :: u8 where "FAT32_BIO_FLAG_DIRTY = 2"
definition FAT32_BUF_INDEX_INVALID :: u32 where "FAT32_BUF_INDEX_INVALID = 0xffffffff"

lemmas bio_flags = FAT32_BIO_FLAG_INVALID_def FAT32_BIO_FLAG_CLEAN_def FAT32_BIO_FLAG_DIRTY_def

section \<open>The operations\<close>

text \<open>The offset of a slot in the buffer.\<close>

definition fat32_bio_bidx2addr :: "('d, 'a) bio_scheme \<Rightarrow> u32 \<Rightarrow> nat" where
  "fat32_bio_bidx2addr fs bidx = unat (byte_per_sector fs * bidx)"

text \<open>The loops that look for the first slot with a property.\<close>

fun first_slot :: "(nat \<Rightarrow> bool outcome) \<Rightarrow> nat list \<Rightarrow> u32 outcome" where
  "first_slot P [] = Inr FAT32_BUF_INDEX_INVALID"
| "first_slot P (i # is) = bindO (P i) (\<lambda>b. if b then Inr (of_nat i) else first_slot P is)"

definition fat32_bio_match_buffered :: "('d, 'a) bio_scheme \<Rightarrow> u32 \<Rightarrow> u32 outcome" where
  "fat32_bio_match_buffered fs sidx =
     first_slot (\<lambda>i. bindO (arr_get (buf_sidx fs) i) (\<lambda>s.
         if sidx = s then bindO (arr_get (buf_flags fs) i) (\<lambda>f. Inr (f \<noteq> FAT32_BIO_FLAG_INVALID))
         else Inr False))
       [0..<unat (buf_num fs)]"

definition fat32_bio_match_unbuffered :: "('d, 'a) bio_scheme \<Rightarrow> u32 outcome" where
  "fat32_bio_match_unbuffered fs =
     first_slot (\<lambda>i. bindO (arr_get (buf_flags fs) i) (\<lambda>f. Inr (f = FAT32_BIO_FLAG_INVALID)))
       [0..<unat (buf_num fs)]"

text \<open>With no slot in the list the source subtracts pointers into different objects.\<close>

definition fat32_bio_get_low_activity :: "('d, 'a) bio_scheme \<Rightarrow> u32 outcome" where
  "fat32_bio_get_low_activity fs =
     (case lnext (buf_seq fs) Buf_seq of Buf_lists i \<Rightarrow> Inr (of_nat i) | Buf_seq \<Rightarrow> Inl Undefined)"

definition fat32_bio_set_activity :: "u32 \<Rightarrow> ('d, 'a) bio_scheme \<Rightarrow> ('d, 'a) bio_scheme" where
  "fat32_bio_set_activity bbidx fs =
     (let n = Buf_lists (unat bbidx)
      in fs\<lparr>buf_seq := list_add_tail n Buf_seq (list_del n (buf_seq fs))\<rparr>)"

text \<open>The drivers get the address of the slot and the memory from there on.\<close>

definition disk_write :: "u32 \<Rightarrow> u32 \<Rightarrow> ('d, 'a) bio_scheme \<Rightarrow> ('d, 'a) bio_scheme outcome" where
  "disk_write sec bidx fs =
     (let off = fat32_bio_bidx2addr fs bidx in
      bindO (write_op (disk fs) (ucast sec) (buf fs + of_nat off) (drop off (buf_mem fs)) (dev (disk fs))) (\<lambda>(ok, d).
      Inr (fs\<lparr>disk := (disk fs)\<lparr>dev := d\<rparr>\<rparr>)))"

definition disk_read :: "u32 \<Rightarrow> u32 \<Rightarrow> ('d, 'a) bio_scheme \<Rightarrow> ('d, 'a) bio_scheme outcome" where
  "disk_read sec bidx fs =
     (let off = fat32_bio_bidx2addr fs bidx in
      bindO (read_op (disk fs) (ucast sec) (buf fs + of_nat off) (drop off (buf_mem fs)) (dev (disk fs))) (\<lambda>(ok, b, d).
      Inr (fs\<lparr>disk := (disk fs)\<lparr>dev := d\<rparr>, buf_mem := take off (buf_mem fs) @ b\<rparr>)))"

definition set_flag :: "u32 \<Rightarrow> u8 \<Rightarrow> ('d, 'a) bio_scheme \<Rightarrow> ('d, 'a) bio_scheme outcome" where
  "set_flag bidx f fs = bindO (arr_set (buf_flags fs) (unat bidx) f) (\<lambda>fl. Inr (fs\<lparr>buf_flags := fl\<rparr>))"

definition fat32_bio_writeback_no_check :: "u32 \<Rightarrow> ('d, 'a) bio_scheme \<Rightarrow> ('d, 'a) bio_scheme outcome" where
  "fat32_bio_writeback_no_check bidx fs =
     bindO (arr_get (buf_sidx fs) (unat bidx)) (\<lambda>s.
     bindO (disk_write (s + dsidx fs) bidx fs) (set_flag bidx FAT32_BIO_FLAG_CLEAN))"

definition fat32_bio_remove :: "u32 \<Rightarrow> ('d, 'a) bio_scheme \<Rightarrow> ('d, 'a) bio_scheme outcome" where
  "fat32_bio_remove bidx fs =
     bindO (arr_get (buf_flags fs) (unat bidx)) (\<lambda>f.
     bindO (if f = FAT32_BIO_FLAG_DIRTY then fat32_bio_writeback_no_check bidx fs else Inr fs) (\<lambda>fs.
     bindO (set_flag bidx FAT32_BIO_FLAG_INVALID fs) (\<lambda>fs.
     Inr (fs\<lparr>buf_seq := list_del (Buf_lists (unat bidx)) (buf_seq fs)\<rparr>))))"

definition fat32_bio_fetch :: "u32 \<Rightarrow> ('d, 'a) bio_scheme \<Rightarrow> (u32 \<times> ('d, 'a) bio_scheme) outcome" where
  "fat32_bio_fetch sidx fs =
     bindO (fat32_bio_match_unbuffered fs) (\<lambda>bidx.
     bindO (if bidx = FAT32_BUF_INDEX_INVALID
            then bindO (fat32_bio_get_low_activity fs) (\<lambda>bidx.
                 bindO (fat32_bio_remove bidx fs) (\<lambda>fs. Inr (bidx, fs)))
            else Inr (bidx, fs)) (\<lambda>(bidx, fs).
     bindO (disk_read (sidx + dsidx fs) bidx fs) (\<lambda>fs.
     bindO (set_flag bidx FAT32_BIO_FLAG_CLEAN fs) (\<lambda>fs.
     bindO (arr_set (buf_sidx fs) (unat bidx) sidx) (\<lambda>ss.
     Inr (bidx, fs\<lparr>buf_sidx := ss, buf_seq := list_add_tail (Buf_lists (unat bidx)) Buf_seq (buf_seq fs)\<rparr>))))))"

definition flush_slot :: "nat \<Rightarrow> ('d, 'a) bio_scheme \<Rightarrow> ('d, 'a) bio_scheme outcome" where
  "flush_slot i fs =
     bindO (arr_get (buf_flags fs) i) (\<lambda>f.
     if f = FAT32_BIO_FLAG_DIRTY then fat32_bio_writeback_no_check (of_nat i) fs else Inr fs)"

fun flush_slots :: "nat list \<Rightarrow> ('d, 'a) bio_scheme \<Rightarrow> ('d, 'a) bio_scheme outcome" where
  "flush_slots [] fs = Inr fs"
| "flush_slots (i # is) fs = bindO (flush_slot i fs) (flush_slots is)"

definition fat32_bio_flush :: "('d, 'a) bio_scheme \<Rightarrow> ('d, 'a) bio_scheme outcome" where
  "fat32_bio_flush fs = flush_slots [0..<unat (buf_num fs)] fs"

definition fat32_bio_access :: "u32 \<Rightarrow> ('d, 'a) bio_scheme \<Rightarrow> (u32 \<times> ('d, 'a) bio_scheme) outcome" where
  "fat32_bio_access cidx fs =
     bindO (fat32_bio_match_buffered fs cidx) (\<lambda>bidx.
     bindO (if bidx = FAT32_BUF_INDEX_INVALID then fat32_bio_fetch cidx fs else Inr (bidx, fs)) (\<lambda>(bidx, fs).
     Inr (bidx, fat32_bio_set_activity bidx fs)))"

text \<open>The result is the offset of the slot in the buffer.\<close>

definition fat32_bio_read :: "u32 \<Rightarrow> ('d, 'a) bio_scheme \<Rightarrow> (nat \<times> ('d, 'a) bio_scheme) outcome" where
  "fat32_bio_read sidx fs =
     bindO (fat32_bio_access sidx fs) (\<lambda>(bidx, fs). Inr (fat32_bio_bidx2addr fs bidx, fs))"

definition fat32_bio_write :: "u32 \<Rightarrow> ('d, 'a) bio_scheme \<Rightarrow> (nat \<times> ('d, 'a) bio_scheme) outcome" where
  "fat32_bio_write sidx fs =
     bindO (fat32_bio_access sidx fs) (\<lambda>(bidx, fs).
     bindO (set_flag bidx FAT32_BIO_FLAG_DIRTY fs) (\<lambda>fs. Inr (fat32_bio_bidx2addr fs bidx, fs)))"

text \<open>\<open>memcpy\<close> between two objects: bytes read from one and stored into the other.\<close>

definition read_bytes :: "nat \<Rightarrow> nat \<Rightarrow> u8 list \<Rightarrow> u8 list outcome" where
  "read_bytes off n xs = guardO Undefined (off + n \<le> length xs) (Inr (take n (drop off xs)))"

definition write_bytes :: "nat \<Rightarrow> u8 list \<Rightarrow> u8 list \<Rightarrow> u8 list outcome" where
  "write_bytes off ys xs = guardO Undefined (off + length ys \<le> length xs)
     (Inr (take off xs @ ys @ drop (off + length ys) xs))"

text \<open>\<open>out\<close> is the caller's buffer.\<close>

definition fat32_bio_read_copy :: "u32 \<Rightarrow> u32 \<Rightarrow> u8 list \<Rightarrow> u32 \<Rightarrow> ('d, 'a) bio_scheme \<Rightarrow>
    (u32 \<times> u8 list \<times> ('d, 'a) bio_scheme) outcome" where
  "fat32_bio_read_copy cidx offset out buf_len fs =
     bindO (fat32_bio_match_buffered fs cidx) (\<lambda>bidx.
     let len = (ucast (min_u64 (ucast (byte_per_sector fs - offset)) (ucast buf_len)) :: u32) in
     bindO (if bidx = FAT32_BUF_INDEX_INVALID then fat32_bio_fetch cidx fs else Inr (bidx, fs)) (\<lambda>(bidx, fs).
     bindO (read_bytes (fat32_bio_bidx2addr fs bidx + unat offset) (unat len) (buf_mem fs)) (\<lambda>bs.
     bindO (write_bytes 0 bs out) (\<lambda>out.
     Inr (len, out, fat32_bio_set_activity bidx fs)))))"

definition fat32_bio_write_copy :: "u32 \<Rightarrow> u32 \<Rightarrow> u8 list \<Rightarrow> u32 \<Rightarrow> ('d, 'a) bio_scheme \<Rightarrow>
    (u32 \<times> ('d, 'a) bio_scheme) outcome" where
  "fat32_bio_write_copy cidx offset inp buf_len fs =
     bindO (fat32_bio_match_buffered fs cidx) (\<lambda>bidx.
     let len = (ucast (min_u64 (ucast (byte_per_sector fs - offset)) (ucast buf_len)) :: u32) in
     bindO (if bidx = FAT32_BUF_INDEX_INVALID then fat32_bio_fetch cidx fs else Inr (bidx, fs)) (\<lambda>(bidx, fs).
     bindO (read_bytes 0 (unat len) inp) (\<lambda>bs.
     bindO (write_bytes (fat32_bio_bidx2addr fs bidx + unat offset) bs (buf_mem fs)) (\<lambda>mem.
     bindO (set_flag bidx FAT32_BIO_FLAG_DIRTY (fs\<lparr>buf_mem := mem\<rparr>)) (\<lambda>fs.
     Inr (len, fat32_bio_set_activity bidx fs))))))"

end
