(* ===== verification/Bio_Inv.thy ===== *)
theory Bio_Inv
  imports Bio
begin

text \<open>
  The invariant of the sector cache and its refinement: \<open>view\<close> is the disk that the file
  system sees, the sectors of the slots in use over the sectors of the device. The lemmas
  are proved over any \<open>block_device\<close>; the properties at the end are those of the cache over
  the driver of \<open>Vblk\<close>.
\<close>

section \<open>Invariant and view\<close>

definition slot :: "('d, 'a) bio_scheme \<Rightarrow> nat \<Rightarrow> u8 list" where
  "slot fs i = take 512 (drop (512 * i) (buf_mem fs))"

definition in_use :: "('d, 'a) bio_scheme \<Rightarrow> nat \<Rightarrow> bool" where
  "in_use fs i \<longleftrightarrow> i < unat (buf_num fs) \<and> buf_flags fs ! i \<noteq> FAT32_BIO_FLAG_INVALID"

definition dsec :: "('d, 'a) bio_scheme \<Rightarrow> u32 \<Rightarrow> u64" where
  "dsec fs s = ucast (s + dsidx fs)"

text \<open>\<open>xs\<close> are the slots in use, the least recently used one first.\<close>

definition bio_inv :: "('d \<Rightarrow> u64 \<Rightarrow> u8 list) \<Rightarrow> (u64 \<Rightarrow> bool) \<Rightarrow> ('d \<Rightarrow> bool) \<Rightarrow> ('d, 'a) bio_scheme \<Rightarrow> nat list \<Rightarrow> bool" where
  "bio_inv content present ok fs xs \<longleftrightarrow>
     byte_per_sector fs = 512 \<and> 0 < unat (buf_num fs) \<and> 512 * unat (buf_num fs) < 2 ^ 32 \<and>
     length (buf_flags fs) = unat (buf_num fs) \<and> length (buf_sidx fs) = unat (buf_num fs) \<and>
     512 * unat (buf_num fs) \<le> length (buf_mem fs) \<and> ok (dev (disk fs)) \<and>
     dlist (buf_seq fs) Buf_seq (map Buf_lists xs) \<and> set xs = Collect (in_use fs) \<and>
     inj_on ((!) (buf_sidx fs)) (set xs) \<and>
     (\<forall>i \<in> set xs. buf_flags fs ! i \<in> {FAT32_BIO_FLAG_CLEAN, FAT32_BIO_FLAG_DIRTY} \<and>
        present (dsec fs (buf_sidx fs ! i)) \<and>
        (buf_flags fs ! i = FAT32_BIO_FLAG_CLEAN \<longrightarrow> slot fs i = content (dev (disk fs)) (dsec fs (buf_sidx fs ! i))))"

definition view :: "('d \<Rightarrow> u64 \<Rightarrow> u8 list) \<Rightarrow> ('d, 'a) bio_scheme \<Rightarrow> u32 \<Rightarrow> u8 list" where
  "view content fs s =
     (case find (\<lambda>i. buf_sidx fs ! i = s \<and> buf_flags fs ! i \<noteq> FAT32_BIO_FLAG_INVALID) [0..<unat (buf_num fs)] of
        Some i \<Rightarrow> slot fs i
      | None \<Rightarrow> content (dev (disk fs)) (dsec fs s))"

text \<open>What no operation of the cache changes.\<close>

definition same_vol :: "('d, 'a) bio_scheme \<Rightarrow> ('d, 'a) bio_scheme \<Rightarrow> bool" where
  "same_vol fs fs' \<longleftrightarrow> read_op (disk fs') = read_op (disk fs) \<and> write_op (disk fs') = write_op (disk fs) \<and>
     disk_hal.more (disk fs') = disk_hal.more (disk fs) \<and>
     dsidx fs' = dsidx fs \<and> byte_per_sector fs' = byte_per_sector fs \<and> buf fs' = buf fs \<and>
     buf_num fs' = buf_num fs \<and> length (buf_mem fs') = length (buf_mem fs) \<and> bio.more fs' = bio.more fs"

lemma same_vol_refl [simp]: "same_vol fs fs"
  by (simp add: same_vol_def)

lemma same_vol_trans [trans]: "same_vol a b \<Longrightarrow> same_vol b c \<Longrightarrow> same_vol a c"
  by (simp add: same_vol_def)

lemma same_vol_dsec: "same_vol fs fs' \<Longrightarrow> dsec fs' = dsec fs"
  by (rule ext) (simp add: same_vol_def dsec_def)

lemma dsec_inj: "dsec fs s = dsec fs t \<longleftrightarrow> s = t"
proof -
  have u: "unat (ucast x :: u64) = unat x" for x :: u32
  proof -
    have "unat x < 2 ^ 32" using unsigned_less [of x] by simp
    then have "unat x < 2 ^ 64" by (rule less_trans) simp
    then show ?thesis by (simp add: unsigned_ucast_eq take_bit_nat_eq_self)
  qed
  have inj: "x = y" if "ucast x = (ucast y :: u64)" for x y :: u32
    using arg_cong [OF that, of unat] unfolding u by (rule unsigned_word_eqI)
  show ?thesis unfolding dsec_def by (auto dest!: inj)
qed

lemma find_unique: "i \<in> set is \<Longrightarrow> P i \<Longrightarrow> (\<forall>k \<in> set is. P k \<longrightarrow> k = i) \<Longrightarrow> find P is = Some i"
proof (induction "is")
  case (Cons a as)
  show ?case
  proof (cases "P a")
    case True
    then have "a = i" using Cons.prems(3) by (meson list.set_intros(1))
    then show ?thesis using True by simp
  next
    case False
    then have "i \<in> set as" using Cons.prems(1,2) by auto
    then have "find P as = Some i" using Cons.IH Cons.prems(2,3) by (meson list.set_intros(2))
    then show ?thesis using False by simp
  qed
qed simp

lemma view_char:
  assumes "bio_inv content present ok fs xs"
  shows "i \<in> set xs \<Longrightarrow> view content fs (buf_sidx fs ! i) = slot fs i"
    "(\<forall>i \<in> set xs. buf_sidx fs ! i \<noteq> s) \<Longrightarrow> view content fs s = content (dev (disk fs)) (dsec fs s)"
proof -
  have xs: "set xs = Collect (in_use fs)" "inj_on ((!) (buf_sidx fs)) (set xs)" using assms by (auto simp: bio_inv_def)
  show "view content fs (buf_sidx fs ! i) = slot fs i" if i: "i \<in> set xs"
  proof -
    let ?P = "\<lambda>k. buf_sidx fs ! k = buf_sidx fs ! i \<and> buf_flags fs ! k \<noteq> FAT32_BIO_FLAG_INVALID"
    have "find ?P [0..<unat (buf_num fs)] = Some i"
      using i xs by (intro find_unique) (auto simp: in_use_def dest: inj_onD)
    then show ?thesis by (simp add: view_def)
  qed
  show "view content fs s = content (dev (disk fs)) (dsec fs s)" if "\<forall>i \<in> set xs. buf_sidx fs ! i \<noteq> s"
  proof -
    have "find (\<lambda>i. buf_sidx fs ! i = s \<and> buf_flags fs ! i \<noteq> FAT32_BIO_FLAG_INVALID) [0..<unat (buf_num fs)] = None"
      using that xs(1) by (auto simp: find_None_iff in_use_def)
    then show ?thesis by (simp add: view_def)
  qed
qed

lemma bio_invD:
  assumes "bio_inv content present ok fs xs"
  shows "byte_per_sector fs = 512" "0 < unat (buf_num fs)" "512 * unat (buf_num fs) < 2 ^ 32"
    "length (buf_flags fs) = unat (buf_num fs)" "length (buf_sidx fs) = unat (buf_num fs)"
    "512 * unat (buf_num fs) \<le> length (buf_mem fs)" "ok (dev (disk fs))"
    "dlist (buf_seq fs) Buf_seq (map Buf_lists xs)" "set xs = Collect (in_use fs)"
    "inj_on ((!) (buf_sidx fs)) (set xs)" "distinct xs"
    "\<And>i. i \<in> set xs \<Longrightarrow> i < unat (buf_num fs)"
    "\<And>i. i \<in> set xs \<Longrightarrow> present (dsec fs (buf_sidx fs ! i))"
    "\<And>i. i \<in> set xs \<Longrightarrow> buf_flags fs ! i = FAT32_BIO_FLAG_CLEAN \<or> buf_flags fs ! i = FAT32_BIO_FLAG_DIRTY"
    "\<And>i. i \<in> set xs \<Longrightarrow> buf_flags fs ! i = FAT32_BIO_FLAG_CLEAN \<Longrightarrow> slot fs i = content (dev (disk fs)) (dsec fs (buf_sidx fs ! i))"
  using assms by (auto simp: bio_inv_def in_use_def dlist_def distinct_map)

section \<open>Slots\<close>

lemma bidx_small:
  assumes "bio_inv content present ok fs xs" "i < unat (buf_num fs)"
  shows "unat (of_nat i :: u32) = i" "of_nat i \<noteq> FAT32_BUF_INDEX_INVALID" "fat32_bio_bidx2addr fs (of_nat i) = 512 * i"
    "512 * i + 512 \<le> length (buf_mem fs)"
proof -
  have b: "512 * i + 512 < 2 ^ 32" "512 * i + 512 \<le> length (buf_mem fs)"
    using bio_invD(3,6) [OF assms(1)] assms(2) by linarith+
  then show i: "unat (of_nat i :: u32) = i" by (simp add: unsigned_of_nat take_bit_nat_eq_self)
  show "512 * i + 512 \<le> length (buf_mem fs)" by (rule b)
  show "of_nat i \<noteq> FAT32_BUF_INDEX_INVALID"
  proof
    assume "of_nat i = FAT32_BUF_INDEX_INVALID"
    then have "i = unat FAT32_BUF_INDEX_INVALID" using i by simp
    then show False using b by (simp add: FAT32_BUF_INDEX_INVALID_def)
  qed
  show "fat32_bio_bidx2addr fs (of_nat i) = 512 * i"
    using b i bio_invD(1) [OF assms(1)] by (simp add: fat32_bio_bidx2addr_def unat_word_ariths)
qed

lemma first_slot_char:
  assumes "\<forall>i \<in> set is. P i = Inr (Q i)"
  shows "first_slot P is = Inr (case find Q is of Some i \<Rightarrow> of_nat i | None \<Rightarrow> FAT32_BUF_INDEX_INVALID)"
  using assms by (induction "is") auto

lemma match_buffered:
  assumes inv: "bio_inv content present ok fs xs"
  shows "i \<in> set xs \<Longrightarrow> fat32_bio_match_buffered fs (buf_sidx fs ! i) = Inr (of_nat i)"
    "(\<forall>i \<in> set xs. buf_sidx fs ! i \<noteq> s) \<Longrightarrow> fat32_bio_match_buffered fs s = Inr FAT32_BUF_INDEX_INVALID"
proof -
  let ?Q = "\<lambda>s i. s = buf_sidx fs ! i \<and> buf_flags fs ! i \<noteq> FAT32_BIO_FLAG_INVALID"
  note d = bio_invD [OF inv]
  have m: "fat32_bio_match_buffered fs s =
      Inr (case find (?Q s) [0..<unat (buf_num fs)] of Some i \<Rightarrow> of_nat i | None \<Rightarrow> FAT32_BUF_INDEX_INVALID)" for s
    unfolding fat32_bio_match_buffered_def by (rule first_slot_char) (auto simp: d(4,5))
  show "fat32_bio_match_buffered fs (buf_sidx fs ! i) = Inr (of_nat i)" if i: "i \<in> set xs"
  proof -
    have "find (?Q (buf_sidx fs ! i)) [0..<unat (buf_num fs)] = Some i"
      using i d(9,10) by (intro find_unique) (auto simp: in_use_def dest: inj_onD)
    then show ?thesis using m by simp
  qed
  show "fat32_bio_match_buffered fs s = Inr FAT32_BUF_INDEX_INVALID" if "\<forall>i \<in> set xs. buf_sidx fs ! i \<noteq> s"
  proof -
    have "find (?Q s) [0..<unat (buf_num fs)] = None" using that d(9) by (auto simp: find_None_iff in_use_def)
    then show ?thesis using m by simp
  qed
qed

lemma match_unbuffered:
  assumes inv: "bio_inv content present ok fs xs"
  shows "(\<exists>i < unat (buf_num fs). i \<notin> set xs \<and> fat32_bio_match_unbuffered fs = Inr (of_nat i)) \<or>
     (fat32_bio_match_unbuffered fs = Inr FAT32_BUF_INDEX_INVALID \<and> xs \<noteq> [])"
proof -
  let ?Q = "\<lambda>i. buf_flags fs ! i = FAT32_BIO_FLAG_INVALID"
  note d = bio_invD [OF inv]
  have m: "fat32_bio_match_unbuffered fs =
      Inr (case find ?Q [0..<unat (buf_num fs)] of Some i \<Rightarrow> of_nat i | None \<Rightarrow> FAT32_BUF_INDEX_INVALID)"
    unfolding fat32_bio_match_unbuffered_def by (rule first_slot_char) (auto simp: d(4))
  show ?thesis
  proof (cases "find ?Q [0..<unat (buf_num fs)]")
    case None
    then have "in_use fs 0" using d(2) by (auto simp: find_None_iff in_use_def)
    then show ?thesis using m None d(9) by auto
  next
    case (Some i)
    then have "i < unat (buf_num fs)" "?Q i" by (auto simp: find_Some_iff)
    then show ?thesis using m Some d(9) by (auto simp: in_use_def)
  qed
qed


lemma view_out:
  assumes "bio_inv content present ok fs xs" "s \<notin> (!) (buf_sidx fs) ` set xs"
  shows "view content fs s = content (dev (disk fs)) (dsec fs s)"
  using view_char(2) [OF assms(1), of s] assms(2) by blast

lemma view_eqI:
  assumes "bio_inv content present ok fs' xs'"
    and "\<And>i. i \<in> set xs' \<Longrightarrow> slot fs' i = v (buf_sidx fs' ! i)"
    and "\<And>s. s \<notin> (!) (buf_sidx fs') ` set xs' \<Longrightarrow> content (dev (disk fs')) (dsec fs' s) = v s"
  shows "view content fs' = v"
proof
  fix s
  show "view content fs' s = v s"
  proof (cases "s \<in> (!) (buf_sidx fs') ` set xs'")
    case True
    then obtain i where "i \<in> set xs'" "s = buf_sidx fs' ! i" by blast
    then show ?thesis using view_char(1) [OF assms(1)] assms(2) by simp
  next
    case False
    then show ?thesis using view_out [OF assms(1)] assms(3) by simp
  qed
qed

lemma slot_splice:
  assumes "length c = 512" "512 * i + 512 \<le> length m"
  shows "take 512 (drop (512 * k) (take (512 * i) m @ c @ drop 512 (drop (512 * i) m))) =
    (if k = i then c else take 512 (drop (512 * k) m))"
proof (cases "k = i")
  case True
  then show ?thesis using assms by simp
next
  case False
  then consider "512 * k + 512 \<le> 512 * i" | "512 * i + 512 \<le> 512 * k" by linarith
  then have "take 512 (drop (512 * k) (take (512 * i) m @ c @ drop 512 (drop (512 * i) m))) = take 512 (drop (512 * k) m)"
  proof cases
    case 1
    then show ?thesis using assms by (intro nth_equalityI) (auto simp: nth_append)
  next
    case 2
    then show ?thesis using assms by (intro nth_equalityI) (auto simp: nth_append)
  qed
  then show ?thesis using False by simp
qed

lemma write_bytes_slot:
  assumes "512 * i + 512 \<le> length m" "p + length bs \<le> 512"
  shows "write_bytes (512 * i + p) bs m =
    Inr (take (512 * i) m @ (take p (take 512 (drop (512 * i) m)) @ bs @ drop (p + length bs) (take 512 (drop (512 * i) m))) @
         drop 512 (drop (512 * i) m))"
proof -
  let ?s = "take 512 (drop (512 * i) m)"
  have "take (512 * i + p) m = take (512 * i) m @ take p ?s"
    using assms(2) by (simp add: take_add min_def)
  moreover have "drop (512 * i + p + length bs) m = drop (p + length bs) ?s @ drop 512 (drop (512 * i) m)"
  proof -
    have "drop (512 * i) m = ?s @ drop 512 (drop (512 * i) m)" by (metis append_take_drop_id)
    moreover have "length ?s = 512" using assms(1) by simp
    ultimately have "drop (p + length bs) (drop (512 * i) m) = drop (p + length bs) ?s @ drop 512 (drop (512 * i) m)"
      using assms(2) drop_append [of "p + length bs" ?s "drop 512 (drop (512 * i) m)"] by simp
    moreover have "512 * i + p + length bs = (p + length bs) + 512 * i" by simp
    ultimately show ?thesis by (simp only: drop_drop)
  qed
  ultimately show ?thesis using assms by (simp add: write_bytes_def)
qed

section \<open>The steps of an access\<close>

context block_device begin

lemma writeback_ok:
  assumes inv: "bio_inv content present ok fs xs" and dv: "write_op (disk fs) = write" and i: "i \<in> set xs"
  shows "\<exists>d. fat32_bio_writeback_no_check (of_nat i) fs =
      Inr (fs\<lparr>disk := (disk fs)\<lparr>dev := d\<rparr>, buf_flags := (buf_flags fs)[i := FAT32_BIO_FLAG_CLEAN]\<rparr>) \<and> ok d \<and>
      content d = (content (dev (disk fs)))(dsec fs (buf_sidx fs ! i) := slot fs i)"
proof -
  note d = bio_invD [OF inv]
  note b = bidx_small [OF inv d(12) [OF i]]
  have "512 \<le> length (drop (512 * i) (buf_mem fs))" using b(4) by simp
  from write_ok [OF d(7) d(13) [OF i] this, of "buf fs + of_nat (512 * i)"]
  obtain e where "write (dsec fs (buf_sidx fs ! i)) (buf fs + of_nat (512 * i)) (drop (512 * i) (buf_mem fs)) (dev (disk fs)) = Inr (True, e)"
    "ok e" "content e = (content (dev (disk fs)))(dsec fs (buf_sidx fs ! i) := slot fs i)"
    by (auto simp: slot_def)
  then show ?thesis using b d(4,5) d(12) [OF i] dv
    by (intro exI [of _ e]) (simp add: fat32_bio_writeback_no_check_def disk_write_def set_flag_def Let_def dsec_def)
qed

text \<open>After a slot was written back its sector is the one on the device, and nothing else changed.\<close>

lemma clean_inv:
  assumes inv: "bio_inv content present ok fs xs" and i: "i \<in> set xs"
    and d: "ok d" "content d = (content (dev (disk fs)))(dsec fs (buf_sidx fs ! i) := slot fs i)"
    and fs': "fs' = fs\<lparr>disk := (disk fs)\<lparr>dev := d\<rparr>, buf_flags := (buf_flags fs)[i := FAT32_BIO_FLAG_CLEAN]\<rparr>"
  shows "bio_inv content present ok fs' xs" "view content fs' = view content fs"
proof -
  note v = bio_invD [OF inv]
  have fl: "buf_flags fs' ! k = (if k = i then FAT32_BIO_FLAG_CLEAN else buf_flags fs ! k)" for k
    using v(4) v(12) [OF i] by (simp add: fs')
  have num: "buf_num fs' = buf_num fs" by (simp add: fs')
  have u: "in_use fs' k \<longleftrightarrow> in_use fs k" for k
    using i v(9) by (cases "k = i") (auto simp: in_use_def fl num bio_flags)
  have s: "slot fs' k = slot fs k" "dsec fs' = dsec fs" for k by (auto simp: fs' slot_def dsec_def)
  have c: "content d (dsec fs (buf_sidx fs ! k)) = (if k = i then slot fs i else content (dev (disk fs)) (dsec fs (buf_sidx fs ! k)))"
    if "k \<in> set xs" for k
    using that i v(10) by (auto simp: d(2) dsec_inj dest: inj_onD)
  show inv': "bio_inv content present ok fs' xs"
    unfolding bio_inv_def s fl using v u c d(1) by (auto simp: fs')
  show "view content fs' = view content fs"
  proof (rule view_eqI [OF inv'])
    fix k assume "k \<in> set xs"
    then show "slot fs' k = view content fs (buf_sidx fs' ! k)" using view_char(1) [OF inv] s by (simp add: fs')
  next
    fix s' assume n: "s' \<notin> (!) (buf_sidx fs') ` set xs"
    then have "s' \<noteq> buf_sidx fs ! i" using i by (auto simp: fs')
    then have "content (dev (disk fs')) (dsec fs' s') = content (dev (disk fs)) (dsec fs s')"
      unfolding s using d(2) by (simp add: fs' dsec_inj)
    moreover have "s' \<notin> (!) (buf_sidx fs) ` set xs" using n by (simp add: fs')
    ultimately show "content (dev (disk fs')) (dsec fs' s') = view content fs s'"
      using view_out [OF inv] by simp
  qed
qed

lemma remove_ok:
  assumes inv: "bio_inv content present ok fs (ys @ i # zs)" and dv: "write_op (disk fs) = write"
  shows "\<exists>fs'. fat32_bio_remove (of_nat i) fs = Inr fs' \<and> bio_inv content present ok fs' (ys @ zs) \<and>
           same_vol fs fs' \<and> view content fs' = view content fs \<and> \<not> in_use fs' i \<and> buf_sidx fs' = buf_sidx fs"
proof -
  let ?xs = "ys @ i # zs"
  have i: "i \<in> set ?xs" by simp
  note v = bio_invD [OF inv]
  note b = bidx_small [OF inv v(12) [OF i]]
  obtain fs1 where fs1: "(if buf_flags fs ! i = FAT32_BIO_FLAG_DIRTY then fat32_bio_writeback_no_check (of_nat i) fs else Inr fs) = Inr fs1"
      "bio_inv content present ok fs1 ?xs" "view content fs1 = view content fs" "same_vol fs fs1"
      "buf_flags fs1 ! i = FAT32_BIO_FLAG_CLEAN" "buf_sidx fs1 = buf_sidx fs"
  proof (cases "buf_flags fs ! i = FAT32_BIO_FLAG_DIRTY")
    case True
    obtain d where w: "fat32_bio_writeback_no_check (of_nat i) fs =
          Inr (fs\<lparr>disk := (disk fs)\<lparr>dev := d\<rparr>, buf_flags := (buf_flags fs)[i := FAT32_BIO_FLAG_CLEAN]\<rparr>)" "ok d"
        "content d = (content (dev (disk fs)))(dsec fs (buf_sidx fs ! i) := slot fs i)"
      using writeback_ok [OF inv dv i] by blast
    show ?thesis
      by (rule that [OF _ clean_inv [OF inv i w(2,3) refl]])
        (use True w(1) v(4) v(12) [OF i] in \<open>simp_all add: same_vol_def\<close>)
  next
    case False
    then show ?thesis using that [OF _ inv refl] v(14) [OF i] by simp
  qed
  note w = bio_invD [OF fs1(2)]
  define fs' where "fs' = fs1\<lparr>buf_flags := (buf_flags fs1)[i := FAT32_BIO_FLAG_INVALID],
      buf_seq := list_del (Buf_lists i) (buf_seq fs1)\<rparr>"
  have r: "fat32_bio_remove (of_nat i) fs = Inr fs'"
    using fs1(1) b(1) v(4) v(12) [OF i] w(4) w(12) [OF i]
    by (simp add: fat32_bio_remove_def set_flag_def fs'_def)
  have fl: "buf_flags fs' ! k = (if k = i then FAT32_BIO_FLAG_INVALID else buf_flags fs1 ! k)" for k
    using w(4) w(12) [OF i] by (simp add: fs'_def)
  have num: "buf_num fs' = buf_num fs1" "buf_sidx fs' = buf_sidx fs1" "disk fs' = disk fs1" by (simp_all add: fs'_def)
  have u: "in_use fs' k \<longleftrightarrow> in_use fs1 k \<and> k \<noteq> i" for k by (auto simp: in_use_def fl num)
  have s: "slot fs' k = slot fs1 k" "dsec fs' = dsec fs1" for k by (auto simp: fs'_def slot_def dsec_def)
  have st: "set (ys @ zs) = set ?xs - {i}" using w(11) by auto
  have dl: "dlist (buf_seq fs') Buf_seq (map Buf_lists (ys @ zs))"
    using w(8) klist.del by (simp add: fs'_def)
  have inv': "bio_inv content present ok fs' (ys @ zs)"
    unfolding bio_inv_def s fl num
    using w dl st u by (auto simp: fs'_def intro: inj_on_subset)
  have "view content fs' = view content fs1"
  proof (rule view_eqI [OF inv'])
    fix k assume "k \<in> set (ys @ zs)"
    then show "slot fs' k = view content fs1 (buf_sidx fs' ! k)"
      using view_char(1) [OF fs1(2), of k] s num st by auto
  next
    fix s' assume n: "s' \<notin> (!) (buf_sidx fs') ` set (ys @ zs)"
    show "content (dev (disk fs')) (dsec fs' s') = view content fs1 s'"
    proof (cases "s' = buf_sidx fs1 ! i")
      case True
      then show ?thesis using view_char(1) [OF fs1(2) i] w(15) [OF i] fs1(5) s num by simp
    next
      case False
      then have "s' \<notin> (!) (buf_sidx fs1) ` set ?xs" using n num by auto
      then show ?thesis using view_out [OF fs1(2)] s num by simp
    qed
  qed
  moreover have "same_vol fs1 fs'" by (simp add: same_vol_def fs'_def)
  moreover have "\<not> in_use fs' i" by (simp add: u)
  moreover have "buf_sidx fs' = buf_sidx fs" using fs1(6) num by simp
  ultimately show ?thesis using r inv' fs1(3,4) same_vol_trans by fastforce
qed

text \<open>Loading a sector that no slot holds into a slot that is not in use.\<close>

lemma load_ok:
  assumes inv: "bio_inv content present ok fs xs" and dv: "read_op (disk fs) = read"
    and i: "i < unat (buf_num fs)" "i \<notin> set xs" and s: "s \<notin> (!) (buf_sidx fs) ` set xs" "present (dsec fs s)"
  shows "\<exists>fs'. bindO (disk_read (s + dsidx fs) (of_nat i) fs) (\<lambda>fs.
            bindO (set_flag (of_nat i) FAT32_BIO_FLAG_CLEAN fs) (\<lambda>fs.
            bindO (arr_set (buf_sidx fs) (unat (of_nat i :: u32)) s) (\<lambda>ss.
            Inr (of_nat i :: u32, fs\<lparr>buf_sidx := ss, buf_seq := list_add_tail (Buf_lists (unat (of_nat i :: u32))) Buf_seq (buf_seq fs)\<rparr>))))
          = Inr (of_nat i, fs') \<and> bio_inv content present ok fs' (xs @ [i]) \<and> same_vol fs fs' \<and>
          view content fs' = view content fs \<and> buf_sidx fs' ! i = s"
proof -
  note v = bio_invD [OF inv]
  note b = bidx_small [OF inv i(1)]
  have "512 \<le> length (drop (512 * i) (buf_mem fs))" using b(4) by simp
  from read_ok [OF v(7) s(2) this, of "buf fs + of_nat (512 * i)"]
  obtain d where d: "read (dsec fs s) (buf fs + of_nat (512 * i)) (drop (512 * i) (buf_mem fs)) (dev (disk fs)) =
      Inr (True, content (dev (disk fs)) (dsec fs s) @ drop 512 (drop (512 * i) (buf_mem fs)), d)" "ok d"
      "content d = content (dev (disk fs))" by auto
  let ?c = "content (dev (disk fs)) (dsec fs s)"
  define fs' where "fs' = fs\<lparr>disk := (disk fs)\<lparr>dev := d\<rparr>,
      buf_mem := take (512 * i) (buf_mem fs) @ ?c @ drop 512 (drop (512 * i) (buf_mem fs)),
      buf_flags := (buf_flags fs)[i := FAT32_BIO_FLAG_CLEAN], buf_sidx := (buf_sidx fs)[i := s],
      buf_seq := list_add_tail (Buf_lists i) Buf_seq (buf_seq fs)\<rparr>"
  have c: "length ?c = 512" using sector_size [OF v(7)] by simp
  have fl: "buf_flags fs' ! k = (if k = i then FAT32_BIO_FLAG_CLEAN else buf_flags fs ! k)"
      "buf_sidx fs' ! k = (if k = i then s else buf_sidx fs ! k)" for k
    using v(4,5) i by (simp_all add: fs'_def)
  have num: "buf_num fs' = buf_num fs" "dev (disk fs') = d" by (simp_all add: fs'_def)
  have u: "in_use fs' k \<longleftrightarrow> in_use fs k \<or> k = i" for k using i(1) by (auto simp: in_use_def fl num bio_flags)
  have sl: "slot fs' k = (if k = i then ?c else slot fs k)" for k
    using slot_splice [OF c b(4)] by (simp add: slot_def fs'_def)
  have ds: "dsec fs' = dsec fs" by (auto simp: fs'_def dsec_def)
  have len: "length (buf_mem fs') = length (buf_mem fs)" using b(4) c by (simp add: fs'_def)
  have dl: "dlist (buf_seq fs') Buf_seq (map Buf_lists (xs @ [i]))"
    using klist.add_tail [OF v(8), of "Buf_lists i"] i(2) by (auto simp: fs'_def)
  have nx: "buf_sidx fs ! k \<noteq> s" "k \<noteq> i" if "k \<in> set xs" for k using that s(1) i(2) by auto
  have inj: "inj_on ((!) (buf_sidx fs')) (set (xs @ [i]))"
    using v(10) nx by (auto simp: inj_on_def fl)
  have inv': "bio_inv content present ok fs' (xs @ [i])"
    unfolding bio_inv_def
  proof (intro conjI ballI)
    show "inj_on ((!) (buf_sidx fs')) (set (xs @ [i]))" by (rule inj)
    show "set (xs @ [i]) = Collect (in_use fs')" using u v(9) by auto
    fix k assume k: "k \<in> set (xs @ [i])"
    show "buf_flags fs' ! k \<in> {FAT32_BIO_FLAG_CLEAN, FAT32_BIO_FLAG_DIRTY}"
      "present (dsec fs' (buf_sidx fs' ! k))"
      "buf_flags fs' ! k = FAT32_BIO_FLAG_CLEAN \<longrightarrow> slot fs' k = content (dev (disk fs')) (dsec fs' (buf_sidx fs' ! k))"
      using k v(13,14,15) s(2) nx unfolding fl ds sl num d(3) by (auto split: if_splits)
  qed (use v dl d(2) len in \<open>simp_all add: fs'_def\<close>)
  have "view content fs' = view content fs"
  proof (rule view_eqI [OF inv'])
    fix k assume "k \<in> set (xs @ [i])"
    then show "slot fs' k = view content fs (buf_sidx fs' ! k)"
      using view_char(1) [OF inv, of k] view_out [OF inv s(1)] nx unfolding sl fl by (auto split: if_splits)
  next
    fix s' assume n: "s' \<notin> (!) (buf_sidx fs') ` set (xs @ [i])"
    have "s' \<notin> (!) (buf_sidx fs) ` set xs"
    proof
      assume "s' \<in> (!) (buf_sidx fs) ` set xs"
      then obtain k where "k \<in> set xs" "s' = buf_sidx fs ! k" by blast
      then have "s' = buf_sidx fs' ! k" "k \<in> set (xs @ [i])" using nx by (auto simp: fl)
      then show False using n by blast
    qed
    then show "content (dev (disk fs')) (dsec fs' s') = view content fs s'"
      using view_out [OF inv] ds num d(3) by simp
  qed
  moreover have "same_vol fs fs'" using len by (simp add: same_vol_def fs'_def)
  moreover have "buf_sidx fs' ! i = s" by (simp add: fl)
  moreover have "bindO (disk_read (s + dsidx fs) (of_nat i) fs) (\<lambda>fs.
            bindO (set_flag (of_nat i) FAT32_BIO_FLAG_CLEAN fs) (\<lambda>fs.
            bindO (arr_set (buf_sidx fs) (unat (of_nat i :: u32)) s) (\<lambda>ss.
            Inr (of_nat i :: u32, fs\<lparr>buf_sidx := ss, buf_seq := list_add_tail (Buf_lists (unat (of_nat i :: u32))) Buf_seq (buf_seq fs)\<rparr>))))
          = Inr (of_nat i, fs')"
    using d(1) dv b(1,3) v(4,5) i(1)
    by (simp add: disk_read_def set_flag_def Let_def dsec_def fs'_def)
  ultimately show ?thesis using inv' by blast
qed

lemma activity_fields [simp]:
  "buf_mem (fat32_bio_set_activity b fs) = buf_mem fs" "buf_flags (fat32_bio_set_activity b fs) = buf_flags fs"
  "buf_sidx (fat32_bio_set_activity b fs) = buf_sidx fs" "disk (fat32_bio_set_activity b fs) = disk fs"
  "byte_per_sector (fat32_bio_set_activity b fs) = byte_per_sector fs" "buf_num (fat32_bio_set_activity b fs) = buf_num fs"
  "slot (fat32_bio_set_activity b fs) = slot fs" "dsec (fat32_bio_set_activity b fs) = dsec fs"
  "in_use (fat32_bio_set_activity b fs) = in_use fs" "same_vol fs (fat32_bio_set_activity b fs)"
  "buf_seq (fat32_bio_set_activity b fs) =
     list_add_tail (Buf_lists (unat b)) Buf_seq (list_del (Buf_lists (unat b)) (buf_seq fs))"
  by (auto simp: fat32_bio_set_activity_def Let_def fun_eq_iff slot_def dsec_def in_use_def same_vol_def)

lemma activity_ok:
  assumes inv: "bio_inv content present ok fs (ys @ i # zs)"
  shows "bio_inv content present ok (fat32_bio_set_activity (of_nat i) fs) (ys @ zs @ [i])"
    "view content (fat32_bio_set_activity (of_nat i) fs) = view content fs"
proof -
  note v = bio_invD [OF inv]
  have i: "unat (of_nat i :: u32) = i" using bidx_small(1) [OF inv] v(12) by simp
  have "dlist (list_del (Buf_lists i) (buf_seq fs)) Buf_seq (map Buf_lists (ys @ zs))"
    using klist.del v(8) by simp
  then have "dlist (list_add_tail (Buf_lists i) Buf_seq (list_del (Buf_lists i) (buf_seq fs))) Buf_seq (map Buf_lists (ys @ zs) @ [Buf_lists i])"
    using v(11) by (intro klist.add_tail) auto
  moreover have st: "set (ys @ zs @ [i]) = set (ys @ i # zs)" by auto
  ultimately show "bio_inv content present ok (fat32_bio_set_activity (of_nat i) fs) (ys @ zs @ [i])"
    using inv v(9,10) unfolding bio_inv_def st by (simp add: i del: set_append list.set)
  show "view content (fat32_bio_set_activity (of_nat i) fs) = view content fs"
    by (simp add: fun_eq_iff view_def split: option.split)
qed

lemma fetch_ok:
  assumes inv: "bio_inv content present ok fs xs" and dv: "read_op (disk fs) = read" "write_op (disk fs) = write"
    and s: "s \<notin> (!) (buf_sidx fs) ` set xs" "present (dsec fs s)"
  shows "\<exists>i fs' xs'. fat32_bio_fetch s fs = Inr (of_nat i, fs') \<and> bio_inv content present ok fs' xs' \<and> i \<in> set xs' \<and>
           buf_sidx fs' ! i = s \<and> same_vol fs fs' \<and> view content fs' = view content fs"
proof -
  note v = bio_invD [OF inv]
  consider i where "i < unat (buf_num fs)" "i \<notin> set xs" "fat32_bio_match_unbuffered fs = Inr (of_nat i)"
    | i zs where "xs = i # zs" "fat32_bio_match_unbuffered fs = Inr FAT32_BUF_INDEX_INVALID"
    using match_unbuffered [OF inv] by (metis list.exhaust)
  then show ?thesis
  proof cases
    case 1
    from load_ok [OF inv dv(1) 1(1,2) s] obtain fs' where f:
      "bindO (disk_read (s + dsidx fs) (of_nat i) fs) (\<lambda>fs.
            bindO (set_flag (of_nat i) FAT32_BIO_FLAG_CLEAN fs) (\<lambda>fs.
            bindO (arr_set (buf_sidx fs) (unat (of_nat i :: u32)) s) (\<lambda>ss.
            Inr (of_nat i :: u32, fs\<lparr>buf_sidx := ss, buf_seq := list_add_tail (Buf_lists (unat (of_nat i :: u32))) Buf_seq (buf_seq fs)\<rparr>))))
          = Inr (of_nat i, fs')"
      "bio_inv content present ok fs' (xs @ [i])" "same_vol fs fs'" "view content fs' = view content fs" "buf_sidx fs' ! i = s"
      by blast
    have "fat32_bio_fetch s fs = Inr (of_nat i, fs')"
      using f(1) 1(3) bidx_small(2) [OF inv 1(1)] by (simp add: fat32_bio_fetch_def)
    then show ?thesis using f(2-5) by (intro exI [of _ i] exI [of _ fs'] exI [of _ "xs @ [i]"]) simp
  next
    case 2
    have i: "i < unat (buf_num fs)" using v(12) 2(1) by simp
    obtain fs1 where r: "fat32_bio_remove (of_nat i) fs = Inr fs1" "bio_inv content present ok fs1 zs" "same_vol fs fs1"
        "view content fs1 = view content fs" "\<not> in_use fs1 i" "buf_sidx fs1 = buf_sidx fs"
      using remove_ok [of fs "[]" i zs] inv dv(2) 2(1) by auto
    note w = bio_invD [OF r(2)]
    have i1: "i < unat (buf_num fs1)" "i \<notin> set zs" using r(3,5) i w(9) by (auto simp: same_vol_def)
    have s1: "s \<notin> (!) (buf_sidx fs1) ` set zs" "present (dsec fs1 s)"
      using s 2(1) r(3,6) by (auto simp: same_vol_dsec)
    have d1: "read_op (disk fs1) = read" using r(3) dv by (simp add: same_vol_def)
    from load_ok [OF r(2) d1 i1 s1] obtain fs' where f:
      "bindO (disk_read (s + dsidx fs1) (of_nat i) fs1) (\<lambda>fs.
            bindO (set_flag (of_nat i) FAT32_BIO_FLAG_CLEAN fs) (\<lambda>fs.
            bindO (arr_set (buf_sidx fs) (unat (of_nat i :: u32)) s) (\<lambda>ss.
            Inr (of_nat i :: u32, fs\<lparr>buf_sidx := ss, buf_seq := list_add_tail (Buf_lists (unat (of_nat i :: u32))) Buf_seq (buf_seq fs)\<rparr>))))
          = Inr (of_nat i, fs')"
      "bio_inv content present ok fs' (zs @ [i])" "same_vol fs1 fs'" "view content fs' = view content fs1" "buf_sidx fs' ! i = s"
      by blast
    have "fat32_bio_get_low_activity fs = Inr (of_nat i)"
      using klist.first [OF v(8)] 2(1) by (simp add: fat32_bio_get_low_activity_def)
    then have "fat32_bio_fetch s fs = Inr (of_nat i, fs')"
      using f(1) 2(2) r(1) by (simp add: fat32_bio_fetch_def)
    then show ?thesis using f(2-5) r(3,4) same_vol_trans
      by (intro exI [of _ i] exI [of _ fs'] exI [of _ "zs @ [i]"]) auto
  qed
qed

text \<open>The slot of a sector, loaded if need be.\<close>

lemma obtain_ok:
  assumes inv: "bio_inv content present ok fs xs" and dv: "read_op (disk fs) = read" "write_op (disk fs) = write"
    and s: "present (dsec fs s)"
  shows "\<exists>b i fs' xs'. fat32_bio_match_buffered fs s = Inr b \<and>
     (if b = FAT32_BUF_INDEX_INVALID then fat32_bio_fetch s fs else Inr (b, fs)) = Inr (of_nat i, fs') \<and>
     bio_inv content present ok fs' xs' \<and> i \<in> set xs' \<and> buf_sidx fs' ! i = s \<and> same_vol fs fs' \<and> view content fs' = view content fs"
proof (cases "s \<in> (!) (buf_sidx fs) ` set xs")
  case True
  then obtain i where i: "i \<in> set xs" "s = buf_sidx fs ! i" by blast
  then show ?thesis using match_buffered(1) [OF inv i(1)] bidx_small(2) [OF inv] bio_invD(12) [OF inv i(1)] inv
    by (intro exI [of _ "of_nat i"] exI [of _ i] exI [of _ fs] exI [of _ xs]) simp
next
  case False
  then have "\<forall>i \<in> set xs. buf_sidx fs ! i \<noteq> s" by blast
  then have "fat32_bio_match_buffered fs s = Inr FAT32_BUF_INDEX_INVALID" by (rule match_buffered(2) [OF inv])
  then show ?thesis using fetch_ok [OF inv dv False s] by auto
qed

lemma access_ok:
  assumes inv: "bio_inv content present ok fs xs" and dv: "read_op (disk fs) = read" "write_op (disk fs) = write"
    and s: "present (dsec fs s)"
  shows "\<exists>i fs' xs'. fat32_bio_access s fs = Inr (of_nat i, fs') \<and> bio_inv content present ok fs' (xs' @ [i]) \<and>
     buf_sidx fs' ! i = s \<and> same_vol fs fs' \<and> view content fs' = view content fs"
proof -
  obtain b i fs' xs' where o: "fat32_bio_match_buffered fs s = Inr b"
      "(if b = FAT32_BUF_INDEX_INVALID then fat32_bio_fetch s fs else Inr (b, fs)) = Inr (of_nat i, fs')"
      "bio_inv content present ok fs' xs'" "i \<in> set xs'" "buf_sidx fs' ! i = s" "same_vol fs fs'" "view content fs' = view content fs"
    using obtain_ok [OF assms] by blast
  obtain ys zs where xs': "xs' = ys @ i # zs" using o(4) by (meson split_list)
  note a = activity_ok [OF o(3) [unfolded xs']]
  have "fat32_bio_access s fs = Inr (of_nat i, fat32_bio_set_activity (of_nat i) fs')"
    using o(1,2) by (simp add: fat32_bio_access_def)
  then show ?thesis using a o(5-7)
    by (intro exI [of _ i] exI [of _ "fat32_bio_set_activity (of_nat i) fs'"] exI [of _ "ys @ zs"])
      (auto intro: same_vol_trans)
qed


section \<open>Reading and writing through the cache\<close>

text \<open>The slot that \<open>fat32_bio_read\<close> returns holds the sector of the view.\<close>

lemma read_view:
  assumes inv: "bio_inv content present ok fs xs" and dv: "read_op (disk fs) = read" "write_op (disk fs) = write"
    and s: "present (dsec fs s)"
  shows "\<exists>i fs' xs'. fat32_bio_read s fs = Inr (512 * i, fs') \<and> bio_inv content present ok fs' (xs' @ [i]) \<and>
     same_vol fs fs' \<and> view content fs' = view content fs \<and>
     512 * i + 512 \<le> length (buf_mem fs') \<and> take 512 (drop (512 * i) (buf_mem fs')) = view content fs s"
proof -
  obtain i fs' xs' where a: "fat32_bio_access s fs = Inr (of_nat i, fs')" "bio_inv content present ok fs' (xs' @ [i])"
      "buf_sidx fs' ! i = s" "same_vol fs fs'" "view content fs' = view content fs"
    using access_ok [OF assms] by blast
  have i: "i \<in> set (xs' @ [i])" by simp
  note b = bidx_small [OF a(2) bio_invD(12) [OF a(2) i]]
  have "take 512 (drop (512 * i) (buf_mem fs')) = view content fs s"
    using view_char(1) [OF a(2) i] a(3,5) by (simp add: slot_def)
  moreover have "fat32_bio_read s fs = Inr (512 * i, fs')" using a(1) b(3) by (simp add: fat32_bio_read_def)
  ultimately show ?thesis using a b(4) by blast
qed

text \<open>Storing bytes into a slot that is marked dirty writes them to the sector of the view.\<close>

lemma store_ok:
  assumes inv: "bio_inv content present ok fs xs" and i: "i \<in> set xs"
    and c: "length c = 512"
    and fs': "fs' = fs\<lparr>buf_mem := take (512 * i) (buf_mem fs) @ c @ drop 512 (drop (512 * i) (buf_mem fs)),
                      buf_flags := (buf_flags fs)[i := FAT32_BIO_FLAG_DIRTY]\<rparr>"
  shows "bio_inv content present ok fs' xs" "view content fs' = (view content fs)(buf_sidx fs ! i := c)" "same_vol fs fs'"
proof -
  note v = bio_invD [OF inv]
  note b = bidx_small [OF inv v(12) [OF i]]
  have fl: "buf_flags fs' ! k = (if k = i then FAT32_BIO_FLAG_DIRTY else buf_flags fs ! k)" for k
    using v(4) v(12) [OF i] by (simp add: fs')
  have num: "buf_num fs' = buf_num fs" "disk fs' = disk fs" "buf_sidx fs' = buf_sidx fs" "dsec fs' = dsec fs"
    by (auto simp: fs' dsec_def)
  have u: "in_use fs' k \<longleftrightarrow> in_use fs k" for k
    using i v(9) by (cases "k = i") (auto simp: in_use_def fl num bio_flags)
  have sl: "slot fs' k = (if k = i then c else slot fs k)" for k
    using slot_splice [OF c b(4)] by (simp add: slot_def fs')
  have len: "length (buf_mem fs') = length (buf_mem fs)" using b(4) c by (simp add: fs')
  show inv': "bio_inv content present ok fs' xs"
    unfolding bio_inv_def
  proof (intro conjI ballI)
    show "set xs = Collect (in_use fs')" using v(9) by (auto simp: u)
    fix k assume k: "k \<in> set xs"
    show "buf_flags fs' ! k \<in> {FAT32_BIO_FLAG_CLEAN, FAT32_BIO_FLAG_DIRTY}"
      "present (dsec fs' (buf_sidx fs' ! k))"
      "buf_flags fs' ! k = FAT32_BIO_FLAG_CLEAN \<longrightarrow> slot fs' k = content (dev (disk fs')) (dsec fs' (buf_sidx fs' ! k))"
      using k v(13,14,15) unfolding fl num sl by (auto simp: bio_flags)
  qed (use v len in \<open>simp_all add: fs'\<close>)
  show "view content fs' = (view content fs)(buf_sidx fs ! i := c)"
  proof (rule view_eqI [OF inv'])
    fix k assume k: "k \<in> set xs"
    then have "buf_sidx fs ! k = buf_sidx fs ! i \<longleftrightarrow> k = i" using i v(10) by (auto dest: inj_onD)
    then show "slot fs' k = ((view content fs)(buf_sidx fs ! i := c)) (buf_sidx fs' ! k)"
      using view_char(1) [OF inv k] by (simp add: sl num)
  next
    fix s' assume n: "s' \<notin> (!) (buf_sidx fs') ` set xs"
    then have "s' \<noteq> buf_sidx fs ! i" using i num by auto
    then show "content (dev (disk fs')) (dsec fs' s') = ((view content fs)(buf_sidx fs ! i := c)) s'"
      using view_out [OF inv, of s'] n num by simp
  qed
  show "same_vol fs fs'" using len by (simp add: same_vol_def fs')
qed

text \<open>A slot marked for writing holds the sector and is dirty.\<close>

lemma write_view:
  assumes inv: "bio_inv content present ok fs xs" and dv: "read_op (disk fs) = read" "write_op (disk fs) = write"
    and s: "present (dsec fs s)"
  shows "\<exists>i fs' xs'. fat32_bio_write s fs = Inr (512 * i, fs') \<and> bio_inv content present ok fs' (xs' @ [i]) \<and>
     same_vol fs fs' \<and> view content fs' = view content fs \<and> buf_sidx fs' ! i = s \<and>
     buf_flags fs' ! i = FAT32_BIO_FLAG_DIRTY"
proof -
  obtain i fs1 xs' where a: "fat32_bio_access s fs = Inr (of_nat i, fs1)" "bio_inv content present ok fs1 (xs' @ [i])"
      "buf_sidx fs1 ! i = s" "same_vol fs fs1" "view content fs1 = view content fs"
    using access_ok [OF assms] by blast
  have i: "i \<in> set (xs' @ [i])" by simp
  note v = bio_invD [OF a(2)]
  note b = bidx_small [OF a(2) v(12) [OF i]]
  define fs' where "fs' = fs1\<lparr>buf_mem := take (512 * i) (buf_mem fs1) @ slot fs1 i @ drop 512 (drop (512 * i) (buf_mem fs1)),
                      buf_flags := (buf_flags fs1)[i := FAT32_BIO_FLAG_DIRTY]\<rparr>"
  have c: "length (slot fs1 i) = 512" using b(4) by (simp add: slot_def)
  have "take (512 * i) (buf_mem fs1) @ slot fs1 i @ drop 512 (drop (512 * i) (buf_mem fs1)) = buf_mem fs1"
    by (metis append_take_drop_id slot_def)
  then have f: "fs' = fs1\<lparr>buf_flags := (buf_flags fs1)[i := FAT32_BIO_FLAG_DIRTY]\<rparr>" by (simp add: fs'_def)
  note st = store_ok [OF a(2) i c fs'_def]
  have "view content fs' = view content fs"
    using st(2) view_char(1) [OF a(2) i] a(5) by (simp add: fun_upd_idem_iff)
  moreover have "fat32_bio_write s fs = Inr (512 * i, fs')"
    using a(1) b v(4) v(12) [OF i] by (simp add: fat32_bio_write_def set_flag_def f fat32_bio_bidx2addr_def)
  moreover have "buf_sidx fs' ! i = s" "buf_flags fs' ! i = FAT32_BIO_FLAG_DIRTY"
    using a(3) v(4) v(12) [OF i] by (simp_all add: f)
  ultimately show ?thesis using st(1,3) a(4) same_vol_trans by blast
qed

text \<open>Bytes stored into a slot that \<open>fat32_bio_write\<close> has returned.\<close>

lemma poke_ok:
  assumes inv: "bio_inv content present ok fs xs" and i: "i \<in> set xs"
    and d: "buf_flags fs ! i = FAT32_BIO_FLAG_DIRTY" and p: "p + length bs \<le> 512"
  shows "\<exists>m. write_bytes (512 * i + p) bs (buf_mem fs) = Inr m \<and> bio_inv content present ok (fs\<lparr>buf_mem := m\<rparr>) xs \<and>
     same_vol fs (fs\<lparr>buf_mem := m\<rparr>) \<and>
     view content (fs\<lparr>buf_mem := m\<rparr>) = (view content fs)(buf_sidx fs ! i :=
        take p (view content fs (buf_sidx fs ! i)) @ bs @ drop (p + length bs) (view content fs (buf_sidx fs ! i)))"
proof -
  note v = bio_invD [OF inv]
  note b = bidx_small [OF inv v(12) [OF i]]
  have s: "slot fs i = view content fs (buf_sidx fs ! i)" using view_char(1) [OF inv i] by simp
  define c where "c = take p (slot fs i) @ bs @ drop (p + length bs) (slot fs i)"
  define m where "m = take (512 * i) (buf_mem fs) @ c @ drop 512 (drop (512 * i) (buf_mem fs))"
  have c: "length c = 512" using p b(4) by (simp add: c_def slot_def)
  have w: "write_bytes (512 * i + p) bs (buf_mem fs) = Inr m"
    using write_bytes_slot [OF b(4) p] by (simp add: m_def c_def slot_def)
  have "fs\<lparr>buf_mem := m\<rparr> = fs\<lparr>buf_mem := m, buf_flags := (buf_flags fs)[i := FAT32_BIO_FLAG_DIRTY]\<rparr>"
    using d by (metis bio.surjective bio.update_convs(5) bio.update_convs(7) list_update_id)
  note st = store_ok [OF inv i c this [unfolded m_def], folded m_def]
  show ?thesis using w st by (intro exI [of _ m]) (simp add: c_def s)
qed

lemma copy_len:
  assumes "unat offset \<le> 512" "byte_per_sector fs = 512"
  shows "unat (ucast (min_u64 (ucast (byte_per_sector fs - offset)) (ucast (n :: u32))) :: u32) = min (512 - unat offset) (unat n)"
proof -
  have "offset \<le> 512" using assms(1) by (simp add: word_le_nat_alt)
  then have o: "unat (512 - offset) = 512 - unat offset" by (simp add: unat_sub)
  have u: "unat (ucast x :: u64) = unat x" for x :: u32
  proof -
    have "unat x < 2 ^ 32" using unsigned_less [of x] by simp
    then have "unat x < 2 ^ 64" by (rule less_trans) simp
    then show ?thesis by (simp add: unsigned_ucast_eq take_bit_nat_eq_self)
  qed
  have "unat (min_u64 (ucast (512 - offset)) (ucast n)) = min (512 - unat offset) (unat n)"
    by (auto simp: min_u64_def word_less_nat_alt u o)
  then show ?thesis using assms(2)
    by (simp add: unsigned_ucast_eq take_bit_nat_eq_self)
qed

lemma read_copy_view:
  assumes inv: "bio_inv content present ok fs xs" and dv: "read_op (disk fs) = read" "write_op (disk fs) = write"
    and s: "present (dsec fs s)" and o: "unat offset \<le> 512"
    and n: "n = min (512 - unat offset) (unat buf_len)" "n \<le> length out"
  shows "\<exists>fs' xs'. fat32_bio_read_copy s offset out buf_len fs =
        Inr (of_nat n, take n (drop (unat offset) (view content fs s)) @ drop n out, fs') \<and>
     bio_inv content present ok fs' xs' \<and> same_vol fs fs' \<and> view content fs' = view content fs"
proof -
  obtain b i fs' xs' where a: "fat32_bio_match_buffered fs s = Inr b"
      "(if b = FAT32_BUF_INDEX_INVALID then fat32_bio_fetch s fs else Inr (b, fs)) = Inr (of_nat i, fs')"
      "bio_inv content present ok fs' xs'" "i \<in> set xs'" "buf_sidx fs' ! i = s" "same_vol fs fs'" "view content fs' = view content fs"
    using obtain_ok [OF inv dv s] by blast
  obtain ys zs where xs': "xs' = ys @ i # zs" using a(4) by (meson split_list)
  note v = bio_invD [OF a(3)]
  note b = bidx_small [OF a(3) v(12) [OF a(4)]]
  define len where "len = (ucast (min_u64 (ucast (byte_per_sector fs - offset)) (ucast buf_len)) :: u32)"
  have l: "unat len = n" unfolding len_def n(1) by (rule copy_len [OF o bio_invD(1) [OF inv]])
  then have ln: "len = of_nat n" by auto
  have no: "n \<le> 512 - unat offset" by (simp add: n(1))
  then have "512 * i + unat offset + n \<le> length (buf_mem fs')" using b(4) o by linarith
  then have "read_bytes (512 * i + unat offset) n (buf_mem fs') = Inr (take n (drop (unat offset) (slot fs' i)))"
    using no by (simp add: read_bytes_def slot_def drop_take add.commute)
  moreover have "slot fs' i = view content fs s" using view_char(1) [OF a(3,4)] a(5,7) by simp
  moreover have "length (view content fs s) = 512" using calculation(2) b(4) by (simp add: slot_def flip: calculation(2))
  ultimately have "fat32_bio_read_copy s offset out buf_len fs =
        Inr (len, take n (drop (unat offset) (view content fs s)) @ drop n out, fat32_bio_set_activity (of_nat i) fs')"
    using a(1,2) l b(3) n o
    by (simp add: fat32_bio_read_copy_def write_bytes_def Let_def flip: len_def)
  then show ?thesis using activity_ok [OF a(3) [unfolded xs']] a(6,7) unfolding ln
    by (intro exI [of _ "fat32_bio_set_activity (of_nat i) fs'"] exI [of _ "ys @ zs @ [i]"])
      (auto intro: same_vol_trans)
qed

lemma write_copy_view:
  assumes inv: "bio_inv content present ok fs xs" and dv: "read_op (disk fs) = read" "write_op (disk fs) = write"
    and s: "present (dsec fs s)" and o: "unat offset \<le> 512"
    and n: "n = min (512 - unat offset) (unat buf_len)" "n \<le> length inp"
  shows "\<exists>fs' xs'. fat32_bio_write_copy s offset inp buf_len fs = Inr (of_nat n, fs') \<and>
     bio_inv content present ok fs' xs' \<and> same_vol fs fs' \<and>
     view content fs' = (view content fs)(s := take (unat offset) (view content fs s) @ take n inp @
        drop (unat offset + n) (view content fs s))"
proof -
  obtain b i fs1 xs' where a: "fat32_bio_match_buffered fs s = Inr b"
      "(if b = FAT32_BUF_INDEX_INVALID then fat32_bio_fetch s fs else Inr (b, fs)) = Inr (of_nat i, fs1)"
      "bio_inv content present ok fs1 xs'" "i \<in> set xs'" "buf_sidx fs1 ! i = s" "same_vol fs fs1" "view content fs1 = view content fs"
    using obtain_ok [OF inv dv s] by blast
  obtain ys zs where xs': "xs' = ys @ i # zs" using a(4) by (meson split_list)
  note v = bio_invD [OF a(3)]
  note b = bidx_small [OF a(3) v(12) [OF a(4)]]
  define len where "len = (ucast (min_u64 (ucast (byte_per_sector fs - offset)) (ucast buf_len)) :: u32)"
  have l: "unat len = n" unfolding len_def n(1) by (rule copy_len [OF o bio_invD(1) [OF inv]])
  then have ln: "len = of_nat n" by auto
  have no: "unat offset + n \<le> 512" using o by (simp add: n(1))
  have vs: "slot fs1 i = view content fs s" using view_char(1) [OF a(3,4)] a(5,7) by simp
  define c where "c = take (unat offset) (view content fs s) @ take n inp @ drop (unat offset + n) (view content fs s)"
  have c: "length c = 512" using no n(2) b(4) by (simp add: c_def flip: vs) (simp add: slot_def)
  let ?m = "buf_mem fs1"
  have w: "write_bytes (512 * i + unat offset) (take n inp) ?m = Inr (take (512 * i) ?m @ c @ drop 512 (drop (512 * i) ?m))"
    using write_bytes_slot [of i ?m "unat offset" "take n inp"] no n(2) b(4)
    by (simp add: c_def min_def flip: vs slot_def)
  define fs' where "fs' = fs1\<lparr>buf_mem := take (512 * i) ?m @ c @ drop 512 (drop (512 * i) ?m),
                      buf_flags := (buf_flags fs1)[i := FAT32_BIO_FLAG_DIRTY]\<rparr>"
  note st = store_ok [OF a(3,4) c fs'_def]
  have "fat32_bio_write_copy s offset inp buf_len fs = Inr (len, fat32_bio_set_activity (of_nat i) fs')"
    using a(1,2) l b(1,3) n w v(4) v(12) [OF a(4)]
    by (simp add: fat32_bio_write_copy_def read_bytes_def set_flag_def Let_def fs'_def flip: len_def)
  then show ?thesis using activity_ok [OF st(1) [unfolded xs']] st(2,3) a(5-7) unfolding ln
    by (intro exI [of _ "fat32_bio_set_activity (of_nat i) fs'"] exI [of _ "ys @ zs @ [i]"])
      (auto simp: c_def intro: same_vol_trans)
qed

section \<open>Flushing\<close>

lemma flush_slot_ok:
  assumes inv: "bio_inv content present ok fs xs" and dv: "write_op (disk fs) = write" and i: "i < unat (buf_num fs)"
  shows "\<exists>fs'. flush_slot i fs = Inr fs' \<and> bio_inv content present ok fs' xs \<and> same_vol fs fs' \<and>
     view content fs' = view content fs \<and> buf_sidx fs' = buf_sidx fs \<and>
     (\<forall>k. buf_flags fs' ! k = (if k = i \<and> buf_flags fs ! k = FAT32_BIO_FLAG_DIRTY then FAT32_BIO_FLAG_CLEAN else buf_flags fs ! k))"
proof (cases "buf_flags fs ! i = FAT32_BIO_FLAG_DIRTY")
  case True
  note v = bio_invD [OF inv]
  have x: "i \<in> set xs" using True i v(9) by (simp add: in_use_def bio_flags)
  obtain d where w: "fat32_bio_writeback_no_check (of_nat i) fs =
        Inr (fs\<lparr>disk := (disk fs)\<lparr>dev := d\<rparr>, buf_flags := (buf_flags fs)[i := FAT32_BIO_FLAG_CLEAN]\<rparr>)" "ok d"
      "content d = (content (dev (disk fs)))(dsec fs (buf_sidx fs ! i) := slot fs i)"
    using writeback_ok [OF inv dv x] by blast
  note c = clean_inv [OF inv x w(2,3) refl]
  show ?thesis using c w(1) True v(4) i
    by (intro exI [of _ "fs\<lparr>disk := (disk fs)\<lparr>dev := d\<rparr>, buf_flags := (buf_flags fs)[i := FAT32_BIO_FLAG_CLEAN]\<rparr>"])
      (auto simp: flush_slot_def same_vol_def)
next
  case False
  then show ?thesis using inv i bio_invD(4) [OF inv] by (auto simp: flush_slot_def)
qed

lemma flush_slots_ok:
  assumes "bio_inv content present ok fs xs" "write_op (disk fs) = write" "set is \<subseteq> {..<unat (buf_num fs)}"
  shows "\<exists>fs'. flush_slots is fs = Inr fs' \<and> bio_inv content present ok fs' xs \<and> same_vol fs fs' \<and>
     view content fs' = view content fs \<and> buf_sidx fs' = buf_sidx fs \<and>
     (\<forall>k. buf_flags fs' ! k = (if k \<in> set is \<and> buf_flags fs ! k = FAT32_BIO_FLAG_DIRTY then FAT32_BIO_FLAG_CLEAN else buf_flags fs ! k))"
  using assms
proof (induction "is" arbitrary: fs)
  case Nil
  then show ?case by simp
next
  case (Cons i js fs)
  from Cons.prems have "i < unat (buf_num fs)" by simp
  from flush_slot_ok [OF Cons.prems(1,2) this] obtain fs1 where
    1: "flush_slot i fs = Inr fs1" "bio_inv content present ok fs1 xs" "same_vol fs fs1" "view content fs1 = view content fs"
      "buf_sidx fs1 = buf_sidx fs"
      "\<forall>k. buf_flags fs1 ! k = (if k = i \<and> buf_flags fs ! k = FAT32_BIO_FLAG_DIRTY then FAT32_BIO_FLAG_CLEAN else buf_flags fs ! k)"
    by blast
  have "write_op (disk fs1) = write" "set js \<subseteq> {..<unat (buf_num fs1)}"
    using 1(3) Cons.prems(2,3) by (auto simp: same_vol_def)
  from Cons.IH [OF 1(2) this] obtain fs2 where
    2: "flush_slots js fs1 = Inr fs2" "bio_inv content present ok fs2 xs" "same_vol fs1 fs2" "view content fs2 = view content fs1"
      "buf_sidx fs2 = buf_sidx fs1"
      "\<forall>k. buf_flags fs2 ! k = (if k \<in> set js \<and> buf_flags fs1 ! k = FAT32_BIO_FLAG_DIRTY then FAT32_BIO_FLAG_CLEAN else buf_flags fs1 ! k)"
    by blast
  then show ?case using 1 same_vol_trans [OF 1(3) 2(3)] by (intro exI [of _ fs2]) (simp add: bio_flags)
qed

lemma flush_view:
  assumes inv: "bio_inv content present ok fs xs" and dv: "write_op (disk fs) = write"
  shows "\<exists>fs'. fat32_bio_flush fs = Inr fs' \<and> bio_inv content present ok fs' xs \<and> same_vol fs fs' \<and>
     view content fs' = view content fs \<and> (\<forall>s. content (dev (disk fs')) (dsec fs s) = view content fs s)"
proof -
  have "set [0..<unat (buf_num fs)] \<subseteq> {..<unat (buf_num fs)}" by auto
  from flush_slots_ok [OF inv dv this] obtain fs' where
    f: "flush_slots [0..<unat (buf_num fs)] fs = Inr fs'" "bio_inv content present ok fs' xs" "same_vol fs fs'"
      "view content fs' = view content fs" "buf_sidx fs' = buf_sidx fs"
      "\<forall>k. buf_flags fs' ! k = (if k \<in> set [0..<unat (buf_num fs)] \<and> buf_flags fs ! k = FAT32_BIO_FLAG_DIRTY
             then FAT32_BIO_FLAG_CLEAN else buf_flags fs ! k)" by blast
  note v = bio_invD [OF f(2)]
  have clean: "buf_flags fs' ! k = FAT32_BIO_FLAG_CLEAN" if k: "k \<in> set xs" for k
  proof -
    have "k < unat (buf_num fs)" using bio_invD(12) [OF inv k] .
    then show ?thesis using f(6) v(14) [OF k] by (auto split: if_splits simp: bio_flags)
  qed
  have "content (dev (disk fs')) (dsec fs' s) = view content fs' s" for s
  proof (cases "s \<in> (!) (buf_sidx fs') ` set xs")
    case True
    then obtain k where k: "k \<in> set xs" "s = buf_sidx fs' ! k" by blast
    then show ?thesis using view_char(1) [OF f(2) k(1)] v(15) [OF k(1)] clean by simp
  next
    case False
    then show ?thesis using view_out [OF f(2)] by simp
  qed
  then show ?thesis using f(1-4) same_vol_dsec [OF f(3)]
    by (intro exI [of _ fs']) (simp add: fat32_bio_flush_def)
qed

end

end
