(* ===== verification/Cache.thy ===== *)
theory Cache
  imports Bio_Inv
begin

text \<open>
  The sector cache of \<open>Bio\<close> over the block driver of \<open>Virtio\<close>: the lemmas of \<open>Bio_Inv\<close> for
  the interpretation that \<open>Vblk\<close> gives.
\<close>

abbreviation sectors :: "('d \<Rightarrow> u64 \<Rightarrow> u8 list) \<Rightarrow> 'd virtio_blk \<Rightarrow> u64 \<Rightarrow> u8 list" where
  "sectors cont v \<equiv> cont (vdev v)"

text \<open>A cache in a good state on a block device of \<open>Vblk\<close>, with the slots \<open>xs\<close> in use.\<close>

definition cached :: "'d mmio \<Rightarrow> u64 \<Rightarrow> virtio_blk_req \<Rightarrow> ('d \<Rightarrow> u64 \<Rightarrow> u8 list) \<Rightarrow> ('d \<Rightarrow> bool) \<Rightarrow> (u64 \<Rightarrow> bool) \<Rightarrow>
    ('d virtio_blk, 'a) bio_scheme \<Rightarrow> nat list \<Rightarrow> bool" where
  "cached D ra junk cont idle present fs xs \<longleftrightarrow>
     bio_inv (sectors cont) present (vblk_ok D cont idle present) fs xs \<and>
     read_op (disk fs) = disk_hal_read D ra junk \<and> write_op (disk fs) = disk_hal_write D ra junk"

text \<open>What the file system sees.\<close>

definition seen :: "('d \<Rightarrow> u64 \<Rightarrow> u8 list) \<Rightarrow> ('d virtio_blk, 'a) bio_scheme \<Rightarrow> u32 \<Rightarrow> u8 list" where
  "seen cont fs = view (sectors cont) fs"

lemma cachedD:
  assumes "cached D ra junk cont idle present fs xs"
  shows "bio_inv (sectors cont) present (vblk_ok D cont idle present) fs xs"
    "read_op (disk fs) = disk_hal_read D ra junk" "write_op (disk fs) = disk_hal_write D ra junk"
  using assms by (simp_all add: cached_def)

lemma cached_same_vol:
  "cached D ra junk cont idle present fs xs \<Longrightarrow> same_vol fs fs' \<Longrightarrow>
     bio_inv (sectors cont) present (vblk_ok D cont idle present) fs' xs' \<Longrightarrow>
     cached D ra junk cont idle present fs' xs'"
  by (simp add: cached_def same_vol_def)

text \<open>The accesses of the file system: a sector read in place, and bytes stored in place.\<close>

lemma seen_read:
  assumes "cached D ra junk cont idle present fs xs" "present (dsec fs s)"
  shows "\<exists>i fs' xs'. fat32_bio_read s fs = Inr (512 * i, fs') \<and> cached D ra junk cont idle present fs' xs' \<and>
     same_vol fs fs' \<and> seen cont fs' = seen cont fs \<and>
     512 * i + 512 \<le> length (buf_mem fs') \<and> take 512 (drop (512 * i) (buf_mem fs')) = seen cont fs s"
  using vblk.read_view [where cont = cont and present = present, OF cachedD [OF assms(1)] assms(2)]
    cached_same_vol [OF assms(1)] unfolding seen_def by blast

lemma seen_write:
  assumes "cached D ra junk cont idle present fs xs" "present (dsec fs s)" "p + length bs \<le> 512"
  shows "\<exists>off fs' m xs'. fat32_bio_write s fs = Inr (off, fs') \<and> same_vol fs fs' \<and> write_bytes (off + p) bs (buf_mem fs') = Inr m \<and>
     cached D ra junk cont idle present (fs'\<lparr>buf_mem := m\<rparr>) xs' \<and> same_vol fs (fs'\<lparr>buf_mem := m\<rparr>) \<and>
     seen cont (fs'\<lparr>buf_mem := m\<rparr>) = (seen cont fs)(s := take p (seen cont fs s) @ bs @ drop (p + length bs) (seen cont fs s))"
proof -
  obtain i fs' xs' where w: "fat32_bio_write s fs = Inr (512 * i, fs')"
      "bio_inv (sectors cont) present (vblk_ok D cont idle present) fs' (xs' @ [i])"
      "same_vol fs fs'" "view (sectors cont) fs' = view (sectors cont) fs" "buf_sidx fs' ! i = s"
      "buf_flags fs' ! i = FAT32_BIO_FLAG_DIRTY"
    using vblk.write_view [where cont = cont and present = present, OF cachedD [OF assms(1)] assms(2)] by blast
  have "i \<in> set (xs' @ [i])" by simp
  from vblk.poke_ok [where cont = cont and present = present, OF w(2) this w(6) assms(3)] obtain m where
    m: "write_bytes (512 * i + p) bs (buf_mem fs') = Inr m"
      "bio_inv (sectors cont) present (vblk_ok D cont idle present) (fs'\<lparr>buf_mem := m\<rparr>) (xs' @ [i])"
      "same_vol fs' (fs'\<lparr>buf_mem := m\<rparr>)"
      "view (sectors cont) (fs'\<lparr>buf_mem := m\<rparr>) = (view (sectors cont) fs)(s := take p (view (sectors cont) fs s) @ bs @
          drop (p + length bs) (view (sectors cont) fs s))"
    unfolding w(4,5) by blast
  note sv = same_vol_trans [OF w(3) m(3)]
  show ?thesis unfolding seen_def
    using w(1,3) m(1,4) sv cached_same_vol [OF assms(1) sv m(2)] by blast
qed

text \<open>C6. Reading through the cache returns the bytes of the sector as last written, whichever
  slot holds the sector, whether it has to be loaded, and whatever has to be written back
  to make room; the disk that the file system sees does not change.\<close>

theorem fat32_bio_read_copy_refines:
  assumes "cached D ra junk cont idle present fs xs" "present (dsec fs s)" "unat offset \<le> 512"
    and "n = min (512 - unat offset) (unat buf_len)" "n \<le> length out"
  shows "\<exists>fs' xs'. fat32_bio_read_copy s offset out buf_len fs =
        Inr (of_nat n, take n (drop (unat offset) (seen cont fs s)) @ drop n out, fs') \<and>
     cached D ra junk cont idle present fs' xs' \<and> seen cont fs' = seen cont fs"
  using vblk.read_copy_view [where cont = cont and present = present, OF cachedD [OF assms(1)] assms(2-5)]
    cached_same_vol [OF assms(1)] unfolding seen_def by blast

text \<open>C5. Writing through the cache changes the bytes written and nothing else of the disk that the
  file system sees, whatever slot is used and whatever has to be written back for it.\<close>

theorem fat32_bio_write_copy_refines:
  assumes "cached D ra junk cont idle present fs xs" "present (dsec fs s)" "unat offset \<le> 512"
    and "n = min (512 - unat offset) (unat buf_len)" "n \<le> length inp"
  shows "\<exists>fs' xs'. fat32_bio_write_copy s offset inp buf_len fs = Inr (of_nat n, fs') \<and>
     cached D ra junk cont idle present fs' xs' \<and>
     seen cont fs' = (seen cont fs)(s := take (unat offset) (seen cont fs s) @ take n inp @
        drop (unat offset + n) (seen cont fs s))"
  using vblk.write_copy_view [where cont = cont and present = present, OF cachedD [OF assms(1)] assms(2-5)]
    cached_same_vol [OF assms(1)] unfolding seen_def by blast

text \<open>C7. After a flush the device holds every sector as the file system sees it.\<close>

theorem fat32_bio_flush_durable:
  assumes "cached D ra junk cont idle present fs xs"
  shows "\<exists>fs'. fat32_bio_flush fs = Inr fs' \<and> cached D ra junk cont idle present fs' xs \<and>
     seen cont fs' = seen cont fs \<and> (\<forall>s. sectors cont (dev (disk fs')) (dsec fs s) = seen cont fs s)"
  using vblk.flush_view [where cont = cont and present = present, OF cachedD(1) [OF assms] cachedD(3) [OF assms]]
    cached_same_vol [OF assms] unfolding seen_def by blast

section \<open>A small cache\<close>

text \<open>Two slots, none in use, over the memory device.\<close>

definition two_slots :: "(u64 \<Rightarrow> u8 list) \<Rightarrow> vshared \<Rightarrow> virtio_blk_req \<Rightarrow> 'a \<Rightarrow> (ramdisk virtio_blk, 'a) bio_scheme" where
  "two_slots c sh junk m = \<lparr>disk = \<lparr>dev = ram_queue c sh, read_op = disk_hal_read ram_mmio 64 junk, write_op = disk_hal_write ram_mmio 64 junk\<rparr>,
     dsidx = 63, byte_per_sector = 512, buf = 4096, buf_mem = replicate 1024 0, buf_num = 2,
     buf_flags = [0, 0], buf_sidx = [0, 0], buf_seq = list_init Buf_seq \<lparr>lprev = (\<lambda>_. Buf_seq), lnext = (\<lambda>_. Buf_seq)\<rparr>, \<dots> = m\<rparr>"

lemma two_slots_cached:
  assumes "\<And>s. length (c s) = 512"
  shows "cached ram_mmio 64 junk fst ram_idle (\<lambda>_. True) (two_slots c sh junk m) []"
proof -
  have "\<not> in_use (two_slots c sh junk m) i" for i
  proof -
    have "i < 2 \<Longrightarrow> [0, 0 :: u8] ! i = 0" by (cases i) auto
    then show ?thesis by (auto simp: in_use_def two_slots_def bio_flags)
  qed
  moreover have "dlist (buf_seq (two_slots c sh junk m)) Buf_seq (map Buf_lists [])"
    using klist.init by (simp add: two_slots_def)
  moreover have "vblk_ok ram_mmio fst ram_idle (\<lambda>_. True) (dev (disk (two_slots c sh junk m)))"
    using ram_queue_ok [OF assms] by (simp add: two_slots_def)
  ultimately show ?thesis by (simp add: cached_def bio_inv_def) (simp add: two_slots_def)
qed

lemma two_slots_seen: "seen fst (two_slots c sh junk m) s = c (ucast (s + 63))"
  by (simp add: seen_def view_def two_slots_def bio_flags find_None_iff upt_rec ram_queue_def dsec_def)

theorem fat32_bio_read_copy_refines_witness:
  "\<forall>sh junk. \<exists>fs'. fat32_bio_read_copy 5 510 [1, 2, 3] 2 (two_slots sevens sh junk ()) = Inr (2, replicate 2 7 @ [3], fs')"
proof (intro allI)
  fix sh junk
  show "\<exists>fs'. fat32_bio_read_copy 5 510 [1, 2, 3] 2 (two_slots sevens sh junk ()) = Inr (2, replicate 2 7 @ [3], fs')"
  proof -
    have "unat (510 :: u32) \<le> 512" "2 = min (512 - unat (510 :: u32)) (unat (2 :: u32))" "2 \<le> length [1, 2, 3 :: u8]"
      by simp_all
    from fat32_bio_read_copy_refines [OF two_slots_cached [where c = sevens and sh = sh and junk = junk and m = "()", OF length_replicate] TrueI this, of 5] show ?thesis
      by (auto simp: two_slots_seen)
  qed
qed

theorem fat32_bio_write_copy_refines_witness:
  "\<forall>sh junk. \<exists>fs'. fat32_bio_write_copy 5 3 [9] 1 (two_slots sevens sh junk ()) = Inr (1, fs') \<and>
     seen fst fs' 5 = replicate 3 7 @ [9] @ replicate 508 7 \<and> seen fst fs' 6 = replicate 512 7"
proof (intro allI)
  fix sh junk
  show "\<exists>fs'. fat32_bio_write_copy 5 3 [9] 1 (two_slots sevens sh junk ()) = Inr (1, fs') \<and>
     seen fst fs' 5 = replicate 3 7 @ [9] @ replicate 508 7 \<and> seen fst fs' 6 = replicate 512 7"
  proof -
    have "unat (3 :: u32) \<le> 512" "1 = min (512 - unat (3 :: u32)) (unat (1 :: u32))" "1 \<le> length [9 :: u8]"
      by simp_all
    from fat32_bio_write_copy_refines [OF two_slots_cached [where c = sevens and sh = sh and junk = junk and m = "()", OF length_replicate] TrueI this, of 5]
    show ?thesis by (auto simp: two_slots_seen)
  qed
qed

theorem fat32_bio_flush_durable_witness:
  "\<forall>sh junk. \<exists>fs'. fat32_bio_flush (two_slots sevens sh junk ()) = Inr fs' \<and>
     sectors fst (dev (disk fs')) (dsec (two_slots sevens sh junk ()) 5) = replicate 512 7"
proof (intro allI)
  fix sh junk
  show "\<exists>fs'. fat32_bio_flush (two_slots sevens sh junk ()) = Inr fs' \<and>
     sectors fst (dev (disk fs')) (dsec (two_slots sevens sh junk ()) 5) = replicate 512 7"
    using fat32_bio_flush_durable [OF two_slots_cached [where c = sevens and sh = sh and junk = junk and m = "()", OF length_replicate]] by (auto simp: two_slots_seen)
qed

end
