(* ===== verification/Sd_Cache.thy ===== *)
theory Sd_Cache
  imports Bio_Inv Sdcard_Inv
begin

text \<open>
  The sector cache of \<open>Bio\<close> on the SD card of the K210 board: the lemmas of \<open>Bio_Inv\<close> for the
  interpretation that \<open>Sdcard_Inv\<close> gives.
\<close>

abbreviation card_sectors :: "('c \<Rightarrow> u64 \<Rightarrow> u8 list) \<Rightarrow> 'c sdcard \<Rightarrow> u64 \<Rightarrow> u8 list" where
  "card_sectors cont sd \<equiv> cont (bus sd)"

definition sd_cached :: "'c spi_bus \<Rightarrow> ('c \<Rightarrow> bool) \<Rightarrow> ('c \<Rightarrow> u64 \<Rightarrow> u8 list) \<Rightarrow> (u64 \<Rightarrow> bool) \<Rightarrow>
    ('c sdcard, 'a) bio_scheme \<Rightarrow> nat list \<Rightarrow> bool" where
  "sd_cached B idle cont present fs xs \<longleftrightarrow>
     bio_inv (card_sectors cont) present (sd_ok B idle cont present) fs xs \<and>
     read_op (disk fs) = k210_disk_hal_read B \<and> write_op (disk fs) = k210_disk_hal_write B"

lemmas sd_read_copy_view = block_device.read_copy_view [OF sdblk.block_device_axioms]
  and sd_write_copy_view = block_device.write_copy_view [OF sdblk.block_device_axioms]
  and sd_flush_view = block_device.flush_view [OF sdblk.block_device_axioms]

text \<open>Bytes written through the cache are on the card after a flush, and no other sector has changed.\<close>

lemma sd_write_flush:
  assumes c: "sd_cached B idle cont present fs xs" and s: "present (dsec fs s)" "unat offset \<le> 512"
    and n: "n = min (512 - unat offset) (unat buf_len)" "n \<le> length inp"
  shows "\<exists>fs1 fs2 xs'. fat32_bio_write_copy s offset inp buf_len fs = Inr (of_nat n, fs1) \<and> fat32_bio_flush fs1 = Inr fs2 \<and>
     sd_cached B idle cont present fs2 xs' \<and>
     (\<forall>t. card_sectors cont (dev (disk fs2)) (dsec fs t) = ((view (card_sectors cont) fs)
        (s := take (unat offset) (view (card_sectors cont) fs s) @ take n inp @ drop (unat offset + n) (view (card_sectors cont) fs s))) t)"
proof -
  note d = c [unfolded sd_cached_def]
  obtain fs1 xs' where w: "fat32_bio_write_copy s offset inp buf_len fs = Inr (of_nat n, fs1)"
      "bio_inv (card_sectors cont) present (sd_ok B idle cont present) fs1 xs'" "same_vol fs fs1"
      "view (card_sectors cont) fs1 = (view (card_sectors cont) fs)(s := take (unat offset) (view (card_sectors cont) fs s) @ take n inp @
        drop (unat offset + n) (view (card_sectors cont) fs s))"
    using sd_write_copy_view [OF d [THEN conjunct1] d [THEN conjunct2, THEN conjunct1] d [THEN conjunct2, THEN conjunct2] s n] by blast
  have op: "write_op (disk fs1) = k210_disk_hal_write B" "read_op (disk fs1) = k210_disk_hal_read B"
    using d w(3) by (simp_all add: same_vol_def)
  obtain fs2 where f: "fat32_bio_flush fs1 = Inr fs2" "bio_inv (card_sectors cont) present (sd_ok B idle cont present) fs2 xs'"
      "same_vol fs1 fs2" "\<forall>t. card_sectors cont (dev (disk fs2)) (dsec fs1 t) = view (card_sectors cont) fs1 t"
    using sd_flush_view [OF w(2) op(1)] by blast
  have "dsec fs1 = dsec fs" using same_vol_dsec [OF w(3)] by auto
  moreover have "sd_cached B idle cont present fs2 xs'" using f(2,3) op by (simp add: sd_cached_def same_vol_def)
  ultimately show ?thesis using w(1,4) f(1,4) by metis
qed

end
