(* ===== verification/Fat.thy ===== *)
theory Fat
  imports Bio Kmem
begin

text \<open>
  Models the volume of \<open>kernel/fat32.c\<close>: the boot sector that \<open>fat32_init\<close> reads, the
  geometry it computes, the mapping between clusters and sectors and the file allocation
  table. Sectors are reached through the cache of \<open>Bio\<close>, so every access may load a sector.
\<close>

section \<open>Bytes and multi-byte fields\<close>

definition le16 :: "u8 \<Rightarrow> u8 \<Rightarrow> u16" where
  "le16 a b = ucast a OR push_bit 8 (ucast b)"

definition le32 :: "u8 \<Rightarrow> u8 \<Rightarrow> u8 \<Rightarrow> u8 \<Rightarrow> u32" where
  "le32 a b c d = ucast a OR push_bit 8 (ucast b) OR push_bit 16 (ucast c) OR push_bit 24 (ucast d)"

definition rd8 :: "u8 list \<Rightarrow> nat \<Rightarrow> u8 outcome" where
  "rd8 m p = arr_get m p"

definition rd16 :: "u8 list \<Rightarrow> nat \<Rightarrow> u16 outcome" where
  "rd16 m p = bindO (rd8 m p) (\<lambda>a. bindO (rd8 m (p + 1)) (\<lambda>b. Inr (le16 a b)))"

definition rd32 :: "u8 list \<Rightarrow> nat \<Rightarrow> u32 outcome" where
  "rd32 m p = bindO (rd8 m p) (\<lambda>a. bindO (rd8 m (p + 1)) (\<lambda>b.
     bindO (rd8 m (p + 2)) (\<lambda>c. bindO (rd8 m (p + 3)) (\<lambda>d. Inr (le32 a b c d)))))"

definition bytes32 :: "u32 \<Rightarrow> u8 list" where
  "bytes32 x = [ucast x, ucast (drop_bit 8 x), ucast (drop_bit 16 x), ucast (drop_bit 24 x)]"

definition wr32 :: "u8 list \<Rightarrow> nat \<Rightarrow> u32 \<Rightarrow> u8 list outcome" where
  "wr32 m p x = write_bytes p (bytes32 x) m"

section \<open>The volume\<close>

text \<open>\<open>free_count\<close> and \<open>nxt_free\<close> are declared but never used by the source.\<close>

record 'd fat32_fs = "'d bio" +
  total_sector :: u32
  chain_per_sector :: u32
  sec_per_cluster :: u32
  reserved_sec_cnt :: u32
  sec_per_table :: u32
  table_num :: u32
  root_cidx :: u32
  table_sidx :: u32
  first_cluster_sidx :: u32
  cluster_num :: u32

definition FAT32_CHAIN_END_FLAG :: u32 where "FAT32_CHAIN_END_FLAG = 0x0ffffff8"

definition fat32_sec2clu :: "'d fat32_fs \<Rightarrow> u32 \<Rightarrow> u32 outcome" where
  "fat32_sec2clu fs sidx = guardO Undefined (sec_per_cluster fs \<noteq> 0)
     (Inr ((sidx - first_cluster_sidx fs) div sec_per_cluster fs + 2))"

definition fat32_clu2sec :: "'d fat32_fs \<Rightarrow> u32 \<Rightarrow> u32" where
  "fat32_clu2sec fs cidx = (cidx - 2) * sec_per_cluster fs + first_cluster_sidx fs"

text \<open>Reading an entry of the table at an index into the sector at offset \<open>tab\<close>.\<close>

definition table_entry :: "nat \<Rightarrow> u32 \<Rightarrow> 'd fat32_fs \<Rightarrow> u32 outcome" where
  "table_entry tab i fs = rd32 (buf_mem fs) (tab + 4 * unat i)"

text \<open>The inner loop of the search, from index \<open>i\<close> on.\<close>

function avail_loop :: "nat \<Rightarrow> u32 \<Rightarrow> 'd fat32_fs \<Rightarrow> u32 option outcome" where
  "avail_loop tab i fs =
     (if i < chain_per_sector fs then
        bindO (table_entry tab i fs) (\<lambda>v.
        if v < FAT32_CHAIN_END_FLAG then Inr (Some i) else avail_loop tab (i + 1) fs)
      else Inr None)"
  by pat_completeness auto
termination
proof (relation "measure (\<lambda>(tab, i, fs). unat (chain_per_sector fs) - unat i)")
  fix tab and i :: u32 and fs :: "'d fat32_fs" and v
  assume i: "i < chain_per_sector fs"
  have "unat (chain_per_sector fs) < 2 ^ 32" using unsigned_less [of "chain_per_sector fs"] by simp
  then have "unat (i + 1) = unat i + 1" using i by (simp add: word_less_nat_alt unat_word_ariths)
  then show "((tab, i + 1, fs), (tab, i, fs)) \<in> measure (\<lambda>(tab, i, fs). unat (chain_per_sector fs) - unat i)"
    using i by (simp add: word_less_nat_alt)
qed simp

declare avail_loop.simps [simp del]

text \<open>The outer loop: the source never advances \<open>sidx\<close>.\<close>

partial_function (option) search_loop :: "u32 \<Rightarrow> u32 \<Rightarrow> 'd fat32_fs \<Rightarrow> (u32 \<times> 'd fat32_fs) outcome option" where
  [code]: "search_loop sidx offset fs =
     (if sidx < sec_per_table fs then
        (case bindO (fat32_bio_read sidx fs) (\<lambda>(tab, fs).
              bindO (avail_loop tab offset fs) (\<lambda>r. Inr (r, fs))) of
           Inl e \<Rightarrow> Some (Inl e)
         | Inr (Some i, fs) \<Rightarrow> Some (Inr (sidx * chain_per_sector fs + i, fs))
         | Inr (None, fs) \<Rightarrow> search_loop sidx 0 fs)
      else Some (Inr (0, fs)))"

definition fat32_search_avail_chain :: "u32 \<Rightarrow> 'd fat32_fs \<Rightarrow> (u32 \<times> 'd fat32_fs) outcome" where
  "fat32_search_avail_chain start fs =
     guardO Undefined (chain_per_sector fs \<noteq> 0)
       (hang (search_loop (start div chain_per_sector fs + reserved_sec_cnt fs) (start mod chain_per_sector fs) fs))"

definition fat32_set_chain :: "u32 \<Rightarrow> u32 \<Rightarrow> 'd fat32_fs \<Rightarrow> 'd fat32_fs outcome" where
  "fat32_set_chain index val fs =
     guardO Undefined (chain_per_sector fs \<noteq> 0) (
     bindO (fat32_bio_write (index div chain_per_sector fs + reserved_sec_cnt fs) fs) (\<lambda>(tab, fs).
     bindO (wr32 (buf_mem fs) (tab + 4 * unat (index mod chain_per_sector fs)) val) (\<lambda>m.
     Inr (fs\<lparr>buf_mem := m\<rparr>))))"

definition fat32_set_chain_auto :: "u32 \<Rightarrow> 'd fat32_fs \<Rightarrow> (u32 \<times> 'd fat32_fs) outcome" where
  "fat32_set_chain_auto cur fs =
     bindO (fat32_search_avail_chain cur fs) (\<lambda>(nxt, fs).
     bindO (fat32_set_chain cur nxt fs) (\<lambda>fs.
     bindO (fat32_set_chain nxt FAT32_CHAIN_END_FLAG fs) (\<lambda>fs. Inr (nxt, fs))))"

definition fat32_get_chain :: "u32 \<Rightarrow> 'd fat32_fs \<Rightarrow> (u32 \<times> 'd fat32_fs) outcome" where
  "fat32_get_chain index fs =
     guardO Undefined (chain_per_sector fs \<noteq> 0) (
     bindO (fat32_bio_read (index div chain_per_sector fs + reserved_sec_cnt fs) fs) (\<lambda>(tab, fs).
     bindO (table_entry tab (index mod chain_per_sector fs) fs) (\<lambda>v. Inr (v, fs))))"

definition fat32_flush :: "'d fat32_fs \<Rightarrow> 'd fat32_fs outcome" where
  "fat32_flush fs = fat32_bio_flush fs"

section \<open>The boot sector\<close>

text \<open>The fields of \<open>struct fat32_bpb\<close> that the source reads; the structure is packed.\<close>

record fat32_bpb =
  jmpBoot0 :: u8
  jmpBoot2 :: u8
  BytePerSec :: u16
  SecPerClus :: u8
  RsvdSecCnt :: u16
  NumFATs :: u8
  HiddSec :: u32
  ToSec32 :: u32
  FATSz32 :: u32
  RootClus :: u32

definition read_bpb :: "u8 list \<Rightarrow> fat32_bpb outcome" where
  "read_bpb m =
     bindO (rd8 m 0) (\<lambda>j0. bindO (rd8 m 2) (\<lambda>j2. bindO (rd16 m 11) (\<lambda>bps. bindO (rd8 m 13) (\<lambda>spc.
     bindO (rd16 m 14) (\<lambda>rsv. bindO (rd8 m 16) (\<lambda>nf. bindO (rd32 m 28) (\<lambda>hid. bindO (rd32 m 32) (\<lambda>tot.
     bindO (rd32 m 36) (\<lambda>fsz. bindO (rd32 m 44) (\<lambda>rc.
     Inr \<lparr>jmpBoot0 = j0, jmpBoot2 = j2, BytePerSec = bps, SecPerClus = spc, RsvdSecCnt = rsv, NumFATs = nf,
          HiddSec = hid, ToSec32 = tot, FATSz32 = fsz, RootClus = rc\<rparr>))))))))))"

text \<open>The parameters that the source derives from the boot sector; the messages about mismatches
  are not modelled.\<close>

definition volume_of :: "'d disk_hal \<Rightarrow> u64 \<Rightarrow> u8 list \<Rightarrow> u8 \<Rightarrow> u32 \<Rightarrow> u32 \<Rightarrow> fat32_bpb \<Rightarrow> 'd fat32_fs outcome" where
  "volume_of d a mem buf_order start_sector sectors bpb =
     guardO Undefined (BytePerSec bpb \<noteq> 0) (
     let bps = (ucast (BytePerSec bpb) :: u32);
         rsv = (ucast (RsvdSecCnt bpb) :: u32); nf = (ucast (NumFATs bpb) :: u32)
     in Inr \<lparr>disk = d,
             dsidx = (if HiddSec bpb \<noteq> start_sector then HiddSec bpb else start_sector),
             byte_per_sector = bps, buf = a, buf_mem = mem,
             buf_num = ucast (POWER_OF_2 (unat buf_order) * PAGE_SIZE div ucast bps),
             buf_flags = [], buf_sidx = [], buf_seq = list_init Buf_seq \<lparr>lprev = (\<lambda>_. Buf_seq), lnext = (\<lambda>_. Buf_seq)\<rparr>,
             total_sector = (if ToSec32 bpb \<noteq> sectors then ToSec32 bpb else sectors),
             chain_per_sector = ucast (ucast (BytePerSec bpb) div 4 :: u64),
             sec_per_cluster = ucast (SecPerClus bpb), reserved_sec_cnt = rsv, sec_per_table = FATSz32 bpb,
             table_num = nf, root_cidx = RootClus bpb, table_sidx = rsv,
             first_cluster_sidx = FATSz32 bpb * nf + rsv,
             cluster_num = ucast (ucast (bps * FATSz32 bpb) div 4 - 2 :: u64)\<rparr>)"

definition SIZEOF_FAT32_FS :: u64 where "SIZEOF_FAT32_FS = 128"

text \<open>\<open>kmalloc\<close> of an array; on failure the objects in \<open>as\<close> and the buffer are freed.\<close>

fun kfree_all :: "u64 list \<Rightarrow> kchain \<Rightarrow> kchain outcome" where
  "kfree_all [] k = Inr k"
| "kfree_all (a # as) k = bindO (kfree a k) (kfree_all as)"

definition or_give_up :: "u64 \<Rightarrow> u64 list \<Rightarrow> u64 \<Rightarrow> kchain \<Rightarrow> (u64 \<Rightarrow> kchain \<Rightarrow> ('x option \<times> kchain) outcome) \<Rightarrow>
    ('x option \<times> kchain) outcome" where
  "or_give_up bp as sz k f =
     bindO (kmalloc sz k) (\<lambda>(p, k).
     if p = 0 then bindO (kh_pmem_free bp k) (\<lambda>k. bindO (kfree_all as k) (\<lambda>k. Inr (None, k)))
     else f p k)"

text \<open>
  \<open>page\<close> is what the new buffer happens to hold. The result is null when memory runs out, and
  otherwise the address of the volume's descriptor with the descriptor.
\<close>

definition fat32_init :: "'d disk_hal \<Rightarrow> u32 \<Rightarrow> u32 \<Rightarrow> u8 \<Rightarrow> u8 list \<Rightarrow> kchain \<Rightarrow>
    ((u64 \<times> 'd fat32_fs) option \<times> kchain) outcome" where
  "fat32_init d start_sector sectors buf_order page k =
     bindO (kmalloc SIZEOF_FAT32_FS k) (\<lambda>(p, k).
     if p = 0 then Inr (None, k) else
     bindO (kh_pmem_alloc (int (unat buf_order)) k) (\<lambda>(a, k).
     if a = 0 then bindO (kfree p k) (\<lambda>k. Inr (None, k)) else
     bindO (read_op d (ucast start_sector) a page (dev d)) (\<lambda>(r, mem, e).
     bindO (read_bpb mem) (\<lambda>bpb.
     bindO (volume_of (d\<lparr>dev := e\<rparr>) a mem buf_order start_sector sectors bpb) (\<lambda>fs.
     let n = unat (buf_num fs) in
     or_give_up a [p] (4 * ucast (buf_num fs)) k (\<lambda>s k.
     or_give_up a [s, p] (ucast (buf_num fs)) k (\<lambda>f k.
     or_give_up a [f, s, p] (16 * ucast (buf_num fs)) k (\<lambda>l k.
     Inr (Some (p, fs\<lparr>buf_flags := replicate n FAT32_BIO_FLAG_INVALID, buf_sidx := replicate n 0,
                      buf_seq := foldl (\<lambda>h i. list_init (Buf_lists i) h) (buf_seq fs) [0..<n]\<rparr>), k)))))))))"

definition fat32_destory :: "u64 \<Rightarrow> 'd fat32_fs \<Rightarrow> kchain \<Rightarrow> kchain outcome" where
  "fat32_destory p fs k = bindO (kh_pmem_free (buf fs) k) (kfree p)"

end
