(* ===== verification/Fat_Dir.thy ===== *)
theory Fat_Dir
  imports Fat Kustd
begin

text \<open>
  Models the directories and files of \<open>kernel/fat32.c\<close>: the copying of names out of directory
  entries, the iteration over a directory, the lookup of a name and of a path, and the reading
  of a file along its chain of clusters.
\<close>

section \<open>Objects and iterators\<close>

definition FAT32_ATTR_VOLUME_ID :: u8 where "FAT32_ATTR_VOLUME_ID = 0x08"
definition FAT32_ATTR_DIRECTORY :: u8 where "FAT32_ATTR_DIRECTORY = 0x10"
definition FAT32_ATTR_LONG_NAME :: u8 where "FAT32_ATTR_LONG_NAME = 0x01 OR 0x02 OR 0x04 OR 0x08"
definition FAT32_ATTR_LONG_NAME_MASK :: u8 where "FAT32_ATTR_LONG_NAME_MASK = FAT32_ATTR_LONG_NAME OR 0x10 OR 0x20"
definition FAT32_OBJ_FILE :: u32 where "FAT32_OBJ_FILE = 1"
definition FAT32_OBJ_DIRECTORY :: u32 where "FAT32_OBJ_DIRECTORY = 2"
definition FAT32_LONG_FN_LEN :: nat where "FAT32_LONG_FN_LEN = 13"
definition FAT32_SHORT_FN_LEN :: nat where "FAT32_SHORT_FN_LEN = 11"
definition FAT32_LONG_FN_STACK_NUM :: int where "FAT32_LONG_FN_STACK_NUM = 10"
definition FAT32_DIRNAME_FREE :: u8 where "FAT32_DIRNAME_FREE = 0xe5"
definition FAT32_DIRNAME_RES_FREE :: u8 where "FAT32_DIRNAME_RES_FREE = 0"

text \<open>\<open>long_fn\<close> has 131 bytes and \<open>short_fn\<close> has 12.\<close>

record fat32_obj =
  obj_cidx :: u32
  obj_type :: u32
  table_index :: u32
  long_fn :: "u8 list"
  short_fn :: "u8 list"
  obj_file_size :: u32

record fat32_directory_iter =
  cur_cidx :: u32
  cur_sidx_offset :: u32
  cur_byte_offset :: u32

record fat32_dir_entry_pos =
  entry_cidx :: u32
  entry_offset :: u32

text \<open>The offsets of the entries of a sector of \<open>n\<close> bytes, from \<open>b\<close> on.\<close>

definition dir_offsets :: "nat \<Rightarrow> nat \<Rightarrow> nat list" where
  "dir_offsets b n = map (\<lambda>k. b + 32 * k) [0..<(n - b + 31) div 32]"

definition entry_free :: "u8 \<Rightarrow> bool" where
  "entry_free d \<longleftrightarrow> d = FAT32_DIRNAME_FREE \<or> d = FAT32_DIRNAME_RES_FREE"

section \<open>Free entries\<close>

text \<open>The run of free entries that ends at the current one.\<close>

record free_run =
  avail_entry_cidx :: u32
  avail_entry_offset :: u32
  avail_entry_cnt :: u32
  last_avail :: bool

definition count_free :: "u32 \<Rightarrow> u32 \<Rightarrow> free_run \<Rightarrow> free_run" where
  "count_free cidx offset r =
     (if \<not> last_avail r then r\<lparr>avail_entry_offset := offset, avail_entry_cnt := 1, avail_entry_cidx := cidx\<rparr>
      else r\<lparr>avail_entry_cnt := avail_entry_cnt r + 1\<rparr>)"

fun free_in_sector :: "u32 \<Rightarrow> u32 \<Rightarrow> nat \<Rightarrow> nat \<Rightarrow> nat list \<Rightarrow> free_run \<Rightarrow> 'd fat32_fs \<Rightarrow> (bool \<times> free_run) outcome" where
  "free_in_sector num cidx so dat [] r fs = Inr (False, r)"
| "free_in_sector num cidx so dat (i # is) r fs =
     bindO (rd8 (buf_mem fs) (dat + i)) (\<lambda>d.
     if entry_free d then
       let r = count_free cidx ((of_nat so * byte_per_sector fs + of_nat i) div 32) r
       in if avail_entry_cnt r = num then Inr (True, r)
          else free_in_sector num cidx so dat is (r\<lparr>last_avail := True\<rparr>) fs
     else free_in_sector num cidx so dat is (r\<lparr>last_avail := False\<rparr>) fs)"

fun free_in_cluster :: "u32 \<Rightarrow> u32 \<Rightarrow> u32 \<Rightarrow> nat list \<Rightarrow> free_run \<Rightarrow> 'd fat32_fs \<Rightarrow>
    (bool \<times> free_run \<times> 'd fat32_fs) outcome" where
  "free_in_cluster num cidx sidx [] r fs = Inr (False, r, fs)"
| "free_in_cluster num cidx sidx (so # ss) r fs =
     bindO (fat32_bio_read (sidx + of_nat so) fs) (\<lambda>(dat, fs).
     bindO (free_in_sector num cidx so dat (dir_offsets 0 (unat (byte_per_sector fs))) r fs) (\<lambda>(found, r).
     if found then Inr (True, r, fs) else free_in_cluster num cidx sidx ss r fs))"

partial_function (option) free_in_chain :: "u32 \<Rightarrow> u32 \<Rightarrow> free_run \<Rightarrow> 'd fat32_fs \<Rightarrow>
    (fat32_dir_entry_pos option \<times> 'd fat32_fs) outcome option" where
  [code]: "free_in_chain num cidx r fs =
     (if cidx < FAT32_CHAIN_END_FLAG then
        (case free_in_cluster num cidx (fat32_clu2sec fs cidx) [0..<unat (sec_per_cluster fs)] r fs of
           Inl e \<Rightarrow> Some (Inl e)
         | Inr (found, r, fs) \<Rightarrow>
             if found then Some (Inr (Some \<lparr>entry_cidx = avail_entry_cidx r, entry_offset = avail_entry_offset r\<rparr>, fs))
             else (case fat32_get_chain cidx fs of
                     Inl e \<Rightarrow> Some (Inl e)
                   | Inr (cidx, fs) \<Rightarrow> free_in_chain num cidx r fs))
      else Some (Inr (None, fs)))"

text \<open>\<open>junk\<close> is what the uninitialised \<open>avail_entry_cidx\<close> holds. The result is the position
  stored through \<open>pos\<close> when the source returns true.\<close>

definition fat32_search_in_dir_entry :: "u32 \<Rightarrow> fat32_obj \<Rightarrow> u32 \<Rightarrow> 'd fat32_fs \<Rightarrow>
    (fat32_dir_entry_pos option \<times> 'd fat32_fs) outcome" where
  "fat32_search_in_dir_entry junk dir num fs =
     hang (free_in_chain num (obj_cidx dir)
       \<lparr>avail_entry_cidx = junk, avail_entry_offset = 0, avail_entry_cnt = 0, last_avail = False\<rparr> fs)"

section \<open>Names\<close>

text \<open>Bytes at the positions \<open>is\<close> of the entry at \<open>e\<close>, up to a space.\<close>

fun copy_until_space :: "u8 list \<Rightarrow> nat \<Rightarrow> nat list \<Rightarrow> nat \<Rightarrow> u8 list \<Rightarrow> (nat \<times> u8 list) outcome" where
  "copy_until_space m e [] j dst = Inr (j, dst)"
| "copy_until_space m e (i # is) j dst =
     bindO (rd8 m (e + i)) (\<lambda>c.
     if c = 0x20 then Inr (j, dst)
     else bindO (arr_set dst j c) (copy_until_space m e is (j + 1)))"

definition put_char :: "u8 \<Rightarrow> nat \<times> u8 list \<Rightarrow> (nat \<times> u8 list) outcome" where
  "put_char c = (\<lambda>(j, dst). bindO (arr_set dst j c) (\<lambda>dst. Inr (j + 1, dst)))"

text \<open>The entry is at \<open>e\<close> in \<open>m\<close>; the results are the number of bytes and the buffer.\<close>

definition fat32_copy_name_short :: "u8 list \<Rightarrow> nat \<Rightarrow> u8 list \<Rightarrow> (nat \<times> u8 list) outcome" where
  "fat32_copy_name_short m e dst =
     bindO (copy_until_space m e [0..<8] 0 dst) (\<lambda>(j, dst).
     bindO (rd8 m (e + 5)) (\<lambda>c.
     if c = 0x20 then put_char 0 (j, dst)
     else
     bindO (put_char 46 (j, dst)) (\<lambda>(j, dst).
     bindO (copy_until_space m e [8..<11] j dst) (put_char 0))))"

text \<open>The positions of the 16-bit characters: \<open>Name1\<close>, \<open>Name2\<close> and \<open>Name3\<close>.\<close>

definition long_name_offsets :: "nat list" where
  "long_name_offsets = map (\<lambda>i. 1 + 2 * i) [0..<5] @ map (\<lambda>i. 14 + 2 * i) [0..<6] @ map (\<lambda>i. 28 + 2 * i) [0..<2]"

fun copy_wide :: "u8 list \<Rightarrow> nat \<Rightarrow> nat list \<Rightarrow> nat \<Rightarrow> u8 list \<Rightarrow> (nat \<times> u8 list) outcome" where
  "copy_wide m e [] j dst = put_char 0 (j, dst)"
| "copy_wide m e (i # is) j dst =
     bindO (rd16 m (e + i)) (\<lambda>c.
     if c = 0xffff then Inr (j, dst)
     else bindO (arr_set dst j (ucast c)) (copy_wide m e is (j + 1)))"

definition fat32_copy_name_long :: "u8 list \<Rightarrow> nat \<Rightarrow> u8 list \<Rightarrow> (nat \<times> u8 list) outcome" where
  "fat32_copy_name_long m e dst = copy_wide m e long_name_offsets 0 dst"

definition fat32_name_s2l :: "u8 list \<Rightarrow> u8 list \<Rightarrow> (nat \<times> u8 list) outcome" where
  "fat32_name_s2l lfn sfn =
     bindO (copy_until_space sfn 0 [0..<5] 0 lfn) (\<lambda>(j, lfn).
     bindO (rd8 sfn 5) (\<lambda>c.
     bindO (if c \<noteq> 0x20 then bindO (put_char 46 (j, lfn)) (\<lambda>(j, lfn). copy_until_space sfn 0 [5..<8] j lfn)
            else Inr (j, lfn)) (put_char 0)))"

section \<open>Iterating over a directory\<close>

definition fat32_iter_start :: "fat32_obj \<Rightarrow> fat32_directory_iter" where
  "fat32_iter_start parent = \<lparr>cur_cidx = obj_cidx parent, cur_sidx_offset = 0, cur_byte_offset = 0\<rparr>"

text \<open>The long names collected so far, the last part first; the source has no check that they
  fit the ten rows of \<open>fns\<close>.\<close>

record long_names =
  lfn_flag :: bool
  fn_num :: int
  fns :: "u8 list list"

definition push_name :: "u8 list \<Rightarrow> nat \<Rightarrow> long_names \<Rightarrow> long_names outcome" where
  "push_name m e s =
     (let n = (if lfn_flag s then fn_num s else FAT32_LONG_FN_STACK_NUM) - 1 in
      guardO Undefined (0 \<le> n)
        (bindO (arr_get (fns s) (nat n)) (\<lambda>row.
         bindO (fat32_copy_name_long m e row) (\<lambda>(j, row).
         Inr \<lparr>lfn_flag = True, fn_num = n, fns = (fns s)[nat n := row]\<rparr>))))"

definition entry_kind :: "u8 \<Rightarrow> u8" where
  "entry_kind attr = attr AND (FAT32_ATTR_VOLUME_ID OR FAT32_ATTR_DIRECTORY)"

text \<open>The entries of a sector, up to the first one of a file or a directory.\<close>

fun iter_sector :: "u8 list \<Rightarrow> nat \<Rightarrow> nat list \<Rightarrow> long_names \<Rightarrow> (nat option \<times> long_names) outcome" where
  "iter_sector m dat [] s = Inr (None, s)"
| "iter_sector m dat (i # is) s =
     bindO (rd8 m (dat + i)) (\<lambda>d.
     if entry_free d then iter_sector m dat is s
     else bindO (rd8 m (dat + i + 11)) (\<lambda>attr.
     if attr AND FAT32_ATTR_LONG_NAME_MASK = FAT32_ATTR_LONG_NAME
     then bindO (push_name m (dat + i) s) (iter_sector m dat is)
     else if entry_kind attr = 0 \<or> entry_kind attr = FAT32_ATTR_DIRECTORY then Inr (Some i, s)
     else iter_sector m dat is (s\<lparr>lfn_flag := False\<rparr>)))"

text \<open>The sectors of a cluster; the first one is entered at byte \<open>b\<close>.\<close>

fun iter_cluster :: "u32 \<Rightarrow> nat \<Rightarrow> nat list \<Rightarrow> long_names \<Rightarrow> 'd fat32_fs \<Rightarrow>
    ((nat \<times> nat \<times> nat) option \<times> long_names \<times> 'd fat32_fs) outcome" where
  "iter_cluster sidx b [] s fs = Inr (None, s, fs)"
| "iter_cluster sidx b (so # ss) s fs =
     bindO (fat32_bio_read (sidx + of_nat so) fs) (\<lambda>(dat, fs).
     bindO (iter_sector (buf_mem fs) dat (dir_offsets b (unat (byte_per_sector fs))) s) (\<lambda>(r, s).
     case r of Some i \<Rightarrow> Inr (Some (so, dat, i), s, fs)
     | None \<Rightarrow> iter_cluster sidx 0 ss s fs))"

text \<open>The clusters of the directory; the result is the cluster, the sector in it, the offset of the
  sector in the buffer and the offset of the entry.\<close>

partial_function (option) iter_chain :: "u32 \<Rightarrow> nat \<Rightarrow> nat \<Rightarrow> long_names \<Rightarrow> 'd fat32_fs \<Rightarrow>
    ((u32 \<times> nat \<times> nat \<times> nat) option \<times> long_names \<times> 'd fat32_fs) outcome option" where
  [code]: "iter_chain cidx so b s fs =
     (if cidx < FAT32_CHAIN_END_FLAG then
        (case iter_cluster (fat32_clu2sec fs cidx) b [so..<unat (sec_per_cluster fs)] s fs of
           Inl e \<Rightarrow> Some (Inl e)
         | Inr (Some (so, dat, i), s, fs) \<Rightarrow> Some (Inr (Some (cidx, so, dat, i), s, fs))
         | Inr (None, s, fs) \<Rightarrow>
             (case fat32_get_chain cidx fs of
                Inl e \<Rightarrow> Some (Inl e)
              | Inr (cidx, fs) \<Rightarrow> iter_chain cidx 0 (if so < unat (sec_per_cluster fs) then 0 else b) s fs))
      else Some (Inr (None, s, fs)))"

definition entry_cluster :: "u8 list \<Rightarrow> nat \<Rightarrow> u32 outcome" where
  "entry_cluster m e = bindO (rd16 m (e + 20)) (\<lambda>hi. bindO (rd16 m (e + 26)) (\<lambda>lo.
     Inr (push_bit 16 (ucast hi) + ucast lo)))"

definition join_names :: "long_names \<Rightarrow> u8 list \<Rightarrow> u8 list outcome" where
  "join_names s dst = bindO (put_strs dst 0 (drop (nat (fn_num s)) (fns s))) (\<lambda>(p, dst). Inr dst)"

definition found_file :: "u8 list \<Rightarrow> nat \<Rightarrow> long_names \<Rightarrow> fat32_obj \<Rightarrow> fat32_obj outcome" where
  "found_file m e s ob =
     bindO (entry_cluster m e) (\<lambda>c.
     bindO (rd32 m (e + 28)) (\<lambda>sz.
     bindO (if lfn_flag s then join_names s (long_fn ob) else arr_set (long_fn ob) 0 0) (\<lambda>l.
     bindO (fat32_copy_name_short m e (short_fn ob)) (\<lambda>(j, sh).
     Inr (ob\<lparr>obj_cidx := c, obj_file_size := sz, long_fn := l, short_fn := sh, obj_type := FAT32_OBJ_FILE\<rparr>)))))"

text \<open>A directory without long name: \<open>.\<close>, \<open>..\<close> (cluster 0 stands for the root) or a short name.\<close>

definition dir_name :: "u32 \<Rightarrow> u32 \<Rightarrow> u8 list \<Rightarrow> u8 list \<Rightarrow> (u32 \<times> u8 list) outcome" where
  "dir_name root c sh l =
     bindO (rd8 sh 0) (\<lambda>s0.
     if s0 = 46 then
       bindO (arr_set l 0 46) (\<lambda>l.
       bindO (rd8 sh 1) (\<lambda>s1.
       if s1 = 46 then bindO (arr_set l 1 46) (\<lambda>l. bindO (arr_set l 2 0) (\<lambda>l. Inr (if c = 0 then root else c, l)))
       else bindO (arr_set l 1 0) (\<lambda>l. Inr (c, l))))
     else bindO (fat32_name_s2l l sh) (\<lambda>(j, l). Inr (c, l)))"

definition found_directory :: "u32 \<Rightarrow> u8 list \<Rightarrow> nat \<Rightarrow> long_names \<Rightarrow> fat32_obj \<Rightarrow> fat32_obj outcome" where
  "found_directory root m e s ob =
     bindO (entry_cluster m e) (\<lambda>c.
     bindO (fat32_copy_name_short m e (short_fn ob)) (\<lambda>(j, sh).
     bindO (if lfn_flag s then bindO (join_names s (long_fn ob)) (\<lambda>l. Inr (c, l))
            else dir_name root c sh (long_fn ob)) (\<lambda>(c, l).
     Inr (ob\<lparr>obj_cidx := c, short_fn := sh, long_fn := l, obj_type := FAT32_OBJ_DIRECTORY\<rparr>))))"

text \<open>Where the iteration goes on: past the last sector of a cluster the source follows the chain
  after a file, but takes the next cluster number after a directory.\<close>

definition after_file :: "u32 \<Rightarrow> nat \<Rightarrow> nat \<Rightarrow> 'd fat32_fs \<Rightarrow> (fat32_directory_iter \<times> 'd fat32_fs) outcome" where
  "after_file cidx so i fs =
     (let nb = (of_nat i + 32 :: u32); bps = byte_per_sector fs;
          so' = of_nat so + (if nb div bps \<noteq> 0 then 1 else 0)
      in if so' div sec_per_cluster fs \<noteq> 0
         then bindO (fat32_get_chain cidx fs) (\<lambda>(c, fs).
                Inr (\<lparr>cur_cidx = c, cur_sidx_offset = 0, cur_byte_offset = nb mod bps\<rparr>, fs))
         else Inr (\<lparr>cur_cidx = cidx, cur_sidx_offset = so', cur_byte_offset = nb mod bps\<rparr>, fs))"

definition after_directory :: "u32 \<Rightarrow> nat \<Rightarrow> nat \<Rightarrow> 'd fat32_fs \<Rightarrow> fat32_directory_iter" where
  "after_directory cidx so i fs =
     (let nb = (of_nat i + 32 :: u32); bps = byte_per_sector fs;
          so' = of_nat so + (if nb div bps \<noteq> 0 then 1 else 0)
      in \<lparr>cur_cidx = cidx + (if so' div sec_per_cluster fs \<noteq> 0 then 1 else 0),
          cur_sidx_offset = so' mod sec_per_cluster fs, cur_byte_offset = nb mod bps\<rparr>)"

text \<open>\<open>stack\<close> is what the uninitialised \<open>fns\<close> holds.\<close>

definition fat32_iter_next :: "u8 list list \<Rightarrow> fat32_directory_iter \<Rightarrow> fat32_obj \<Rightarrow> 'd fat32_fs \<Rightarrow>
    (bool \<times> fat32_directory_iter \<times> fat32_obj \<times> 'd fat32_fs) outcome" where
  "fat32_iter_next stack iter ob fs =
     bindO (hang (iter_chain (cur_cidx iter) (unat (cur_sidx_offset iter)) (unat (cur_byte_offset iter))
        \<lparr>lfn_flag = False, fn_num = FAT32_LONG_FN_STACK_NUM, fns = stack\<rparr> fs)) (\<lambda>(r, s, fs).
     case r of
       None \<Rightarrow> Inr (False, iter, ob, fs)
     | Some (cidx, so, dat, i) \<Rightarrow>
         bindO (rd8 (buf_mem fs) (dat + i + 11)) (\<lambda>attr.
         if entry_kind attr = 0
         then bindO (found_file (buf_mem fs) (dat + i) s ob) (\<lambda>ob.
              bindO (after_file cidx so i fs) (\<lambda>(iter, fs). Inr (True, iter, ob, fs)))
         else bindO (found_directory (root_cidx fs) (buf_mem fs) (dat + i) s ob) (\<lambda>ob.
              Inr (True, after_directory cidx so i fs, ob, fs))))"

section \<open>Looking up names\<close>

partial_function (option) find_loop :: "(fat32_directory_iter \<Rightarrow> u8 list list) \<Rightarrow> u8 list \<Rightarrow> fat32_directory_iter \<Rightarrow> fat32_obj \<Rightarrow>
    'd fat32_fs \<Rightarrow> (bool \<times> fat32_obj \<times> 'd fat32_fs) outcome option" where
  [code]: "find_loop stack fn iter ob fs =
     (case fat32_iter_next (stack iter) iter ob fs of
        Inl e \<Rightarrow> Some (Inl e)
      | Inr (found, iter, ob, fs) \<Rightarrow>
          if found then
            (case strcmp fn (long_fn ob) of
               Inl e \<Rightarrow> Some (Inl e)
             | Inr c \<Rightarrow> if c = 0 then Some (Inr (True, ob, fs)) else find_loop stack fn iter ob fs)
          else Some (Inr (False, ob, fs)))"

definition fat32_find_in_dir :: "(fat32_directory_iter \<Rightarrow> u8 list list) \<Rightarrow> fat32_obj \<Rightarrow> u8 list \<Rightarrow> fat32_obj \<Rightarrow>
    'd fat32_fs \<Rightarrow> (bool \<times> fat32_obj \<times> 'd fat32_fs) outcome" where
  "fat32_find_in_dir stack parent fn ob fs = hang (find_loop stack fn (fat32_iter_start parent) ob fs)"

definition fat32_is_file :: "fat32_obj \<Rightarrow> bool" where
  "fat32_is_file ob \<longleftrightarrow> obj_type ob = FAT32_OBJ_FILE"

definition fat32_is_directory :: "fat32_obj \<Rightarrow> bool" where
  "fat32_is_directory ob \<longleftrightarrow> obj_type ob = FAT32_OBJ_DIRECTORY"

text \<open>The end of the component that starts at \<open>e\<close>: a slash or the terminator.\<close>

function component_end :: "u8 list \<Rightarrow> nat \<Rightarrow> nat outcome" where
  "component_end path e =
     (if e < length path then
        if path ! e \<noteq> 0 \<and> path ! e \<noteq> 47 then component_end path (e + 1) else Inr e
      else Inl Undefined)"
  by pat_completeness auto
termination by (relation "measure (\<lambda>(path, e). length path - e)") auto

declare component_end.simps [simp del]

lemma component_end_ge: "component_end path e = Inr e' \<Longrightarrow> e \<le> e' \<and> e' < length path"
  by (induction path e rule: component_end.induct)
    (auto simp: component_end.simps split: if_splits)

text \<open>The loop over the components, from the one that starts at \<open>s\<close>. The parent of the first is the
  caller's; then it is the object found, so only the first parent is not \<open>ob\<close>.\<close>

function path_loop :: "(fat32_directory_iter \<Rightarrow> u8 list list) \<Rightarrow> u8 list \<Rightarrow> nat \<Rightarrow> fat32_obj \<Rightarrow> fat32_obj \<Rightarrow>
    'd fat32_fs \<Rightarrow> (bool \<times> fat32_obj \<times> 'd fat32_fs) outcome" where
  "path_loop stack path s parent ob fs =
     (if s < length path then
        if path ! s \<noteq> 0 then
          bindO (component_end path s) (\<lambda>e.
          bindO (fat32_find_in_dir stack parent (take (e - s) (drop s path) @ [0]) ob fs) (\<lambda>(ret, ob, fs).
          if ret then
            if path ! e = 0 then Inr (True, ob, fs)
            else if \<not> fat32_is_directory ob then Inr (False, ob, fs)
            else path_loop stack path (e + 1) ob ob fs
          else Inr (False, ob, fs)))
        else Inr (False, ob, fs)
      else Inl Undefined)"
  by pat_completeness auto
termination
  by (relation "measure (\<lambda>(stack, path, s, parent, ob, fs). length path - s)") (auto dest!: component_end_ge)

declare path_loop.simps [simp del]

text \<open>\<open>path\<close> is the string with its terminator; it is copied to a buffer of the kernel heap.\<close>

definition fat32_get :: "(fat32_directory_iter \<Rightarrow> u8 list list) \<Rightarrow> fat32_obj \<Rightarrow> u8 list \<Rightarrow> fat32_obj \<Rightarrow>
    'd fat32_fs \<times> kchain \<Rightarrow> (bool \<times> fat32_obj \<times> 'd fat32_fs \<times> kchain) outcome" where
  "fat32_get stack parent path ob = (\<lambda>(fs, k).
     bindO (strlen path) (\<lambda>n.
     bindO (kmalloc (of_nat n + 1) k) (\<lambda>(p, k).
     guardO Undefined (p \<noteq> 0) (
     bindO (path_loop stack (take (n + 1) path) 0 parent ob fs) (\<lambda>(ret, ob, fs).
     bindO (kfree p k) (\<lambda>k. Inr (ret, ob, fs, k)))))))"

text \<open>Neither is implemented: the source loops for ever.\<close>

definition fat32_mkdir :: "fat32_obj \<Rightarrow> u8 list \<Rightarrow> 'd fat32_fs \<Rightarrow> (bool \<times> 'd fat32_fs) outcome" where
  "fat32_mkdir parent_dir name fs = Inl Hang"

definition fat32_create_file :: "fat32_obj \<Rightarrow> u8 list \<Rightarrow> 'd fat32_fs \<Rightarrow> (bool \<times> 'd fat32_fs) outcome" where
  "fat32_create_file parent_dir name fs = Inl Hang"

definition fat32_get_file_size :: "fat32_obj \<Rightarrow> u32" where
  "fat32_get_file_size ob = obj_file_size ob"

definition fat32_get_obj_name :: "fat32_obj \<Rightarrow> u8 list" where
  "fat32_get_obj_name ob = long_fn ob"

definition fat32_get_root_dir :: "'d fat32_fs \<Rightarrow> fat32_obj \<Rightarrow> fat32_obj outcome" where
  "fat32_get_root_dir fs ob =
     bindO (arr_set (short_fn ob) 0 0) (\<lambda>sh. bindO (arr_set (long_fn ob) 0 0) (\<lambda>l.
     Inr (ob\<lparr>obj_cidx := root_cidx fs, obj_type := FAT32_OBJ_DIRECTORY, short_fn := sh, long_fn := l\<rparr>)))"

section \<open>Reading a file\<close>

fun skip_chain :: "nat \<Rightarrow> u32 \<Rightarrow> 'd fat32_fs \<Rightarrow> (u32 \<times> 'd fat32_fs) outcome" where
  "skip_chain 0 cidx fs = Inr (cidx, fs)"
| "skip_chain (Suc n) cidx fs = bindO (fat32_get_chain cidx fs) (\<lambda>(cidx, fs). skip_chain n cidx fs)"

text \<open>The sectors of a cluster: the offset \<open>b\<close> into the sector is the same for all of them.\<close>

fun read_sectors :: "u32 \<Rightarrow> u64 \<Rightarrow> u64 \<Rightarrow> nat list \<Rightarrow> u64 \<Rightarrow> u8 list \<Rightarrow> 'd fat32_fs \<Rightarrow>
    (bool \<times> u64 \<times> u8 list \<times> 'd fat32_fs) outcome" where
  "read_sectors base b buf_len [] byte_cnt out fs = Inr (False, byte_cnt, out, fs)"
| "read_sectors base b buf_len (so # ss) byte_cnt out fs =
     bindO (fat32_bio_read (base + of_nat so) fs) (\<lambda>(dat, fs).
     let len = min_u64 (ucast (byte_per_sector fs) - b) (buf_len - byte_cnt) in
     bindO (read_bytes (dat + unat b) (unat len) (buf_mem fs)) (\<lambda>bs.
     bindO (write_bytes (unat byte_cnt) bs out) (\<lambda>out.
     let byte_cnt = byte_cnt + len in
     if byte_cnt = buf_len then Inr (True, buf_len, out, fs)
     else read_sectors base b buf_len ss byte_cnt out fs)))"

partial_function (option) read_chain :: "u32 \<Rightarrow> nat \<Rightarrow> u64 \<Rightarrow> u64 \<Rightarrow> u64 \<Rightarrow> u8 list \<Rightarrow> 'd fat32_fs \<Rightarrow>
    (u64 \<times> u8 list \<times> 'd fat32_fs) outcome option" where
  [code]: "read_chain cidx so b buf_len byte_cnt out fs =
     (if cidx < FAT32_CHAIN_END_FLAG then
        (case read_sectors (fat32_clu2sec fs cidx) b buf_len [so..<unat (sec_per_cluster fs)] byte_cnt out fs of
           Inl e \<Rightarrow> Some (Inl e)
         | Inr (full, byte_cnt, out, fs) \<Rightarrow>
             if full then Some (Inr (byte_cnt, out, fs))
             else (case fat32_get_chain cidx fs of
                     Inl e \<Rightarrow> Some (Inl e)
                   | Inr (cidx, fs) \<Rightarrow> read_chain cidx 0 0 buf_len byte_cnt out fs))
      else Some (Inr (byte_cnt, out, fs)))"

text \<open>\<open>out\<close> is the caller's buffer.\<close>

definition fat32_read :: "fat32_obj \<Rightarrow> u8 list \<Rightarrow> u64 \<Rightarrow> u64 \<Rightarrow> 'd fat32_fs \<Rightarrow> (u32 \<times> u8 list \<times> 'd fat32_fs) outcome" where
  "fat32_read ob out buf_len sk fs =
     (if ucast (obj_file_size ob) \<le> sk then Inr (0, out, fs) else
      guardO Undefined (byte_per_sector fs \<noteq> 0 \<and> sec_per_cluster fs \<noteq> 0) (
      let b = sk mod ucast (byte_per_sector fs);
          si = (ucast (sk div ucast (byte_per_sector fs)) :: u32);
          so = unat (si mod sec_per_cluster fs)
      in bindO (skip_chain (unat (si div sec_per_cluster fs)) (obj_cidx ob) fs) (\<lambda>(cidx, fs).
         bindO (hang (read_chain cidx so b buf_len 0 out fs)) (\<lambda>(n, out, fs).
         Inr (ucast n, out, fs)))))"

end
