(* ===== verification/Fat_Inv.thy ===== *)
theory Fat_Inv
  imports Fat Cache
begin

text \<open>
  The file allocation table as an array of cluster numbers: \<open>fat\<close> reads it from the disk that
  the file system sees, and \<open>fat32_get_chain\<close> and \<open>fat32_set_chain\<close> are its lookup and its
  update. \<open>fat32_init\<close> establishes the cache from the boot sector.
\<close>

section \<open>Fields of a slot\<close>

lemma rd8_slot:
  assumes "take 512 (drop off m) = v" "off + 512 \<le> length m" "p < 512"
  shows "rd8 m (off + p) = Inr (v ! p)"
  using assms by (auto simp: rd8_def)

lemma rd32_slot:
  assumes "take 512 (drop off m) = v" "off + 512 \<le> length m" "p + 3 < 512"
  shows "rd32 m (off + p) = Inr (le32 (v ! p) (v ! (p + 1)) (v ! (p + 2)) (v ! (p + 3)))"
  using rd8_slot [OF assms(1,2), of p] rd8_slot [OF assms(1,2), of "p + 1"] rd8_slot [OF assms(1,2), of "p + 2"]
    rd8_slot [OF assms(1,2), of "p + 3"] assms(3)
  by (simp add: rd32_def add.assoc)

lemma le32_bytes32: "le32 (ucast x) (ucast (drop_bit 8 x)) (ucast (drop_bit 16 x)) (ucast (drop_bit 24 x)) = x"
proof (rule bit_word_eqI)
  fix n assume "n < LENGTH(32)"
  moreover have "8 + (n - 8) = n" if "8 \<le> n" using that by simp
  moreover have "16 + (n - 16) = n" if "16 \<le> n" using that by simp
  moreover have "24 + (n - 24) = n" if "24 \<le> n" using that by simp
  ultimately show "bit (le32 (ucast x) (ucast (drop_bit 8 x)) (ucast (drop_bit 16 x)) (ucast (drop_bit 24 x))) n = bit x n"
    unfolding le32_def by (cases "24 \<le> n"; cases "16 \<le> n") (auto simp: bit_simps)
qed

section \<open>The table\<close>

lemma more_fields:
  assumes "bio.more fs' = bio.more (fs :: 'd fat32_fs)"
  shows "chain_per_sector fs' = chain_per_sector fs" "sec_per_cluster fs' = sec_per_cluster fs"
    "reserved_sec_cnt fs' = reserved_sec_cnt fs" "sec_per_table fs' = sec_per_table fs"
    "root_cidx fs' = root_cidx fs" "first_cluster_sidx fs' = first_cluster_sidx fs"
  using assms by (cases fs, cases fs', simp)+

text \<open>The sector and the offset in it of an entry, with 128 entries in a sector.\<close>

definition fat_sec :: "'d fat32_fs \<Rightarrow> u32 \<Rightarrow> u32" where
  "fat_sec fs i = i div 128 + reserved_sec_cnt fs"

definition fat_off :: "u32 \<Rightarrow> nat" where
  "fat_off i = 4 * unat (i mod 128)"

definition fat :: "('d \<Rightarrow> u64 \<Rightarrow> u8 list) \<Rightarrow> 'd virtio_blk fat32_fs \<Rightarrow> u32 \<Rightarrow> u32" where
  "fat cont fs i = (let v = seen cont fs (fat_sec fs i); p = fat_off i in le32 (v ! p) (v ! (p + 1)) (v ! (p + 2)) (v ! (p + 3)))"

lemma fat_off_bound: "fat_off i + 3 < 512"
proof -
  have "unat (i mod 128) < 128" by (simp add: unat_mod_distrib)
  then show ?thesis by (simp add: fat_off_def)
qed

lemma fat_slot_eq: "fat_sec fs i = fat_sec fs j \<and> fat_off i = fat_off j \<longleftrightarrow> i = j"
proof -
  have "i = j" if "i div 128 = j div 128" "unat (i mod 128) = unat (j mod 128)" for i j :: u32
    using that by (metis div_mult_mod_eq unsigned_word_eqI)
  then show ?thesis by (auto simp: fat_sec_def fat_off_def)
qed


lemma more_same_vol: "same_vol fs fs' \<Longrightarrow> bio.more fs' = bio.more fs"
  by (simp add: same_vol_def)

lemma get_chain_reads:
  assumes c: "cached D ra junk cont idle present fs xs" "chain_per_sector fs = 128" "present (dsec fs (fat_sec fs i))"
  shows "\<exists>fs' xs'. fat32_get_chain i fs = Inr (fat cont fs i, fs') \<and> cached D ra junk cont idle present fs' xs' \<and>
     seen cont fs' = seen cont fs \<and> bio.more fs' = bio.more fs \<and> dsec fs' = dsec fs"
proof -
  obtain b fs' xs' where r: "fat32_bio_read (fat_sec fs i) fs = Inr (512 * b, fs')" "cached D ra junk cont idle present fs' xs'"
     "same_vol fs fs'" "seen cont fs' = seen cont fs"
     "512 * b + 512 \<le> length (buf_mem fs')" "take 512 (drop (512 * b) (buf_mem fs')) = seen cont fs (fat_sec fs i)"
    using seen_read [OF c(1,3)] by blast
  have "table_entry (512 * b) (i mod 128) fs' = Inr (fat cont fs i)"
    using rd32_slot [OF r(6,5) fat_off_bound [of i]] by (simp add: table_entry_def fat_def Let_def fat_off_def)
  then have "fat32_get_chain i fs = Inr (fat cont fs i, fs')"
    using r(1) c(2) by (simp add: fat32_get_chain_def fat_sec_def more_fields(1) [OF more_same_vol [OF r(3)]])
  then show ?thesis using r(2,4) more_same_vol [OF r(3)] same_vol_dsec [OF r(3)] by blast
qed

lemma set_chain_writes:
  assumes c: "cached D ra junk cont idle present fs xs" "chain_per_sector fs = 128" "present (dsec fs (fat_sec fs i))"
  shows "\<exists>fs' xs'. fat32_set_chain i val fs = Inr fs' \<and> cached D ra junk cont idle present fs' xs' \<and>
     fat cont fs' = (fat cont fs)(i := val) \<and>
     (\<forall>s. s \<noteq> fat_sec fs i \<longrightarrow> seen cont fs' s = seen cont fs s) \<and> bio.more fs' = bio.more fs \<and> dsec fs' = dsec fs"
proof -
  let ?s = "fat_sec fs i" and ?p = "fat_off i"
  have "?p + length (bytes32 val) \<le> 512" using fat_off_bound [of i] by (simp add: bytes32_def)
  from seen_write [OF c(1,3) this] obtain off fs1 m xs' where
    w: "fat32_bio_write ?s fs = Inr (off, fs1)" "same_vol fs fs1" "write_bytes (off + ?p) (bytes32 val) (buf_mem fs1) = Inr m"
      "cached D ra junk cont idle present (fs1\<lparr>buf_mem := m\<rparr>) xs'" "same_vol fs (fs1\<lparr>buf_mem := m\<rparr>)"
      "seen cont (fs1\<lparr>buf_mem := m\<rparr>) = (seen cont fs)(?s := take ?p (seen cont fs ?s) @ bytes32 val @
          drop (?p + length (bytes32 val)) (seen cont fs ?s))" by blast
  let ?f = "fs1\<lparr>buf_mem := m\<rparr>"
  have len: "length (seen cont fs ?s) = 512"
  proof -
    obtain b xs1 and fs2 :: "'a virtio_blk fat32_fs" where
      "512 * b + 512 \<le> length (buf_mem fs2)" "take 512 (drop (512 * b) (buf_mem fs2)) = seen cont fs ?s"
      using seen_read [OF c(1,3)] by (elim exE conjE) metis
    then show ?thesis by (metis (no_types, lifting) add_le_imp_le_diff length_drop length_take min_absorb2 add.commute)
  qed
  have "fat32_set_chain i val fs = Inr ?f"
    using w(1,3) c(2) more_fields(1) [OF more_same_vol [OF w(2)]]
    by (simp add: fat32_set_chain_def wr32_def fat_sec_def fat_off_def)
  moreover have "fat cont ?f j = ((fat cont fs)(i := val)) j" for j
  proof -
    have rs: "fat_sec ?f j = fat_sec fs j" using more_fields(3) [OF more_same_vol [OF w(5)]] by (simp add: fat_sec_def)
    obtain a b c d where abcd: "bytes32 val = [a, b, c, d]" and le: "le32 a b c d = val"
      using le32_bytes32 [of val] unfolding bytes32_def by blast
    show ?thesis
    proof (cases "fat_sec fs j = ?s")
      case False
      then have "j \<noteq> i" by auto
      then show ?thesis using False by (simp add: fat_def rs w(6))
    next
      case True
      consider "j = i" | "fat_off j + 4 \<le> ?p" | "?p + 4 \<le> fat_off j"
        using True fat_slot_eq [of fs i j] by (fastforce simp: fat_off_def)
      then show ?thesis
      proof cases
        case 1
        then show ?thesis using len fat_off_bound [of i] le rs
          by (simp add: fat_def w(6) Let_def abcd nth_append)
      next
        case 2
        then have "j \<noteq> i" by auto
        then show ?thesis using 2 True len fat_off_bound [of i]
          by (simp add: fat_def rs w(6) Let_def abcd nth_append)
      next
        case 3
        then have "j \<noteq> i" by auto
        moreover obtain q where "fat_off j = ?p + 4 + q" using 3 le_Suc_ex by blast
        ultimately show ?thesis using True len fat_off_bound [of j]
          by (simp add: fat_def rs w(6) Let_def abcd nth_append) (simp add: eval_nat_numeral)
      qed
    qed
  qed
  ultimately show ?thesis using w(4-6) more_same_vol [OF w(5)] same_vol_dsec [OF w(5)]
    by (intro exI [of _ ?f] exI [of _ xs']) (auto simp: fun_eq_iff)
qed


section \<open>The properties\<close>

text \<open>C20. The file allocation table is an array of cluster numbers: an entry that was set is read
  back, every other entry and every sector outside the entry's own is as it was, whichever
  sectors the cache has to load and write back for it.\<close>

theorem fat32_chain_update:
  assumes "cached D ra junk cont idle present fs xs" "chain_per_sector fs = 128"
    and "present (dsec fs (fat_sec fs i))" "present (dsec fs (fat_sec fs j))"
  shows "\<exists>fs1 fs2 xs'. fat32_set_chain i val fs = Inr fs1 \<and>
     fat32_get_chain j fs1 = Inr (if j = i then val else fat cont fs j, fs2) \<and>
     cached D ra junk cont idle present fs2 xs' \<and> fat cont fs2 = (fat cont fs)(i := val) \<and>
     (\<forall>s. s \<noteq> fat_sec fs i \<longrightarrow> seen cont fs2 s = seen cont fs s)"
proof -
  obtain fs1 xs1 where 1: "fat32_set_chain i val fs = Inr fs1" "cached D ra junk cont idle present fs1 xs1"
      "fat cont fs1 = (fat cont fs)(i := val)" "\<forall>s. s \<noteq> fat_sec fs i \<longrightarrow> seen cont fs1 s = seen cont fs s"
      "bio.more fs1 = bio.more fs" "dsec fs1 = dsec fs"
    using set_chain_writes [OF assms(1-3)] by blast
  note m = more_fields [OF 1(5)]
  have "present (dsec fs1 (fat_sec fs1 j))" using assms(4) m 1(6) by (simp add: fat_sec_def)
  from get_chain_reads [OF 1(2) _ this] assms(2) m obtain fs2 xs2 where
    2: "fat32_get_chain j fs1 = Inr (fat cont fs1 j, fs2)" "cached D ra junk cont idle present fs2 xs2"
      "seen cont fs2 = seen cont fs1" "bio.more fs2 = bio.more fs1" by auto
  have "fat cont fs2 = fat cont fs1"
    using 2(3) more_fields [OF 2(4)] by (simp add: fat_def fat_sec_def fun_eq_iff)
  then show ?thesis using 1 2 by auto
qed

text \<open>Cluster numbers and sector numbers correspond: every sector of a cluster is mapped back
  to that cluster.\<close>

lemma fat32_cluster_sector_roundtrip:
  assumes "2 \<le> c" "k < sec_per_cluster fs" "unat (c - 2) * unat (sec_per_cluster fs) + unat k < 2 ^ 32"
  shows "fat32_sec2clu fs (fat32_clu2sec fs c + k) = Inr c"
proof -
  let ?n = "sec_per_cluster fs"
  have n: "unat k < unat ?n" using assms(2) by (simp add: word_less_nat_alt)
  have "unat (c - 2) * unat ?n < 2 ^ 32" using assms(3) by simp
  then have "unat ((c - 2) * ?n + k) = unat (c - 2) * unat ?n + unat k"
    using assms(3) by (simp add: unat_word_ariths)
  then have "unat (((c - 2) * ?n + k) div ?n) = unat (c - 2)"
    using n by (simp add: unat_div_distrib)
  then have "((c - 2) * ?n + k) div ?n = c - 2" by (rule unsigned_word_eqI)
  moreover have "?n \<noteq> 0" using n by auto
  ultimately show ?thesis by (simp add: fat32_sec2clu_def fat32_clu2sec_def)
qed

text \<open>The search for a free entry: nothing is found in a sector of which every entry marks the end
  of a chain.\<close>

lemma avail_none:
  assumes "take 512 (drop off (buf_mem fs)) = v" "off + 512 \<le> length (buf_mem fs)" "chain_per_sector fs = 128"
    and "\<forall>p < 128. FAT32_CHAIN_END_FLAG \<le> le32 (v ! (4 * p)) (v ! (4 * p + 1)) (v ! (4 * p + 2)) (v ! (4 * p + 3))"
  shows "avail_loop off i fs = Inr None"
  using assms
proof (induction off i fs rule: avail_loop.induct)
  case (1 off i fs)
  show ?case
  proof (cases "i < 128")
    case True
    then have i: "unat i < 128" by (simp add: word_less_nat_alt)
    then have "4 * unat i + 3 < 512" by simp
    from rd32_slot [OF 1(2,3) this]
    obtain x where x: "table_entry off i fs = Inr x" "FAT32_CHAIN_END_FLAG \<le> x"
      using 1(5) i by (auto simp: table_entry_def)
    then show ?thesis using 1(1) [of x] 1(2-5) True by (simp add: avail_loop.simps [of off i])
  next
    case False
    then show ?thesis using 1(4) by (simp add: avail_loop.simps [of off i])
  qed
qed

lemma search_repeats:
  assumes "search_loop s off fs = Some y"
  shows "\<not> (\<exists>xs. cached D ra junk cont idle present fs xs \<and> chain_per_sector fs = 128 \<and> present (dsec fs s) \<and>
     s < sec_per_table fs \<and> (\<forall>p < 128. FAT32_CHAIN_END_FLAG \<le> le32 (seen cont fs s ! (4 * p)) (seen cont fs s ! (4 * p + 1))
        (seen cont fs s ! (4 * p + 2)) (seen cont fs s ! (4 * p + 3))))"
  using assms
proof (rule search_loop.raw_induct [rotated])
  fix rec s off and fs :: "'a virtio_blk fat32_fs" and y
  let ?full = "\<lambda>fs s. \<exists>xs. cached D ra junk cont idle present fs xs \<and> chain_per_sector fs = 128 \<and> present (dsec fs s) \<and>
     s < sec_per_table fs \<and> (\<forall>p < 128. FAT32_CHAIN_END_FLAG \<le> le32 (seen cont fs s ! (4 * p)) (seen cont fs s ! (4 * p + 1))
        (seen cont fs s ! (4 * p + 2)) (seen cont fs s ! (4 * p + 3)))"
  assume IH: "\<And>s off fs y. rec s off fs = Some y \<Longrightarrow> \<not> ?full fs s"
    and step: "(if s < sec_per_table fs then
        (case bindO (fat32_bio_read s fs) (\<lambda>(tab, fs). bindO (avail_loop tab off fs) (\<lambda>r. Inr (r, fs))) of
           Inl e \<Rightarrow> Some (Inl e)
         | Inr (Some i, fs) \<Rightarrow> Some (Inr (s * chain_per_sector fs + i, fs))
         | Inr (None, fs) \<Rightarrow> rec s 0 fs)
      else Some (Inr (0, fs))) = Some y"
  show "\<not> ?full fs s"
  proof
    assume "?full fs s"
    then obtain xs where c: "cached D ra junk cont idle present fs xs" "chain_per_sector fs = 128" "present (dsec fs s)"
      "s < sec_per_table fs" and f: "\<forall>p < 128. FAT32_CHAIN_END_FLAG \<le> le32 (seen cont fs s ! (4 * p)) (seen cont fs s ! (4 * p + 1))
        (seen cont fs s ! (4 * p + 2)) (seen cont fs s ! (4 * p + 3))" by blast
    obtain b fs' xs' where r: "fat32_bio_read s fs = Inr (512 * b, fs')" "cached D ra junk cont idle present fs' xs'"
       "same_vol fs fs'" "seen cont fs' = seen cont fs"
       "512 * b + 512 \<le> length (buf_mem fs')" "take 512 (drop (512 * b) (buf_mem fs')) = seen cont fs s"
      using seen_read [OF c(1,3)] by blast
    note m = more_fields [OF more_same_vol [OF r(3)]]
    have "avail_loop (512 * b) off fs' = Inr None"
      using avail_none [OF r(6,5) _ f] m(1) c(2) by simp
    then have "rec s 0 fs' = Some y" using step r(1) c(4) by simp
    moreover have "?full fs' s"
      using r(2,4) m c f same_vol_dsec [OF r(3)] by auto
    ultimately show False using IH by blast
  qed
qed

text \<open>C37. The search for a free entry never returns once it reaches a sector of the table with no
  entry below the end mark: the loop reads the same sector again and again.\<close>

theorem fat32_search_avail_chain_hangs:
  assumes "cached D ra junk cont idle present fs xs" "chain_per_sector fs = 128"
    and "s = start div 128 + reserved_sec_cnt fs" "s < sec_per_table fs" "present (dsec fs s)"
    and "\<forall>p < 128. FAT32_CHAIN_END_FLAG \<le> le32 (seen cont fs s ! (4 * p)) (seen cont fs s ! (4 * p + 1))
          (seen cont fs s ! (4 * p + 2)) (seen cont fs s ! (4 * p + 3))"
  shows "fat32_search_avail_chain start fs = Inl Hang"
proof -
  have "search_loop s (start mod 128) fs = None"
  proof (rule ccontr)
    assume "search_loop s (start mod 128) fs \<noteq> None"
    then obtain y where "search_loop s (start mod 128) fs = Some y" by blast
    from search_repeats [OF this, of D ra junk cont idle present] assms show False by blast
  qed
  then show ?thesis using assms(2,3) by (simp add: fat32_search_avail_chain_def)
qed


section \<open>Mounting\<close>

lemma list_inits_keep:
  "foldl (\<lambda>h i. list_init (Buf_lists i) h) h is = h' \<Longrightarrow> lprev h' Buf_seq = lprev h Buf_seq \<and> lnext h' Buf_seq = lnext h Buf_seq"
  by (induction "is" arbitrary: h) (auto simp: list_init_def)

lemma rd8_in: "p < length m \<Longrightarrow> rd8 m p = Inr (m ! p)"
  by (simp add: rd8_def)

lemma buf_slots:
  assumes "unat b < 20"
  shows "unat (ucast (POWER_OF_2 (unat b) * PAGE_SIZE div ucast (512 :: u32)) :: u32) = 8 * 2 ^ unat b"
proof -
  have p: "(2 :: nat) ^ unat b \<le> 2 ^ 19" using assms by (intro power_increasing) auto
  then have "unat (POWER_OF_2 (unat b) * PAGE_SIZE :: u64) = 2 ^ unat b * 4096"
    using unat_POWER_OF_2 [of "unat b"] assms by (simp add: PAGE_SIZE_def unat_word_ariths)
  then have "unat (POWER_OF_2 (unat b) * PAGE_SIZE div ucast (512 :: u32) :: u64) = 8 * 2 ^ unat b"
    by (simp add: unat_div_distrib)
  then show ?thesis using p by (simp add: unsigned_ucast_eq take_bit_nat_eq_self)
qed

lemma clusters_narrow: "(ucast ((ucast x :: u64) div 4 - 2) :: u32) = x div 4 - 2" for x :: u32
proof -
  have "(ucast ((ucast x :: u64) div 4) :: u32) = x div 4"
  proof -
    have "unat x < 2 ^ 32" using unsigned_less [of x, where ?'a = nat] by simp
    then show ?thesis
      by (intro word_unat_eq_iff [THEN iffD2]) (simp add: unat_div unsigned_ucast_eq take_bit_nat_eq_self)
  qed
  moreover have "(ucast (y - 2) :: u32) = ucast y - 2" for y :: u64
  proof -
    have "take_bit 32 (uint (y - 2)) = take_bit 32 (uint y - 2)"
      by (simp add: uint_word_ariths take_bit_eq_mod mod_mod_cancel)
    then have "(word_of_int (uint (y - 2)) :: u32) = word_of_int (uint y - 2)"
      unfolding word_of_int_eq_iff by simp
    then show ?thesis by simp
  qed
  ultimately show ?thesis by simp
qed

lemma read_bpb_fields:
  assumes "length v = 512" "le16 (v ! 11) (v ! 12) = 512"
  shows "\<exists>bpb. read_bpb (v @ w) = Inr bpb \<and> BytePerSec bpb = 512 \<and> SecPerClus bpb = v ! 13 \<and>
     RsvdSecCnt bpb = le16 (v ! 14) (v ! 15) \<and> NumFATs bpb = v ! 16 \<and> HiddSec bpb = le32 (v ! 28) (v ! 29) (v ! 30) (v ! 31) \<and>
     ToSec32 bpb = le32 (v ! 32) (v ! 33) (v ! 34) (v ! 35) \<and> FATSz32 bpb = le32 (v ! 36) (v ! 37) (v ! 38) (v ! 39) \<and>
     RootClus bpb = le32 (v ! 44) (v ! 45) (v ! 46) (v ! 47)"
  using assms by (simp add: read_bpb_def rd8_in rd16_def rd32_def nth_append)

lemma fresh_cached:
  assumes "vblk_ok D cont idle present (dev (disk fs0))" "read_op (disk fs0) = disk_hal_read D ra junk"
    and "write_op (disk fs0) = disk_hal_write D ra junk" "byte_per_sector fs0 = 512" "unat b < 20"
    and "unat (buf_num fs0) = 8 * 2 ^ unat b" "length (buf_mem fs0) = 4096 * 2 ^ unat b"
    and "buf_seq fs0 = list_init Buf_seq h"
    and "fs = fs0\<lparr>buf_flags := replicate (unat (buf_num fs0)) FAT32_BIO_FLAG_INVALID, buf_sidx := replicate (unat (buf_num fs0)) 0,
       buf_seq := foldl (\<lambda>h i. list_init (Buf_lists i) h) (buf_seq fs0) [0..<unat (buf_num fs0)]\<rparr>"
  shows "cached D ra junk cont idle present fs []"
proof -
  have "(2 :: nat) ^ unat b \<le> 2 ^ 19" using assms(5) by (intro power_increasing) auto
  moreover have "dlist (buf_seq fs) Buf_seq (map Buf_lists [])"
    using list_inits_keep [OF refl, of "list_init Buf_seq h" "[0..<unat (buf_num fs0)]"] assms(8,9)
    by (simp add: dlist_def list_init_def)
  ultimately show ?thesis using assms by (auto simp: cached_def bio_inv_def in_use_def)
qed

text \<open>C21. Mounting a volume with sectors of 512 bytes: the boot sector is read from the first sector
  of the partition, every parameter of the volume is taken from its bytes (the first sector, the number of
  sectors, the sizes of a cluster, of the reserved area and of a table, the number of tables, the
  cluster of the root directory) or computed from them (where the clusters start and how many there are),
  and the cache starts empty, so the file system sees the sectors of the device. The buffer
  holds 8 sectors for each of its pages.\<close>

theorem fat32_init_mounts:
  assumes "kmalloc SIZEOF_FAT32_FS k = Inr (p, k1)" "p \<noteq> 0"
    and "kh_pmem_alloc (int (unat b)) k1 = Inr (a, k2)" "a \<noteq> 0" "unat b < 20" "length page = 4096 * 2 ^ unat b"
    and "kmalloc (of_nat (32 * 2 ^ unat b)) k2 = Inr (ps, k3)" "ps \<noteq> 0"
    and "kmalloc (of_nat (8 * 2 ^ unat b)) k3 = Inr (pf, k4)" "pf \<noteq> 0"
    and "kmalloc (of_nat (128 * 2 ^ unat b)) k4 = Inr (pl, k5)" "pl \<noteq> 0"
    and "read_op d = disk_hal_read D ra junk" "write_op d = disk_hal_write D ra junk"
    and "vblk_ok D cont idle present (dev d)" "present (ucast start)"
    and "v = sectors cont (dev d) (ucast start)" "le16 (v ! 11) (v ! 12) = 512"
  shows "\<exists>fs. fat32_init d start sects b page k = Inr (Some (p, fs), k5) \<and> cached D ra junk cont idle present fs [] \<and>
     seen cont fs = (\<lambda>s. sectors cont (dev d) (dsec fs s)) \<and> unat (buf_num fs) = 8 * 2 ^ unat b \<and>
     dsidx fs = le32 (v ! 28) (v ! 29) (v ! 30) (v ! 31) \<and> chain_per_sector fs = 128 \<and>
     sec_per_cluster fs = ucast (v ! 13) \<and> reserved_sec_cnt fs = ucast (le16 (v ! 14) (v ! 15)) \<and>
     total_sector fs = le32 (v ! 32) (v ! 33) (v ! 34) (v ! 35) \<and> table_num fs = ucast (v ! 16) \<and>
     sec_per_table fs = le32 (v ! 36) (v ! 37) (v ! 38) (v ! 39) \<and> table_sidx fs = ucast (le16 (v ! 14) (v ! 15)) \<and>
     root_cidx fs = le32 (v ! 44) (v ! 45) (v ! 46) (v ! 47) \<and>
     first_cluster_sidx fs = le32 (v ! 36) (v ! 37) (v ! 38) (v ! 39) * ucast (v ! 16) + ucast (le16 (v ! 14) (v ! 15)) \<and>
     cluster_num fs = 512 * le32 (v ! 36) (v ! 37) (v ! 38) (v ! 39) div 4 - 2"
proof -
  have "512 \<le> length page" using assms(6) by simp
  from vblk.read_ok [where cont = cont and present = present, OF assms(15,16) this]
  obtain e where r: "read_op d (ucast start) a page (dev d) = Inr (True, v @ drop 512 page, e)"
      "vblk_ok D cont idle present e" "sectors cont e = sectors cont (dev d)"
    unfolding assms(13,17) by blast
  let ?m = "v @ drop 512 page"
  have lv: "length v = 512" using vblk.sector_size [OF assms(15)] assms(17) by simp
  then have lm: "length ?m = 4096 * 2 ^ unat b" using assms(6) by simp
  obtain bpb where bpb: "read_bpb ?m = Inr bpb" and f: "BytePerSec bpb = 512" "SecPerClus bpb = v ! 13"
      "RsvdSecCnt bpb = le16 (v ! 14) (v ! 15)" "NumFATs bpb = v ! 16" "HiddSec bpb = le32 (v ! 28) (v ! 29) (v ! 30) (v ! 31)"
      "ToSec32 bpb = le32 (v ! 32) (v ! 33) (v ! 34) (v ! 35)" "FATSz32 bpb = le32 (v ! 36) (v ! 37) (v ! 38) (v ! 39)"
      "RootClus bpb = le32 (v ! 44) (v ! 45) (v ! 46) (v ! 47)"
    using read_bpb_fields [OF lv assms(18)] by blast
  obtain fs0 where vol: "volume_of (d\<lparr>dev := e\<rparr>) a ?m b start sects bpb = Inr fs0" and
    g: "disk fs0 = d\<lparr>dev := e\<rparr>" "dsidx fs0 = HiddSec bpb" "byte_per_sector fs0 = 512" "buf_mem fs0 = ?m"
      "buf_num fs0 = ucast (POWER_OF_2 (unat b) * PAGE_SIZE div ucast (512 :: u32))"
      "chain_per_sector fs0 = 128" "sec_per_cluster fs0 = ucast (v ! 13)" "reserved_sec_cnt fs0 = ucast (le16 (v ! 14) (v ! 15))"
      "root_cidx fs0 = RootClus bpb" "total_sector fs0 = ToSec32 bpb" "table_num fs0 = ucast (v ! 16)"
      "sec_per_table fs0 = FATSz32 bpb" "table_sidx fs0 = ucast (le16 (v ! 14) (v ! 15))"
      "first_cluster_sidx fs0 = FATSz32 bpb * ucast (v ! 16) + ucast (le16 (v ! 14) (v ! 15))"
      "cluster_num fs0 = 512 * FATSz32 bpb div 4 - 2"
      "buf_seq fs0 = list_init Buf_seq \<lparr>lprev = (\<lambda>_. Buf_seq), lnext = (\<lambda>_. Buf_seq)\<rparr>"
    using f clusters_narrow by (simp add: volume_of_def Let_def)
  have num: "unat (buf_num fs0) = 8 * 2 ^ unat b" using buf_slots [OF assms(5)] g(5) by simp
  define fs where "fs = fs0\<lparr>buf_flags := replicate (unat (buf_num fs0)) FAT32_BIO_FLAG_INVALID, buf_sidx := replicate (unat (buf_num fs0)) 0,
                      buf_seq := foldl (\<lambda>h i. list_init (Buf_lists i) h) (buf_seq fs0) [0..<unat (buf_num fs0)]\<rparr>"
  have u: "(ucast (buf_num fs0) :: u64) = of_nat (8 * 2 ^ unat b)"
    by (simp add: num [symmetric] of_nat_unat)
  have "fat32_init d start sects b page k = Inr (Some (p, fs), k5)"
    using assms(1-4,7-12) r(1) bpb vol u by (simp add: fat32_init_def or_give_up_def fs_def Let_def mult.assoc [symmetric])
  moreover have "cached D ra junk cont idle present fs []"
    using r(2) g(1,3,4,16) num lm assms(5,13,14) by (intro fresh_cached [OF _ _ _ _ _ _ _ _ fs_def]) simp_all
  moreover have "seen cont fs s = sectors cont (dev d) (dsec fs s)" for s
  proof -
    have "find (\<lambda>i. buf_sidx fs ! i = s \<and> buf_flags fs ! i \<noteq> FAT32_BIO_FLAG_INVALID) [0..<unat (buf_num fs)] = None"
      by (simp add: find_None_iff fs_def)
    then show ?thesis using r(3) g(1) by (simp add: seen_def view_def fs_def)
  qed
  ultimately show ?thesis using g f num by (intro exI [of _ fs]) (simp add: fs_def fun_eq_iff)
qed


section \<open>A small volume\<close>

text \<open>Two slots, clusters of eight sectors and two sectors of table.\<close>

definition small_volume :: "(u64 \<Rightarrow> u8 list) \<Rightarrow> vshared \<Rightarrow> virtio_blk_req \<Rightarrow> ramdisk virtio_blk fat32_fs" where
  "small_volume c sh junk = two_slots c sh junk (fat32_fs.fields 1000 128 8 0 2 1 2 0 2 254)"

lemma small_volume_fields:
  "chain_per_sector (small_volume c sh junk) = 128" "sec_per_cluster (small_volume c sh junk) = 8"
  "reserved_sec_cnt (small_volume c sh junk) = 0" "sec_per_table (small_volume c sh junk) = 2"
  by (simp_all add: small_volume_def two_slots_def fat32_fs.defs)

lemmas small_volume_cached = two_slots_cached [where m = "fat32_fs.fields 1000 128 8 0 2 1 2 0 2 254", folded small_volume_def]

theorem fat32_chain_update_witness:
  "\<forall>sh junk. \<exists>fs1 fs2 fs3. fat32_set_chain 5 9 (small_volume sevens sh junk) = Inr fs1 \<and> fat32_get_chain 5 fs1 = Inr (9, fs2) \<and>
     fat32_get_chain 6 fs1 = Inr (0x07070707, fs3)"
proof (intro allI)
  fix sh junk
  show "\<exists>fs1 fs2 fs3. fat32_set_chain 5 9 (small_volume sevens sh junk) = Inr fs1 \<and> fat32_get_chain 5 fs1 = Inr (9, fs2) \<and>
     fat32_get_chain 6 fs1 = Inr (0x07070707, fs3)"
  proof -
    have c: "cached ram_mmio 64 junk fst ram_idle (\<lambda>_. True) (small_volume sevens sh junk) []"
      by (rule small_volume_cached) simp
    have "fat fst (small_volume sevens sh junk) 6 = 0x07070707"
      by (simp add: fat_def fat_off_def small_volume_def two_slots_seen le32_def Let_def push_bit_eq_mult)
    then show ?thesis
      using fat32_chain_update [OF c small_volume_fields(1) TrueI TrueI, of 5 9 5]
        fat32_chain_update [OF c small_volume_fields(1) TrueI TrueI, of 5 9 6] by auto
  qed
qed

theorem fat32_search_avail_chain_hangs_witness:
  "\<forall>sh junk. fat32_search_avail_chain 2 (small_volume (\<lambda>_. replicate 512 255) sh junk) = Inl Hang"
proof (intro allI)
  fix sh junk
  show "fat32_search_avail_chain 2 (small_volume (\<lambda>_. replicate 512 255) sh junk) = Inl Hang"
  proof -
    let ?v = "small_volume (\<lambda>_. replicate 512 255) sh junk"
    have c: "cached ram_mmio 64 junk fst ram_idle (\<lambda>_. True) ?v []"
      by (rule small_volume_cached) simp
    have s: "0 = 2 div 128 + reserved_sec_cnt ?v" "0 < sec_per_table ?v" by (simp_all add: small_volume_fields)
    have "le32 255 255 255 255 = 0xffffffff" by (simp add: le32_def push_bit_eq_mult)
    then have "\<forall>p < 128. FAT32_CHAIN_END_FLAG \<le> le32 (seen fst ?v 0 ! (4 * p)) (seen fst ?v 0 ! (4 * p + 1))
          (seen fst ?v 0 ! (4 * p + 2)) (seen fst ?v 0 ! (4 * p + 3))"
      by (simp add: small_volume_def two_slots_seen FAT32_CHAIN_END_FLAG_def)
    from fat32_search_avail_chain_hangs [OF c small_volume_fields(1) s TrueI this] show ?thesis .
  qed
qed

theorem fat32_init_mounts_witness:
  "\<forall>sh junk. \<exists>fs k. fat32_init (disk (two_slots (\<lambda>_. (replicate 512 0)[12 := 2, 13 := 8, 16 := 2, 36 := 5, 32 := 9]) sh junk ())) 63 1000 0 (replicate 4096 0) demo_heap =
      Inr (Some (0x100000, fs), k) \<and> sec_per_cluster fs = 8 \<and> sec_per_table fs = 5 \<and> total_sector fs = 9 \<and> first_cluster_sidx fs = 10 \<and>
      chain_per_sector fs = 128 \<and> unat (buf_num fs) = 8 \<and>
      cached ram_mmio 64 junk fst ram_idle (\<lambda>_. True) fs []"
proof (intro allI)
  fix sh junk
  show "\<exists>fs k. fat32_init (disk (two_slots (\<lambda>_. (replicate 512 0)[12 := 2, 13 := 8, 16 := 2, 36 := 5, 32 := 9]) sh junk ())) 63 1000 0 (replicate 4096 0) demo_heap =
      Inr (Some (0x100000, fs), k) \<and> sec_per_cluster fs = 8 \<and> sec_per_table fs = 5 \<and> total_sector fs = 9 \<and> first_cluster_sidx fs = 10 \<and>
      chain_per_sector fs = 128 \<and> unat (buf_num fs) = 8 \<and>
      cached ram_mmio 64 junk fst ram_idle (\<lambda>_. True) fs []"
  proof -
    let ?c = "\<lambda>_ :: u64. (replicate 512 (0 :: u8))[12 := 2, 13 := 8, 16 := 2, 36 := 5, 32 := 9]"
    let ?d = "disk (two_slots ?c sh junk ())"
    obtain p k1 a k2 ps k3 pf k4 pl k5 where
      r: "kmalloc 128 demo_heap = Inr (p, k1)" "kh_pmem_alloc 0 k1 = Inr (a, k2)" "kmalloc 32 k2 = Inr (ps, k3)"
        "kmalloc 8 k3 = Inr (pf, k4)" "kmalloc 128 k4 = Inr (pl, k5)"
      and v: "p = 0x100000" "a = 12288" "ps = 0x100200" "pf = 0x100400" "pl = 0x100600"
      using demo_volume by (auto simp: bindO_eq_Inr)
    have ok: "vblk_ok ram_mmio fst ram_idle (\<lambda>_. True) (dev ?d)"
      using ram_queue_ok [of ?c] by (simp add: two_slots_def)
    have "sectors fst (dev ?d) s = ?c s" for s by (simp add: two_slots_def ram_queue_def)
    then show ?thesis
      using fat32_init_mounts [where d = ?d and start = 63 and sects = 1000 and b = 0 and page = "replicate 4096 0" and k = demo_heap,
          OF _ _ _ _ _ _ _ _ _ _ _ _ _ _ ok TrueI refl, of p k1 a k2 ps k3 pf k4 pl k5 64 junk] r v
      by (simp add: SIZEOF_FAT32_FS_def two_slots_def le16_def le32_def nth_list_update push_bit_eq_mult) blast
  qed
qed

end
