(* ===== verification/Fat_File.thy ===== *)
theory Fat_File
  imports Fat_Dir Fat_Inv
begin

text \<open>
  Names and files: how many bytes the copying of names needs, and the reading of a file as a
  piece of the sequence of bytes in its chain of clusters.
\<close>

section \<open>Words\<close>

lemma unat_u32_less: "unat x < 4294967296" for x :: u32
  using unsigned_less [of x] by simp

lemma unat_u32_u64: "unat (ucast x :: u64) = unat x" for x :: u32
proof -
  have "unat x < 2 ^ 64" using unat_u32_less [of x] by (rule less_trans) simp
  then show ?thesis by (simp add: unsigned_ucast_eq take_bit_nat_eq_self)
qed

section \<open>Names\<close>

definition before_space :: "u8 list \<Rightarrow> nat \<Rightarrow> nat list \<Rightarrow> u8 list" where
  "before_space m e is = takeWhile (\<lambda>c. c \<noteq> 0x20) (map (\<lambda>i. m ! (e + i)) is)"

lemma copy_until_space_ok:
  assumes "\<forall>i \<in> set is. e + i < length m" "j + length (before_space m e is) \<le> length dst"
  shows "\<exists>dst'. copy_until_space m e is j dst = Inr (j + length (before_space m e is), dst') \<and> length dst' = length dst"
  using assms
proof (induction "is" arbitrary: j dst)
  case (Cons i js)
  then show ?case using Cons.IH [of "j + 1" "dst[j := m ! (e + i)]"] by (auto simp: before_space_def rd8_in)
qed (simp add: before_space_def)

lemma copy_until_space_over:
  assumes "\<forall>i \<in> set is. e + i < length m" "length dst < j + length (before_space m e is)" "j \<le> length dst"
  shows "copy_until_space m e is j dst = Inl Undefined"
  using assms
proof (induction "is" arbitrary: j dst)
  case (Cons i js)
  show ?case
  proof (cases "j < length dst")
    case True
    then show ?thesis using Cons.IH [of "dst[j := m ! (e + i)]" "j + 1"] Cons.prems
      by (auto simp: before_space_def rd8_in split: if_splits)
  next
    case False
    then show ?thesis using Cons.prems by (auto simp: before_space_def rd8_in split: if_splits)
  qed
qed (simp add: before_space_def)

lemma put_char_ok: "j < length dst \<Longrightarrow> put_char c (j, dst) = Inr (j + 1, dst[j := c])"
  and put_char_over: "length dst \<le> j \<Longrightarrow> put_char c (j, dst) = Inl Undefined"
  by (simp_all add: put_char_def)

lemma before_space_length:
  "length (before_space m e is) \<le> length is"
  "length (before_space m e is) = length is \<longleftrightarrow> (\<forall>i \<in> set is. m ! (e + i) \<noteq> 0x20)"
  by (induction "is") (auto simp: before_space_def)

lemma copy_extension:
  assumes "e + 11 \<le> length m" "length d = 12" "j \<le> 8"
  shows "bindO (copy_until_space m e [8..<11] (j + 1) d) (put_char 0) =
     (if j + length (before_space m e [8..<11]) = 11 then Inl Undefined else
      bindO (copy_until_space m e [8..<11] (j + 1) d) (put_char 0))"
    and "j + length (before_space m e [8..<11]) < 11 \<Longrightarrow> \<exists>d'. bindO (copy_until_space m e [8..<11] (j + 1) d) (put_char 0) =
       Inr (j + length (before_space m e [8..<11]) + 2, d') \<and> length d' = 12"
proof -
  let ?b = "length (before_space m e [8..<11])"
  have "?b \<le> 3" using before_space_length(1) [of m e "[8..<11]"] by simp
  moreover have "\<forall>i \<in> set [8..<11]. e + i < length m" using assms(1) by auto
  ultimately obtain d' where d: "copy_until_space m e [8..<11] (j + 1) d = Inr (j + 1 + ?b, d')" "length d' = 12"
    using copy_until_space_ok [of "[8..<11]" e m "j + 1" d] assms by auto
  show "bindO (copy_until_space m e [8..<11] (j + 1) d) (put_char 0) =
     (if j + ?b = 11 then Inl Undefined else bindO (copy_until_space m e [8..<11] (j + 1) d) (put_char 0))"
    using d by (simp add: put_char_over)
  show "j + ?b < 11 \<Longrightarrow> \<exists>d'. bindO (copy_until_space m e [8..<11] (j + 1) d) (put_char 0) = Inr (j + ?b + 2, d') \<and> length d' = 12"
    using d by (simp add: put_char_ok)
qed

text \<open>C38. The twelve bytes of \<open>short_fn\<close> are too few for a name without spaces, eight characters
  and an extension of three: the terminator is written behind the array. Every other name fits.\<close>

theorem fat32_copy_name_short_overflow:
  assumes "e + 11 \<le> length m" "length dst = 12"
  shows "if \<forall>i < 11. m ! (e + i) \<noteq> 0x20 then fat32_copy_name_short m e dst = Inl Undefined
     else \<exists>j dst'. fat32_copy_name_short m e dst = Inr (j, dst') \<and> j \<le> 12 \<and> length dst' = 12"
proof -
  let ?a = "length (before_space m e [0..<8])" and ?b = "length (before_space m e [8..<11])"
  note len = before_space_length [of m e "[0..<8]"] before_space_length [of m e "[8..<11]"]
  have b: "?a \<le> 8" "?b \<le> 3" using len by simp_all
  have "(\<forall>i < 11. m ! (e + i) \<noteq> 0x20) \<longleftrightarrow> (\<forall>i \<in> set [0..<8]. m ! (e + i) \<noteq> 0x20) \<and> (\<forall>i \<in> set [8..<11]. m ! (e + i) \<noteq> 0x20)"
  proof -
    have "i < 11 \<longleftrightarrow> i \<in> set [0..<8] \<or> i \<in> set [8..<11]" for i :: nat by auto
    then show ?thesis by blast
  qed
  then have full: "(\<forall>i < 11. m ! (e + i) \<noteq> 0x20) \<longleftrightarrow> ?a = 8 \<and> ?b = 3" using len(2,4) by (simp add: numeral_3_eq_3)
  have "\<forall>i \<in> set [0..<8]. e + i < length m" using assms(1) by auto
  then obtain d where d: "copy_until_space m e [0..<8] 0 dst = Inr (?a, d)" "length d = 12"
    using copy_until_space_ok [of "[0..<8]" e m 0 dst] b assms(2) by auto
  have five: "rd8 m (e + 5) = Inr (m ! (e + 5))" using assms(1) by (simp add: rd8_in)
  show ?thesis
  proof (cases "m ! (e + 5) = 0x20")
    case True
    then have "\<not> (\<forall>i < 11. m ! (e + i) \<noteq> 0x20)" by (auto intro: exI [of _ 5])
    then show ?thesis using True d five b by (simp add: fat32_copy_name_short_def put_char_ok)
  next
    case False
    then have r: "fat32_copy_name_short m e dst = bindO (copy_until_space m e [8..<11] (?a + 1) (d[?a := 46])) (put_char 0)"
      using d five b by (simp add: fat32_copy_name_short_def put_char_ok)
    note ext = copy_extension [OF assms(1), of "d[?a := 46]" ?a]
    show ?thesis
    proof (cases "?a = 8 \<and> ?b = 3")
      case True
      then show ?thesis using ext(1) d(2) unfolding full r by simp
    next
      case bad: False
      then have "?a + ?b < 11" using b by linarith
      then obtain d' where "fat32_copy_name_short m e dst = Inr (?a + ?b + 2, d')" "length d' = 12"
        using ext(2) d(2) b unfolding r by auto
      then show ?thesis using bad full \<open>?a + ?b < 11\<close> by auto
    qed
  qed
qed

text \<open>A row of \<open>fns\<close> holds the thirteen characters of any long entry and a terminator.\<close>

lemma fat32_copy_name_long_fits:
  assumes "e + 32 \<le> length m" "length row = 14"
  shows "\<exists>j row'. fat32_copy_name_long m e row = Inr (j, row') \<and> j \<le> 14 \<and> length row' = 14"
proof -
  have gen: "\<exists>j' row'. copy_wide m e is j row = Inr (j', row') \<and> j' \<le> length row \<and> length row' = length row"
    if "\<forall>i \<in> set is. e + i + 1 < length m" "j + length is < length row" for "is" j and row :: "u8 list"
    using that
  proof (induction "is" arbitrary: j row)
    case (Cons i js)
    then show ?case using Cons.IH [of "j + 1" "row[j := ucast (le16 (m ! (e + i)) (m ! (e + i + 1)))]"]
      by (auto simp: rd16_def rd8_in)
  qed (simp add: put_char_ok)
  have "length long_name_offsets = 13" "\<forall>i \<in> set long_name_offsets. i < 31" by (auto simp: long_name_offsets_def)
  then show ?thesis using gen [of long_name_offsets 0 row] assms
    by (fastforce simp: fat32_copy_name_long_def)
qed

section \<open>Bytes of a file\<close>

fun chained :: "(u32 \<Rightarrow> u32) \<Rightarrow> u32 \<Rightarrow> u32 list \<Rightarrow> bool" where
  "chained f c [] \<longleftrightarrow> FAT32_CHAIN_END_FLAG \<le> c"
| "chained f c (x # xs) \<longleftrightarrow> c = x \<and> c < FAT32_CHAIN_END_FLAG \<and> chained f (f c) xs"

definition sec_data :: "('d \<Rightarrow> u64 \<Rightarrow> u8 list) \<Rightarrow> 'd virtio_blk fat32_fs \<Rightarrow> u32 \<Rightarrow> nat list \<Rightarrow> u8 list" where
  "sec_data cont fs c ss = concat (map (\<lambda>so. seen cont fs (fat32_clu2sec fs c + of_nat so)) ss)"

definition cluster_data :: "('d \<Rightarrow> u64 \<Rightarrow> u8 list) \<Rightarrow> 'd virtio_blk fat32_fs \<Rightarrow> u32 \<Rightarrow> u8 list" where
  "cluster_data cont fs c = sec_data cont fs c [0..<unat (sec_per_cluster fs)]"

definition chain_data :: "('d \<Rightarrow> u64 \<Rightarrow> u8 list) \<Rightarrow> 'd virtio_blk fat32_fs \<Rightarrow> u32 list \<Rightarrow> u8 list" where
  "chain_data cont fs cs = concat (map (cluster_data cont fs) cs)"

definition chain_present :: "(u64 \<Rightarrow> bool) \<Rightarrow> 'd virtio_blk fat32_fs \<Rightarrow> u32 list \<Rightarrow> bool" where
  "chain_present present fs cs \<longleftrightarrow> (\<forall>c \<in> set cs. present (dsec fs (fat_sec fs c)) \<and>
     (\<forall>so < unat (sec_per_cluster fs). present (dsec fs (fat32_clu2sec fs c + of_nat so))))"

text \<open>What reading leaves as it is.\<close>

definition same_view :: "('d \<Rightarrow> u64 \<Rightarrow> u8 list) \<Rightarrow> 'd virtio_blk fat32_fs \<Rightarrow> 'd virtio_blk fat32_fs \<Rightarrow> bool" where
  "same_view cont fs fs' \<longleftrightarrow> seen cont fs' = seen cont fs \<and> bio.more fs' = bio.more fs \<and> dsec fs' = dsec fs"

lemma same_view_refl [simp]: "same_view cont fs fs"
  by (simp add: same_view_def)

lemma same_view_trans [trans]: "same_view cont a b \<Longrightarrow> same_view cont b c \<Longrightarrow> same_view cont a c"
  by (simp add: same_view_def)

lemma same_viewD:
  assumes "same_view cont fs fs'"
  shows "chain_per_sector fs' = chain_per_sector fs" "sec_per_cluster fs' = sec_per_cluster fs" "fat cont fs' = fat cont fs"
    "fat32_clu2sec fs' = fat32_clu2sec fs" "sec_data cont fs' = sec_data cont fs" "cluster_data cont fs' = cluster_data cont fs"
    "chain_data cont fs' = chain_data cont fs" "chain_present present fs' = chain_present present fs"
    "fat_sec fs' = fat_sec fs" "dsec fs' = dsec fs"
proof -
  have s: "seen cont fs' = seen cont fs" "dsec fs' = dsec fs" and m: "bio.more fs' = bio.more fs"
    using assms by (simp_all add: same_view_def)
  note f = more_fields [OF m]
  show c: "chain_per_sector fs' = chain_per_sector fs" "sec_per_cluster fs' = sec_per_cluster fs" by (simp_all add: f)
  show u: "fat32_clu2sec fs' = fat32_clu2sec fs" by (simp add: fun_eq_iff fat32_clu2sec_def f)
  show t: "fat_sec fs' = fat_sec fs" "dsec fs' = dsec fs" using s by (simp_all add: fun_eq_iff fat_sec_def f)
  show "fat cont fs' = fat cont fs" by (simp add: fun_eq_iff fat_def t s)
  show d: "sec_data cont fs' = sec_data cont fs" by (simp add: fun_eq_iff sec_data_def u s)
  show e: "cluster_data cont fs' = cluster_data cont fs" by (simp add: fun_eq_iff cluster_data_def d f)
  show "chain_data cont fs' = chain_data cont fs" by (simp add: fun_eq_iff chain_data_def e)
  show "chain_present present fs' = chain_present present fs"
    by (simp add: fun_eq_iff chain_present_def u t s f)
qed

lemma seen_length:
  assumes "cached D ra junk cont idle present fs xs" "present (dsec fs s)"
  shows "length (seen cont fs s) = 512"
proof -
  obtain i fs' xs' where "fat32_bio_read s fs = Inr (512 * i, fs')" "cached D ra junk cont idle present fs' xs'"
     "same_vol fs fs'" "seen cont fs' = seen cont fs"
     "512 * i + 512 \<le> length (buf_mem fs')" "take 512 (drop (512 * i) (buf_mem fs')) = seen cont fs s"
    using seen_read [OF assms] by blast
  then show ?thesis by (metis (no_types, lifting) add_le_imp_le_diff length_drop length_take min_absorb2 add.commute)
qed

lemma chain_step:
  assumes "cached D ra junk cont idle present fs xs" "chain_per_sector fs = 128" "present (dsec fs (fat_sec fs c))"
  shows "\<exists>fs' xs'. fat32_get_chain c fs = Inr (fat cont fs c, fs') \<and> cached D ra junk cont idle present fs' xs' \<and> same_view cont fs fs'"
  using get_chain_reads [OF assms] unfolding same_view_def by blast

text \<open>One sector.\<close>

lemma read_sectors_step:
  assumes c: "cached D ra junk cont idle present fs xs" "present (dsec fs (base + of_nat so))"
    and b: "unat b \<le> 512" "unat n \<le> unat bl" "k = min (512 - unat b) (unat bl - unat n)" "unat n + k \<le> length out"
  shows "\<exists>fs' xs'. cached D ra junk cont idle present fs' xs' \<and> same_view cont fs fs' \<and>
     read_sectors base b bl (so # ss) n out fs =
       (let out' = take (unat n) out @ take k (drop (unat b) (seen cont fs (base + of_nat so))) @ drop (unat n + k) out in
        if unat n + k = unat bl then Inr (True, bl, out', fs') else read_sectors base b bl ss (n + of_nat k) out' fs')"
proof -
  obtain i fs' xs' where r: "fat32_bio_read (base + of_nat so) fs = Inr (512 * i, fs')" "cached D ra junk cont idle present fs' xs'"
     "same_vol fs fs'" "seen cont fs' = seen cont fs"
     "512 * i + 512 \<le> length (buf_mem fs')" "take 512 (drop (512 * i) (buf_mem fs')) = seen cont fs (base + of_nat so)"
    using seen_read [OF c] by blast
  have bps: "byte_per_sector fs' = 512" using r(2) by (simp add: cached_def bio_inv_def)
  let ?len = "min_u64 (ucast (byte_per_sector fs') - b) (bl - n)"
  have len: "unat ?len = k"
  proof -
    have "unat (512 - b) = 512 - unat b" using b(1) by (simp add: unat_sub word_le_nat_alt)
    moreover have "unat (bl - n) = unat bl - unat n" using b(2) by (simp add: unat_sub word_le_nat_alt)
    ultimately show ?thesis using b(3) bps by (auto simp: min_u64_def word_less_nat_alt word_le_nat_alt)
  qed
  have bk: "unat b + k \<le> 512" using b(1,3) by simp
  have "take k (drop (512 * i + unat b) (buf_mem fs')) = take k (drop (unat b) (take 512 (drop (512 * i) (buf_mem fs'))))"
    using bk by (simp add: drop_take min_absorb1 add.commute)
  then have rb: "read_bytes (512 * i + unat b) k (buf_mem fs') = Inr (take k (drop (unat b) (seen cont fs (base + of_nat so))))"
    using bk r(5,6) by (simp add: read_bytes_def)
  have lk: "length (take k (drop (unat b) (seen cont fs (base + of_nat so)))) = k"
    using bk seen_length [OF c] by simp
  have wb: "write_bytes (unat n) (take k (drop (unat b) (seen cont fs (base + of_nat so)))) out =
      Inr (take (unat n) out @ take k (drop (unat b) (seen cont fs (base + of_nat so))) @ drop (unat n + k) out)"
    using b(4) lk by (simp add: write_bytes_def)
  have l: "?len = of_nat k" by (simp add: len [symmetric] of_nat_unat)
  have full: "n + of_nat k = bl \<longleftrightarrow> unat n + k = unat bl"
  proof -
    have "unat n + k \<le> unat bl" using b(2,3) by simp
    moreover have "unat bl < 2 ^ 64" using unsigned_less [of bl] by simp
    ultimately have "unat n + k < 2 ^ 64" by linarith
    then have "unat (n + of_nat k) = unat n + k"
      by (simp add: unat_word_ariths take_bit_nat_eq_self unsigned_of_nat)
    then show ?thesis by (metis unsigned_word_eqI)
  qed
  have "read_sectors base b bl (so # ss) n out fs =
       (let out' = take (unat n) out @ take k (drop (unat b) (seen cont fs (base + of_nat so))) @ drop (unat n + k) out in
        if unat n + k = unat bl then Inr (True, bl, out', fs') else read_sectors base b bl ss (n + of_nat k) out' fs')"
    using r(1) rb wb len l full by (simp add: Let_def read_sectors.simps)
  moreover have "same_view cont fs fs'" using r(4) more_same_vol [OF r(3)] same_vol_dsec [OF r(3)] by (simp add: same_view_def)
  ultimately show ?thesis using r(2) by blast
qed


declare read_sectors.simps(2) [simp del]

text \<open>The sectors of a cluster from the start of a sector on: all of them, or as much as fills the
  caller's buffer.\<close>

lemma sec_data_simps:
  "sec_data cont fs c [] = []"
  "sec_data cont fs c (so # ss) = seen cont fs (fat32_clu2sec fs c + of_nat so) @ sec_data cont fs c ss"
  by (simp_all add: sec_data_def)

lemma read_sectors_ok:
  assumes "cached D ra junk cont idle present fs xs" "\<forall>so \<in> set ss. present (dsec fs (fat32_clu2sec fs c + of_nat so))"
    and "n \<le> L" "L \<le> length out" "L < 2 ^ 64" "n = L \<longrightarrow> L = 0"
  shows "\<exists>fs' xs'. cached D ra junk cont idle present fs' xs' \<and> same_view cont fs fs' \<and>
     read_sectors (fat32_clu2sec fs c) 0 (of_nat L) ss (of_nat n) out fs =
       (let k = min (length (sec_data cont fs c ss)) (L - n);
            out' = take n out @ take k (sec_data cont fs c ss) @ drop (n + k) out in
        if ss \<noteq> [] \<and> n + k = L then Inr (True, of_nat L, out', fs') else Inr (False, of_nat (n + k), out', fs'))"
  using assms
proof (induction ss arbitrary: n out fs xs)
  case Nil
  then show ?case by (intro exI [of _ fs] exI [of _ xs]) (simp add: sec_data_simps)
next
  case (Cons so ss)
  let ?v = "seen cont fs (fat32_clu2sec fs c + of_nat so)" and ?base = "fat32_clu2sec fs c"
  have p: "present (dsec fs (?base + of_nat so))" using Cons.prems(2) by simp
  note lv = seen_length [OF Cons.prems(1) p]
  have u: "unat (of_nat n :: u64) = n" "unat (of_nat L :: u64) = L"
    using Cons.prems(3,5) by (simp_all add: unsigned_of_nat take_bit_nat_eq_self)
  define k where "k = min 512 (L - n)"
  define out1 where "out1 = take n out @ take k ?v @ drop (n + k) out"
  have lo: "length out1 = length out" using lv Cons.prems(3,4) by (simp add: out1_def k_def)
  have st: "unat (0 :: u64) \<le> 512" "unat (of_nat n :: u64) \<le> unat (of_nat L :: u64)"
      "k = min (512 - unat (0 :: u64)) (unat (of_nat L :: u64) - unat (of_nat n :: u64))"
      "unat (of_nat n :: u64) + k \<le> length out"
    unfolding u using Cons.prems(3,4) by (auto simp: k_def)
  obtain fs1 xs1 where 1: "cached D ra junk cont idle present fs1 xs1" "same_view cont fs fs1"
     "read_sectors ?base 0 (of_nat L) (so # ss) (of_nat n) out fs =
        (if n + k = L then Inr (True, of_nat L, out1, fs1) else read_sectors ?base 0 (of_nat L) ss (of_nat (n + k)) out1 fs1)"
    using read_sectors_step [OF Cons.prems(1) p st, of ss, unfolded u Let_def unsigned_0 drop_0 of_nat_add [symmetric],
        folded out1_def] by blast
  note sv = same_viewD [OF 1(2)]
  show ?case
  proof (cases "n + k = L")
    case True
    then have "k = L - n" "k \<le> 512" by (auto simp: k_def)
    then have "min (length (sec_data cont fs c (so # ss))) (L - n) = k" using lv by (simp add: sec_data_simps)
    moreover have "take k (sec_data cont fs c (so # ss)) = take k ?v" using lv \<open>k \<le> 512\<close> by (simp add: sec_data_simps)
    ultimately show ?thesis using 1 True by (intro exI [of _ fs1] exI [of _ xs1]) (simp add: out1_def)
  next
    case False
    then have k: "k = 512" "512 < L - n" using Cons.prems(3) by (auto simp: k_def min_def split: if_splits)
    then have n: "n + k \<le> L" "L \<le> length out1" "n + k = L \<longrightarrow> L = 0" using Cons.prems(3,4) lo by auto
    have "\<forall>so \<in> set ss. present (dsec fs1 (fat32_clu2sec fs1 c + of_nat so))"
      using Cons.prems(2) sv 1(2) by (simp add: same_view_def)
    from Cons.IH [OF 1(1) this n(1,2) Cons.prems(5) n(3)] sv obtain fs2 xs2 where
      2: "cached D ra junk cont idle present fs2 xs2" "same_view cont fs1 fs2"
        "read_sectors ?base 0 (of_nat L) ss (of_nat (n + k)) out1 fs1 =
       (let j = min (length (sec_data cont fs c ss)) (L - (n + k));
            out' = take (n + k) out1 @ take j (sec_data cont fs c ss) @ drop (n + k + j) out1 in
        if ss \<noteq> [] \<and> n + k + j = L then Inr (True, of_nat L, out', fs2) else Inr (False, of_nat (n + k + j), out', fs2))"
      by auto
    define J where "J = min (length (sec_data cont fs c ss)) (L - (n + k))"
    have j: "min (length (sec_data cont fs c (so # ss))) (L - n) = k + J" using lv k by (simp add: sec_data_simps J_def)
    have t: "take (n + k) out1 = take n out @ ?v" "drop (n + k + J) out1 = drop (n + k + J) out"
      using lv k Cons.prems(3,4) by (simp_all add: out1_def ac_simps)
    have e: "take (k + J) (sec_data cont fs c (so # ss)) = ?v @ take J (sec_data cont fs c ss)"
      using lv k(1) by (simp add: sec_data_simps)
    have s: "ss = [] \<Longrightarrow> J = 0" by (simp add: sec_data_simps J_def)
    have e0: "ss = [] \<Longrightarrow> take k (sec_data cont fs c [so]) = ?v" using lv k(1) by (simp add: sec_data_simps)
    show ?thesis using 1(3) 2(1) 2(3) [folded J_def] False same_view_trans [OF 1(2) 2(2)] s unfolding j
      by (intro exI [of _ fs2] exI [of _ xs2]) (auto simp: Let_def t e e0 add.assoc [symmetric])
  qed
qed


text \<open>The bytes of a chain from a sector of its first cluster on.\<close>

definition rest_data :: "('d \<Rightarrow> u64 \<Rightarrow> u8 list) \<Rightarrow> 'd virtio_blk fat32_fs \<Rightarrow> nat \<Rightarrow> u32 list \<Rightarrow> u8 list" where
  "rest_data cont fs so cs = (case cs of [] \<Rightarrow> [] | c # cs \<Rightarrow> sec_data cont fs c [so..<unat (sec_per_cluster fs)] @ chain_data cont fs cs)"

lemma rest_data_simps:
  "rest_data cont fs so [] = []"
  "rest_data cont fs so (c # cs) = sec_data cont fs c [so..<unat (sec_per_cluster fs)] @ rest_data cont fs 0 cs"
  "rest_data cont fs 0 cs = chain_data cont fs cs"
  by (auto simp: rest_data_def chain_data_def cluster_data_def split: list.split)

lemma read_chain_ok:
  assumes "cached D ra junk cont idle present fs xs" "chain_per_sector fs = 128" "chain_present present fs cs"
    and "chained (fat cont fs) c cs" "so < unat (sec_per_cluster fs)"
    and "n \<le> L" "L \<le> length out" "L < 2 ^ 64" "n = L \<longrightarrow> L = 0"
  shows "\<exists>fs' xs'. cached D ra junk cont idle present fs' xs' \<and> same_view cont fs fs' \<and>
     (let k = min (length (rest_data cont fs so cs)) (L - n) in
      read_chain c so 0 (of_nat L) (of_nat n) out fs =
        Some (Inr (of_nat (n + k), take n out @ take k (rest_data cont fs so cs) @ drop (n + k) out, fs')))"
  using assms
proof (induction cs arbitrary: c so n out fs xs)
  case Nil
  then have "\<not> c < FAT32_CHAIN_END_FLAG" by (simp add: not_less)
  then show ?case using Nil
    by (intro exI [of _ fs] exI [of _ xs]) (simp add: rest_data_simps read_chain.simps)
next
  case (Cons x cs)
  let ?S = "sec_data cont fs c [so..<unat (sec_per_cluster fs)]"
  have c: "x = c" "c < FAT32_CHAIN_END_FLAG" "chained (fat cont fs) (fat cont fs c) cs" using Cons.prems(4) by auto
  have "\<forall>so \<in> set [so..<unat (sec_per_cluster fs)]. present (dsec fs (fat32_clu2sec fs c + of_nat so))"
    using Cons.prems(3) c(1) by (auto simp: chain_present_def)
  note rs = read_sectors_ok [OF Cons.prems(1) this Cons.prems(6-9)]
  define k where "k = min (length ?S) (L - n)"
  define out1 where "out1 = take n out @ take k ?S @ drop (n + k) out"
  obtain fs1 xs1 where 1: "cached D ra junk cont idle present fs1 xs1" "same_view cont fs fs1"
     "read_sectors (fat32_clu2sec fs c) 0 (of_nat L) [so..<unat (sec_per_cluster fs)] (of_nat n) out fs =
        (if n + k = L then Inr (True, of_nat L, out1, fs1) else Inr (False, of_nat (n + k), out1, fs1))"
    using rs Cons.prems(5) unfolding k_def [symmetric] out1_def [symmetric] Let_def by auto
  note sv = same_viewD [OF 1(2)]
  show ?case
  proof (cases "n + k = L")
    case True
    then have k: "k = L - n" "k \<le> length ?S" by (simp_all add: k_def)
    have "read_chain c so 0 (of_nat L) (of_nat n) out fs = Some (Inr (of_nat L, out1, fs1))"
      using 1(3) c(2) True by (simp add: read_chain.simps)
    moreover have "min (length (rest_data cont fs so (x # cs))) (L - n) = k"
      "take k (rest_data cont fs so (x # cs)) = take k ?S" using k c(1) by (simp_all add: rest_data_simps)
    ultimately show ?thesis using 1(1,2) True
      by (intro exI [of _ fs1] exI [of _ xs1]) (simp add: Let_def out1_def of_nat_add [symmetric] del: of_nat_add)
  next
    case False
    then have k: "k = length ?S" "length ?S < L - n" using Cons.prems(6) by (auto simp: k_def min_def split: if_splits)
    have lo: "length out1 = length out" using k Cons.prems(6,7) by (simp add: out1_def)
    have "present (dsec fs1 (fat_sec fs1 c))"
      using Cons.prems(3) c(1) by (simp add: sv chain_present_def)
    from chain_step [OF 1(1) _ this] obtain fs2 xs2 where
      2: "fat32_get_chain c fs1 = Inr (fat cont fs c, fs2)" "cached D ra junk cont idle present fs2 xs2" "same_view cont fs1 fs2"
      using sv(1,3) Cons.prems(2) by auto
    note sw = same_view_trans [OF 1(2) 2(3)]
    note sw' = same_viewD [OF sw]
    have m: "chain_per_sector fs2 = 128" "chain_present present fs2 cs" "chained (fat cont fs2) (fat cont fs c) cs"
      "0 < unat (sec_per_cluster fs2)" "n + k \<le> L" "L \<le> length out1" "n + k = L \<longrightarrow> L = 0"
      using Cons.prems(2,3,5,6,7) c(3) k False lo sw' by (auto simp: chain_present_def)
    have rd: "rest_data cont fs2 0 cs = rest_data cont fs 0 cs" using sw' by (simp add: rest_data_simps(3))
    define J where "J = min (length (rest_data cont fs 0 cs)) (L - (n + k))"
    obtain fs3 xs3 where 3: "cached D ra junk cont idle present fs3 xs3" "same_view cont fs2 fs3"
      "read_chain (fat cont fs c) 0 0 (of_nat L) (of_nat (n + k)) out1 fs2 =
        Some (Inr (of_nat (n + k + J), take (n + k) out1 @ take J (rest_data cont fs 0 cs) @ drop (n + k + J) out1, fs3))"
      using Cons.IH [OF 2(2) m(1-6) Cons.prems(8) m(7)] unfolding rd Let_def J_def by blast
    have "read_chain c so 0 (of_nat L) (of_nat n) out fs = read_chain (fat cont fs c) 0 0 (of_nat L) (of_nat (n + k)) out1 fs2"
      using 1(3) 2(1) c(2) False by (simp add: read_chain.simps [of c])
    moreover have "min (length (rest_data cont fs so (x # cs))) (L - n) = k + J"
      "take (k + J) (rest_data cont fs so (x # cs)) = ?S @ take J (rest_data cont fs 0 cs)"
      using k c(1) by (simp_all add: rest_data_simps(2) J_def)
    moreover have "take (n + k) out1 = take n out @ ?S" "drop (n + k + J) out1 = drop (n + k + J) out"
      using k Cons.prems(6,7) by (simp_all add: out1_def ac_simps)
    ultimately show ?thesis using 3 same_view_trans [OF sw 3(2)]
      by (intro exI [of _ fs3] exI [of _ xs3]) (simp add: Let_def add.assoc)
  qed
qed

lemma chained_nth: "chained f c cs \<Longrightarrow> i < length cs \<Longrightarrow> chained f (cs ! i) (drop i cs)"
  by (induction f c cs arbitrary: i rule: chained.induct) (auto simp: nth_Cons' drop_Cons' )

lemma skip_chain_ok:
  assumes "cached D ra junk cont idle present fs xs" "chain_per_sector fs = 128" "chain_present present fs cs"
    and "chained (fat cont fs) c cs" "i < length cs"
  shows "\<exists>fs' xs'. skip_chain i c fs = Inr (cs ! i, fs') \<and> cached D ra junk cont idle present fs' xs' \<and> same_view cont fs fs'"
  using assms
proof (induction i arbitrary: c cs fs xs)
  case 0
  then obtain cs' where "cs = c # cs'" by (cases cs) auto
  then show ?case using 0 by auto
next
  case (Suc i)
  obtain cs' where cs: "cs = c # cs'" "chained (fat cont fs) (fat cont fs c) cs'" "i < length cs'"
    using Suc.prems(4,5) by (cases cs) auto
  have "present (dsec fs (fat_sec fs c))" using Suc.prems(3) cs(1) by (simp add: chain_present_def)
  from chain_step [OF Suc.prems(1,2) this] obtain fs1 xs1 where
    1: "fat32_get_chain c fs = Inr (fat cont fs c, fs1)" "cached D ra junk cont idle present fs1 xs1" "same_view cont fs fs1" by blast
  note sv = same_viewD [OF 1(3)]
  have "chain_per_sector fs1 = 128" "chain_present present fs1 cs'" "chained (fat cont fs1) (fat cont fs c) cs'"
    using sv Suc.prems(2,3) cs by (auto simp: chain_present_def)
  from Suc.IH [OF 1(2) this cs(3)] show ?case using 1(1) cs(1) same_view_trans [OF 1(3)] by auto
qed

lemma sec_data_length:
  assumes "cached D ra junk cont idle present fs xs" "chain_present present fs cs" "c \<in> set cs" "set ss \<subseteq> {..<unat (sec_per_cluster fs)}"
  shows "length (sec_data cont fs c ss) = 512 * length ss"
  using assms(4)
proof (induction ss)
  case (Cons so ss)
  have "present (dsec fs (fat32_clu2sec fs c + of_nat so))"
    using assms(2,3) Cons.prems by (auto simp: chain_present_def)
  then show ?case using Cons seen_length [OF assms(1)] by (simp add: sec_data_simps)
qed (simp add: sec_data_simps)

lemma rest_data_drop:
  assumes "cached D ra junk cont idle present fs xs" "chain_present present fs cs" "i < length cs" "so < unat (sec_per_cluster fs)"
  shows "rest_data cont fs so (drop i cs) = drop (512 * (i * unat (sec_per_cluster fs) + so)) (chain_data cont fs cs)"
  using assms(2,3)
proof (induction i arbitrary: cs)
  case 0
  let ?n = "unat (sec_per_cluster fs)"
  obtain c cs' where cs: "cs = c # cs'" using 0 by (cases cs) auto
  have "cluster_data cont fs c = sec_data cont fs c [0..<so] @ sec_data cont fs c [so..<?n]"
    using upt_add_eq_append [of 0 so "?n - so"] assms(4) by (simp add: cluster_data_def sec_data_def)
  moreover have "length (sec_data cont fs c [0..<so]) = 512 * so"
    using sec_data_length [OF assms(1) 0(1), of c "[0..<so]"] cs assms(4) by (simp add: subset_eq)
  ultimately show ?case using cs by (simp add: rest_data_def chain_data_def)
next
  case (Suc i)
  let ?n = "unat (sec_per_cluster fs)"
  obtain c cs' where cs: "cs = c # cs'" using Suc.prems by (cases cs) auto
  have "length (cluster_data cont fs c) = 512 * ?n"
    using sec_data_length [OF assms(1) Suc.prems(1), of c "[0..<?n]"] cs by (simp add: cluster_data_def subset_eq)
  moreover have "chain_present present fs cs'" using Suc.prems(1) cs by (simp add: chain_present_def)
  ultimately show ?case using Suc.IH [of cs'] Suc.prems(2) cs by (simp add: chain_data_def algebra_simps)
qed


lemma fat32_read_ok:
  assumes "cached D ra junk cont idle present fs xs" "chain_per_sector fs = 128" "chain_present present fs cs"
    and "chained (fat cont fs) (obj_cidx ob) cs" "unat sk < unat (obj_file_size ob)" "512 dvd unat sk"
    and "unat sk < length (chain_data cont fs cs)" "unat len \<le> length out" "0 < unat len" "unat len < 2 ^ 32"
    and "data = take (unat len) (drop (unat sk) (chain_data cont fs cs))"
  shows "\<exists>fs' xs'. fat32_read ob out len sk fs = Inr (of_nat (length data), data @ drop (length data) out, fs') \<and>
     cached D ra junk cont idle present fs' xs' \<and> same_view cont fs fs'"
proof -
  let ?n = "unat (sec_per_cluster fs)"
  obtain q where q: "unat sk = 512 * q" using assms(6) by blast
  have "length (chain_data cont fs cs) = 512 * (length cs * ?n)"
  proof -
    have "length (cluster_data cont fs c) = 512 * ?n" if "c \<in> set cs" for c
      using sec_data_length [OF assms(1,3) that, of "[0..<?n]"] by (simp add: cluster_data_def subset_eq)
    then have "map length (map (cluster_data cont fs) cs) = replicate (length cs) (512 * ?n)"
      by (simp add: list_eq_iff_nth_eq)
    then show ?thesis by (simp add: chain_data_def length_concat sum_list_replicate)
  qed
  then have ql: "q < length cs * ?n" using assms(7) q by simp
  then have n: "0 < ?n" by (cases "?n = 0") auto
  then have n': "sec_per_cluster fs \<noteq> 0" by auto
  have i: "q div ?n < length cs" using ql n by (simp add: div_less_iff_less_mult)
  have bps: "byte_per_sector fs = 512" using assms(1) by (simp add: cached_def bio_inv_def)
  have big: "\<not> ucast (obj_file_size ob) \<le> sk" using assms(5) by (simp add: word_le_nat_alt unat_u32_u64)
  have b: "sk mod 512 = 0" using q by (simp add: unat_mod_distrib unsigned_eq_0_iff [symmetric] word_unat_eq_iff)
  have q32: "q < 2 ^ 32" using assms(5) q unat_u32_less [of "obj_file_size ob"] by simp
  have "unat (sk div 512) = q" using q by (simp add: unat_div_distrib)
  then have si: "unat (ucast (sk div 512) :: u32) = q" using q32 by (simp add: unsigned_ucast_eq take_bit_nat_eq_self)
  obtain fs1 xs1 where 1: "skip_chain (q div ?n) (obj_cidx ob) fs = Inr (cs ! (q div ?n), fs1)"
      "cached D ra junk cont idle present fs1 xs1" "same_view cont fs fs1"
    using skip_chain_ok [OF assms(1-4) i] by blast
  note sv = same_viewD [OF 1(3)]
  let ?cs = "drop (q div ?n) cs"
  have m: "chain_per_sector fs1 = 128" "chain_present present fs1 ?cs" "chained (fat cont fs1) (cs ! (q div ?n)) ?cs"
    "q mod ?n < unat (sec_per_cluster fs1)" "0 \<le> unat len" "unat len \<le> length out" "unat len < 2 ^ 64" "0 = unat len \<longrightarrow> unat len = 0"
    using sv assms(2,3,8) chained_nth [OF assms(4) i] n unsigned_less [of len]
    by (auto simp: chain_present_def dest: in_set_dropD)
  have "rest_data cont fs1 (q mod ?n) ?cs = rest_data cont fs (q mod ?n) ?cs"
    using sv by (simp add: rest_data_def split: list.split)
  also have "\<dots> = drop (unat sk) (chain_data cont fs cs)"
    using rest_data_drop [OF assms(1,3) i, of "q mod ?n"] n q by simp
  finally have rd: "rest_data cont fs1 (q mod ?n) ?cs = drop (unat sk) (chain_data cont fs cs)" .
  let ?k = "min (length (drop (unat sk) (chain_data cont fs cs))) (unat len)"
  obtain fs2 xs2 where 2: "cached D ra junk cont idle present fs2 xs2" "same_view cont fs1 fs2"
      "read_chain (cs ! (q div ?n)) (q mod ?n) 0 len 0 out fs1 =
         Some (Inr (of_nat ?k, take ?k (drop (unat sk) (chain_data cont fs cs)) @ drop ?k out, fs2))"
    using read_chain_ok [OF 1(2) m] unfolding rd by (auto simp: Let_def)
  have k: "length data = ?k" "take ?k (drop (unat sk) (chain_data cont fs cs)) = data" using assms(11) by (auto simp: min_def)
  have "unat len < 2 ^ 64" using unsigned_less [of len] by simp
  then have "?k < 2 ^ 64" by (simp add: min_less_iff_disj)
  then have "ucast (of_nat ?k :: u64) = (of_nat ?k :: u32)" by (simp only: unsigned_of_nat) (simp add: take_bit_nat_eq_self)
  then have "fat32_read ob out len sk fs = Inr (of_nat (length data), data @ drop (length data) out, fs2)"
    using big 1(1) 2(3) n' n b si unfolding k
    by (simp add: fat32_read_def bps unat_div_distrib unat_mod_distrib word_less_nat_alt [of 0] Let_def)
  then show ?thesis using 2(1) same_view_trans [OF 1(3) 2(2)] by blast
qed

text \<open>Reading a file from a sector boundary on gives the bytes of its chain of clusters, as many
  as the buffer asks for and the chain has, and leaves the rest of the buffer and the volume as
  they are. The recorded size only decides whether anything is read.\<close>

lemma fat32_read_refines:
  assumes "cached D ra junk cont idle present fs xs" "chain_per_sector fs = 128" "chain_present present fs cs"
    and "chained (fat cont fs) (obj_cidx ob) cs" "unat sk < unat (obj_file_size ob)" "512 dvd unat sk"
    and "unat sk < length (chain_data cont fs cs)" "unat len \<le> length out" "0 < unat len" "unat len < 2 ^ 32"
    and "data = take (unat len) (drop (unat sk) (chain_data cont fs cs))"
  shows "\<exists>fs' xs'. fat32_read ob out len sk fs = Inr (of_nat (length data), data @ drop (length data) out, fs') \<and>
     cached D ra junk cont idle present fs' xs' \<and> same_view cont fs fs'"
  by (rule fat32_read_ok [OF assms])

text \<open>C39. A read that starts inside the first sector of a file and takes one byte of the next sector of
  the cluster: the bytes of the first sector are right, but the one of the second is taken from the same offset,
  not from its start, since the offset is only reset at the end of a cluster.\<close>

theorem fat32_read_unaligned_shifts:
  assumes "cached D ra junk cont idle present fs xs" "2 \<le> unat (sec_per_cluster fs)" "obj_cidx ob = c" "c < FAT32_CHAIN_END_FLAG"
    and "present (dsec fs (fat32_clu2sec fs c))" "present (dsec fs (fat32_clu2sec fs c + 1))"
    and "unat sk = b" "b < 512" "b < unat (obj_file_size ob)" "unat len = 513 - b" "513 - b \<le> length out"
  shows "\<exists>fs' xs'. fat32_read ob out len sk fs =
        Inr (of_nat (513 - b), drop b (seen cont fs (fat32_clu2sec fs c)) @ [seen cont fs (fat32_clu2sec fs c + 1) ! b] @
          drop (513 - b) out, fs') \<and> cached D ra junk cont idle present fs' xs' \<and> same_view cont fs fs'"
proof -
  let ?s = "fat32_clu2sec fs c" and ?n = "unat (sec_per_cluster fs)"
  have n: "[0..<?n] = 0 # 1 # [2..<?n]" using assms(2) by (simp add: upt_conv_Cons numeral_2_eq_2)
  have bps: "byte_per_sector fs = 512" using assms(1) by (simp add: cached_def bio_inv_def)
  have big: "\<not> ucast (obj_file_size ob) \<le> sk" using assms(7,9) by (simp add: word_le_nat_alt unat_u32_u64)
  have nz: "sec_per_cluster fs \<noteq> 0" using assms(2) by auto
  have "sk mod 512 = sk" "sk div 512 = 0"
    using assms(7,8) by (simp_all add: word_unat_eq_iff unat_mod_distrib unat_div_distrib)
  note st = this
  define out1 where "out1 = drop b (seen cont fs ?s) @ drop (512 - b) out"
  have p: "present (dsec fs (?s + of_nat 0))" using assms(5) by simp
  note l0 = seen_length [OF assms(1) p, simplified]
  have h0: "unat sk \<le> 512" "unat (0 :: u64) \<le> unat len" "512 - b = min (512 - unat sk) (unat len - unat (0 :: u64))"
    "unat (0 :: u64) + (512 - b) \<le> length out" using assms(7,8,10,11) by simp_all
  have t0: "take (512 - b) (drop b (seen cont fs (?s + of_nat 0))) = drop b (seen cont fs ?s)" using l0 by simp
  have f0: "(512 - b = unat len) = False" using assms(8,10) by auto
  obtain fs1 xs1 where 1: "cached D ra junk cont idle present fs1 xs1" "same_view cont fs fs1"
     "read_sectors ?s sk len (0 # 1 # [2..<?n]) 0 out fs = read_sectors ?s sk len (1 # [2..<?n]) (of_nat (512 - b)) out1 fs1"
    using read_sectors_step [OF assms(1) p h0, of "1 # [2..<?n]"]
    unfolding Let_def assms(7) t0 add_0_left unsigned_0 take_0 append_Nil f0 if_False out1_def by blast
  note sv = same_viewD [OF 1(2)]
  have p1: "present (dsec fs1 (?s + of_nat 1))" using assms(6) by (simp add: sv)
  note l1 = seen_length [OF 1(1) p1]
  have u: "unat (of_nat (512 - b) :: u64) = 512 - b" using assms(8) by (simp only: unsigned_of_nat) (simp add: take_bit_nat_eq_self)
  have h1: "unat sk \<le> 512" "unat (of_nat (512 - b) :: u64) \<le> unat len"
    "1 = min (512 - unat sk) (unat len - unat (of_nat (512 - b) :: u64))"
    "unat (of_nat (512 - b) :: u64) + 1 \<le> length out1"
    unfolding u using assms(7,8,10,11) l0 by (simp_all add: out1_def)
  have s1: "seen cont fs1 (?s + of_nat 1) = seen cont fs (?s + 1)" "seen cont fs1 (?s + 1) = seen cont fs (?s + 1)" using 1(2) by (simp_all add: same_view_def)
  have t1: "take 1 (drop b (seen cont fs (?s + 1))) = [seen cont fs (?s + 1) ! b]"
    using l1 assms(8) unfolding s1 by (simp add: take_Suc_conv_app_nth hd_drop_conv_nth take_Suc)
  have e: "512 - b + 1 = 513 - b" using assms(8) by simp
  obtain fs2 xs2 where 2: "cached D ra junk cont idle present fs2 xs2" "same_view cont fs1 fs2"
     "read_sectors ?s sk len (1 # [2..<?n]) (of_nat (512 - b)) out1 fs1 =
        Inr (True, len, take (512 - b) out1 @ [seen cont fs (?s + 1) ! b] @ drop (513 - b) out1, fs2)"
    using read_sectors_step [OF 1(1) p1 h1, of "[2..<?n]"]
    unfolding Let_def u s1 assms(7,10) t1 e of_nat_1 if_P [OF refl] by blast
  have o1: "take (512 - b) out1 = drop b (seen cont fs ?s)" "drop (513 - b) out1 = drop (513 - b) out"
    using l0 assms(8) e by (simp_all add: out1_def)
  have "read_chain c 0 sk len 0 out fs = Some (Inr (len, drop b (seen cont fs ?s) @ [seen cont fs (?s + 1) ! b] @ drop (513 - b) out, fs2))"
    using assms(4) 1(3) 2(3) n o1 by (simp add: read_chain.simps [of c])
  moreover have "(ucast len :: u32) = of_nat (513 - b)"
    by (simp add: assms(10) [symmetric] of_nat_unat)
  ultimately have "fat32_read ob out len sk fs = Inr (of_nat (513 - b), drop b (seen cont fs ?s) @ [seen cont fs (?s + 1) ! b] @ drop (513 - b) out, fs2)"
    using big st nz by (simp add: fat32_read_def bps Let_def assms(3))
  then show ?thesis using 2(1) same_view_trans [OF 1(2) 2(2)] by blast
qed


section \<open>Iterating\<close>

text \<open>Only a loop can hang; the steps of the iteration have none.\<close>

definition ends :: "'a outcome \<Rightarrow> bool" where
  "ends r \<longleftrightarrow> r \<noteq> Inl Hang"

lemma ends_simps [simp]: "ends (Inr x)" "ends (Inl Undefined)" "\<not> ends (Inl Hang)"
  by (simp_all add: ends_def)

lemma ends_bind: "ends m \<Longrightarrow> (\<And>x. m = Inr x \<Longrightarrow> ends (f x)) \<Longrightarrow> ends (bindO m f)"
  by (cases m) (auto simp: ends_def)

lemma ends_array: "ends (rd8 m p)" "ends (rd16 m p)" "ends (rd32 m p)" "ends (arr_set xs i v)" "ends (arr_get xs i)"
  by (auto simp: rd8_def rd16_def rd32_def arr_set_def arr_get_def intro!: ends_bind)

lemma ends_put_char: "ends (put_char c x)"
  by (auto simp: put_char_def ends_array intro!: ends_bind split: prod.split)

lemma ends_copy: "ends (copy_until_space m e is j dst)" "ends (copy_wide m e is j dst)"
  by (induction "is" arbitrary: j dst) (auto intro!: ends_bind simp: ends_array ends_put_char)

lemma ends_put_str: "ends (put_str dst p cs)"
  by (induction cs arbitrary: dst p) (auto intro!: ends_bind simp: ends_array)

lemma ends_put_strs: "ends (put_strs dst p ss)"
  by (induction ss arbitrary: dst p) (auto intro!: ends_bind simp: ends_put_str)

lemma ends_names:
  "ends (fat32_copy_name_short m e dst)" "ends (fat32_copy_name_long m e dst)" "ends (fat32_name_s2l l sh)" "ends (join_names s dst)"
  by (auto simp: fat32_copy_name_short_def fat32_copy_name_long_def fat32_name_s2l_def join_names_def ends_array ends_copy ends_put_char
      ends_put_strs intro!: ends_bind split: prod.split)

lemma ends_push_name: "ends (push_name m e s)"
  by (auto simp: push_name_def Let_def guardO_def ends_array ends_names intro!: ends_bind split: prod.split)

lemma ends_iter_sector: "ends (iter_sector m dat is s)"
  by (induction "is" arbitrary: s) (auto intro!: ends_bind simp: ends_array ends_push_name)

lemma ends_found: "ends (found_file m e s ob)" "ends (found_directory root m e s ob)"
  by (auto simp: found_file_def found_directory_def entry_cluster_def dir_name_def ends_array ends_names
      intro!: ends_bind split: prod.split)

lemma iter_cluster_ends:
  assumes "cached D ra junk cont idle present fs xs" "\<forall>so \<in> set ss. present (dsec fs (sidx + of_nat so))"
  shows "ends (iter_cluster sidx b ss s fs)"
    and "iter_cluster sidx b ss s fs = Inr (r, s', fs') \<Longrightarrow> (\<exists>xs'. cached D ra junk cont idle present fs' xs') \<and> same_view cont fs fs'"
proof -
  have "ends (iter_cluster sidx b ss s fs) \<and> (\<forall>r s' fs'. iter_cluster sidx b ss s fs = Inr (r, s', fs') \<longrightarrow>
      (\<exists>xs'. cached D ra junk cont idle present fs' xs') \<and> same_view cont fs fs')"
    using assms
  proof (induction ss arbitrary: b s fs xs)
    case (Cons so ss)
    have "present (dsec fs (sidx + of_nat so))" using Cons.prems(2) by simp
    then obtain i fs1 xs1 where r: "fat32_bio_read (sidx + of_nat so) fs = Inr (512 * i, fs1)"
        "cached D ra junk cont idle present fs1 xs1" "same_vol fs fs1" "seen cont fs1 = seen cont fs"
      using seen_read [OF Cons.prems(1)] by blast
    have sv: "same_view cont fs fs1" using r(4) more_same_vol [OF r(3)] same_vol_dsec [OF r(3)] by (simp add: same_view_def)
    have "\<forall>so \<in> set ss. present (dsec fs1 (sidx + of_nat so))" using Cons.prems(2) same_viewD(10) [OF sv] by simp
    note IH = Cons.IH [OF r(2) this]
    define ps where "ps = dir_offsets b (unat (byte_per_sector fs1))"
    show ?case
    proof (cases "iter_sector (buf_mem fs1) (512 * i) ps s")
      case (Inl e)
      then show ?thesis using r(1) ends_iter_sector [of "buf_mem fs1" "512 * i" ps s] by (simp add: ps_def ends_def)
    next
      case (Inr y)
      then show ?thesis using r(1,2) IH sv same_view_trans [OF sv]
        by (cases y; cases "fst y") (auto simp: ps_def)
    qed
  qed auto
  then show "ends (iter_cluster sidx b ss s fs)"
    and "iter_cluster sidx b ss s fs = Inr (r, s', fs') \<Longrightarrow> (\<exists>xs'. cached D ra junk cont idle present fs' xs') \<and> same_view cont fs fs'"
    by blast+
qed


lemma iter_chain_ends:
  assumes "cached D ra junk cont idle present fs xs" "chain_per_sector fs = 128" "chain_present present fs cs"
    and "chained (fat cont fs) c cs"
  shows "\<exists>r. iter_chain c so b s fs = Some r \<and> ends r \<and>
     (\<forall>x s' fs'. r = Inr (Some x, s', fs') \<longrightarrow> fst x \<in> set cs \<and> (\<exists>xs'. cached D ra junk cont idle present fs' xs') \<and> same_view cont fs fs')"
  using assms
proof (induction cs arbitrary: c so b s fs xs)
  case Nil
  then have "\<not> c < FAT32_CHAIN_END_FLAG" by (simp add: not_less)
  then show ?case by (simp add: iter_chain.simps [of c])
next
  case (Cons x cs)
  have c: "x = c" "c < FAT32_CHAIN_END_FLAG" "chained (fat cont fs) (fat cont fs c) cs" using Cons.prems(4) by auto
  let ?r = "iter_cluster (fat32_clu2sec fs c) b [so..<unat (sec_per_cluster fs)] s fs"
  have "\<forall>so \<in> set [so..<unat (sec_per_cluster fs)]. present (dsec fs (fat32_clu2sec fs c + of_nat so))"
    using Cons.prems(3) c(1) by (simp add: chain_present_def)
  note ic = iter_cluster_ends [OF Cons.prems(1) this]
  show ?case
  proof (cases ?r)
    case (Inl e)
    then show ?thesis using c(2) ic(1) [of b s] by (simp add: iter_chain.simps [of c] ends_def)
  next
    case (Inr y)
    obtain p s1 fs1 where y: "y = (p, s1, fs1)" by (cases y)
    obtain xs1 where 1: "cached D ra junk cont idle present fs1 xs1" "same_view cont fs fs1"
      using ic(2) Inr y by blast
    note sv = same_viewD [OF 1(2)]
    show ?thesis
    proof (cases p)
      case (Some z)
      then show ?thesis using c(1,2) Inr y 1 by (cases z) (auto simp: iter_chain.simps [of c])
    next
      case None
      have "present (dsec fs1 (fat_sec fs1 c))" using Cons.prems(3) c(1) by (simp add: sv chain_present_def)
      from chain_step [OF 1(1) _ this] Cons.prems(2) sv obtain fs2 xs2 where
        2: "fat32_get_chain c fs1 = Inr (fat cont fs c, fs2)" "cached D ra junk cont idle present fs2 xs2" "same_view cont fs1 fs2"
        by auto
      note sw = same_view_trans [OF 1(2) 2(3)]
      note sw' = same_viewD [OF sw]
      have m: "chain_per_sector fs2 = 128" "chain_present present fs2 cs" "chained (fat cont fs2) (fat cont fs c) cs"
        using Cons.prems(2,3) c(3) sw' by (auto simp: chain_present_def)
      have "iter_chain c so b s fs = iter_chain (fat cont fs c) 0 (if so < unat (sec_per_cluster fs) then 0 else b) s1 fs2"
        using c(2) Inr y None 2(1) sw'(2) sv(2) by (simp add: iter_chain.simps [of c])
      then show ?thesis using Cons.IH [OF 2(2) m, of 0 "if so < unat (sec_per_cluster fs) then 0 else b" s1]
          same_view_trans [OF sw] by auto
    qed
  qed
qed

lemma ends_after_file:
  assumes "cached D ra junk cont idle present fs' xs'" "chain_per_sector fs = 128" "chain_present present fs cs"
    and "same_view cont fs fs'" "c \<in> set cs"
  shows "ends (after_file c so i fs')"
proof -
  note sv = same_viewD [OF assms(4)]
  have "present (dsec fs' (fat_sec fs' c))" using assms(3,5) by (simp add: sv chain_present_def)
  then obtain z where "fat32_get_chain c fs' = Inr z" using chain_step [OF assms(1)] assms(2) sv by metis
  then show ?thesis by (cases z) (auto simp: after_file_def Let_def)
qed

text \<open>C36. One step of an iteration over a directory ends whenever the chain of the directory from the
  current cluster on ends: it finds an entry, reports that there is none or runs into an array
  bound, but does not loop.\<close>

theorem fat32_iter_next_ends:
  assumes "cached D ra junk cont idle present fs xs" "chain_per_sector fs = 128" "chain_present present fs cs"
    and "chained (fat cont fs) (cur_cidx iter) cs"
  shows "fat32_iter_next stack iter ob fs \<noteq> Inl Hang"
proof -
  let ?s = "\<lparr>lfn_flag = False, fn_num = FAT32_LONG_FN_STACK_NUM, fns = stack\<rparr>"
  obtain r where r: "iter_chain (cur_cidx iter) (unat (cur_sidx_offset iter)) (unat (cur_byte_offset iter)) ?s fs = Some r" "ends r"
    "\<forall>x s' fs'. r = Inr (Some x, s', fs') \<longrightarrow> fst x \<in> set cs \<and> (\<exists>xs'. cached D ra junk cont idle present fs' xs') \<and> same_view cont fs fs'"
    using iter_chain_ends [OF assms] by blast
  have "ends (fat32_iter_next stack iter ob fs)"
    unfolding fat32_iter_next_def r(1) hang_Some
  proof (rule ends_bind [OF r(2)])
    fix y assume y: "r = Inr y"
    obtain p s' fs' where [simp]: "y = (p, s', fs')" by (cases y)
    show "ends (case y of (r, s, fs) \<Rightarrow> case r of None \<Rightarrow> Inr (False, iter, ob, fs)
       | Some (cidx, so, dat, i) \<Rightarrow>
         bindO (rd8 (buf_mem fs) (dat + i + 11)) (\<lambda>attr.
         if entry_kind attr = 0
         then bindO (found_file (buf_mem fs) (dat + i) s ob) (\<lambda>ob.
              bindO (after_file cidx so i fs) (\<lambda>(iter, fs). Inr (True, iter, ob, fs)))
         else bindO (found_directory (root_cidx fs) (buf_mem fs) (dat + i) s ob) (\<lambda>ob.
              Inr (True, after_directory cidx so i fs, ob, fs))))"
    proof (cases p)
      case (Some x)
      obtain c so dat i where [simp]: "x = (c, so, dat, i)" by (cases x)
      obtain xs' where "cached D ra junk cont idle present fs' xs'" "same_view cont fs fs'" "c \<in> set cs"
        using r(3) y Some by auto
      from ends_after_file [OF this(1) assms(2,3) this(2,3)] show ?thesis using Some by (auto intro!: ends_bind simp: ends_array ends_found)
    qed simp
  qed
  then show ?thesis by (simp add: ends_def)
qed

section \<open>A small file\<close>

text \<open>A disk on which every cluster is the last of its chain.\<close>

definition one_cluster :: "vshared \<Rightarrow> virtio_blk_req \<Rightarrow> ramdisk virtio_blk fat32_fs" where
  "one_cluster sh junk = small_volume (\<lambda>_. (replicate 512 255)[0 := 1, 100 := 2]) sh junk"

lemma one_cluster_ok:
  "cached ram_mmio 64 junk fst ram_idle (\<lambda>_. True) (one_cluster sh junk) []"
  "chain_per_sector (one_cluster sh junk) = 128" "sec_per_cluster (one_cluster sh junk) = 8"
  "chained (fat fst (one_cluster sh junk)) 2 [2]" "chain_present (\<lambda>_. True) (one_cluster sh junk) [2]"
  "seen fst (one_cluster sh junk) s = (replicate 512 255)[0 := 1, 100 := 2]"
proof -
  show "cached ram_mmio 64 junk fst ram_idle (\<lambda>_. True) (one_cluster sh junk) []"
    unfolding one_cluster_def by (rule small_volume_cached) simp
  show "chain_per_sector (one_cluster sh junk) = 128" "sec_per_cluster (one_cluster sh junk) = 8"
    by (simp_all add: one_cluster_def small_volume_fields)
  show s: "seen fst (one_cluster sh junk) s = (replicate 512 255)[0 := 1, 100 := 2]" for s
    by (simp add: one_cluster_def small_volume_def two_slots_seen)
  have "le32 255 255 255 255 = 0xffffffff" by (simp add: le32_def push_bit_eq_mult)
  then have "fat fst (one_cluster sh junk) 2 = 0xffffffff" by (simp add: fat_def fat_off_def s Let_def)
  then show "chained (fat fst (one_cluster sh junk)) 2 [2]" by (simp add: FAT32_CHAIN_END_FLAG_def)
  show "chain_present (\<lambda>_. True) (one_cluster sh junk) [2]" by (simp add: chain_present_def)
qed

definition demo_obj :: fat32_obj where
  "demo_obj = \<lparr>obj_cidx = 2, obj_type = FAT32_OBJ_FILE, table_index = 0, long_fn = replicate 131 0, short_fn = replicate 12 0,
     obj_file_size = 4096\<rparr>"

theorem fat32_copy_name_short_overflow_witness:
  "fat32_copy_name_short (replicate 32 65) 0 (replicate 12 0) = Inl Undefined \<and>
   (\<exists>j dst'. fat32_copy_name_short ((replicate 32 65)[10 := 0x20]) 0 (replicate 12 0) = Inr (j, dst') \<and> j \<le> 12)"
proof -
  have "\<not> (\<forall>i < 11. (replicate 32 (65 :: u8))[10 := 0x20] ! (0 + i) \<noteq> 0x20)" by (simp, rule exI [of _ 10]) simp
  then have neg: "(\<forall>i < 11. (replicate 32 (65 :: u8))[10 := 0x20] ! (0 + i) \<noteq> 0x20) = False" by blast
  have pos: "(\<forall>i < 11. replicate 32 (65 :: u8) ! (0 + i) \<noteq> 0x20) = True" by simp
  have "0 + 11 \<le> length (replicate 32 (65 :: u8))" "0 + 11 \<le> length ((replicate 32 (65 :: u8))[10 := 0x20])"
    "length (replicate 12 (0 :: u8)) = 12" by simp_all
  from fat32_copy_name_short_overflow [OF this(1,3)] fat32_copy_name_short_overflow [OF this(2,3)]
  show ?thesis unfolding neg pos if_True if_False by blast
qed

theorem fat32_read_unaligned_shifts_witness:
  "\<forall>sh junk. \<exists>fs' out. fat32_read demo_obj (replicate 413 0) 413 100 (one_cluster sh junk) = Inr (413, out, fs') \<and> out ! 412 = 2"
proof (intro allI)
  fix sh junk
  show "\<exists>fs' out. fat32_read demo_obj (replicate 413 0) 413 100 (one_cluster sh junk) = Inr (413, out, fs') \<and> out ! 412 = 2"
  proof -
    let ?fs = "one_cluster sh junk"
    note ok = one_cluster_ok [where sh = sh and junk = junk]
    have "unat (100 :: u64) = 100" "unat (413 :: u64) = 513 - 100" by simp_all
    then show ?thesis
      using fat32_read_unaligned_shifts [OF ok(1), where ob = demo_obj and c = 2 and sk = 100 and b = 100 and len = 413 and out = "replicate 413 0"]
      by (auto simp: ok demo_obj_def FAT32_CHAIN_END_FLAG_def nth_append)
  qed
qed

theorem fat32_iter_next_ends_witness:
  "\<forall>sh junk. fat32_iter_next [] (fat32_iter_start demo_obj) demo_obj (one_cluster sh junk) \<noteq> Inl Hang"
proof (intro allI)
  fix sh junk
  show "fat32_iter_next [] (fat32_iter_start demo_obj) demo_obj (one_cluster sh junk) \<noteq> Inl Hang"
    by (rule fat32_iter_next_ends [OF one_cluster_ok(1,2,5)]) (use one_cluster_ok(4) in \<open>simp add: fat32_iter_start_def demo_obj_def\<close>)
qed

end
