(* ===== verification/Vfs.thy ===== *)
theory Vfs
  imports Fat_Dir
begin

text \<open>
  Models \<open>kernel/vfs.c\<close>: the tree of vnodes over a lower file system, and the buffer of file
  blocks. A vnode and a block are known by their addresses; the lists that run through them
  are a heap of links as in \<open>KList\<close>. A backend is the table of functions of a lower file
  system; they work on its state and on the kernel heap.
\<close>

section \<open>Data\<close>

definition VNODE_UNDEF :: u32 where "VNODE_UNDEF = 0"
definition VNODE_FILE :: u32 where "VNODE_FILE = 1"
definition VNODE_DIR :: u32 where "VNODE_DIR = 2"
definition VNODE_MP :: u32 where "VNODE_MP = 3"
definition VNODE_DEV :: u32 where "VNODE_DEV = 4"

lemmas vnode_types = VNODE_UNDEF_def VNODE_FILE_def VNODE_DIR_def VNODE_MP_def VNODE_DEV_def

definition VFS_BLOCK_SIZE :: u32 where "VFS_BLOCK_SIZE = 4096"

type_synonym 's world = "'s \<times> kchain"

text \<open>
  The functions of a lower file system that \<open>vfs.c\<close> calls; an object of the lower file system
  is given by its address. Reading gets the memory of the caller's buffer and returns it.
\<close>

record 's vfs_backend =
  lfs_obj_size :: u64
  bk_root :: "u64 \<Rightarrow> 's world \<Rightarrow> 's world outcome"
  bk_flush :: "'s world \<Rightarrow> 's world outcome"
  bk_read :: "u64 \<Rightarrow> u64 \<Rightarrow> u8 list \<Rightarrow> u64 \<Rightarrow> 's world \<Rightarrow> ((u64 \<times> u8 list) \<times> 's world) outcome"
  bk_write :: "u64 \<Rightarrow> u64 \<Rightarrow> u8 list \<Rightarrow> u64 \<Rightarrow> 's world \<Rightarrow> (u64 \<times> 's world) outcome"
  bk_size :: "u64 \<Rightarrow> 's world \<Rightarrow> u64 outcome"
  bk_name :: "u64 \<Rightarrow> 's world \<Rightarrow> u8 list outcome"
  bk_type :: "u64 \<Rightarrow> 's world \<Rightarrow> u32 outcome"
  bk_iterate :: "u64 \<Rightarrow> u64 \<Rightarrow> u64 \<Rightarrow> 's world \<Rightarrow> (u64 \<times> 's world) outcome"
  bk_end_iterate :: "u64 \<Rightarrow> 's world \<Rightarrow> 's world outcome"

text \<open>
  The links of the lists: the \<open>list\<close>, \<open>children\<close> and \<open>bbf\<close> of a vnode, the \<open>list_vfs\<close> and
  \<open>list_vnode\<close> of a block, the \<open>list\<close> of a backend and the heads in \<open>struct vfs_t\<close>.
\<close>

datatype vlink = Vnode_list u64 | Vnode_children u64 | Vnode_bbf u64
  | Block_vfs u64 | Block_vnode u64 | Bkd_list u64 | Bbf_used | Bbf_free | Vfs_bkd

text \<open>\<open>vname\<close> is the string the source's pointer leads to, \<open>None\<close> for the null pointer.\<close>

record 's vnode =
  ref_cnt :: u64
  parent :: u64
  child_cnt :: int
  vsize :: u32
  vtype :: u32
  vname :: "u8 list option"
  lfs_obj :: u64
  bkd :: "'s vfs_backend option"

record vfs_block =
  blk_buf :: u64
  blk_node :: u64
  blkoff :: u32
  dirty :: u32

text \<open>
  \<open>struct vfs_t\<close> with the memory it leads to: the vnodes and blocks, the pages of the blocks,
  the state of the lower file systems and the kernel heap.
\<close>

record 's vfs_t =
  low :: 's
  vheap :: kchain
  vlinks :: "vlink lheap"
  vnode_at :: "u64 \<Rightarrow> 's vnode"
  block_at :: "u64 \<Rightarrow> vfs_block"
  page_at :: "u64 \<Rightarrow> u8 list"
  root_node :: u64
  bbf_used_cnt :: u32
  bbf_free_cnt :: u32
  bbf_total_max :: u32
  vfs_lock :: spinlock

definition SIZEOF_VFS_T :: u64 where "SIZEOF_VFS_T = 192"
definition SIZEOF_VNODE :: u64 where "SIZEOF_VNODE = 104"
definition SIZEOF_VFS_BLOCK :: u64 where "SIZEOF_VFS_BLOCK = 56"
definition SIZEOF_VFS_BACKEND :: u64 where "SIZEOF_VFS_BACKEND = 168"

definition on_vlinks :: "(vlink lheap \<Rightarrow> vlink lheap) \<Rightarrow> 's vfs_t \<Rightarrow> 's vfs_t" where
  "on_vlinks f v = v\<lparr>vlinks := f (vlinks v)\<rparr>"

definition upd_vnode :: "u64 \<Rightarrow> ('s vnode \<Rightarrow> 's vnode) \<Rightarrow> 's vfs_t \<Rightarrow> 's vfs_t" where
  "upd_vnode a f v = v\<lparr>vnode_at := (vnode_at v)(a := f (vnode_at v a))\<rparr>"

definition upd_block :: "u64 \<Rightarrow> (vfs_block \<Rightarrow> vfs_block) \<Rightarrow> 's vfs_t \<Rightarrow> 's vfs_t" where
  "upd_block a f v = v\<lparr>block_at := (block_at v)(a := f (block_at v a))\<rparr>"

definition call :: "('s world \<Rightarrow> ('a \<times> 's world) outcome) \<Rightarrow> 's vfs_t \<Rightarrow> ('a \<times> 's vfs_t) outcome" where
  "call f v = bindO (f (low v, vheap v)) (\<lambda>(x, l, k). Inr (x, v\<lparr>low := l, vheap := k\<rparr>))"

definition vkmalloc :: "u64 \<Rightarrow> 's vfs_t \<Rightarrow> (u64 \<times> 's vfs_t) outcome" where
  "vkmalloc sz v = bindO (kmalloc sz (vheap v)) (\<lambda>(p, k). Inr (p, v\<lparr>vheap := k\<rparr>))"

definition vkfree :: "u64 \<Rightarrow> 's vfs_t \<Rightarrow> 's vfs_t outcome" where
  "vkfree p v = bindO (kfree p (vheap v)) (\<lambda>k. Inr (v\<lparr>vheap := k\<rparr>))"

definition vfs_acquire :: "'s vfs_t \<Rightarrow> 's vfs_t outcome" where
  "vfs_acquire v = bindO (spinlock_acquire (vfs_lock v) (snd (pmem_st (vheap v)))) (\<lambda>(l, m).
     Inr (v\<lparr>vfs_lock := l, vheap := (vheap v)\<lparr>pmem_st := (fst (pmem_st (vheap v)), m)\<rparr>\<rparr>))"

definition vfs_release :: "'s vfs_t \<Rightarrow> 's vfs_t outcome" where
  "vfs_release v = bindO (spinlock_release (vfs_lock v) (snd (pmem_st (vheap v)))) (\<lambda>(l, m).
     Inr (v\<lparr>vfs_lock := l, vheap := (vheap v)\<lparr>pmem_st := (fst (pmem_st (vheap v)), m)\<rparr>\<rparr>))"

text \<open>The table of a vnode; a vnode without one has a null pointer there.\<close>

definition bkd_of :: "u64 \<Rightarrow> 's vfs_t \<Rightarrow> 's vfs_backend outcome" where
  "bkd_of node v = (case bkd (vnode_at v node) of None \<Rightarrow> Inl Undefined | Some b \<Rightarrow> Inr b)"

text \<open>\<open>container_of\<close>: the structure around a link.\<close>

definition owner :: "vlink \<Rightarrow> u64 outcome" where
  "owner l = (case l of Vnode_list a \<Rightarrow> Inr a | Block_vfs a \<Rightarrow> Inr a | Block_vnode a \<Rightarrow> Inr a | _ \<Rightarrow> Inl Undefined)"

text \<open>A \<open>list_for_each\<close> loop that returns the first entry with \<open>P\<close>, or null.\<close>

partial_function (option) find_link :: "(u64 \<Rightarrow> bool outcome) \<Rightarrow> vlink lheap \<Rightarrow> vlink \<Rightarrow> vlink \<Rightarrow> u64 outcome option" where
  [code]: "find_link P h head pos =
     (if pos = head then Some (Inr 0)
      else case bindO (owner pos) (\<lambda>a. bindO (P a) (\<lambda>b. Inr (a, b))) of
             Inl e \<Rightarrow> Some (Inl e)
           | Inr (a, b) \<Rightarrow> if b then Some (Inr a) else find_link P h head (lnext h pos))"

section \<open>Blocks\<close>

definition vblk_alloc :: "'s vfs_t \<Rightarrow> (u64 \<times> 's vfs_t) outcome" where
  "vblk_alloc v =
     bindO (vkmalloc SIZEOF_VFS_BLOCK v) (\<lambda>(blk, v).
     guardO Undefined (blk \<noteq> 0) (
     bindO (kh_pmem_alloc 0 (vheap v)) (\<lambda>(pg, k).
     Inr (blk, upd_block blk (\<lambda>b. b\<lparr>blk_buf := pg\<rparr>) (v\<lparr>vheap := k\<rparr>)))))"

definition vblk_free :: "u64 \<Rightarrow> 's vfs_t \<Rightarrow> 's vfs_t outcome" where
  "vblk_free blk v =
     bindO (kh_pmem_free (blk_buf (block_at v blk)) (vheap v)) (\<lambda>k. vkfree blk (v\<lparr>vheap := k\<rparr>))"

text \<open>The offset is computed in 32 bits. A block without a page is a null buffer.\<close>

definition vbf_bind :: "u64 \<Rightarrow> u64 \<Rightarrow> u32 \<Rightarrow> 's vfs_t \<Rightarrow> 's vfs_t outcome" where
  "vbf_bind blk node off v =
     (let v = upd_block blk (\<lambda>b. b\<lparr>blk_node := node, blkoff := off, dirty := 0\<rparr>) v;
          v = on_vlinks (list_add (Block_vnode blk) (Vnode_bbf node)) v;
          a = blk_buf (block_at v blk)
      in bindO (bkd_of node v) (\<lambda>b.
         guardO Undefined (a \<noteq> 0) (
         bindO (call (bk_read b (lfs_obj (vnode_at v node)) (ucast (off * VFS_BLOCK_SIZE)) (page_at v a) (ucast VFS_BLOCK_SIZE)) v)
           (\<lambda>((n, pg), v). Inr (v\<lparr>page_at := (page_at v)(a := pg)\<rparr>)))))"

definition vbf_flush :: "u64 \<Rightarrow> 's vfs_t \<Rightarrow> 's vfs_t outcome" where
  "vbf_flush blk v =
     (if dirty (block_at v blk) = 0 then Inr v else
      let node = blk_node (block_at v blk); a = blk_buf (block_at v blk) in
      bindO (bkd_of node v) (\<lambda>b.
      bindO (call (bk_write b (lfs_obj (vnode_at v node)) (ucast (blkoff (block_at v blk) * VFS_BLOCK_SIZE)) (page_at v a)
               (ucast VFS_BLOCK_SIZE)) v)
        (\<lambda>(n, v). Inr (upd_block blk (\<lambda>b. b\<lparr>dirty := 0\<rparr>) v))))"

definition vbf_unbind :: "u64 \<Rightarrow> 's vfs_t \<Rightarrow> 's vfs_t outcome" where
  "vbf_unbind blk v = bindO (vbf_flush blk v) (\<lambda>v. Inr (on_vlinks (list_del (Block_vnode blk)) v))"

definition vbf_activate :: "u64 \<Rightarrow> 's vfs_t \<Rightarrow> 's vfs_t" where
  "vbf_activate blk v = on_vlinks (\<lambda>h. list_add_tail (Block_vfs blk) Bbf_used (list_del (Block_vfs blk) h)) v"

text \<open>
  To take a free block, or the least recently used one when the limit is reached, the source
  applies \<open>container_of\<close> to the address of the field \<open>next\<close> in the head of the list, not to
  its value: what it uses as a \<open>struct vfs_block\<close> lies inside \<open>struct vfs_t\<close>. Both cases are
  undefined.
\<close>

definition vbf_borrow :: "'s vfs_t \<Rightarrow> (u64 \<times> 's vfs_t) outcome" where
  "vbf_borrow v =
     (if 0 < bbf_free_cnt v then Inl Undefined
      else if bbf_used_cnt v < bbf_total_max v then
        bindO (vblk_alloc v) (\<lambda>(blk, v).
        Inr (blk, on_vlinks (list_add_tail (Block_vfs blk) Bbf_used) (v\<lparr>bbf_used_cnt := bbf_used_cnt v + 1\<rparr>)))
      else Inl Undefined)"

definition vbf_return :: "u64 \<Rightarrow> 's vfs_t \<Rightarrow> 's vfs_t" where
  "vbf_return blk v =
     (let v = on_vlinks (\<lambda>h. list_add (Block_vfs blk) Bbf_free (list_del (Block_vfs blk) h)) v
      in v\<lparr>bbf_free_cnt := bbf_free_cnt v + 1, bbf_used_cnt := bbf_used_cnt v - 1\<rparr>)"

text \<open>The loops over a list whose entries are removed keep the next entry in \<open>n\<close>.\<close>

partial_function (option) each_safe :: "(vlink \<Rightarrow> 's vfs_t \<Rightarrow> 's vfs_t outcome) \<Rightarrow> vlink \<Rightarrow> vlink \<Rightarrow> vlink \<Rightarrow> 's vfs_t \<Rightarrow>
    's vfs_t outcome option" where
  [code]: "each_safe f head pos n v =
     (if pos = head then Some (Inr v)
      else case f pos v of Inl e \<Rightarrow> Some (Inl e) | Inr v \<Rightarrow> each_safe f head n (lnext (vlinks v) n) v)"

definition list_for_each_safe :: "(vlink \<Rightarrow> 's vfs_t \<Rightarrow> 's vfs_t outcome) \<Rightarrow> vlink \<Rightarrow> 's vfs_t \<Rightarrow> 's vfs_t outcome" where
  "list_for_each_safe f head v =
     (let pos = lnext (vlinks v) head in hang (each_safe f head pos (lnext (vlinks v) pos) v))"

definition vbf_shrink :: "'s vfs_t \<Rightarrow> 's vfs_t outcome" where
  "vbf_shrink v = list_for_each_safe (\<lambda>pos v.
     bindO (owner pos) (\<lambda>blk.
     bindO (kh_pmem_free (blk_buf (block_at v blk)) (vheap v)) (\<lambda>k.
     Inr (on_vlinks (list_del pos) (v\<lparr>vheap := k\<rparr>))))) Bbf_free v"

definition vbf_chkbufed :: "u64 \<Rightarrow> u32 \<Rightarrow> 's vfs_t \<Rightarrow> u64 outcome" where
  "vbf_chkbufed node off v =
     hang (find_link (\<lambda>blk. Inr (blkoff (block_at v blk) = off)) (vlinks v) (Vnode_bbf node)
       (lnext (vlinks v) (Vnode_bbf node)))"

definition vfs_buffer :: "u64 \<Rightarrow> u32 \<Rightarrow> 's vfs_t \<Rightarrow> 's vfs_t outcome" where
  "vfs_buffer node off v = bindO (vbf_borrow v) (\<lambda>(blk, v). vbf_bind blk node off v)"

definition vfs_unbuffer :: "u64 \<Rightarrow> 's vfs_t \<Rightarrow> 's vfs_t outcome" where
  "vfs_unbuffer blk v = bindO (vbf_unbind blk v) (\<lambda>v. Inr (vbf_return blk v))"

definition vfs_unbuffer_all :: "u64 \<Rightarrow> 's vfs_t \<Rightarrow> 's vfs_t outcome" where
  "vfs_unbuffer_all node v =
     list_for_each_safe (\<lambda>pos v. bindO (owner pos) (\<lambda>blk. vfs_unbuffer blk v)) (Vnode_bbf node) v"

section \<open>Vnodes\<close>

definition vnode_ref :: "u64 \<Rightarrow> 's vfs_t \<Rightarrow> 's vfs_t outcome" where
  "vnode_ref node v =
     bindO (bkd_of node v) (\<lambda>b.
     let w = (low v, vheap v); ob = lfs_obj (vnode_at v node) in
     bindO (bk_size b ob w) (\<lambda>sz.
     bindO (bk_name b ob w) (\<lambda>nm.
     bindO (bk_type b ob w) (\<lambda>ty.
     Inr (upd_vnode node (\<lambda>n. n\<lparr>vsize := ucast sz, vname := Some nm, vtype := ty\<rparr>) v)))))"

definition vnode_add :: "u64 \<Rightarrow> u64 \<Rightarrow> u64 \<Rightarrow> 's vfs_t \<Rightarrow> 's vfs_t outcome" where
  "vnode_add node par ob v = guardO Undefined (node \<noteq> 0) (
     let v = upd_vnode node (\<lambda>n. n\<lparr>bkd := bkd (vnode_at v par), parent := par\<rparr>) v;
         v = on_vlinks (list_add (Vnode_list node) (Vnode_children par)) v;
         v = upd_vnode node (\<lambda>n. n\<lparr>lfs_obj := ob, child_cnt := -1\<rparr>) v
     in bindO (vnode_ref node v) (\<lambda>v.
        Inr (on_vlinks (\<lambda>h. list_init (Vnode_bbf node) (list_init (Vnode_children node) h)) v)))"

text \<open>
  \<open>v\<close> is the memory before: only the fields written here have a defined value afterwards. The
  list of blocks of the root is not initialised. The result is null when memory runs out.
\<close>

definition vfs_init :: "u32 \<Rightarrow> 's vfs_t \<Rightarrow> (u64 \<times> 's vfs_t) outcome" where
  "vfs_init buffer_max v =
     bindO (vkmalloc SIZEOF_VFS_T v) (\<lambda>(p, v).
     if p = 0 then Inr (0, v) else
     let v = v\<lparr>vfs_lock := spinlock_init ''vfs'', root_node := p\<rparr>;
         v = upd_vnode p (\<lambda>n. n\<lparr>ref_cnt := 0, lfs_obj := 0, vname := None, child_cnt := -1, vtype := VNODE_UNDEF, parent := p\<rparr>) v;
         v = on_vlinks (\<lambda>h. list_init (Vnode_children p) (list_init (Vnode_list p) h)) v;
         v = on_vlinks (list_init Vfs_bkd) v;
         v = (on_vlinks (list_init Bbf_free) v)\<lparr>bbf_free_cnt := 0\<rparr>;
         v = (on_vlinks (list_init Bbf_used) v)\<lparr>bbf_used_cnt := 0\<rparr>
     in Inr (p, v\<lparr>bbf_total_max := buffer_max\<rparr>))"

definition vfs_is_spaned :: "u64 \<Rightarrow> 's vfs_t \<Rightarrow> bool" where
  "vfs_is_spaned node v \<longleftrightarrow> 0 \<le> child_cnt (vnode_at v node)"

definition names_equal :: "u8 list option \<Rightarrow> u8 list option \<Rightarrow> bool outcome" where
  "names_equal a b = (case (a, b) of (Some a, Some b) \<Rightarrow> bindO (strcmp a b) (\<lambda>c. Inr (c = 0)) | _ \<Rightarrow> Inl Undefined)"

text \<open>One turn of the loop of \<open>vfs_span_search\<close>: the new child, the next object and iterator. The
  name is \<open>None\<close> for a null pointer.\<close>

definition span_step :: "u64 \<Rightarrow> u8 list option \<Rightarrow> u64 \<Rightarrow> u64 \<Rightarrow> 's vfs_t \<Rightarrow> (bool \<times> u64 \<times> u64 \<times> u64 \<times> 's vfs_t) outcome" where
  "span_step node name ob iter v =
     bindO (vkmalloc SIZEOF_VNODE v) (\<lambda>(child, v).
     bindO (vnode_add child node ob v) (\<lambda>v.
     bindO (if name = None then Inr False else names_equal name (vname (vnode_at v child))) (\<lambda>hit.
     bindO (bkd_of node v) (\<lambda>b.
     bindO (vkmalloc (lfs_obj_size b) v) (\<lambda>(ob, v).
     bindO (call (bk_iterate b (lfs_obj (vnode_at v node)) iter ob) v) (\<lambda>(iter, v).
     Inr (hit, child, ob, iter, upd_vnode node (\<lambda>n. n\<lparr>child_cnt := child_cnt n + 1\<rparr>) v)))))))"

partial_function (option) span_loop :: "u64 \<Rightarrow> u8 list option \<Rightarrow> u64 \<Rightarrow> u64 \<Rightarrow> u64 \<Rightarrow> 's vfs_t \<Rightarrow>
    (u64 \<times> u64 \<times> 's vfs_t) outcome option" where
  [code]: "span_loop node name ob iter ret v =
     (if iter = 0 then Some (Inr (ob, ret, v))
      else case span_step node name ob iter v of
             Inl e \<Rightarrow> Some (Inl e)
           | Inr (hit, child, ob, iter, v) \<Rightarrow> span_loop node name ob iter (if hit then child else ret) v)"

definition vfs_span_search :: "u64 \<Rightarrow> u8 list option \<Rightarrow> 's vfs_t \<Rightarrow> (u64 \<times> 's vfs_t) outcome" where
  "vfs_span_search node name v =
     bindO (bkd_of node v) (\<lambda>b.
     bindO (vkmalloc (lfs_obj_size b) v) (\<lambda>(ob, v).
     bindO (call (bk_iterate b (lfs_obj (vnode_at v node)) 0 ob) v) (\<lambda>(iter, v).
     let v = upd_vnode node (\<lambda>n. n\<lparr>child_cnt := 0\<rparr>) v in
     bindO (hang (span_loop node name ob iter 0 v)) (\<lambda>(ob, ret, v).
     bindO (vkfree ob v) (\<lambda>v. Inr (ret, v))))))"

definition vfs_search :: "u64 \<Rightarrow> u8 list \<Rightarrow> 's vfs_t \<Rightarrow> u64 outcome" where
  "vfs_search node name v =
     hang (find_link (\<lambda>child. names_equal (vname (vnode_at v child)) (Some name)) (vlinks v) (Vnode_children node)
       (lnext (vlinks v) (Vnode_children node)))"

text \<open>The recursion of \<open>vfs_fold\<close>: the loop over the children of \<open>node\<close>. Whether a child is
  folded first is decided by the state of the parent, as in the source.\<close>

partial_function (option) fold_loop :: "u64 \<Rightarrow> vlink \<Rightarrow> vlink \<Rightarrow> 's vfs_t \<Rightarrow> 's vfs_t outcome option" where
  [code]: "fold_loop node pos n v =
     (if pos = Vnode_children node then Some (Inr (upd_vnode node (\<lambda>n. n\<lparr>child_cnt := -1\<rparr>) v))
      else case owner pos of
        Inl e \<Rightarrow> Some (Inl e)
      | Inr child \<Rightarrow>
          Option.bind
            (if vtype (vnode_at v child) = VNODE_DIR \<and> vfs_is_spaned node v
             then fold_loop child (lnext (vlinks v) (Vnode_children child))
                    (lnext (vlinks v) (lnext (vlinks v) (Vnode_children child))) v
             else Some (Inr v))
            (\<lambda>r. case bindO r (\<lambda>v.
                bindO (if vtype (vnode_at v child) = VNODE_FILE then vfs_unbuffer_all child v else Inr v) (\<lambda>v.
                bindO (vkfree (lfs_obj (vnode_at v child)) v) (\<lambda>v.
                vkfree child (on_vlinks (list_del pos) v)))) of
               Inl e \<Rightarrow> Some (Inl e)
             | Inr v \<Rightarrow> fold_loop node n (lnext (vlinks v) n) v))"

definition vfs_fold :: "u64 \<Rightarrow> 's vfs_t \<Rightarrow> 's vfs_t outcome" where
  "vfs_fold node v =
     (let pos = lnext (vlinks v) (Vnode_children node) in hang (fold_loop node pos (lnext (vlinks v) pos) v))"

definition vfs_root :: "'s vfs_t \<Rightarrow> u64" where
  "vfs_root v = root_node v"

text \<open>The backend is copied to the heap; \<open>node\<close> is null for the root.\<close>

definition vfs_mount :: "u64 \<Rightarrow> 's vfs_backend \<Rightarrow> 's vfs_t \<Rightarrow> (int \<times> 's vfs_t) outcome" where
  "vfs_mount node b v =
     (let node = (if node = 0 then root_node v else node) in
      bindO (vkmalloc SIZEOF_VFS_BACKEND v) (\<lambda>(p, v).
      guardO Undefined (p \<noteq> 0) (
      let v = upd_vnode node (\<lambda>n. n\<lparr>bkd := Some b\<rparr>) v in
      bindO (vkmalloc (lfs_obj_size b) v) (\<lambda>(ob, v).
      let v = upd_vnode node (\<lambda>n. n\<lparr>lfs_obj := ob\<rparr>) v in
      bindO (call (\<lambda>w. bindO (bk_root b ob w) (\<lambda>w. Inr ((), w))) v) (\<lambda>(u, v).
      let v = upd_vnode node (\<lambda>n. n\<lparr>vtype := VNODE_MP\<rparr>) v
      in Inr (0, on_vlinks (list_add (Bkd_list p) Vfs_bkd) v))))))"

text \<open>Not implemented: the source loops for ever.\<close>

definition vfs_umount :: "u64 \<Rightarrow> 's vfs_t \<Rightarrow> (int \<times> 's vfs_t) outcome" where
  "vfs_umount node v = Inl Hang"

definition vfs_create :: "u64 \<Rightarrow> u8 list \<Rightarrow> 's vfs_t \<Rightarrow> 's vfs_t outcome" where
  "vfs_create par name v = Inl Hang"

definition vfs_unlink :: "u64 \<Rightarrow> 's vfs_t \<Rightarrow> 's vfs_t outcome" where
  "vfs_unlink node v = Inl Hang"

section \<open>Names and paths\<close>

definition vfs_get :: "u64 \<Rightarrow> u8 list \<Rightarrow> 's vfs_t \<Rightarrow> (u64 \<times> 's vfs_t) outcome" where
  "vfs_get par name v =
     (let par = (if par = 0 then vfs_root v else par) in
      if vtype (vnode_at v par) \<noteq> VNODE_DIR \<and> vtype (vnode_at v par) \<noteq> VNODE_MP then Inr (0, v)
      else
        bindO (strcmp [46, 0] name) (\<lambda>c. if c = 0 then Inr (par, v) else
        bindO (strcmp [46, 46, 0] name) (\<lambda>c. if c = 0 then Inr (parent (vnode_at v par), v) else
        if vfs_is_spaned par v then bindO (vfs_search par name v) (\<lambda>r. Inr (r, v))
        else vfs_span_search par (Some name) v)))"

text \<open>The loop over the components from the one at \<open>s\<close>: the result, if the last component was
  reached, and the vnode reached.\<close>

function path_walk :: "u8 list \<Rightarrow> nat \<Rightarrow> u64 \<Rightarrow> 's vfs_t \<Rightarrow> (u64 \<times> u64 \<times> 's vfs_t) outcome" where
  "path_walk path s p v =
     (if p = 0 then Inr (0, 0, v)
      else if s < length path then
        if path ! s = 0 then Inr (0, p, v)
        else
          bindO (component_end path s) (\<lambda>e.
          bindO (vfs_get p (take (e - s) (drop s path) @ [0]) v) (\<lambda>(q, v).
          if path ! e = 0 then Inr (q, p, v) else path_walk path (e + 1) q v))
      else Inl Undefined)"
  by pat_completeness auto
termination
  by (relation "measure (\<lambda>(path, s, p, v). length path - s)") (auto dest!: component_end_ge)

declare path_walk.simps [simp del]

text \<open>The test for a slash at the end reads before the buffer when the path is empty, and reads the
  type of the vnode reached although there may be none.\<close>

definition vfs_get_recursive :: "u64 \<Rightarrow> u8 list \<Rightarrow> 's vfs_t \<Rightarrow> (u64 \<times> 's vfs_t) outcome" where
  "vfs_get_recursive par path v =
     (let par = (if par = 0 then vfs_root v else par) in
      bindO (strlen path) (\<lambda>len.
      bindO (vkmalloc (of_nat len + 1) v) (\<lambda>(pb, v).
      guardO Undefined (pb \<noteq> 0) (
      bindO (path_walk (take (len + 1) path) 0 par v) (\<lambda>(ret, p, v).
      guardO Undefined (0 < len) (
      bindO (if path ! (len - 1) = 47
             then guardO Undefined (p \<noteq> 0)
                    (Inr (if vtype (vnode_at v p) = VNODE_DIR \<or> vtype (vnode_at v p) = VNODE_MP then p else ret))
             else Inr ret) (\<lambda>ret.
      bindO (vkfree pb v) (\<lambda>v. Inr (ret, v)))))))))"

section \<open>Open files\<close>

definition vfs_open :: "u64 \<Rightarrow> u8 list \<Rightarrow> 's vfs_t \<Rightarrow> (u64 \<times> 's vfs_t) outcome" where
  "vfs_open par path v =
     bindO (vfs_acquire v) (\<lambda>v.
     bindO (vfs_get_recursive par path v) (\<lambda>(ret, v).
     let v = (if ret \<noteq> 0 then upd_vnode ret (\<lambda>n. n\<lparr>ref_cnt := ref_cnt n + 1\<rparr>) v else v) in
     bindO (vfs_release v) (\<lambda>v. Inr (ret, v))))"

definition vfs_reopen :: "u64 \<Rightarrow> 's vfs_t \<Rightarrow> (u64 \<times> 's vfs_t) outcome" where
  "vfs_reopen node v =
     bindO (vfs_acquire v) (\<lambda>v.
     bindO (vfs_release (upd_vnode node (\<lambda>n. n\<lparr>ref_cnt := ref_cnt n + 1\<rparr>) v)) (\<lambda>v. Inr (node, v)))"

definition vfs_close :: "u64 \<Rightarrow> 's vfs_t \<Rightarrow> 's vfs_t" where
  "vfs_close node v = upd_vnode node (\<lambda>n. n\<lparr>ref_cnt := ref_cnt n - 1\<rparr>) v"

text \<open>The result is the address of the block's page.\<close>

definition vfs_access :: "u64 \<Rightarrow> u64 \<Rightarrow> 's vfs_t \<Rightarrow> (u64 \<times> 's vfs_t) outcome" where
  "vfs_access node off v =
     bindO (vbf_chkbufed node (ucast off) v) (\<lambda>blk.
     if blk \<noteq> 0 then Inr (blk_buf (block_at v blk), vbf_activate blk v)
     else bindO (vbf_borrow v) (\<lambda>(blk, v).
          bindO (vbf_bind blk node (ucast off) v) (\<lambda>v. Inr (blk_buf (block_at v blk), v))))"

partial_function (option) vread_loop :: "u64 \<Rightarrow> u64 \<Rightarrow> u64 \<Rightarrow> u64 \<Rightarrow> u64 \<Rightarrow> u8 list \<Rightarrow> 's vfs_t \<Rightarrow>
    (u64 \<times> u8 list \<times> 's vfs_t) outcome option" where
  [code]: "vread_loop node off byteoff buf_len byte_cnt out v =
     (if byte_cnt = buf_len then Some (Inr (byte_cnt, out, v))
      else
        let len = min_u64 (ucast VFS_BLOCK_SIZE - byteoff) (buf_len - byte_cnt) in
        case bindO (vfs_access node off v) (\<lambda>(dat, v).
             bindO (read_bytes (unat byteoff) (unat len) (page_at v dat)) (\<lambda>bs.
             bindO (write_bytes (unat byte_cnt) bs out) (\<lambda>out. Inr (out, v)))) of
          Inl e \<Rightarrow> Some (Inl e)
        | Inr (out, v) \<Rightarrow> vread_loop node (off + 1) 0 buf_len (byte_cnt + len) out v)"

text \<open>\<open>out\<close> is the caller's buffer. Behind the end of the file the source returns before it
  releases the lock.\<close>

definition vfs_read :: "u64 \<Rightarrow> u64 \<Rightarrow> u8 list \<Rightarrow> u64 \<Rightarrow> 's vfs_t \<Rightarrow> (u64 \<times> u8 list \<times> 's vfs_t) outcome" where
  "vfs_read node offset out buf_len v =
     bindO (vfs_acquire v) (\<lambda>v.
     if vtype (vnode_at v node) = VNODE_DEV then
       bindO (bkd_of node v) (\<lambda>b.
       bindO (call (bk_read b (lfs_obj (vnode_at v node)) offset out buf_len) v) (\<lambda>((n, out), v).
       bindO (vfs_release v) (\<lambda>v. Inr (n, out, v))))
     else if ucast (vsize (vnode_at v node)) \<le> offset then Inr (0, out, v)
     else
       let buf_len = min_u64 buf_len (ucast (vsize (vnode_at v node)) - offset) in
       bindO (hang (vread_loop node (offset div ucast VFS_BLOCK_SIZE) (offset mod ucast VFS_BLOCK_SIZE) buf_len 0 out v))
         (\<lambda>(n, out, v). bindO (vfs_release v) (\<lambda>v. Inr (n, out, v))))"

definition vfs_write :: "u64 \<Rightarrow> u64 \<Rightarrow> u8 list \<Rightarrow> u64 \<Rightarrow> 's vfs_t \<Rightarrow> (u64 \<times> 's vfs_t) outcome" where
  "vfs_write node offset inp buf_len v =
     bindO (vfs_acquire v) (\<lambda>v.
     if vtype (vnode_at v node) = VNODE_DEV then
       bindO (bkd_of node v) (\<lambda>b.
       bindO (call (bk_write b (lfs_obj (vnode_at v node)) offset inp buf_len) v) (\<lambda>(n, v).
       bindO (vfs_release v) (\<lambda>v. Inr (n, v))))
     else bindO (vfs_release v) (\<lambda>v. Inr (0, v)))"

definition vfs_iterate :: "u64 \<Rightarrow> u64 \<Rightarrow> 's vfs_t \<Rightarrow> (u64 \<times> 's vfs_t) outcome" where
  "vfs_iterate par prv v =
     (if prv \<noteq> 0 then
        let l = lnext (vlinks v) (Vnode_list prv) in
        if l \<noteq> Vnode_children (parent (vnode_at v prv)) then bindO (owner l) (\<lambda>a. Inr (a, v)) else Inr (0, v)
      else
        bindO (if \<not> vfs_is_spaned par v
               then bindO (vfs_acquire v) (\<lambda>v. bindO (vfs_span_search par None v) (\<lambda>(r, v). vfs_release v))
               else Inr v) (\<lambda>v.
        if child_cnt (vnode_at v par) \<noteq> 0
        then bindO (owner (lnext (vlinks v) (Vnode_children par))) (\<lambda>a. Inr (a, v))
        else Inr (0, v)))"

definition vfs_shrink :: "'s vfs_t \<Rightarrow> 's vfs_t outcome" where
  "vfs_shrink v = vbf_shrink v"

end
