(* ===== verification/Vfs_Inv.thy ===== *)
theory Vfs_Inv
  imports Vfs Fat_File
begin

text \<open>
  Reading through the block buffer of \<open>Vfs\<close>: the invariant of the blocks of a file, for any
  backend that reads the file, and what a read returns whichever blocks are buffered.
\<close>

section \<open>Lists of blocks\<close>

lemma find_link_ok:
  assumes "dseg h p (map C bs) head" "head \<notin> set (map C bs)" "\<And>b. owner (C b) = Inr b" "\<And>b. b \<in> set bs \<Longrightarrow> P b = Inr (Q b)"
  shows "find_link P h head (lnext h p) = Some (Inr (case find Q bs of None \<Rightarrow> 0 | Some b \<Rightarrow> b))"
  using assms
proof (induction bs arbitrary: p)
  case Nil
  then show ?case by (simp add: find_link.simps)
next
  case (Cons b bs)
  then have "lnext h p = C b" "C b \<noteq> head" by auto
  then show ?case using Cons by (simp add: find_link.simps [of P h head "C b"])
qed

lemma owner_block [simp]: "owner (Block_vfs b) = Inr b" "owner (Block_vnode b) = Inr b" "owner (Vnode_list b) = Inr b"
  by (simp_all add: owner_def)

section \<open>The backend and the memory\<close>

text \<open>Byte \<open>i\<close> of the file is \<open>f i\<close>; a page holds block \<open>k\<close> up to the size of the file.\<close>

definition page_ok :: "(nat \<Rightarrow> u8) \<Rightarrow> nat \<Rightarrow> nat \<Rightarrow> u8 list \<Rightarrow> bool" where
  "page_ok f sz k page \<longleftrightarrow> length page = 4096 \<and> (\<forall>i < 4096. 4096 * k + i < sz \<longrightarrow> page ! i = f (4096 * k + i))"

definition backend_reads :: "'s vfs_backend \<Rightarrow> ('s \<Rightarrow> bool) \<Rightarrow> u64 \<Rightarrow> (nat \<Rightarrow> u8) \<Rightarrow> nat \<Rightarrow> bool" where
  "backend_reads b good ob f sz \<longleftrightarrow> (\<forall>l h page k. good l \<and> length page = 4096 \<and> 4096 * k < sz \<longrightarrow>
     (\<exists>n page' l'. bk_read b ob (of_nat (4096 * k)) page 4096 (l, h) = Inr ((n, page'), (l', h)) \<and> good l' \<and> page_ok f sz k page'))"

definition mach :: "kchain \<Rightarrow> machine" where
  "mach k = snd (pmem_st k)"

definition same_hart :: "kchain \<Rightarrow> kchain \<Rightarrow> bool" where
  "same_hart k k' \<longleftrightarrow> hartid (mach k') = hartid (mach k) \<and> length (cpus (mach k')) = length (cpus (mach k))"

lemma same_hart_refl [simp]: "same_hart k k"
  by (simp add: same_hart_def)

lemma same_hart_trans [trans]: "same_hart a b \<Longrightarrow> same_hart b c \<Longrightarrow> same_hart a c"
  by (simp add: same_hart_def)

text \<open>The heap has room for \<open>n\<close> more blocks, at addresses outside \<open>B\<close> with pages outside \<open>P\<close>.\<close>

fun can_alloc :: "nat \<Rightarrow> u64 set \<Rightarrow> u64 set \<Rightarrow> kchain \<Rightarrow> bool" where
  "can_alloc 0 B P k \<longleftrightarrow> True"
| "can_alloc (Suc n) B P k \<longleftrightarrow> (case kmalloc SIZEOF_VFS_BLOCK k of Inl e \<Rightarrow> False | Inr (p, k1) \<Rightarrow>
     p \<noteq> 0 \<and> p \<notin> B \<and> (case kh_pmem_alloc 0 k1 of Inl e \<Rightarrow> False | Inr (a, k2) \<Rightarrow>
       a \<noteq> 0 \<and> a \<notin> P \<and> same_hart k k2 \<and> can_alloc n (insert p B) (insert a P) k2))"

lemma can_alloc_SucD:
  assumes "can_alloc (Suc n) B P k"
  shows "\<exists>p k1 a k2. kmalloc SIZEOF_VFS_BLOCK k = Inr (p, k1) \<and> p \<noteq> 0 \<and> p \<notin> B \<and>
     kh_pmem_alloc 0 k1 = Inr (a, k2) \<and> a \<noteq> 0 \<and> a \<notin> P \<and> same_hart k k2 \<and> can_alloc n (insert p B) (insert a P) k2"
proof (cases "kmalloc SIZEOF_VFS_BLOCK k")
  case (Inr r)
  then obtain p k1 where r: "r = (p, k1)" by (cases r)
  show ?thesis
    by (cases "kh_pmem_alloc 0 k1") (use assms Inr r in auto)
qed (use assms in simp)

section \<open>The blocks of a file\<close>

definition buf_of :: "'s vfs_t \<Rightarrow> u64 \<Rightarrow> u64" where
  "buf_of v b = blk_buf (block_at v b)"

definition off_of :: "'s vfs_t \<Rightarrow> u64 \<Rightarrow> nat" where
  "off_of v b = unat (blkoff (block_at v b))"

text \<open>\<open>us\<close> are the blocks in use, \<open>bs\<close> those of the file; \<open>n\<close> more can be allocated.\<close>

definition blocks_ok :: "(nat \<Rightarrow> u8) \<Rightarrow> nat \<Rightarrow> u64 \<Rightarrow> u64 list \<Rightarrow> u64 list \<Rightarrow> nat \<Rightarrow> 's vfs_t \<Rightarrow> bool" where
  "blocks_ok f sz node us bs n v \<longleftrightarrow>
     dlist (vlinks v) Bbf_used (map Block_vfs us) \<and> dlist (vlinks v) (Vnode_bbf node) (map Block_vnode bs) \<and>
     set bs \<subseteq> set us \<and> 0 \<notin> set us \<and> inj_on (buf_of v) (set us) \<and> (\<forall>a. length (page_at v a) = 4096) \<and>
     (\<forall>b \<in> set bs. page_ok f sz (off_of v b) (page_at v (buf_of v b))) \<and>
     bbf_free_cnt v = 0 \<and> unat (bbf_used_cnt v) + n \<le> unat (bbf_total_max v) \<and>
     can_alloc n (set us) (buf_of v ` set us) (vheap v)"

text \<open>The vnode's backend reads the file in the states with \<open>good\<close>, and this is one.\<close>

definition file_buf :: "(nat \<Rightarrow> u8) \<Rightarrow> nat \<Rightarrow> ('s \<Rightarrow> bool) \<Rightarrow> u64 \<Rightarrow> u64 list \<Rightarrow> u64 list \<Rightarrow> nat \<Rightarrow> 's vfs_t \<Rightarrow> bool" where
  "file_buf f sz good node us bs n v \<longleftrightarrow> blocks_ok f sz node us bs n v \<and> good (low v) \<and>
     (\<exists>b. bkd (vnode_at v node) = Some b \<and> backend_reads b good (lfs_obj (vnode_at v node)) f sz)"

lemmas file_buf_defs = file_buf_def blocks_ok_def

text \<open>What reading leaves as it is.\<close>

definition vframe :: "'s vfs_t \<Rightarrow> 's vfs_t \<Rightarrow> bool" where
  "vframe v v' \<longleftrightarrow> vnode_at v' = vnode_at v \<and> vfs_lock v' = vfs_lock v \<and> root_node v' = root_node v \<and>
     same_hart (vheap v) (vheap v')"

lemma vframe_refl [simp]: "vframe v v"
  by (simp add: vframe_def)

lemma vframe_trans [trans]: "vframe a b \<Longrightarrow> vframe b c \<Longrightarrow> vframe a c"
  by (auto simp: vframe_def intro: same_hart_trans)

lemma file_bufD:
  assumes "file_buf f sz good node us bs n v"
  shows "dlist (vlinks v) Bbf_used (map Block_vfs us)" "dlist (vlinks v) (Vnode_bbf node) (map Block_vnode bs)"
    "set bs \<subseteq> set us" "0 \<notin> set us" "inj_on (buf_of v) (set us)" "length (page_at v a) = 4096"
    "b \<in> set bs \<Longrightarrow> page_ok f sz (off_of v b) (page_at v (buf_of v b))" "bbf_free_cnt v = 0"
    "unat (bbf_used_cnt v) + n \<le> unat (bbf_total_max v)" "can_alloc n (set us) (buf_of v ` set us) (vheap v)" "good (low v)"
  using assms by (auto simp: file_buf_defs)

lemma other_lists:
  "set (Vnode_bbf node # map Block_vnode bs) \<inter> set (Bbf_used # map Block_vfs us) = {}"
  "Block_vfs b \<notin> set (Vnode_bbf node # map Block_vnode bs)" "Block_vnode b \<notin> set (Bbf_used # map Block_vfs us)"
  by auto

text \<open>A block that is already buffered moves to the end of the list.\<close>

lemma activate_ok:
  assumes inv: "file_buf f sz good node us bs n v" and b: "b \<in> set us"
  shows "file_buf f sz good node (remove1 b us @ [b]) bs n (vbf_activate b v)"
proof -
  note v = file_bufD [OF inv]
  let ?h = "list_del (Block_vfs b) (vlinks v)"
  have e: "Block_vfs b \<in> set (map Block_vfs us)" using b by simp
  have r: "remove1 (Block_vfs b) (map Block_vfs us) = map Block_vfs (remove1 b us)"
    by (induction us) auto
  have u1: "dlist ?h Bbf_used (map Block_vfs (remove1 b us))" using klist.del_remove1 [OF v(1) e] r by simp
  have u2: "dlist (list_add_tail (Block_vfs b) Bbf_used ?h) Bbf_used (map Block_vfs (remove1 b us @ [b]))"
    using klist.move_to_tail [OF v(1) e] r by simp
  obtain xs ys where s: "us = xs @ b # ys" using split_list [OF b] by blast
  have b1: "dlist ?h (Vnode_bbf node) (map Block_vnode bs)"
    by (rule list_del_frame [OF v(2), where head = Bbf_used and xs = "map Block_vfs xs" and zs = "map Block_vfs ys"])
      (use v(1) s in auto)
  have b2: "dlist (list_add_tail (Block_vfs b) Bbf_used ?h) (Vnode_bbf node) (map Block_vnode bs)"
    by (rule list_add_tail_frame [OF b1 u1 other_lists(1,2)])
  have "set (remove1 b us @ [b]) = set us" using klist.distinct [OF v(1)] b by (auto simp: distinct_map)
  then show ?thesis using inv u2 b2
    by (simp add: file_buf_defs vbf_activate_def on_vlinks_def buf_of_def [abs_def] off_of_def)
qed

text \<open>A block that is not buffered is allocated and filled.\<close>

lemma load_block:
  assumes inv: "file_buf f sz good node us bs (Suc n) v" and k: "4096 * k < sz" "sz < 2 ^ 32"
  shows "\<exists>p v1 v2. vbf_borrow v = Inr (p, v1) \<and> vbf_bind p node (of_nat k) v1 = Inr v2 \<and> off_of v2 p = k \<and>
     page_ok f sz k (page_at v2 (buf_of v2 p)) \<and> file_buf f sz good node (us @ [p]) (p # bs) n v2 \<and> vframe v v2 \<and>
     (\<forall>b \<in> set bs. off_of v2 b = off_of v b)"
proof -
  note v = file_bufD [OF inv]
  obtain p k1 a k2 where s: "kmalloc SIZEOF_VFS_BLOCK (vheap v) = Inr (p, k1)" "p \<noteq> 0" "p \<notin> set us"
      "kh_pmem_alloc 0 k1 = Inr (a, k2)" "a \<noteq> 0" "a \<notin> buf_of v ` set us" "same_hart (vheap v) k2"
      "can_alloc n (insert p (set us)) (insert a (buf_of v ` set us)) k2"
    using can_alloc_SucD [OF v(10)] by blast
  define v0 where "v0 = upd_block p (\<lambda>b. b\<lparr>blk_buf := a\<rparr>) (v\<lparr>vheap := k2\<rparr>)"
  define v1 where "v1 = on_vlinks (list_add_tail (Block_vfs p) Bbf_used) (v0\<lparr>bbf_used_cnt := bbf_used_cnt v0 + 1\<rparr>)"
  have room: "unat (bbf_used_cnt v) < unat (bbf_total_max v)" using v(9) by simp
  have "vblk_alloc v = Inr (p, v0)"
    using s by (simp add: vblk_alloc_def vkmalloc_def v0_def)
  then have bor: "vbf_borrow v = Inr (p, v1)"
    using v(8) room by (simp add: vbf_borrow_def v1_def word_less_nat_alt)
  obtain b where b: "bkd (vnode_at v node) = Some b" "backend_reads b good (lfs_obj (vnode_at v node)) f sz"
    using inv by (auto simp: file_buf_defs)
  have k32: "4096 * k < 2 ^ 32" using k by simp
  have off: "unat (of_nat k * VFS_BLOCK_SIZE :: u32) = 4096 * k"
  proof -
    have "(of_nat k * VFS_BLOCK_SIZE :: u32) = of_nat (4096 * k)" by (simp add: VFS_BLOCK_SIZE_def)
    then show ?thesis using k32 by (simp only: unsigned_of_nat) (simp add: take_bit_nat_eq_self)
  qed
  then have off64: "(ucast (of_nat k * VFS_BLOCK_SIZE :: u32) :: u64) = of_nat (4096 * k)"
    by (metis of_nat_unat)
  obtain m page l where rd: "bk_read b (lfs_obj (vnode_at v node)) (of_nat (4096 * k)) (page_at v a) 4096 (low v, k2) =
      Inr ((m, page), (l, k2))" "good l" "page_ok f sz k page"
    using b(2) v(6,11) k(1) unfolding backend_reads_def by blast
  define v2 where "v2 = (on_vlinks (list_add (Block_vnode p) (Vnode_bbf node))
      (upd_block p (\<lambda>b. b\<lparr>blk_node := node, blkoff := of_nat k, dirty := 0\<rparr>) v1))\<lparr>low := l, page_at := (page_at v)(a := page)\<rparr>"
  have bind: "vbf_bind p node (of_nat k) v1 = Inr v2"
    using s(5) b(1) rd(1) off64
    by (simp add: vbf_bind_def bkd_of_def call_def v2_def v1_def v0_def on_vlinks_def upd_block_def VFS_BLOCK_SIZE_def)
  have buf: "buf_of v2 = (buf_of v)(p := a)" "off_of v2 x = (if x = p then unat (of_nat k :: u32) else off_of v x)" for x
    by (auto simp: fun_eq_iff buf_of_def off_of_def v2_def v1_def v0_def on_vlinks_def upd_block_def)
  have uk: "unat (of_nat k :: u32) = k" using k32 by (simp only: unsigned_of_nat) (simp add: take_bit_nat_eq_self)
  have pg2: "page_at v2 = (page_at v)(a := page)" by (simp add: v2_def)
  let ?h1 = "list_add_tail (Block_vfs p) Bbf_used (vlinks v)"
  have vl: "vlinks v2 = list_add (Block_vnode p) (Vnode_bbf node) ?h1"
    by (simp add: v2_def v1_def v0_def on_vlinks_def upd_block_def)
  have fresh: "Block_vfs p \<notin> set (Bbf_used # map Block_vfs us)" "Block_vnode p \<notin> set (Vnode_bbf node # map Block_vnode bs)"
    using s(3) v(3) by auto
  have u1: "dlist ?h1 Bbf_used (map Block_vfs (us @ [p]))" using klist.add_tail [OF v(1) fresh(1)] by simp
  have b1: "dlist ?h1 (Vnode_bbf node) (map Block_vnode bs)"
    by (rule list_add_tail_frame [OF v(2,1) other_lists(1,2)])
  have b2: "dlist (vlinks v2) (Vnode_bbf node) (map Block_vnode (p # bs))" using klist.add [OF b1 fresh(2)] vl by simp
  have u2: "dlist (vlinks v2) Bbf_used (map Block_vfs (us @ [p]))"
    unfolding vl by (rule list_add_frame [OF u1 b1]) auto
  have pages: "page_ok f sz (off_of v2 x) (page_at v2 (buf_of v2 x))" if "x \<in> set (p # bs)" for x
  proof (cases "x = p")
    case True
    then show ?thesis using rd(3) by (simp add: buf pg2 uk)
  next
    case False
    then have "x \<in> set bs" using that by simp
    then have "buf_of v x \<noteq> a" using s(6) v(3) by auto
    then show ?thesis using False v(7) \<open>x \<in> set bs\<close> by (simp add: buf pg2)
  qed
  have "inj_on (buf_of v2) (set (us @ [p]))"
    using v(5) s(3,6) by (auto simp: buf inj_on_def)
  moreover have img: "buf_of v2 ` set (us @ [p]) = insert a (buf_of v ` set us)" using s(3) by (auto simp: buf)
  moreover have cnt: "unat (bbf_used_cnt v2) = unat (bbf_used_cnt v) + 1"
    using room unat_u32_less [of "bbf_total_max v"]
    by (simp add: v2_def v1_def v0_def on_vlinks_def upd_block_def unat_word_ariths)
  moreover have "bbf_free_cnt v2 = 0" "bbf_total_max v2 = bbf_total_max v" "vheap v2 = k2" "low v2 = l" "vnode_at v2 = vnode_at v"
      "vfs_lock v2 = vfs_lock v" "root_node v2 = root_node v"
    using v(8) by (simp_all add: v2_def v1_def v0_def on_vlinks_def upd_block_def)
  moreover have "\<forall>x. length (page_at v2 x) = 4096" using v(6) rd(3) by (simp add: pg2 page_ok_def)
  ultimately have "file_buf f sz good node (us @ [p]) (p # bs) n v2"
    using u2 b2 v(3,4,9) s(2,8) pages rd(2) b unfolding file_buf_defs img by auto
  moreover have "vframe v v2"
    using s(7) by (simp add: vframe_def v2_def v1_def v0_def on_vlinks_def upd_block_def)
  moreover have "\<forall>b \<in> set bs. off_of v2 b = off_of v b" using s(3) v(3) by (auto simp: buf)
  ultimately show ?thesis using bor bind pages [of p] by (auto simp: buf uk)
qed

section \<open>Access\<close>

text \<open>The offsets of the blocks that are buffered, and those a read up to byte \<open>e\<close> needs.\<close>

definition loaded :: "'s vfs_t \<Rightarrow> u64 list \<Rightarrow> nat set" where
  "loaded v bs = off_of v ` set bs"

definition needs :: "nat \<Rightarrow> nat \<Rightarrow> nat set" where
  "needs k e = {j. k \<le> j \<and> 4096 * j < e}"

lemma finite_needs [simp]: "finite (needs k e)"
  by (rule finite_subset [of _ "{..<e}"]) (auto simp: needs_def)

lemma needs_Suc: "needs (Suc k) e = needs k e - {k}"
  by (auto simp: needs_def)

lemma chkbufed_ok:
  assumes inv: "file_buf f sz good node us bs n v" and k: "k < 2 ^ 32"
  shows "\<exists>b. vbf_chkbufed node (of_nat k) v = Inr b \<and> (if k \<in> loaded v bs then b \<in> set bs \<and> off_of v b = k else b = 0)"
proof -
  note v = file_bufD [OF inv]
  have uk: "unat (of_nat k :: u32) = k" using k by (simp only: unsigned_of_nat) (simp add: take_bit_nat_eq_self)
  then have eq: "blkoff (block_at v b) = of_nat k \<longleftrightarrow> off_of v b = k" for b
    by (metis off_of_def word_unat_eq_iff)
  let ?Q = "\<lambda>b. off_of v b = k"
  have "dseg (vlinks v) (Vnode_bbf node) (map Block_vnode bs) (Vnode_bbf node)" using v(2) by (simp add: dlist_def)
  then have "vbf_chkbufed node (of_nat k) v = Inr (case find ?Q bs of None \<Rightarrow> 0 | Some b \<Rightarrow> b)"
    using find_link_ok [where Q = ?Q and P = "\<lambda>b. Inr (?Q b)" and C = Block_vnode and p = "Vnode_bbf node"]
    by (simp add: vbf_chkbufed_def eq hang_def image_iff)
  moreover have "if k \<in> loaded v bs then (case find ?Q bs of None \<Rightarrow> 0 | Some b \<Rightarrow> b) \<in> set bs \<and>
        off_of v (case find ?Q bs of None \<Rightarrow> 0 | Some b \<Rightarrow> b) = k
      else (case find ?Q bs of None \<Rightarrow> 0 | Some b \<Rightarrow> b) = (0 :: u64)"
    by (auto simp: loaded_def find_None_iff find_Some_iff split: option.splits)
  ultimately show ?thesis by blast
qed

lemma vaccess_ok:
  assumes inv: "file_buf f sz good node us bs n v" and k: "4096 * k < sz" "sz < 2 ^ 32" and n: "k \<in> loaded v bs \<or> 0 < n"
  shows "\<exists>a v' us' bs' n'. vfs_access node (of_nat k) v = Inr (a, v') \<and> page_ok f sz k (page_at v' a) \<and>
     file_buf f sz good node us' bs' n' v' \<and> vframe v v' \<and> loaded v' bs' = insert k (loaded v bs) \<and>
     n' = (if k \<in> loaded v bs then n else n - 1)"
proof -
  note v = file_bufD [OF inv]
  have uc: "(ucast (of_nat k :: u64) :: u32) = of_nat k" by (simp only: unsigned_of_nat) (simp add: word_of_nat_eq_iff take_bit_take_bit)
  obtain b where b: "vbf_chkbufed node (of_nat k) v = Inr b"
      "if k \<in> loaded v bs then b \<in> set bs \<and> off_of v b = k else b = 0"
    using chkbufed_ok [OF inv, of k] k by auto
  show ?thesis
  proof (cases "k \<in> loaded v bs")
    case True
    then have bb: "b \<in> set bs" "off_of v b = k" "b \<in> set us" "b \<noteq> 0" using b(2) v(3,4) by auto
    have "page_ok f sz k (page_at v (buf_of v b))" using v(7) bb by auto
    moreover have "vframe v (vbf_activate b v)" "loaded (vbf_activate b v) bs = loaded v bs"
        "page_at (vbf_activate b v) = page_at v"
      by (simp_all add: vframe_def vbf_activate_def on_vlinks_def loaded_def off_of_def [abs_def])
    ultimately show ?thesis using activate_ok [OF inv bb(3)] b(1) bb(4) True
      by (auto simp: vfs_access_def uc buf_of_def insert_absorb)
  next
    case False
    then obtain m where m: "n = Suc m" using n by (cases n) auto
    obtain p v1 v2 where p: "vbf_borrow v = Inr (p, v1)" "vbf_bind p node (of_nat k) v1 = Inr v2" "off_of v2 p = k"
        "page_ok f sz k (page_at v2 (buf_of v2 p))" "file_buf f sz good node (us @ [p]) (p # bs) m v2" "vframe v v2"
        "\<forall>b \<in> set bs. off_of v2 b = off_of v b"
      using load_block [OF inv [unfolded m] k] by blast
    have "loaded v2 (p # bs) = insert k (loaded v bs)" using p(3,7) by (auto simp: loaded_def)
    then show ?thesis using p b False m
      by (intro exI [of _ "buf_of v2 p"] exI [of _ v2] exI [of _ "us @ [p]"] exI [of _ "p # bs"] exI [of _ m])
        (auto simp: vfs_access_def uc buf_of_def)
  qed
qed

section \<open>Reading\<close>

lemma page_bytes:
  assumes "page_ok f sz k page" "b + l \<le> 4096" "4096 * k + b + l \<le> sz"
  shows "read_bytes b l page = Inr (map f [4096 * k + b..<4096 * k + b + l])"
  using assms by (auto simp: page_ok_def read_bytes_def list_eq_iff_nth_eq add.assoc)

lemma unat_of_nat_u64: "k < 2 ^ 64 \<Longrightarrow> unat (of_nat k :: u64) = k"
  by (simp only: unsigned_of_nat) (simp add: take_bit_nat_eq_self)

lemma unat_min_u64: "unat (min_u64 a b) = min (unat a) (unat b)"
  by (simp add: min_u64_def word_less_nat_alt min_def)

lemma vread_step:
  assumes inv: "file_buf f sz good node us bs n v" and sz: "sz < 2 ^ 32"
    and b: "b < 4096" and c: "c < m" "m \<le> length out" "m < 2 ^ 64" "4096 * k + b + (m - c) \<le> sz"
    and n: "card (needs k (4096 * k + b + (m - c)) - loaded v bs) \<le> n"
    and l: "l = min (4096 - b) (m - c)"
    and out': "out' = take c out @ map f [4096 * k + b..<4096 * k + b + l] @ drop (c + l) out"
  shows "\<exists>us' bs' n' v'. file_buf f sz good node us' bs' n' v' \<and> vframe v v' \<and>
     card (needs (Suc k) (4096 * k + b + (m - c)) - loaded v' bs') \<le> n' \<and>
     vread_loop node (of_nat k) (of_nat b) (of_nat m) (of_nat c) out v =
       vread_loop node (of_nat (Suc k)) 0 (of_nat m) (of_nat (c + l)) out' v'"
proof -
  let ?e = "4096 * k + b + (m - c)"
  have kn: "k \<in> needs k ?e" using c by (simp add: needs_def)
  have k: "4096 * k < sz" using c by simp
  have "k \<in> loaded v bs \<or> 0 < n"
  proof (cases "k \<in> loaded v bs")
    case False
    then have "0 < card (needs k ?e - loaded v bs)" using kn by (auto simp: card_gt_0_iff)
    then show ?thesis using n by simp
  qed simp
  then obtain a v' us' bs' n' where a: "vfs_access node (of_nat k) v = Inr (a, v')" "page_ok f sz k (page_at v' a)"
      "file_buf f sz good node us' bs' n' v'" "vframe v v'" "loaded v' bs' = insert k (loaded v bs)"
      "n' = (if k \<in> loaded v bs then n else n - 1)"
    using vaccess_ok [OF inv k sz] by blast
  have "needs (Suc k) ?e - loaded v' bs' = needs k ?e - loaded v bs - {k}" by (auto simp: needs_Suc a(5))
  moreover have "card (needs k ?e - loaded v bs - {k}) \<le> n'"
  proof (cases "k \<in> loaded v bs")
    case True
    then show ?thesis using n a(6) by simp
  next
    case False
    then show ?thesis using n a(6) kn by (simp add: card_Diff_singleton)
  qed
  ultimately have card: "card (needs (Suc k) ?e - loaded v' bs') \<le> n'" by simp
  have ub: "unat (of_nat b :: u64) = b" "unat (of_nat c :: u64) = c" "unat (of_nat m :: u64) = m"
    using b c by (simp_all add: unat_of_nat_u64)
  have "(of_nat c :: u64) \<le> of_nat m" "(of_nat b :: u64) \<le> 4096" using ub b c by (simp_all add: word_le_nat_alt)
  then have ul: "unat (min_u64 (ucast VFS_BLOCK_SIZE - of_nat b) (of_nat m - of_nat c)) = l"
    using ub l by (simp add: unat_min_u64 unat_sub VFS_BLOCK_SIZE_def)
  then have ml: "min_u64 (ucast VFS_BLOCK_SIZE - of_nat b) (of_nat m - of_nat c) = of_nat l" by (simp add: ul [symmetric])
  have rb: "read_bytes b l (page_at v' a) = Inr (map f [4096 * k + b..<4096 * k + b + l])"
    by (rule page_bytes [OF a(2)]) (use l b c in auto)
  have wb: "write_bytes c (map f [4096 * k + b..<4096 * k + b + l]) out = Inr out'"
  proof -
    have "c + l \<le> length out" using l c by simp
    then show ?thesis by (simp add: write_bytes_def out')
  qed
  have ne: "(of_nat c :: u64) \<noteq> of_nat m" using ub(2,3) c(1) by (auto dest: arg_cong [where f = unat])
  have "vread_loop node (of_nat k) (of_nat b) (of_nat m) (of_nat c) out v =
      vread_loop node (of_nat (Suc k)) 0 (of_nat m) (of_nat (c + l)) out' v'"
    using ne ul rb wb by (subst vread_loop.simps) (simp add: ml a(1) ub add.commute)
  then show ?thesis using card a(3,4) by blast
qed

lemma vread_ok:
  assumes "file_buf f sz good node us bs n v" "sz < 2 ^ 32" "b < 4096" "c \<le> m" "m \<le> length out" "m < 2 ^ 64"
    and "4096 * k + b + (m - c) \<le> sz" "card (needs k (4096 * k + b + (m - c)) - loaded v bs) \<le> n"
  shows "\<exists>us' bs' n' v'. file_buf f sz good node us' bs' n' v' \<and> vframe v v' \<and>
     vread_loop node (of_nat k) (of_nat b) (of_nat m) (of_nat c) out v =
       Some (Inr (of_nat m, take c out @ map f [4096 * k + b..<4096 * k + b + (m - c)] @ drop m out, v'))"
  using assms
proof (induction "m - c" arbitrary: k b c out us bs n v rule: less_induct)
  case less
  show ?case
  proof (cases "c = m")
    case True
    then show ?thesis using less.prems(1) by (subst vread_loop.simps) auto
  next
    case False
    then have c: "c < m" using less.prems(4) by simp
    define l where "l = min (4096 - b) (m - c)"
    let ?e = "4096 * k + b + (m - c)"
    define out' where "out' = take c out @ map f [4096 * k + b..<4096 * k + b + l] @ drop (c + l) out"
    obtain us' bs' n' v' where s: "file_buf f sz good node us' bs' n' v'" "vframe v v'"
        "card (needs (Suc k) ?e - loaded v' bs') \<le> n'"
        "vread_loop node (of_nat k) (of_nat b) (of_nat m) (of_nat c) out v =
           vread_loop node (of_nat (Suc k)) 0 (of_nat m) (of_nat (c + l)) out' v'"
      using vread_step [OF less.prems(1-3) c less.prems(5-8) l_def out'_def] by blast
    have l: "0 < l" "l \<le> 4096 - b" "c + l \<le> m" using c less.prems(3) by (auto simp: l_def)
    have lo: "length out' = length out" using l less.prems(5) by (simp add: out'_def)
    have pre: "take (c + l) out' = take c out @ map f [4096 * k + b..<4096 * k + b + l]" "drop m out' = drop m out"
      using l less.prems(5) by (simp_all add: out'_def)
    show ?thesis
    proof (cases "c + l = m")
      case True
      then have "vread_loop node (of_nat (Suc k)) 0 (of_nat m) (of_nat (c + l)) out' v' =
          Some (Inr (of_nat m, take c out @ map f [4096 * k + b..<?e] @ drop m out, v'))"
        by (subst vread_loop.simps) (auto simp: out'_def add.assoc)
      then have "vread_loop node (of_nat k) (of_nat b) (of_nat m) (of_nat c) out v =
          Some (Inr (of_nat m, take c out @ map f [4096 * k + b..<?e] @ drop m out, v'))" using s(4) by simp
      then show ?thesis using s(1,2) by blast
    next
      case False
      then have e: "l = 4096 - b" "4096 * Suc k + 0 + (m - (c + l)) = ?e" using c less.prems(3) by (auto simp: l_def min_def split: if_splits)
      have sm: "m - (c + l) < m - c" using l c by simp
      have z: "0 < (4096 :: nat)" "m \<le> length out'" using lo less.prems(5) by auto
      obtain us2 bs2 n2 v2 where r: "file_buf f sz good node us2 bs2 n2 v2" "vframe v' v2"
          "vread_loop node (of_nat (Suc k)) (of_nat 0) (of_nat m) (of_nat (c + l)) out' v' =
             Some (Inr (of_nat m, take (c + l) out' @ map f [4096 * Suc k + 0..<?e] @ drop m out', v2))"
        using less.hyps [OF sm s(1) less.prems(2) z(1) l(3) z(2) less.prems(6), where k = "Suc k"] less.prems(7) s(3) unfolding e(2) by blast
      have "[4096 * k + b..<?e] = [4096 * k + b..<4096 * k + b + l] @ [4096 * Suc k..<?e]"
        using e less.prems(3) upt_add_eq_append [of "4096 * k + b" "4096 * k + b + l" "m - (c + l)"] l by (simp add: add.commute)
      then show ?thesis using r s vframe_trans [OF s(2) r(2)] pre by auto
    qed
  qed
qed

text \<open>A lock that is held can be released whatever the interrupt state.\<close>

lemma cpu_int_pop_ok:
  assumes "hart_ok m"
  shows "\<exists>m'. cpu_int_pop m = Inr m' \<and> hart_ok m' \<and> hartid m' = hartid m"
  using assms by (simp add: cpu_int_pop_def cpu_defs)

definition vfs_held :: "'s vfs_t \<Rightarrow> bool" where
  "vfs_held v \<longleftrightarrow> hart_ok (mach (vheap v)) \<and> spinlock_holding (vfs_lock v) (mach (vheap v))"

definition vfs_unlocked :: "'s vfs_t \<Rightarrow> bool" where
  "vfs_unlocked v \<longleftrightarrow> hart_ok (mach (vheap v)) \<and> lock_free (vfs_lock v)"

lemma vfs_acquire_ok:
  assumes "vfs_unlocked v"
  shows "\<exists>v1. vfs_acquire v = Inr v1 \<and> vfs_held v1 \<and> vnode_at v1 = vnode_at v"
  using assms by (auto simp: vfs_unlocked_def vfs_held_def vfs_acquire_def mach_def spinlock_acquire_ok spinlock_holding_def)

lemma vfs_held_acquire:
  assumes "vfs_held v"
  shows "vfs_acquire v = Inl Panic"
proof -
  have "spinlock_holding (vfs_lock v) (acquired (mach (vheap v)))" using assms by (simp add: vfs_held_def spinlock_holding_def)
  then have "spinlock_acquire (vfs_lock v) (mach (vheap v)) = Inl Panic"
    using assms by (simp add: vfs_held_def spinlock_acquire_def cpu_int_push_ok)
  then show ?thesis by (simp add: vfs_acquire_def mach_def)
qed

lemma vfs_release_ok:
  assumes "vfs_held v"
  shows "\<exists>v'. vfs_release v = Inr v' \<and> vfs_unlocked v' \<and> page_at v' = page_at v"
proof -
  obtain m where m: "cpu_int_pop (mach (vheap v)) = Inr m" "hart_ok m" using assms cpu_int_pop_ok by (auto simp: vfs_held_def)
  then have "spinlock_release (vfs_lock v) (mach (vheap v)) = Inr ((vfs_lock v)\<lparr>cpu_id := -1, locked := 0\<rparr>, m)"
    using assms by (simp add: vfs_held_def spinlock_release_def Let_def)
  then show ?thesis using m(2) by (simp add: vfs_release_def vfs_unlocked_def mach_def lock_free_def)
qed

lemma vframe_held: "vframe v v' \<Longrightarrow> vfs_held v \<Longrightarrow> vfs_held v'"
  by (simp add: vframe_def vfs_held_def same_hart_def hart_ok_def spinlock_holding_def)

section \<open>What a read returns\<close>

text \<open>The number of pages a read of \<open>m\<close> bytes at \<open>p\<close> still has to load.\<close>

definition missing :: "nat \<Rightarrow> nat \<Rightarrow> 's vfs_t \<Rightarrow> u64 list \<Rightarrow> nat" where
  "missing p m v bs = card (needs (p div 4096) (p + m) - loaded v bs)"

lemma vfs_read_ok:
  assumes "vfs_unlocked v" "vfs_acquire v = Inr v1" "file_buf f (unat (vsize (vnode_at v node))) good node us bs n v1"
    and "vtype (vnode_at v node) \<noteq> VNODE_DEV" "unat offset < unat (vsize (vnode_at v node))" "unat buf_len \<le> length out"
    and "m = min (unat buf_len) (unat (vsize (vnode_at v node)) - unat offset)" "missing (unat offset) m v1 bs \<le> n"
  shows "\<exists>v'. vfs_read node offset out buf_len v =
      Inr (of_nat m, map f [unat offset..<unat offset + m] @ drop m out, v') \<and> vfs_unlocked v'"
proof -
  let ?sz = "unat (vsize (vnode_at v node))"
  have sz: "?sz < 2 ^ 32" using unat_u32_less [of "vsize (vnode_at v node)"] by simp
  obtain h: "vfs_held v1" and n1: "vnode_at v1 = vnode_at v" using vfs_acquire_ok [OF assms(1)] assms(2) by auto
  let ?b = "unat offset mod 4096" and ?k = "unat offset div 4096"
  have kb: "4096 * ?k + ?b = unat offset" by simp
  have "m < 2 ^ 32" using assms(7) sz by auto
  then have m64: "m < 2 ^ 64" by simp
  have pre: "?b < 4096" "0 \<le> m" "m \<le> length out" "4096 * ?k + ?b + (m - 0) \<le> ?sz"
      "card (needs ?k (4096 * ?k + ?b + (m - 0)) - loaded v1 bs) \<le> n"
    using assms(5-8) unfolding missing_def kb by auto
  obtain v2 where r: "vframe v1 v2" "vread_loop node (of_nat ?k) (of_nat ?b) (of_nat m) (of_nat 0) out v1 =
      Some (Inr (of_nat m, take 0 out @ map f [unat offset..<unat offset + m] @ drop m out, v2))"
    using vread_ok [OF assms(3) sz pre(1-3) m64 pre(4,5)] unfolding kb by auto
  obtain v3 where v3: "vfs_release v2 = Inr v3" "vfs_unlocked v3" using vfs_release_ok [OF vframe_held [OF r(1) h]] by blast
  have le: "\<not> ucast (vsize (vnode_at v node)) \<le> offset" using assms(5) by (simp add: word_le_nat_alt unat_u32_u64)
  then have um: "m = unat (min_u64 buf_len (ucast (vsize (vnode_at v node)) - offset))"
    using assms(7) by (simp add: unat_min_u64 unat_sub unat_u32_u64)
  then have mm: "min_u64 buf_len (ucast (vsize (vnode_at v node)) - offset) = of_nat m" by (simp add: um)
  have "of_nat ?k = offset div 4096" "of_nat ?b = offset mod 4096"
    by (simp_all add: word_unat_eq_iff unat_div_distrib unat_mod_distrib unat_of_nat_u64 order.strict_trans1 [OF div_le_dividend]
        order.strict_trans1 [OF mod_less_eq_dividend] unsigned_less [where w = offset, simplified])
  then have "vfs_read node offset out buf_len v = Inr (of_nat m, map f [unat offset..<unat offset + m] @ drop m out, v3)"
    using assms(2,4) n1 le mm r(2) v3(1) by (simp add: vfs_read_def Let_def hang_def VFS_BLOCK_SIZE_def)
  then show ?thesis using v3(2) by blast
qed

text \<open>C4. Reading from a vnode gives the bytes of its file from the offset on, as many as the buffer
  asks for and the file has, whichever of its blocks are in the buffer before; the rest of the
  caller's buffer is kept and the lock is free afterwards. The invariant is that every buffered
  block holds its part of the file, and there must be room for the blocks that are not buffered.\<close>

theorem vfs_read_refines:
  assumes "vfs_unlocked v" "vfs_acquire v = Inr v1" "file_buf f (unat (vsize (vnode_at v node))) good node us bs n v1"
    and "vtype (vnode_at v node) \<noteq> VNODE_DEV" "unat offset < unat (vsize (vnode_at v node))" "unat buf_len \<le> length out"
    and "m = min (unat buf_len) (unat (vsize (vnode_at v node)) - unat offset)" "missing (unat offset) m v1 bs \<le> n"
  shows "\<exists>v'. vfs_read node offset out buf_len v =
      Inr (of_nat m, map f [unat offset..<unat offset + m] @ drop m out, v') \<and> vfs_unlocked v'"
  by (rule vfs_read_ok [OF assms])

text \<open>C29. A read at or behind the end of a file returns zero without releasing the lock. Whatever
  reads, writes or opens next on this hart stops in the panic of a lock taken twice.\<close>

theorem vfs_read_eof_keeps_lock:
  assumes "vfs_unlocked v" "vtype (vnode_at v node) \<noteq> VNODE_DEV" "unat (vsize (vnode_at v node)) \<le> unat offset"
  shows "\<exists>v'. vfs_read node offset out buf_len v = Inr (0, out, v') \<and> vfs_held v' \<and>
     (\<forall>node offset out buf_len par path. vfs_read node offset out buf_len v' = Inl Panic \<and>
        vfs_write node offset out buf_len v' = Inl Panic \<and> vfs_open par path v' = Inl Panic \<and> vfs_reopen node v' = Inl Panic)"
proof -
  obtain v1 where v1: "vfs_acquire v = Inr v1" "vfs_held v1" "vnode_at v1 = vnode_at v" using vfs_acquire_ok [OF assms(1)] by blast
  have "ucast (vsize (vnode_at v node)) \<le> offset" using assms(3) by (simp add: word_le_nat_alt unat_u32_u64)
  then have "vfs_read node offset out buf_len v = Inr (0, out, v1)" using v1 assms(2) by (simp add: vfs_read_def)
  moreover have "vfs_acquire v1 = Inl Panic" by (rule vfs_held_acquire [OF v1(2)])
  ultimately show ?thesis using v1(2)
    by (auto simp: vfs_read_def vfs_write_def vfs_open_def vfs_reopen_def)
qed

section \<open>A concrete buffer\<close>

text \<open>One file of 6000 bytes, byte \<open>i\<close> being \<open>i mod 256\<close>, with nothing buffered yet.\<close>

definition counter_backend :: "unit vfs_backend" where
  "counter_backend = \<lparr>lfs_obj_size = 256, bk_root = (\<lambda>ob w. Inr w), bk_flush = (\<lambda>w. Inr w),
     bk_read = (\<lambda>ob p out n w. Inr ((n, map (\<lambda>i. of_nat (unat p + i)) [0..<length out]), w)),
     bk_write = (\<lambda>ob p inp n w. Inr (n, w)), bk_size = (\<lambda>ob w. Inr 6000), bk_name = (\<lambda>ob w. Inr [97, 0]),
     bk_type = (\<lambda>ob w. Inr VNODE_FILE), bk_iterate = (\<lambda>par prv ob w. Inr (0, w)), bk_end_iterate = (\<lambda>iter w. Inr w)\<rparr>"

text \<open>An open file with nothing buffered yet, at address 8.\<close>

definition fresh_file :: "'s \<Rightarrow> 's vfs_backend \<Rightarrow> u32 \<Rightarrow> 's vfs_t" where
  "fresh_file l b sz = \<lparr>low = l, vheap = demo_heap,
     vlinks = list_init (Vnode_bbf 8) (list_init Bbf_used \<lparr>lprev = (\<lambda>l. l), lnext = (\<lambda>l. l)\<rparr>),
     vnode_at = (\<lambda>a. \<lparr>ref_cnt = 1, parent = 0, child_cnt = -1, vsize = sz, vtype = VNODE_FILE, vname = None, lfs_obj = 16,
                     bkd = Some b\<rparr>),
     block_at = (\<lambda>a. \<lparr>blk_buf = 0, blk_node = 0, blkoff = 0, dirty = 0\<rparr>), page_at = (\<lambda>a. replicate 4096 0), root_node = 0,
     bbf_used_cnt = 0, bbf_free_cnt = 0, bbf_total_max = 100, vfs_lock = spinlock_init ''vfs''\<rparr>"

definition locked_heap :: kchain where
  "locked_heap = demo_heap\<lparr>pmem_st := (fst (pmem_st demo_heap), acquired (mach demo_heap))\<rparr>"

lemma locked_heap_room: "can_alloc 2 {} {} locked_heap"
  by code_simp

lemma fresh_file_unlocked: "vfs_unlocked (fresh_file l b sz)"
proof -
  have "mach demo_heap = boot_machine" by code_simp
  then show ?thesis by (simp add: vfs_unlocked_def fresh_file_def spinlock_init_free boot_machine_ok)
qed

lemma fresh_file_acquired: "\<exists>vl. vfs_acquire (fresh_file l b sz) = Inr ((fresh_file l b sz)\<lparr>vfs_lock := vl, vheap := locked_heap\<rparr>)"
  using fresh_file_unlocked [of l b sz]
  by (auto simp: vfs_acquire_def vfs_unlocked_def spinlock_acquire_ok mach_def locked_heap_def fresh_file_def)

lemma fresh_file_blocks: "blocks_ok f n 8 [] [] 2 ((fresh_file l b sz)\<lparr>vfs_lock := vl, vheap := locked_heap\<rparr>)"
  using locked_heap_room
  by (simp add: blocks_ok_def fresh_file_def dlist_def list_init_def set_next_def set_prev_def buf_of_def)

lemma fresh_file_fields [simp]:
  "vsize (vnode_at (fresh_file l b sz) a) = sz" "vtype (vnode_at (fresh_file l b sz) a) = VNODE_FILE"
  "lfs_obj (vnode_at (fresh_file l b sz) a) = 16" "bkd (vnode_at (fresh_file l b sz) a) = Some b" "low (fresh_file l b sz) = l"
  by (simp_all add: fresh_file_def)

lemma missing_two: "p + m \<le> 8192 \<Longrightarrow> missing p m v [] \<le> 2"
proof -
  assume "p + m \<le> 8192"
  then have "needs (p div 4096) (p + m) \<subseteq> {0, 1}" by (auto simp: needs_def)
  then have "card (needs (p div 4096) (p + m)) \<le> card {0, 1 :: nat}" by (intro card_mono) auto
  then show ?thesis by (simp add: missing_def loaded_def)
qed

definition one_file :: "unit vfs_t" where
  "one_file = fresh_file () counter_backend 6000"

lemma counter_reads: "backend_reads counter_backend (\<lambda>_. True) ob (\<lambda>i. of_nat i) 6000"
  by (auto simp: backend_reads_def counter_backend_def page_ok_def unat_of_nat_u64 simp del: of_nat_mult of_nat_add of_nat_unat)

theorem vfs_read_refines_witness:
  "\<exists>v'. vfs_read 8 4090 (replicate 13 0) 12 one_file =
     Inr (12, [250, 251, 252, 253, 254, 255, 0, 1, 2, 3, 4, 5, 0], v') \<and> vfs_unlocked v'"
proof -
  obtain vl where a: "vfs_acquire one_file = Inr (one_file\<lparr>vfs_lock := vl, vheap := locked_heap\<rparr>)"
    using fresh_file_acquired [of "()" counter_backend 6000] unfolding one_file_def by blast
  have u: "vfs_unlocked one_file" unfolding one_file_def by (rule fresh_file_unlocked)
  have sz: "unat (vsize (vnode_at one_file 8)) = 6000" by (simp add: one_file_def)
  have fb: "file_buf (\<lambda>i. of_nat i) 6000 (\<lambda>_. True) 8 [] [] 2 (one_file\<lparr>vfs_lock := vl, vheap := locked_heap\<rparr>)"
    using fresh_file_blocks counter_reads by (simp add: file_buf_def one_file_def)
  have e: "map (\<lambda>i. of_nat i :: u8) [4090..<4102] = [250, 251, 252, 253, 254, 255, 0, 1, 2, 3, 4, 5]" by code_simp
  have "\<exists>v'. vfs_read 8 4090 (replicate 13 0) 12 one_file =
      Inr (of_nat 12, map (\<lambda>i. of_nat i) [unat (4090 :: u64)..<unat (4090 :: u64) + 12] @ drop 12 (replicate 13 0), v') \<and> vfs_unlocked v'"
    by (rule vfs_read_refines [OF u a, where us = "[]" and bs = "[]" and n = 2 and good = "\<lambda>_. True"])
      (use fb missing_two [of 4090 12] in \<open>simp_all add: sz\<close>, simp_all add: one_file_def vnode_types)
  then obtain v' where "vfs_read 8 4090 (replicate 13 0) 12 one_file =
      Inr (12, map (\<lambda>i. of_nat i) [4090..<4102] @ drop 12 (replicate 13 0), v')" "vfs_unlocked v'" by auto
  then show ?thesis using e by (intro exI [of _ v']) (simp del: upt_rec_numeral)
qed

theorem vfs_read_eof_keeps_lock_witness:
  "\<exists>v'. vfs_read 8 6000 [0] 1 one_file = Inr (0, [0], v') \<and> vfs_held v' \<and>
     (\<forall>node offset out buf_len par path. vfs_read node offset out buf_len v' = Inl Panic \<and>
        vfs_write node offset out buf_len v' = Inl Panic \<and> vfs_open par path v' = Inl Panic \<and> vfs_reopen node v' = Inl Panic)"
  by (rule vfs_read_eof_keeps_lock) (simp_all add: one_file_def vnode_types fresh_file_unlocked)

end
