(* ===== verification/Vfs_Fat32.thy ===== *)
theory Vfs_Fat32
  imports Vfs_Inv
begin

text \<open>
  Models \<open>kernel/vfs_fat32.c\<close>, the functions through which \<open>Vfs\<close> uses a FAT32 volume, and
  shows that reading a file through both layers reads its chain of clusters.
\<close>

section \<open>The backend\<close>

text \<open>
  The volume with the objects and iterators that the source keeps behind addresses. The
  declarations without a body (\<open>fat32_vfs_create\<close> and others) have no code.
\<close>

record 'd fat_low =
  lfs_fs :: "'d fat32_fs"
  obj_at :: "u64 \<Rightarrow> fat32_obj"
  iter_at :: "u64 \<Rightarrow> fat32_directory_iter"

definition SIZEOF_FAT32_OBJ :: u64 where "SIZEOF_FAT32_OBJ = 160"
definition SIZEOF_FAT32_ITER :: u64 where "SIZEOF_FAT32_ITER = 12"

definition fat32_vfs_root :: "u64 \<Rightarrow> ('d, 'a) fat_low_scheme world \<Rightarrow> ('d, 'a) fat_low_scheme world outcome" where
  "fat32_vfs_root ob = (\<lambda>(l, k). guardO Undefined (ob \<noteq> 0) (
     bindO (fat32_get_root_dir (lfs_fs l) (obj_at l ob)) (\<lambda>x. Inr (l\<lparr>obj_at := (obj_at l)(ob := x)\<rparr>, k))))"

definition fat32_vfs_flush :: "('d, 'a) fat_low_scheme world \<Rightarrow> ('d, 'a) fat_low_scheme world outcome" where
  "fat32_vfs_flush = (\<lambda>(l, k). bindO (fat32_flush (lfs_fs l)) (\<lambda>fs. Inr (l\<lparr>lfs_fs := fs\<rparr>, k)))"

definition fat32_vfs_read :: "u64 \<Rightarrow> u64 \<Rightarrow> u8 list \<Rightarrow> u64 \<Rightarrow> ('d, 'a) fat_low_scheme world \<Rightarrow>
    ((u64 \<times> u8 list) \<times> ('d, 'a) fat_low_scheme world) outcome" where
  "fat32_vfs_read ob offset out buf_len = (\<lambda>(l, k).
     bindO (fat32_read (obj_at l ob) out buf_len offset (lfs_fs l)) (\<lambda>(n, out, fs).
     Inr ((ucast n, out), l\<lparr>lfs_fs := fs\<rparr>, k)))"

definition fat32_vfs_write :: "u64 \<Rightarrow> u64 \<Rightarrow> u8 list \<Rightarrow> u64 \<Rightarrow> 's world \<Rightarrow> (u64 \<times> 's world) outcome" where
  "fat32_vfs_write ob offset inp buf_len w = Inr (0, w)"

definition fat32_vfs_size :: "u64 \<Rightarrow> ('d, 'a) fat_low_scheme world \<Rightarrow> u64 outcome" where
  "fat32_vfs_size ob = (\<lambda>(l, k). Inr (ucast (fat32_get_file_size (obj_at l ob))))"

definition fat32_vfs_name :: "u64 \<Rightarrow> ('d, 'a) fat_low_scheme world \<Rightarrow> u8 list outcome" where
  "fat32_vfs_name ob = (\<lambda>(l, k). Inr (fat32_get_obj_name (obj_at l ob)))"

definition fat32_vfs_type :: "u64 \<Rightarrow> ('d, 'a) fat_low_scheme world \<Rightarrow> u32 outcome" where
  "fat32_vfs_type ob = (\<lambda>(l, k). Inr (
     if fat32_is_file (obj_at l ob) then VNODE_FILE
     else if fat32_is_directory (obj_at l ob) then VNODE_DIR
     else VNODE_UNDEF))"

text \<open>\<open>stack\<close> is what the uninitialised names in \<open>fat32_iter_next\<close> hold.\<close>

definition fat32_vfs_iterate :: "(fat32_directory_iter \<Rightarrow> u8 list list) \<Rightarrow> u64 \<Rightarrow> u64 \<Rightarrow> u64 \<Rightarrow>
    ('d, 'a) fat_low_scheme world \<Rightarrow> (u64 \<times> ('d, 'a) fat_low_scheme world) outcome" where
  "fat32_vfs_iterate stack dir iter ob = (\<lambda>(l, k).
     bindO (if iter = 0 then
              bindO (kmalloc SIZEOF_FAT32_ITER k) (\<lambda>(iter, k).
              guardO Undefined (iter \<noteq> 0) (Inr (iter, l\<lparr>iter_at := (iter_at l)(iter := fat32_iter_start (obj_at l dir))\<rparr>, k)))
            else Inr (iter, l, k)) (\<lambda>(iter, l, k).
     bindO (fat32_iter_next (stack (iter_at l iter)) (iter_at l iter) (obj_at l ob) (lfs_fs l)) (\<lambda>(found, it, x, fs).
     guardO Undefined (found \<longrightarrow> ob \<noteq> 0) (
     let l = l\<lparr>lfs_fs := fs, iter_at := (iter_at l)(iter := it), obj_at := (obj_at l)(ob := x)\<rparr> in
     if found then Inr (iter, l, k) else bindO (kfree iter k) (\<lambda>k. Inr (0, l, k))))))"

definition fat32_vfs_end_iterate :: "u64 \<Rightarrow> 's world \<Rightarrow> 's world outcome" where
  "fat32_vfs_end_iterate iter = (\<lambda>(l, k). bindO (kfree iter k) (\<lambda>k. Inr (l, k)))"

definition fat32bkd :: "(fat32_directory_iter \<Rightarrow> u8 list list) \<Rightarrow> ('d, 'a) fat_low_scheme vfs_backend" where
  "fat32bkd stack = \<lparr>lfs_obj_size = SIZEOF_FAT32_OBJ, bk_root = fat32_vfs_root, bk_flush = fat32_vfs_flush,
     bk_read = fat32_vfs_read, bk_write = fat32_vfs_write, bk_size = fat32_vfs_size, bk_name = fat32_vfs_name,
     bk_type = fat32_vfs_type, bk_iterate = fat32_vfs_iterate stack, bk_end_iterate = fat32_vfs_end_iterate\<rparr>"

section \<open>Reading a file through both layers\<close>

text \<open>
  The object at \<open>ob\<close> is a file of \<open>sz\<close> bytes whose clusters \<open>cs\<close> hold \<open>data\<close>, on a volume that is
  read through the sector cache.
\<close>

definition fat_file :: "'d mmio \<Rightarrow> u64 \<Rightarrow> virtio_blk_req \<Rightarrow> ('d \<Rightarrow> u64 \<Rightarrow> u8 list) \<Rightarrow> ('d \<Rightarrow> bool) \<Rightarrow> (u64 \<Rightarrow> bool) \<Rightarrow>
    u64 \<Rightarrow> u32 list \<Rightarrow> u8 list \<Rightarrow> nat \<Rightarrow> 'd virtio_blk fat_low \<Rightarrow> bool" where
  "fat_file D ra junk cont idle present ob cs data sz l \<longleftrightarrow>
     (\<exists>xs. cached D ra junk cont idle present (lfs_fs l) xs) \<and> chain_per_sector (lfs_fs l) = 128 \<and>
     chain_present present (lfs_fs l) cs \<and> chained (fat cont (lfs_fs l)) (obj_cidx (obj_at l ob)) cs \<and>
     data = chain_data cont (lfs_fs l) cs \<and> unat (obj_file_size (obj_at l ob)) = sz \<and> sz \<le> length data"

lemma fat_backend_reads:
  "backend_reads (fat32bkd stack) (fat_file D ra junk cont idle present ob cs data sz) ob (nth data) sz"
  unfolding backend_reads_def
proof (intro allI impI, elim conjE)
  fix l k and page :: "u8 list" and h :: kchain
  assume g: "fat_file D ra junk cont idle present ob cs data sz l" and p: "length page = 4096" and k: "4096 * k < sz"
  let ?fs = "lfs_fs l" and ?o = "obj_at l ob"
  obtain xs where c: "cached D ra junk cont idle present ?fs xs" "chain_per_sector ?fs = 128" "chain_present present ?fs cs"
      "chained (fat cont ?fs) (obj_cidx ?o) cs" "data = chain_data cont ?fs cs" "unat (obj_file_size ?o) = sz" "sz \<le> length data"
    using g by (auto simp: fat_file_def)
  have "4096 * k < 2 ^ 64" using k c(6) unat_u32_less [of "obj_file_size ?o"] by simp
  then have uk: "unat (of_nat (4096 * k) :: u64) = 4096 * k" by (rule unat_of_nat_u64)
  define d where "d = take 4096 (drop (4096 * k) data)"
  have pre: "unat (of_nat (4096 * k) :: u64) < unat (obj_file_size ?o)" "512 dvd unat (of_nat (4096 * k) :: u64)"
    "unat (of_nat (4096 * k) :: u64) < length (chain_data cont ?fs cs)" "unat (4096 :: u64) \<le> length page"
    "0 < unat (4096 :: u64)" "unat (4096 :: u64) < 2 ^ 32"
    "d = take (unat (4096 :: u64)) (drop (unat (of_nat (4096 * k) :: u64)) (chain_data cont ?fs cs))"
    using k c(5-7) p by (simp_all only: uk d_def) auto
  obtain fs' xs' where r: "fat32_read ?o page 4096 (of_nat (4096 * k)) ?fs = Inr (of_nat (length d), d @ drop (length d) page, fs')"
      "cached D ra junk cont idle present fs' xs'" "same_view cont ?fs fs'"
    using fat32_read_ok [OF c(1-4) pre] by blast
  have "fat_file D ra junk cont idle present ob cs data sz (l\<lparr>lfs_fs := fs'\<rparr>)"
    using c r(2) same_viewD [OF r(3)] by (auto simp: fat_file_def)
  moreover have "page_ok (nth data) sz k (d @ drop (length d) page)"
    using p k c(7) by (auto simp: page_ok_def d_def nth_append)
  ultimately show "\<exists>n page' l'. bk_read (fat32bkd stack) ob (of_nat (4096 * k)) page 4096 (l, h) = Inr ((n, page'), l', h) \<and>
      fat_file D ra junk cont idle present ob cs data sz l' \<and> page_ok (nth data) sz k page'"
    using r(1) by (simp add: fat32bkd_def fat32_vfs_read_def)
qed

text \<open>C3. Reading a file of a FAT32 volume through the block buffer of the virtual file system, the
  sector cache and the disk driver gives the bytes of the file's chain of clusters from the
  offset on, whatever the buffers hold before, and leaves the lock free.\<close>

theorem fat32_file_read:
  assumes "vfs_unlocked v" "vfs_acquire v = Inr v1" "bkd (vnode_at v node) = Some (fat32bkd stack)"
    and "fat_file D ra junk cont idle present (lfs_obj (vnode_at v node)) cs data (unat (vsize (vnode_at v node))) (low v)"
    and "blocks_ok (nth data) (unat (vsize (vnode_at v node))) node us bs n v1"
    and "vtype (vnode_at v node) = VNODE_FILE" "unat offset < unat (vsize (vnode_at v node))" "unat buf_len \<le> length out"
    and "m = min (unat buf_len) (unat (vsize (vnode_at v node)) - unat offset)" "missing (unat offset) m v1 bs \<le> n"
  shows "\<exists>v'. vfs_read node offset out buf_len v =
      Inr (of_nat m, take m (drop (unat offset) data) @ drop m out, v') \<and> vfs_unlocked v'"
proof -
  have v1: "vnode_at v1 = vnode_at v" "low v1 = low v"
    using assms(2) by (auto simp: vfs_acquire_def bindO_eq_Inr)
  have fb: "file_buf (nth data) (unat (vsize (vnode_at v node)))
      (fat_file D ra junk cont idle present (lfs_obj (vnode_at v node)) cs data (unat (vsize (vnode_at v node)))) node us bs n v1"
    using assms(3-5) fat_backend_reads by (auto simp: file_buf_def v1)
  have "vtype (vnode_at v node) \<noteq> VNODE_DEV" using assms(6) by (simp add: vnode_types)
  note vfs_read_ok [OF assms(1,2) fb this assms(7-10)]
  moreover have "map (nth data) [unat offset..<unat offset + m] = take m (drop (unat offset) data)"
    using assms(4,7,9) by (auto simp: fat_file_def list_eq_iff_nth_eq)
  ultimately show ?thesis by simp
qed

section \<open>A small file\<close>

definition fat_demo :: "vshared \<Rightarrow> virtio_blk_req \<Rightarrow> ramdisk virtio_blk fat_low vfs_t" where
  "fat_demo sh junk = fresh_file
     \<lparr>lfs_fs = one_cluster sh junk, obj_at = (\<lambda>_. demo_obj), iter_at = (\<lambda>_. fat32_iter_start demo_obj)\<rparr> (fat32bkd (\<lambda>_. [])) 4096"

theorem fat32_file_read_witness:
  "\<forall>sh junk. \<exists>v'. vfs_read 8 611 [0, 0, 0] 2 (fat_demo sh junk) = Inr (2, [255, 2, 0], v') \<and> vfs_unlocked v'"
proof (intro allI)
  fix sh junk
  show "\<exists>v'. vfs_read 8 611 [0, 0, 0] 2 (fat_demo sh junk) = Inr (2, [255, 2, 0], v') \<and> vfs_unlocked v'"
  proof -
    let ?fs = "one_cluster sh junk" and ?d = "concat (replicate 8 ((replicate 512 255)[0 := 1, 100 := 2])) :: u8 list"
    note ok = one_cluster_ok [where sh = sh and junk = junk]
    obtain vl where a: "vfs_acquire (fat_demo sh junk) = Inr ((fat_demo sh junk)\<lparr>vfs_lock := vl, vheap := locked_heap\<rparr>)"
      using fresh_file_acquired [of "\<lparr>lfs_fs = one_cluster sh junk, obj_at = (\<lambda>_. demo_obj), iter_at = (\<lambda>_. fat32_iter_start demo_obj)\<rparr>"
        "fat32bkd (\<lambda>_. [])" 4096] unfolding fat_demo_def by blast
    have d: "chain_data fst ?fs [2] = ?d"
      by (simp add: chain_data_def cluster_data_def sec_data_def ok(3,6) map_replicate_const)
    have l: "length ?d = 4096" by (simp add: length_concat sum_list_replicate)
    have ff: "fat_file ram_mmio 64 junk fst ram_idle (\<lambda>_. True) 16 [2] ?d 4096 (low (fat_demo sh junk))"
      using ok d l by (auto simp: fat_file_def fat_demo_def demo_obj_def)
    have r: "replicate 8 x = [x, x, x, x, x, x, x, x]" for x :: "u8 list" by (simp add: numeral_eq_Suc)
    have t: "take 2 (drop 611 ?d) = [255, 2]"
      by (simp add: r drop_update_swap numeral_2_eq_2 take_Suc_conv_app_nth)
    have "\<exists>v'. vfs_read 8 611 [0, 0, 0] 2 (fat_demo sh junk) =
        Inr (of_nat 2, take 2 (drop (unat (611 :: u64)) ?d) @ drop 2 [0, 0, 0], v') \<and> vfs_unlocked v'"
      by (rule fat32_file_read [OF _ a, where D = ram_mmio and ra = 64 and junk = junk and cont = fst and idle = ram_idle and cs = "[2]" and present = "\<lambda>_. True" and us = "[]" and bs = "[]" and n = 2])
        (use ff missing_two [of 611 2] in \<open>simp_all add: fat_demo_def fresh_file_unlocked fresh_file_blocks\<close>)
    then show ?thesis using t by simp
  qed
qed

end
