(* ===== verification/Console.thy ===== *)
theory Console
  imports Vfs Kvm
begin

text \<open>
  Models \<open>driver/ns16550.c\<close>, \<open>hal/uart_hal.c\<close> and \<open>kernel/console.c\<close>: the serial line of both
  boards and the backend of the virtual file system for the devices \<open>stdin\<close>, \<open>stdout\<close> and
  \<open>stderr\<close>.
\<close>

section \<open>The serial line\<close>

text \<open>The registers of \<open>struct ns16550\<close>; registers in one union share an address.\<close>

datatype ns16550_reg = RBR | IER | IIR | LCR | MCR | LSR | MSR | SCR

text \<open>
  The device: what reading and writing a register does on the QEMU board, and the functions
  \<open>uarths_putchar\<close> and \<open>uarths_getchar\<close> of the vendored driver on the other.
\<close>

record 'u uart_dev =
  reg_read :: "ns16550_reg \<Rightarrow> 'u \<Rightarrow> u8 \<times> 'u"
  reg_write :: "ns16550_reg \<Rightarrow> u8 \<Rightarrow> 'u \<Rightarrow> 'u"
  uarths_put :: "u8 \<Rightarrow> 'u \<Rightarrow> 'u"
  uarths_get :: "'u \<Rightarrow> u8 \<times> 'u"

text \<open>The divisor goes to \<open>LSR\<close> and \<open>MSR\<close>, not to the divisor latch.\<close>

definition ns16550_init :: "'u uart_dev \<Rightarrow> 'u \<Rightarrow> 'u" where
  "ns16550_init U u =
     (let u = reg_write U IER 0 u; u = reg_write U LCR 0x80 u; u = reg_write U LSR 0x03 u; u = reg_write U MSR 0 u;
          u = reg_write U LCR 0x03 u
      in reg_write U IIR 0x01 u)"

definition ns16550_send :: "'u uart_dev \<Rightarrow> u8 \<Rightarrow> 'u \<Rightarrow> 'u" where
  "ns16550_send U c u = reg_write U RBR c u"

definition ns16550_recv :: "'u uart_dev \<Rightarrow> 'u \<Rightarrow> u8 \<times> 'u" where
  "ns16550_recv U u = reg_read U RBR u"

definition uart_hal_init :: "board \<Rightarrow> 'u uart_dev \<Rightarrow> 'u \<Rightarrow> 'u" where
  "uart_hal_init b U u = (case b of QEMU \<Rightarrow> ns16550_init U u | K210 \<Rightarrow> u)"

definition uart_hal_send :: "board \<Rightarrow> 'u uart_dev \<Rightarrow> u8 \<Rightarrow> 'u \<Rightarrow> 'u" where
  "uart_hal_send b U c u =
     (case b of
        QEMU \<Rightarrow> ns16550_send U c u
      | K210 \<Rightarrow> uarths_put U c (if c = 10 then uarths_put U 13 u else u))"

definition uart_hal_recv :: "board \<Rightarrow> 'u uart_dev \<Rightarrow> 'u \<Rightarrow> u8 \<times> 'u" where
  "uart_hal_recv b U u = (case b of QEMU \<Rightarrow> ns16550_recv U u | K210 \<Rightarrow> uarths_get U u)"

definition uart_hal_putchar :: "board \<Rightarrow> 'u uart_dev \<Rightarrow> u8 \<Rightarrow> 'u \<Rightarrow> 'u" where
  "uart_hal_putchar b U c u = uart_hal_send b U c u"

section \<open>The console\<close>

text \<open>The loops over the caller's buffer; it must have \<open>buf_len\<close> bytes.\<close>

fun recv_loop :: "board \<Rightarrow> 'u uart_dev \<Rightarrow> nat list \<Rightarrow> u8 list \<Rightarrow> 'u \<Rightarrow> u8 list \<times> 'u" where
  "recv_loop b U [] out u = (out, u)"
| "recv_loop b U (i # is) out u = (let (c, u) = uart_hal_recv b U u in recv_loop b U is (out[i := c]) u)"

fun send_loop :: "board \<Rightarrow> 'u uart_dev \<Rightarrow> u8 list \<Rightarrow> 'u \<Rightarrow> 'u" where
  "send_loop b U [] u = u"
| "send_loop b U (c # cs) u = send_loop b U cs (uart_hal_send b U c u)"

text \<open>The serial line is part of the state \<open>'s\<close> of the lower file systems.\<close>

record ('s, 'u) uart_field =
  get_uart :: "'s \<Rightarrow> 'u"
  set_uart :: "'u \<Rightarrow> 's \<Rightarrow> 's"

definition console_read :: "board \<Rightarrow> 'u uart_dev \<Rightarrow> ('s, 'u) uart_field \<Rightarrow> u64 \<Rightarrow> u64 \<Rightarrow> u8 list \<Rightarrow> u64 \<Rightarrow> 's world \<Rightarrow>
    ((u64 \<times> u8 list) \<times> 's world) outcome" where
  "console_read b U F lobj offset out buf_len = (\<lambda>(l, k).
     guardO Undefined (unat buf_len \<le> length out) (
     let (out, u) = recv_loop b U [0..<unat buf_len] out (get_uart F l)
     in Inr ((buf_len, out), set_uart F u l, k)))"

definition console_write :: "board \<Rightarrow> 'u uart_dev \<Rightarrow> ('s, 'u) uart_field \<Rightarrow> u64 \<Rightarrow> u64 \<Rightarrow> u8 list \<Rightarrow> u64 \<Rightarrow> 's world \<Rightarrow>
    (u64 \<times> 's world) outcome" where
  "console_write b U F lobj offset inp buf_len = (\<lambda>(l, k).
     guardO Undefined (unat buf_len \<le> length inp) (
     Inr (buf_len, set_uart F (send_loop b U (take (unat buf_len) inp) (get_uart F l)) l, k)))"

text \<open>
  The backend is allocated and only \<open>read\<close> and \<open>write\<close> are set: the other fields are what the
  memory holds, \<open>junk\<close>.
\<close>

definition console_vfs_bkd :: "board \<Rightarrow> 'u uart_dev \<Rightarrow> ('s, 'u) uart_field \<Rightarrow> 's vfs_backend \<Rightarrow> 's vfs_t \<Rightarrow>
    ('s vfs_backend \<times> 's vfs_t) outcome" where
  "console_vfs_bkd b U F junk v =
     bindO (vkmalloc SIZEOF_VFS_BACKEND v) (\<lambda>(p, v).
     guardO Undefined (p \<noteq> 0) (Inr (junk\<lparr>bk_read := console_read b U F, bk_write := console_write b U F\<rparr>, v)))"

section \<open>The other console driver\<close>

text \<open>\<open>driver/virtio_console.c\<close> is a stub that finds no device.\<close>

definition virtio_console_init :: "u64 \<Rightarrow> u64" where
  "virtio_console_init base = 0"

end
