(* ===== verification/Filesystem.thy ===== *)
theory Filesystem
  imports Console Vfs_Fat32 Vblk Sdcard
begin

text \<open>
  Models \<open>hal/disk_hal.c\<close> (the initialisation, both boards) and \<open>kernel/filesystem.c\<close>: how the
  disk, the FAT32 volume, the virtual file system and the console are put together at boot.
\<close>

section \<open>The disk\<close>

definition SIZEOF_DISK_HAL :: u64 where "SIZEOF_DISK_HAL = 32"

text \<open>
  \<open>ra\<close> and \<open>req\<close> are the address and the uninitialised content of the request that the two
  operations keep on the stack. \<open>None\<close> is a disk whose device is null because the driver found
  another kind of device; any use of it is undefined.
\<close>

definition disk_hal_init :: "'d mmio \<Rightarrow> u64 \<Rightarrow> virtio_blk_req \<Rightarrow> vshared \<times> 'd \<Rightarrow> kchain \<Rightarrow>
    ('d virtio_blk disk_hal option \<times> kchain) outcome" where
  "disk_hal_init D ra rq io k =
     bindO (kmalloc SIZEOF_DISK_HAL k) (\<lambda>(p, k).
     bindO (virtio_blk_init D (k, io)) (\<lambda>(blk, k, io).
     guardO Undefined (p \<noteq> 0) (
     Inr (map_option (\<lambda>blk. \<lparr>dev = blk, read_op = disk_hal_read D ra rq, write_op = disk_hal_write D ra rq\<rparr>) blk, k))))"

text \<open>The functions of the pins on the other board, as the vendored library numbers them.\<close>

definition FUNC_SPI0_D0 :: nat where "FUNC_SPI0_D0 = 4"
definition FUNC_SPI0_D1 :: nat where "FUNC_SPI0_D1 = 5"
definition FUNC_SPI0_SS3 :: nat where "FUNC_SPI0_SS3 = 15"
definition FUNC_SPI0_SCLK :: nat where "FUNC_SPI0_SCLK = 17"
definition FUNC_GPIOHS7 :: nat where "FUNC_GPIOHS7 = 31"

definition k210_disk_hal_init :: "'c spi_bus \<Rightarrow> 'c sdcard \<Rightarrow> kchain \<Rightarrow> ('c sdcard disk_hal option \<times> kchain) outcome" where
  "k210_disk_hal_init B sd k =
     bindO (kmalloc SIZEOF_DISK_HAL k) (\<lambda>(p, k).
     guardO Undefined (p \<noteq> 0) (
     let c = fpioa_set B 27 FUNC_SPI0_SCLK (bus sd);
         c = fpioa_set B 28 FUNC_SPI0_D0 c;
         c = fpioa_set B 26 FUNC_SPI0_D1 c;
         c = fpioa_set B 32 FUNC_GPIOHS7 c;
         c = fpioa_set B 29 FUNC_SPI0_SS3 c
     in bindO (sdcard_init B (sd\<lparr>bus := c\<rparr>)) (\<lambda>sd.
        Inr (Some \<lparr>dev = sd, read_op = k210_disk_hal_read B, write_op = k210_disk_hal_write B\<rparr>, k))))"

section \<open>Booting the file system\<close>

text \<open>The state of the lower file systems: the volume and the serial line.\<close>

record ('d, 'u) fs_low = "'d fat_low" +
  uart_st :: 'u

definition uart_part :: "(('d, 'u) fs_low, 'u) uart_field" where
  "uart_part = \<lparr>get_uart = uart_st, set_uart = (\<lambda>u l. l\<lparr>uart_st := u\<rparr>)\<rparr>"

text \<open>The strings of the source.\<close>

definition cstr :: "string \<Rightarrow> u8 list" where
  "cstr s = map of_char s @ [0]"

text \<open>One of the three devices in \<open>dev\<close>; the fields that are not named keep what the memory holds.\<close>

definition dev_node :: "string \<Rightarrow> 's vfs_backend \<Rightarrow> u64 \<Rightarrow> 's vfs_t \<Rightarrow> (u64 \<times> 's vfs_t) outcome" where
  "dev_node name con devdir v =
     bindO (vkmalloc SIZEOF_VNODE v) (\<lambda>(node, v).
     guardO Undefined (node \<noteq> 0) (
     Inr (node, upd_vnode node (\<lambda>n. n\<lparr>vname := Some (cstr name), bkd := Some con, parent := devdir, vtype := VNODE_DEV,
                                      ref_cnt := 0\<rparr>) v)))"

definition link_child :: "u64 \<Rightarrow> u64 \<Rightarrow> 's vfs_t \<Rightarrow> 's vfs_t" where
  "link_child node dir v = on_vlinks (list_add (Vnode_list node) (Vnode_children dir)) v"

text \<open>
  \<open>disk_init\<close> stands for the initialisation of the board's disk, \<open>page\<close> is what the new sector
  buffer holds, \<open>stack\<close> the uninitialised names of the directory iteration and \<open>v\<close> the memory
  before, whose heap is ready.
\<close>

definition fs_init :: "(kchain \<Rightarrow> ('d disk_hal option \<times> kchain) outcome) \<Rightarrow> u8 list \<Rightarrow> (fat32_directory_iter \<Rightarrow> u8 list list) \<Rightarrow>
    board \<Rightarrow> 'u uart_dev \<Rightarrow> ('d, 'u) fs_low vfs_backend \<Rightarrow> ('d, 'u) fs_low vfs_t \<Rightarrow> ('d, 'u) fs_low vfs_t outcome" where
  "fs_init disk_init page stack b U junk v =
     bindO (disk_init (vheap v)) (\<lambda>(hal, k).
     case hal of None \<Rightarrow> Inl Undefined | Some hal \<Rightarrow>
     bindO (fat32_init hal 0 0 1 page k) (\<lambda>(phyfs, k).
     case phyfs of None \<Rightarrow> Inl Undefined | Some (p, vol) \<Rightarrow>
     let v = v\<lparr>vheap := k, low := (low v)\<lparr>lfs_fs := vol\<rparr>\<rparr> in
     bindO (vfs_init 10 v) (\<lambda>(p, v).
     guardO Undefined (p \<noteq> 0) (
     bindO (vfs_mount (vfs_root v) (fat32bkd stack) v) (\<lambda>(r, v).
     bindO (vfs_get_recursive 0 (cstr ''dev'') v) (\<lambda>(r, v).
     let root = vfs_root v in
     bindO (vkmalloc SIZEOF_VNODE v) (\<lambda>(devdir, v).
     bindO (console_vfs_bkd b U uart_part junk v) (\<lambda>(con, v).
     guardO Undefined (devdir \<noteq> 0) (
     let v = link_child devdir root v;
         v = upd_vnode devdir (\<lambda>n. n\<lparr>vname := Some (cstr ''dev''), bkd := None, child_cnt := 3, parent := root, vtype := VNODE_MP\<rparr>) v;
         v = on_vlinks (list_init (Vnode_children devdir)) v in
     bindO (dev_node ''stdin'' con devdir v) (\<lambda>(indev, v).
     bindO (dev_node ''stdout'' con devdir v) (\<lambda>(outdev, v).
     bindO (dev_node ''stderr'' con devdir v) (\<lambda>(errdev, v).
     Inr (link_child errdev devdir (link_child outdev devdir (link_child indev devdir v)))))))))))))))"

end
