(* ===== verification/File.thy ===== *)
theory File
  imports Filesystem
begin

text \<open>
  Models \<open>kernel/file.c\<close>, the tables of open files. The two arrays of a table are words of
  memory known by their addresses, since the arrays of several tables can share memory.
\<close>

section \<open>Data\<close>

record files_struct =
  fnodes :: u64
  fseek :: u64
  fsize :: u64

record 's files_sys =
  fvfs :: "'s vfs_t"
  files_at :: "u64 \<Rightarrow> files_struct"
  fword :: "u64 \<Rightarrow> u64"

definition SIZEOF_FILES_STRUCT :: u64 where "SIZEOF_FILES_STRUCT = 24"

definition on_vfs :: "('s vfs_t \<Rightarrow> ('a \<times> 's vfs_t) outcome) \<Rightarrow> ('s, 'b) files_sys_scheme \<Rightarrow> ('a \<times> ('s, 'b) files_sys_scheme) outcome" where
  "on_vfs f s = bindO (f (fvfs s)) (\<lambda>(x, v). Inr (x, s\<lparr>fvfs := v\<rparr>))"

definition on_heap :: "(kchain \<Rightarrow> ('a \<times> kchain) outcome) \<Rightarrow> ('s, 'b) files_sys_scheme \<Rightarrow> ('a \<times> ('s, 'b) files_sys_scheme) outcome" where
  "on_heap f s = on_vfs (\<lambda>v. bindO (f (vheap v)) (\<lambda>(x, k). Inr (x, v\<lparr>vheap := k\<rparr>))) s"

definition do_heap :: "(kchain \<Rightarrow> kchain outcome) \<Rightarrow> ('s, 'b) files_sys_scheme \<Rightarrow> ('s, 'b) files_sys_scheme outcome" where
  "do_heap f s = bindO (f (vheap (fvfs s))) (\<lambda>k. Inr (s\<lparr>fvfs := (fvfs s)\<lparr>vheap := k\<rparr>\<rparr>))"

text \<open>Words of memory, as elements of an array of pointers or positions.\<close>

definition word_addr :: "u64 \<Rightarrow> int \<Rightarrow> u64" where
  "word_addr p i = p + 8 * of_int i"

definition set_fword :: "u64 \<Rightarrow> u64 \<Rightarrow> ('s, 'b) files_sys_scheme \<Rightarrow> ('s, 'b) files_sys_scheme" where
  "set_fword a x s = s\<lparr>fword := (fword s)(a := x)\<rparr>"

text \<open>
  The nodes and the positions of a table lie in two pages allocated at once, the positions in
  the second: an index of a node can be up to 1023 before the access leaves the object, an index
  of a position is between -512 and 511.
\<close>

definition node_addr :: "u64 \<Rightarrow> int \<Rightarrow> ('s, 'b) files_sys_scheme \<Rightarrow> u64 outcome" where
  "node_addr f fd s = guardO Undefined (f \<noteq> 0 \<and> 0 \<le> fd \<and> fd < 1024) (Inr (word_addr (fnodes (files_at s f)) fd))"

definition seek_addr :: "u64 \<Rightarrow> int \<Rightarrow> ('s, 'b) files_sys_scheme \<Rightarrow> u64 outcome" where
  "seek_addr f fd s = guardO Undefined (f \<noteq> 0 \<and> -512 \<le> fd \<and> fd < 512) (Inr (word_addr (fseek (files_at s f)) fd))"

section \<open>Descriptors\<close>

text \<open>The loop that looks for a free entry.\<close>

fun free_slot :: "u64 \<Rightarrow> nat list \<Rightarrow> ('s, 'b) files_sys_scheme \<Rightarrow> int" where
  "free_slot f [] s = -1"
| "free_slot f (i # is) s =
     (if fword s (word_addr (fnodes (files_at s f)) (int i)) = 0 then int i else free_slot f is s)"

definition files_struct_alloc :: "u64 \<Rightarrow> u64 \<Rightarrow> u8 list \<Rightarrow> ('s, 'b) files_sys_scheme \<Rightarrow> (int \<times> ('s, 'b) files_sys_scheme) outcome" where
  "files_struct_alloc f par pth s =
     guardO Undefined (f \<noteq> 0) (
     let ret = free_slot f [0..<unat (fsize (files_at s f))] s in
     if ret = -1 then Inr (-1, s)
     else bindO (on_vfs (vfs_open par pth) s) (\<lambda>(node, s).
          if node \<noteq> 0 then Inr (ret, set_fword (word_addr (fnodes (files_at s f)) ret) node s)
          else Inr (-1, s)))"

definition files_struct_check :: "u64 \<Rightarrow> int \<Rightarrow> ('s, 'b) files_sys_scheme \<Rightarrow> bool outcome" where
  "files_struct_check f fd s =
     (if fd < 0 then Inr False
      else guardO Undefined (f \<noteq> 0) (
           Inr (fd < int (unat (fsize (files_at s f))) \<and> fword s (word_addr (fnodes (files_at s f)) fd) \<noteq> 0)))"

text \<open>\<open>vfs_close\<close> of a null pointer is undefined.\<close>

definition close_node :: "u64 \<Rightarrow> ('s, 'b) files_sys_scheme \<Rightarrow> ('s, 'b) files_sys_scheme outcome" where
  "close_node node s = guardO Undefined (node \<noteq> 0) (Inr (s\<lparr>fvfs := vfs_close node (fvfs s)\<rparr>))"

definition files_struct_free :: "u64 \<Rightarrow> int \<Rightarrow> ('s, 'b) files_sys_scheme \<Rightarrow> ('s, 'b) files_sys_scheme outcome" where
  "files_struct_free f fd s =
     bindO (node_addr f fd s) (\<lambda>na.
     bindO (close_node (fword s na) s) (\<lambda>s.
     bindO (seek_addr f fd s) (\<lambda>sa. Inr (set_fword na 0 (set_fword sa 0 s)))))"

definition files_struct_get :: "u64 \<Rightarrow> int \<Rightarrow> ('s, 'b) files_sys_scheme \<Rightarrow> u64 outcome" where
  "files_struct_get f fd s = bindO (node_addr f fd s) (\<lambda>na. Inr (fword s na))"

definition reopen_at :: "u64 \<Rightarrow> int \<Rightarrow> int \<Rightarrow> ('s, 'b) files_sys_scheme \<Rightarrow> (int \<times> ('s, 'b) files_sys_scheme) outcome" where
  "reopen_at f old_fd new_fd s =
     bindO (node_addr f old_fd s) (\<lambda>oa.
     bindO (on_vfs (vfs_reopen (fword s oa)) s) (\<lambda>(node, s).
     bindO (node_addr f new_fd s) (\<lambda>na. Inr (new_fd, set_fword na node s))))"

text \<open>The new descriptor is compared with nothing but -1.\<close>

definition files_struct_dup :: "u64 \<Rightarrow> int \<Rightarrow> int \<Rightarrow> ('s, 'b) files_sys_scheme \<Rightarrow> (int \<times> ('s, 'b) files_sys_scheme) outcome" where
  "files_struct_dup f old_fd new_fd s =
     bindO (files_struct_check f old_fd s) (\<lambda>ok.
     if \<not> ok then Inr (-1, s)
     else if new_fd = -1 then
       let i = free_slot f [0..<unat (fsize (files_at s f))] s in
       if i = -1 then Inr (-1, s) else reopen_at f old_fd i s
     else
       bindO (node_addr f new_fd s) (\<lambda>na.
       if fword s na \<noteq> 0 then Inr (-1, s) else reopen_at f old_fd new_fd s))"

section \<open>Reading and writing\<close>

text \<open>The count becomes an \<open>int\<close>; the position advances when it is positive.\<close>

definition to_int :: "u64 \<Rightarrow> int" where
  "to_int x = signed_take_bit 31 (uint x)"

definition advance :: "u64 \<Rightarrow> int \<Rightarrow> ('s, 'b) files_sys_scheme \<Rightarrow> ('s, 'b) files_sys_scheme" where
  "advance sa n s = (if 0 < n then set_fword sa (fword s sa + of_int n) s else s)"

text \<open>A null node is followed behind the lock of the virtual file system.\<close>

definition null_node :: "('s, 'b) files_sys_scheme \<Rightarrow> 'x outcome" where
  "null_node s = bindO (vfs_acquire (fvfs s)) (\<lambda>v. Inl Undefined)"

definition files_struct_read :: "u64 \<Rightarrow> int \<Rightarrow> u8 list \<Rightarrow> u64 \<Rightarrow> ('s, 'b) files_sys_scheme \<Rightarrow>
    (int \<times> u8 list \<times> ('s, 'b) files_sys_scheme) outcome" where
  "files_struct_read f fd out buf_len s =
     bindO (node_addr f fd s) (\<lambda>na.
     bindO (seek_addr f fd s) (\<lambda>sa.
     if fword s na = 0 then null_node s else
     bindO (vfs_read (fword s na) (fword s sa) out buf_len (fvfs s)) (\<lambda>(n, out, v).
     Inr (to_int n, out, advance sa (to_int n) (s\<lparr>fvfs := v\<rparr>)))))"

definition files_struct_write :: "u64 \<Rightarrow> int \<Rightarrow> u8 list \<Rightarrow> u64 \<Rightarrow> ('s, 'b) files_sys_scheme \<Rightarrow>
    (int \<times> ('s, 'b) files_sys_scheme) outcome" where
  "files_struct_write f fd inp buf_len s =
     bindO (node_addr f fd s) (\<lambda>na.
     bindO (seek_addr f fd s) (\<lambda>sa.
     if fword s na = 0 then null_node s else
     bindO (vfs_write (fword s na) (fword s sa) inp buf_len (fvfs s)) (\<lambda>(n, v).
     Inr (to_int n, advance sa (to_int n) (s\<lparr>fvfs := v\<rparr>)))))"

section \<open>Tables\<close>

text \<open>The loops that fill a new table.\<close>

fun clear_loop :: "u64 \<Rightarrow> u64 \<Rightarrow> nat list \<Rightarrow> ('s, 'b) files_sys_scheme \<Rightarrow> ('s, 'b) files_sys_scheme" where
  "clear_loop nd sk [] s = s"
| "clear_loop nd sk (i # is) s =
     clear_loop nd sk is (set_fword (word_addr sk (int i)) 0 (set_fword (word_addr nd (int i)) 0 s))"

fun copy_loop :: "u64 \<Rightarrow> u64 \<Rightarrow> u64 \<Rightarrow> u64 \<Rightarrow> nat list \<Rightarrow> ('s, 'b) files_sys_scheme \<Rightarrow> ('s, 'b) files_sys_scheme" where
  "copy_loop nd sk nd' sk' [] s = s"
| "copy_loop nd sk nd' sk' (i # is) s =
     (let s = set_fword (word_addr nd' (int i)) (fword s (word_addr nd (int i))) s;
          s = set_fword (word_addr sk' (int i)) (fword s (word_addr sk (int i))) s
      in copy_loop nd sk nd' sk' is s)"

definition TABLE_SIZE :: u64 where
  "TABLE_SIZE = PAGE_SIZE * POWER_OF_2 0 div 8"

text \<open>When memory runs out the null table is used all the same to open the three descriptors.\<close>

definition files_struct_create :: "('s, 'b) files_sys_scheme \<Rightarrow> (u64 \<times> ('s, 'b) files_sys_scheme) outcome" where
  "files_struct_create s =
     bindO (on_heap (kmalloc SIZEOF_FILES_STRUCT) s) (\<lambda>(f, s).
     bindO (if f = 0 then Inr (0, s)
            else bindO (on_heap (kh_pmem_alloc 1) s) (\<lambda>(nd, s).
              if nd \<noteq> 0 then
                let sk = nd + PAGE_SIZE;
                    s = s\<lparr>files_at := (files_at s)(f := \<lparr>fnodes = nd, fseek = sk, fsize = TABLE_SIZE\<rparr>)\<rparr>
                in Inr (f, clear_loop nd sk [0..<unat TABLE_SIZE] s)
              else bindO (do_heap (kfree f) s) (\<lambda>s. Inr (0, s)))) (\<lambda>(f, s).
     bindO (files_struct_alloc f 0 (cstr ''dev/stdin'') s) (\<lambda>(r, s).
     bindO (files_struct_alloc f 0 (cstr ''dev/stdout'') s) (\<lambda>(r, s).
     bindO (files_struct_alloc f 0 (cstr ''dev/stderr'') s) (\<lambda>(r, s). Inr (f, s))))))"

text \<open>The positions of the new table lie behind the nodes of the old one.\<close>

definition files_struct_clone :: "u64 \<Rightarrow> ('s, 'b) files_sys_scheme \<Rightarrow> (u64 \<times> ('s, 'b) files_sys_scheme) outcome" where
  "files_struct_clone f s =
     bindO (on_heap (kmalloc SIZEOF_FILES_STRUCT) s) (\<lambda>(g, s).
     bindO (on_heap (kh_pmem_alloc 1) s) (\<lambda>(nd, s).
     guardO Undefined (g \<noteq> 0 \<and> f \<noteq> 0 \<and> nd \<noteq> 0) (
     let old = files_at s f; sk = fnodes old + PAGE_SIZE;
         s = s\<lparr>files_at := (files_at s)(g := \<lparr>fnodes = nd, fseek = sk, fsize = TABLE_SIZE\<rparr>)\<rparr>
     in Inr (g, copy_loop (fnodes old) (fseek old) nd sk [0..<unat (fsize old)] s))))"

fun close_loop :: "u64 \<Rightarrow> nat list \<Rightarrow> ('s, 'b) files_sys_scheme \<Rightarrow> ('s, 'b) files_sys_scheme outcome" where
  "close_loop f [] s = Inr s"
| "close_loop f (i # is) s =
     (let node = fword s (word_addr (fnodes (files_at s f)) (int i))
      in bindO (if node \<noteq> 0 then close_node node s else Inr s) (close_loop f is))"

definition files_struct_destroy :: "u64 \<Rightarrow> ('s, 'b) files_sys_scheme \<Rightarrow> ('s, 'b) files_sys_scheme outcome" where
  "files_struct_destroy f s =
     guardO Undefined (f \<noteq> 0) (
     bindO (close_loop f [0..<unat (fsize (files_at s f))] s) (\<lambda>s.
     bindO (do_heap (kh_pmem_free (fnodes (files_at s f))) s) (\<lambda>s. do_heap (kfree f) s)))"

end
