(* ===== verification/File_Inv.thy ===== *)
theory File_Inv
  imports File
begin

text \<open>
  The tables of \<open>File\<close> as partial maps from descriptors to a vnode and a position, and two ways
  in which the memory of a table is used wrongly: a table and its clone share their positions,
  and a descriptor behind the table lies in the positions.
\<close>

section \<open>Words of a table\<close>

lemma word_addr_shift: "word_addr (p + 4096) i = word_addr p (i + 512)"
  by (simp add: word_addr_def algebra_simps)

lemma word_addr_inj:
  assumes "0 \<le> i" "i < 2 ^ 60" "0 \<le> j" "j < 2 ^ 60"
  shows "word_addr p i = word_addr p j \<longleftrightarrow> i = j"
proof
  assume "word_addr p i = word_addr p j"
  then have "(of_int (8 * i) :: u64) = of_int (8 * j)" by (simp add: word_addr_def)
  then have "take_bit 64 (8 * i) = take_bit 64 (8 * j)" by (simp only: word_of_int_eq_iff) simp
  then show "i = j" using assms by (simp add: take_bit_int_eq_self)
qed simp

definition node_of :: "u64 \<Rightarrow> ('s, 'b) files_sys_scheme \<Rightarrow> int \<Rightarrow> u64" where
  "node_of f s fd = fword s (word_addr (fnodes (files_at s f)) fd)"

definition pos_of :: "u64 \<Rightarrow> ('s, 'b) files_sys_scheme \<Rightarrow> int \<Rightarrow> u64" where
  "pos_of f s fd = fword s (word_addr (fseek (files_at s f)) fd)"

definition fd_range :: "int set" where
  "fd_range = {0..<512}"

text \<open>What a table that was created satisfies: descriptors that are not open have position 0.\<close>

definition table_ok :: "u64 \<Rightarrow> ('s, 'b) files_sys_scheme \<Rightarrow> bool" where
  "table_ok f s \<longleftrightarrow> f \<noteq> 0 \<and> fsize (files_at s f) = 512 \<and> fseek (files_at s f) = fnodes (files_at s f) + 4096 \<and>
     (\<forall>fd \<in> fd_range. node_of f s fd = 0 \<longrightarrow> pos_of f s fd = 0)"

definition fd_table :: "u64 \<Rightarrow> ('s, 'b) files_sys_scheme \<Rightarrow> int \<Rightarrow> (u64 \<times> u64) option" where
  "fd_table f s fd = (if fd \<in> fd_range \<and> node_of f s fd \<noteq> 0 then Some (node_of f s fd, pos_of f s fd) else None)"

lemma table_ok_nonnull: "table_ok f s \<Longrightarrow> f \<noteq> 0"
  by (simp add: table_ok_def)

lemma on_vfs_words: "on_vfs g s = Inr (x, s') \<Longrightarrow> fword s' = fword s \<and> files_at s' = files_at s"
  by (auto simp: on_vfs_def bindO_eq_Inr)

lemma set_fword_simps [simp]:
  "fword (set_fword a x s) b = (if b = a then x else fword s b)" "files_at (set_fword a x s) = files_at s"
  "fvfs (set_fword a x s) = fvfs s"
  by (simp_all add: set_fword_def)

lemma same_words:
  assumes "fword s' = fword s" "files_at s' = files_at s"
  shows "node_of f s' = node_of f s" "pos_of f s' = pos_of f s" "fd_table f s' = fd_table f s" "table_ok f s' = table_ok f s"
  using assms by (auto simp: node_of_def [abs_def] pos_of_def [abs_def] fd_table_def [abs_def] table_ok_def fun_eq_iff)

lemma set_node:
  assumes "table_ok f s" "fd \<in> fd_range" "j \<in> fd_range"
  shows "node_of f (set_fword (word_addr (fnodes (files_at s f)) fd) x s) j = (if j = fd then x else node_of f s j)"
    "pos_of f (set_fword (word_addr (fnodes (files_at s f)) fd) x s) j = pos_of f s j"
  using assms word_addr_inj by (auto simp: node_of_def pos_of_def table_ok_def fd_range_def word_addr_shift)

lemma set_pos:
  assumes "table_ok f s" "fd \<in> fd_range" "j \<in> fd_range"
  shows "pos_of f (set_fword (word_addr (fseek (files_at s f)) fd) x s) j = (if j = fd then x else pos_of f s j)"
    "node_of f (set_fword (word_addr (fseek (files_at s f)) fd) x s) j = node_of f s j"
  using assms word_addr_inj by (auto simp: node_of_def pos_of_def table_ok_def fd_range_def word_addr_shift)

lemma free_slot_first:
  "free_slot f (map nat [a..b]) s = r \<Longrightarrow> 0 \<le> a \<Longrightarrow>
     (r = -1 \<and> (\<forall>j. a \<le> j \<and> j \<le> b \<longrightarrow> node_of f s j \<noteq> 0)) \<or>
     (a \<le> r \<and> r \<le> b \<and> node_of f s r = 0 \<and> (\<forall>j. a \<le> j \<and> j < r \<longrightarrow> node_of f s j \<noteq> 0))"
proof (induction "nat (b + 1 - a)" arbitrary: a)
  case 0
  then show ?case by auto
next
  case (Suc n)
  then have ab: "a \<le> b" by simp
  then have l: "[a..b] = a # [a + 1..b]" by (simp add: upto_rec1)
  show ?case
  proof (cases "node_of f s a = 0")
    case True
    then show ?thesis using Suc.prems ab unfolding l by (auto simp: node_of_def)
  next
    case False
    then have "free_slot f (map nat [a + 1..b]) s = r" using Suc.prems unfolding l by (auto simp: node_of_def)
    moreover have "n = nat (b + 1 - (a + 1))" using Suc.hyps(2) by simp
    ultimately have "(r = -1 \<and> (\<forall>j. a + 1 \<le> j \<and> j \<le> b \<longrightarrow> node_of f s j \<noteq> 0)) \<or>
       (a + 1 \<le> r \<and> r \<le> b \<and> node_of f s r = 0 \<and> (\<forall>j. a + 1 \<le> j \<and> j < r \<longrightarrow> node_of f s j \<noteq> 0))"
      using Suc.hyps(1) [of "a + 1"] Suc.prems(2) by simp
    moreover have "(a \<le> j) = (j = a \<or> a + 1 \<le> j)" for j by auto
    ultimately show ?thesis using False by auto
  qed
qed

lemma upt_upto: "[0..<n] = map nat [0..int n - 1]"
proof (induction n)
  case (Suc n)
  then show ?case by (simp add: upto_rec2)
qed simp

lemma free_slot_table:
  assumes "table_ok f s" "free_slot f [0..<unat (fsize (files_at s f))] s = r"
  shows "(r = -1 \<and> (\<forall>fd \<in> fd_range. fd_table f s fd \<noteq> None)) \<or>
     (r \<in> fd_range \<and> node_of f s r = 0 \<and> (\<forall>fd \<in> fd_range. fd < r \<longrightarrow> fd_table f s fd \<noteq> None))"
proof -
  have "free_slot f (map nat [0..511]) s = r" using assms upt_upto [of 512] by (simp add: table_ok_def)
  from free_slot_first [OF this] show ?thesis by (auto simp: fd_range_def fd_table_def)
qed

section \<open>Opening and closing\<close>

lemma open_entry:
  assumes "table_ok f s" "fd \<in> fd_range" "node_of f s fd = 0" "x \<noteq> 0"
  shows "table_ok f (set_fword (word_addr (fnodes (files_at s f)) fd) x s)"
    "fd_table f (set_fword (word_addr (fnodes (files_at s f)) fd) x s) = (fd_table f s)(fd \<mapsto> (x, 0))"
proof -
  have p: "pos_of f s fd = 0" using assms by (auto simp: table_ok_def)
  show "table_ok f (set_fword (word_addr (fnodes (files_at s f)) fd) x s)"
    unfolding table_ok_def using assms set_node [OF assms(1,2)] by (auto simp: table_ok_def)
  show "fd_table f (set_fword (word_addr (fnodes (files_at s f)) fd) x s) = (fd_table f s)(fd \<mapsto> (x, 0))"
    using assms set_node [OF assms(1,2)] p by (auto simp: fd_table_def fun_eq_iff split: if_splits)
qed

lemma close_entry:
  assumes "table_ok f s" "fd \<in> fd_range"
  shows "table_ok f (set_fword (word_addr (fnodes (files_at s f)) fd) 0 (set_fword (word_addr (fseek (files_at s f)) fd) 0 s))"
    "fd_table f (set_fword (word_addr (fnodes (files_at s f)) fd) 0 (set_fword (word_addr (fseek (files_at s f)) fd) 0 s)) =
       (fd_table f s)(fd := None)"
proof -
  let ?t = "set_fword (word_addr (fseek (files_at s f)) fd) 0 s"
  have t: "table_ok f ?t" unfolding table_ok_def using assms set_pos [OF assms] by (auto simp: table_ok_def)
  have e: "files_at ?t = files_at s" by simp
  note n = set_node [OF t assms(2), unfolded e]
  show "table_ok f (set_fword (word_addr (fnodes (files_at s f)) fd) 0 ?t)"
    unfolding table_ok_def using t n set_pos [OF assms] by (auto simp: table_ok_def)
  show "fd_table f (set_fword (word_addr (fnodes (files_at s f)) fd) 0 ?t) = (fd_table f s)(fd := None)"
    using n set_pos [OF assms] assms(2) by (auto simp: fd_table_def fun_eq_iff split: if_splits)
qed

lemma alloc_refines:
  assumes "table_ok f s" "files_struct_alloc f par pth s = Inr (r, s')"
  shows "table_ok f s' \<and>
      (r = -1 \<and> fd_table f s' = fd_table f s \<or>
       r \<in> fd_range \<and> fd_table f s r = None \<and> (\<forall>fd \<in> fd_range. fd < r \<longrightarrow> fd_table f s fd \<noteq> None) \<and>
       (\<exists>node. node \<noteq> 0 \<and> fd_table f s' = (fd_table f s)(r \<mapsto> (node, 0))))"
proof -
  note a = assms(2)
  let ?i = "free_slot f [0..<unat (fsize (files_at s f))] s"
  show ?thesis
  proof (cases "?i = -1")
    case True
    then show ?thesis using a assms(1) by (auto simp: files_struct_alloc_def outcome_simps Let_def)
  next
    case False
    then have b: "bindO (on_vfs (vfs_open par pth) s) (\<lambda>(node, t).
          if node \<noteq> 0 then Inr (?i, set_fword (word_addr (fnodes (files_at t f)) ?i) node t) else Inr (-1, t)) = Inr (r, s')"
      using a False assms(1) [THEN table_ok_nonnull] by (simp add: files_struct_alloc_def Let_def)
    obtain node t where o: "on_vfs (vfs_open par pth) s = Inr (node, t)"
        and r: "node \<noteq> 0 \<Longrightarrow> r = ?i \<and> s' = set_fword (word_addr (fnodes (files_at t f)) ?i) node t" "node = 0 \<Longrightarrow> r = -1 \<and> s' = t"
      using b unfolding bindO_eq_Inr by (auto split: if_splits)
    note w = same_words [OF on_vfs_words [OF o, THEN conjunct1] on_vfs_words [OF o, THEN conjunct2]]
    have i: "?i \<in> fd_range" "node_of f s ?i = 0" "\<forall>fd \<in> fd_range. fd < ?i \<longrightarrow> fd_table f s fd \<noteq> None"
      using free_slot_table [OF assms(1) refl] False by auto
    then have "fd_table f s ?i = None" by (simp add: fd_table_def)
    moreover have "table_ok f t" "node_of f t ?i = 0" using w assms(1) i by auto
    ultimately show ?thesis using r i w open_entry [of f t ?i node] by (cases "node = 0") auto
  qed
qed

lemma free_refines:
  assumes "table_ok f s" "fd_table f s fd \<noteq> None"
  shows "\<exists>t. files_struct_free f fd s = Inr t \<and> table_ok f t \<and> fd_table f t = (fd_table f s)(fd := None)"
proof -
  have fd: "fd \<in> fd_range" "node_of f s fd \<noteq> 0" using assms(2) by (auto simp: fd_table_def split: if_splits)
  let ?t = "s\<lparr>fvfs := vfs_close (node_of f s fd) (fvfs s)\<rparr>"
  have w: "fword ?t = fword s" "files_at ?t = files_at s" by simp_all
  have "files_struct_free f fd s = Inr (set_fword (word_addr (fnodes (files_at ?t f)) fd) 0
      (set_fword (word_addr (fseek (files_at ?t f)) fd) 0 ?t))"
    using fd assms(1) by (simp add: files_struct_free_def node_addr_def seek_addr_def close_node_def node_of_def table_ok_def fd_range_def)
  then show ?thesis
    using close_entry [of f ?t fd] same_words [OF w] assms(1) fd by auto
qed

text \<open>C17. A table of open files is a partial map from descriptors to a vnode and a position. Opening
  a file gives the least descriptor that is not open, at position 0, or -1 and no change, and
  closing a descriptor removes it and no other; both keep the table well formed.\<close>

theorem files_table_refines:
  assumes "table_ok f s"
  shows "(\<forall>par pth r s'. files_struct_alloc f par pth s = Inr (r, s') \<longrightarrow> table_ok f s' \<and>
      (r = -1 \<and> fd_table f s' = fd_table f s \<or>
       r \<in> fd_range \<and> fd_table f s r = None \<and> (\<forall>fd \<in> fd_range. fd < r \<longrightarrow> fd_table f s fd \<noteq> None) \<and>
       (\<exists>node. node \<noteq> 0 \<and> fd_table f s' = (fd_table f s)(r \<mapsto> (node, 0))))) \<and>
    (\<forall>fd. fd_table f s fd \<noteq> None \<longrightarrow>
      (\<exists>t. files_struct_free f fd s = Inr t \<and> table_ok f t \<and> fd_table f t = (fd_table f s)(fd := None)))"
  by (intro conjI allI impI alloc_refines [OF assms] free_refines [OF assms])

section \<open>Clones\<close>

lemma copy_loop_files [simp]: "files_at (copy_loop nd sk nd' sk' is s) = files_at s"
  by (induction nd sk nd' sk' "is" s rule: copy_loop.induct) (simp_all add: Let_def)

text \<open>Copying the positions on themselves changes nothing.\<close>

lemma copy_loop_other:
  "a \<notin> (\<lambda>i. word_addr nd' (int i)) ` set is \<Longrightarrow> fword (copy_loop nd sk nd' sk is s) a = fword s a"
  by (induction "is" arbitrary: s) (auto simp: Let_def)

lemma copy_loop_copied:
  assumes "distinct is" "set is \<subseteq> {..<1024}" "i \<in> set is"
    and "\<And>i j. i \<in> set is \<Longrightarrow> j \<in> set is \<Longrightarrow> word_addr nd' (int i) \<noteq> word_addr nd (int j)"
  shows "fword (copy_loop nd sk nd' sk is s) (word_addr nd' (int i)) = fword s (word_addr nd (int i))"
  using assms
proof (induction "is" arbitrary: s)
  case (Cons k ks)
  let ?s = "set_fword (word_addr nd' (int k)) (fword s (word_addr nd (int k))) s"
  let ?t = "set_fword (word_addr sk (int k)) (fword ?s (word_addr sk (int k))) ?s"
  have e: "copy_loop nd sk nd' sk (k # ks) s = copy_loop nd sk nd' sk ks ?t" by (simp add: Let_def)
  show ?case
  proof (cases "i = k")
    case True
    have "word_addr nd' (int k) \<notin> (\<lambda>i. word_addr nd' (int i)) ` set ks"
      using Cons.prems(1,2) by (auto simp: word_addr_inj)
    then show ?thesis unfolding e True by (simp add: copy_loop_other)
  next
    case False
    then have "fword (copy_loop nd sk nd' sk ks ?t) (word_addr nd' (int i)) = fword ?t (word_addr nd (int i))"
      using Cons.prems by (intro Cons.IH) auto
    moreover have "word_addr nd (int i) \<noteq> word_addr nd' (int k)" using Cons.prems(3) Cons.prems(4) [of k i] by auto
    ultimately show ?thesis unfolding e by simp
  qed
qed simp

text \<open>C30. A table and its clone have the same vnodes but also the same memory for the positions, since
  the clone's pointer is computed from the old array. Closing a descriptor of the clone rewinds
  the original's to the start of the file, which stays open there.\<close>

theorem files_struct_clone_shares_positions:
  assumes "table_ok f s" "files_struct_clone f s = Inr (g, s')" "g \<noteq> f"
    and "\<And>i j. i \<in> fd_range \<Longrightarrow> 0 \<le> j \<Longrightarrow> j < 1024 \<Longrightarrow> word_addr (fnodes (files_at s' g)) i \<noteq> word_addr (fnodes (files_at s f)) j"
    and "fd_table f s fd = Some (node, p)"
  shows "fd_table f s' fd = Some (node, p) \<and> fd_table g s' fd = Some (node, p) \<and> seek_addr g fd s' = seek_addr f fd s' \<and>
     (\<exists>t. files_struct_free g fd s' = Inr t \<and> fd_table f t fd = Some (node, 0))"
proof -
  let ?nd = "fnodes (files_at s f)" and ?nd' = "fnodes (files_at s' g)"
  obtain k nd where s': "s' = copy_loop ?nd (fseek (files_at s f)) nd (?nd + 4096) [0..<unat (fsize (files_at s f))]
      (s\<lparr>fvfs := k, files_at := (files_at s)(g := \<lparr>fnodes = nd, fseek = ?nd + 4096, fsize = TABLE_SIZE\<rparr>)\<rparr>)"
    and nz: "g \<noteq> 0" "f \<noteq> 0"
    using assms(2) by (auto simp: files_struct_clone_def on_heap_def on_vfs_def outcome_simps Let_def PAGE_SIZE_def)
  have t: "fseek (files_at s f) = ?nd + 4096" "unat (fsize (files_at s f)) = 512" using assms(1) by (simp_all add: table_ok_def)
  have fs: "files_at s' f = files_at s f" "fseek (files_at s' g) = ?nd + 4096" "?nd' = nd"
    using assms(3) by (simp_all add: s')
  have fd: "fd \<in> fd_range" "node \<noteq> 0" "node_of f s fd = node" "pos_of f s fd = p"
    using assms(5) by (auto simp: fd_table_def split: if_splits)
  have other: "fword s' (word_addr ?nd j) = fword s (word_addr ?nd j)" if "0 \<le> j" "j < 1024" for j
  proof -
    have "word_addr ?nd j \<noteq> word_addr nd (int i)" if "i < 512" for i
      using assms(4) [of "int i" j] \<open>0 \<le> j\<close> \<open>j < 1024\<close> that by (simp add: fs(3) fd_range_def)
    then have "word_addr ?nd j \<notin> (\<lambda>i. word_addr nd (int i)) ` set [0..<512]" by (metis (no_types, lifting) atLeastLessThan_iff imageE set_upt)
    then show ?thesis unfolding s' t by (simp add: copy_loop_other)
  qed
  have "fword s' (word_addr nd (int (nat fd))) = fword s (word_addr ?nd (int (nat fd)))"
    unfolding s' t
  proof (subst copy_loop_copied)
    fix i j assume "i \<in> set [0..<512]" "j \<in> set [0..<512]"
    then show "word_addr nd (int i) \<noteq> word_addr ?nd (int j)"
      using assms(4) [of "int i" "int j"] by (simp add: fs(3) fd_range_def)
  qed (use fd(1) in \<open>auto simp: fd_range_def\<close>)
  then have n: "node_of g s' fd = node" "node_of f s' fd = node" "pos_of f s' fd = p" "pos_of g s' fd = p"
    using fd other [of fd] other [of "fd + 512"] by (simp_all add: node_of_def pos_of_def fs t fd_range_def word_addr_shift)
  moreover have sa: "seek_addr g fd s' = Inr (word_addr (?nd + 4096) fd)" "seek_addr f fd s' = Inr (word_addr (?nd + 4096) fd)"
    using fd(1) nz by (simp_all add: seek_addr_def fs t fd_range_def)
  moreover define u where "u = set_fword (word_addr nd fd) 0 (set_fword (word_addr (?nd + 4096) fd) 0 (s'\<lparr>fvfs := vfs_close node (fvfs s')\<rparr>))"
  have "files_struct_free g fd s' = Inr u"
    using fd n(1) nz sa by (simp add: files_struct_free_def node_addr_def close_node_def node_of_def fs u_def seek_addr_def fd_range_def)
  moreover have "node_of f u fd = node" "pos_of f u fd = 0"
    using fd n(2) assms(4) [OF fd(1), of fd] assms(4) [OF fd(1), of "fd + 512"] word_addr_inj [of fd "fd + 512" ?nd]
    by (auto simp: u_def node_of_def pos_of_def fs t fd_range_def word_addr_shift)
  ultimately show ?thesis using fd(1,2) by (auto simp: fd_table_def)
qed

text \<open>Duplicating to a descriptor between 512 and 1023 succeeds when the position of the descriptor
  512 below is zero, and overwrites that position with the address of the vnode.\<close>

lemma files_struct_dup_overwrites_position:
  assumes "table_ok f s" "files_struct_check f old s = Inr True" "fd \<in> fd_range" "pos_of f s fd = 0"
    and "files_struct_dup f old (fd + 512) s = Inr (r, s')"
  shows "r = fd + 512 \<and> pos_of f s' fd = node_of f s old"
proof -
  have a: "fseek (files_at s f) = fnodes (files_at s f) + 4096" "f \<noteq> 0" using assms(1) by (simp_all add: table_ok_def)
  have o: "0 \<le> old" "old < 1024" using assms(1,2) by (auto simp: files_struct_check_def table_ok_def guardO_def split: if_splits)
  obtain v where v: "on_vfs (vfs_reopen (node_of f s old)) s = Inr (node_of f s old, v)" "files_at v = files_at s"
      and r: "r = fd + 512" "s' = set_fword (word_addr (fnodes (files_at s f)) (fd + 512)) (node_of f s old) v"
    using assms(2-5) a o on_vfs_words
    by (auto simp: files_struct_dup_def reopen_at_def node_addr_def pos_of_def node_of_def fd_range_def word_addr_shift outcome_simps
        on_vfs_def vfs_reopen_def)
  then show ?thesis using a by (simp add: pos_of_def word_addr_shift)
qed

section \<open>A small table\<close>

text \<open>A heap whose slab lies in a page of the allocator, so that objects can be freed.\<close>

definition free_heap :: kchain where
  "free_heap =
     (case bindO (kh_pmem_alloc 0 boot_heap) (\<lambda>(p, h). kh_set_adat p 1000 h) of
        Inl e \<Rightarrow> demo_heap
      | Inr h \<Rightarrow> kheap.extend
          (h\<lparr>links := list_add 64 (partial_head 1000) (list_init (full_head 1000) (list_init (partial_head 1000)
               (list_init (free_head 1000) (list_add 1000 8 (list_init 8 (links h)))))),
            objsize_at := (\<lambda>_. 512),
            word_at := (\<lambda>a. if a < 12288 + 3584 then a + 512 else 0),
            slab_at := (\<lambda>_. \<lparr>pg = 12288, objs = 12288, size_obj = 512, free_obj = 8, total_obj = 8, order = 0\<rparr>)\<rparr>)
          (kchain.fields 8 0 0 (spinlock_init ''kmem_cache'')))"

definition demo_files :: "(u64 \<Rightarrow> u64) \<Rightarrow> unit files_sys" where
  "demo_files w = \<lparr>fvfs = (fresh_file () counter_backend 6000)\<lparr>root_node := 8, vheap := free_heap,
       vnode_at := (\<lambda>a. \<lparr>ref_cnt = 0, parent = 8, child_cnt = 0, vsize = 0, vtype = VNODE_DIR, vname = None, lfs_obj = 16,
                     bkd = Some counter_backend\<rparr>)\<rparr>,
     files_at = (\<lambda>_. \<lparr>fnodes = 0x200000, fseek = 0x201000, fsize = 512\<rparr>), fword = w\<rparr>"

lemma demo_files_ok: "table_ok 16 (demo_files (\<lambda>_. 0))" "fd_table 16 (demo_files (\<lambda>_. 0)) = (\<lambda>_. None)"
  by (auto simp: table_ok_def demo_files_def node_of_def pos_of_def fd_table_def)

lemma demo_files_open: "case files_struct_alloc 16 0 [46, 0] (demo_files (\<lambda>_. 0)) of Inl e \<Rightarrow> False | Inr (r, s) \<Rightarrow> r = 0"
  by code_simp

lemma demo_files_heap: "requests [Inr 24, Inl 1] free_heap = Inr [12288, 4096]"
  by code_simp

theorem files_table_refines_witness:
  "\<exists>s t node. files_struct_alloc 16 0 [46, 0] (demo_files (\<lambda>_. 0)) = Inr (0, s) \<and> fd_table 16 s = [0 \<mapsto> (node, 0)] \<and>
     files_struct_free 16 0 s = Inr t \<and> table_ok 16 t \<and> fd_table 16 t = Map.empty"
proof -
  obtain s where s: "files_struct_alloc 16 0 [46, 0] (demo_files (\<lambda>_. 0)) = Inr (0, s)"
    using demo_files_open by (auto split: sum.split_asm)
  obtain node where "table_ok 16 s" "fd_table 16 s = [0 \<mapsto> (node, 0)]"
    using conjunct1 [OF files_table_refines [OF demo_files_ok(1)], rule_format, OF s] by (auto simp: demo_files_ok(2))
  then show ?thesis using s conjunct2 [OF files_table_refines [of 16 s], rule_format, of 0] by auto
qed

text \<open>One open descriptor, at position 5.\<close>

theorem files_struct_clone_shares_positions_witness:
  "\<exists>s' t. files_struct_clone 16 (demo_files ((\<lambda>_. 0)(0x200000 := 8, 0x201000 := 5))) = Inr (12288, s') \<and>
     fd_table 16 s' 0 = Some (8, 5) \<and> fd_table 12288 s' 0 = Some (8, 5) \<and> files_struct_free 12288 0 s' = Inr t \<and>
     fd_table 16 t 0 = Some (8, 0)"
proof -
  let ?w = "(\<lambda>_. 0 :: u64)(0x200000 := 8, 0x201000 := 5)" and ?s = "demo_files ((\<lambda>_. 0)(0x200000 := 8, 0x201000 := 5))"
  have w: "word_addr p 0 = p" for p by (simp add: word_addr_def)
  have f: "files_at ?s = (\<lambda>_. \<lparr>fnodes = 0x200000, fseek = 0x201000, fsize = 512\<rparr>)" "fword ?s = ?w" "vheap (fvfs ?s) = free_heap"
    by (simp_all add: demo_files_def)
  have ok: "table_ok 16 ?s"
    unfolding table_ok_def
  proof (intro conjI ballI impI)
    fix fd assume fd: "fd \<in> fd_range" "node_of 16 ?s fd = 0"
    then have "fd \<noteq> 0" by (auto simp: node_of_def f w)
    then have "word_addr 0x200000 (fd + 512) \<noteq> word_addr 0x200000 512" "word_addr 0x200000 (fd + 512) \<noteq> word_addr 0x200000 0"
      using fd(1) by (simp_all add: word_addr_inj fd_range_def)
    then show "pos_of 16 ?s fd = 0" using word_addr_shift [of "0x200000" fd] by (simp add: pos_of_def f word_addr_def)
  qed (simp_all add: f)
  have tab: "fd_table 16 ?s 0 = Some (8, 5)" by (simp add: fd_table_def node_of_def pos_of_def f w fd_range_def)
  obtain k1 k2 where k: "kmalloc 24 free_heap = Inr (12288, k1)" "kh_pmem_alloc 1 k1 = Inr (4096, k2)"
    using demo_files_heap by (auto simp: bindO_eq_Inr)
  obtain s' where s': "files_struct_clone 16 ?s = Inr (12288, s')" "fnodes (files_at s' 12288) = 4096"
    using k f by (simp add: files_struct_clone_def SIZEOF_FILES_STRUCT_def on_heap_def on_vfs_def Let_def)
  have "word_addr 4096 i \<noteq> word_addr 0x200000 j" if "i \<in> fd_range" "0 \<le> j" "j < 1024" for i j
  proof -
    have "word_addr 0x200000 j = word_addr 4096 (j + 261632)" by (simp add: word_addr_def algebra_simps)
    then show ?thesis using that by (simp add: word_addr_inj fd_range_def)
  qed
  then show ?thesis
    using files_struct_clone_shares_positions [OF ok s'(1) _ _ tab] s' f by auto
qed

end
