(* ===== verification/Asm.thy ===== *)
theory Asm
  imports File_Inv
begin

text \<open>
  Models the assembly code of the kernel: \<open>kernel/swtch.s\<close>, which switches between two
  contexts, \<open>kernel/uvec_asm.s\<close>, the way into the kernel from a process and back, and
  \<open>kernel/kvec_asm.s\<close>, the way into a trap of the kernel and back. A small machine executes
  the instructions they use; memory is a function from addresses to words.
\<close>

section \<open>The machine\<close>

text \<open>Registers have their numbers; the names are those of the calling convention.\<close>

type_synonym reg = nat

definition R_ra :: reg where "R_ra = 1"
definition R_sp :: reg where "R_sp = 2"
definition R_gp :: reg where "R_gp = 3"
definition R_tp :: reg where "R_tp = 4"
definition R_t :: "nat \<Rightarrow> reg" where "R_t i = (if i < 3 then 5 + i else 25 + i)"
definition R_s :: "nat \<Rightarrow> reg" where "R_s i = (if i < 2 then 8 + i else 16 + i)"
definition R_a :: "nat \<Rightarrow> reg" where "R_a i = 10 + i"

lemmas reg_defs = R_ra_def R_sp_def R_gp_def R_tp_def R_t_def R_s_def R_a_def

text \<open>\<open>Sd r k b\<close> stores register \<open>r\<close> in the \<open>k\<close>-th word behind register \<open>b\<close>, \<open>Ld\<close> loads from there.\<close>

datatype instr =
    Sd reg nat reg | Ld reg nat reg | Addi reg reg int
  | Csrrw_sscratch reg reg | Csrr_sscratch reg | Csrw_sscratch reg | Csrw_satp reg
  | Sfence_vma | Jr reg | Ret | Sret

record acpu =
  xr :: "reg \<Rightarrow> u64"
  xmem :: "u64 \<Rightarrow> u64"
  xsscratch :: u64
  xsatp :: u64
  xpc :: u64

fun exec1 :: "instr \<Rightarrow> acpu \<Rightarrow> acpu" where
  "exec1 (Sd r k b) c = c\<lparr>xmem := (xmem c)(word_addr (xr c b) (int k) := xr c r)\<rparr>"
| "exec1 (Ld r k b) c = c\<lparr>xr := (xr c)(r := xmem c (word_addr (xr c b) (int k)))\<rparr>"
| "exec1 (Addi r b i) c = c\<lparr>xr := (xr c)(r := xr c b + of_int i)\<rparr>"
| "exec1 (Csrrw_sscratch r b) c = c\<lparr>xr := (xr c)(r := xsscratch c), xsscratch := xr c b\<rparr>"
| "exec1 (Csrr_sscratch r) c = c\<lparr>xr := (xr c)(r := xsscratch c)\<rparr>"
| "exec1 (Csrw_sscratch r) c = c\<lparr>xsscratch := xr c r\<rparr>"
| "exec1 (Csrw_satp r) c = c\<lparr>xsatp := xr c r\<rparr>"
| "exec1 Sfence_vma c = c"
| "exec1 (Jr r) c = c\<lparr>xpc := xr c r\<rparr>"
| "exec1 Ret c = c\<lparr>xpc := xr c R_ra\<rparr>"
| "exec1 Sret c = c"

fun exec :: "instr list \<Rightarrow> acpu \<Rightarrow> acpu" where
  "exec [] c = c"
| "exec (i # is) c = exec is (exec1 i c)"

lemma exec_append [simp]: "exec (is @ js) c = exec js (exec is c)"
  by (induction "is" arbitrary: c) auto

text \<open>Storing and loading the registers of a table of slots and registers.\<close>

definition save_all :: "(nat \<times> reg) list \<Rightarrow> reg \<Rightarrow> instr list" where
  "save_all rs b = map (\<lambda>(k, r). Sd r k b) rs"

definition load_all :: "(nat \<times> reg) list \<Rightarrow> reg \<Rightarrow> instr list" where
  "load_all rs b = map (\<lambda>(k, r). Ld r k b) rs"

section \<open>Switching contexts\<close>

text \<open>The words of \<open>struct context\<close> that \<open>swtch\<close> uses; \<open>a0\<close> is the old and \<open>a1\<close> the new context.\<close>

definition ctx_slots :: "(nat \<times> reg) list" where
  "ctx_slots = [(0, R_sp), (3, R_s 0), (4, R_s 1), (5, R_s 2), (6, R_s 3), (7, R_s 4), (8, R_s 5), (9, R_s 6), (10, R_s 7),
     (11, R_s 8), (12, R_s 9), (13, R_s 10), (14, R_s 11), (15, R_ra)]"

definition swtch_asm :: "instr list" where
  "swtch_asm = save_all ctx_slots (R_a 0) @ load_all ctx_slots (R_a 1) @ [Ret]"

section \<open>Traps from a process\<close>

text \<open>The words of \<open>struct trapframe\<close> in which the registers are saved, and those from which they
  are restored; they differ for the last four registers.\<close>

definition tf_common :: "(nat \<times> reg) list" where
  "tf_common = [(0, R_ra), (1, R_sp), (2, R_gp), (3, R_tp), (4, R_t 0), (5, R_t 1), (6, R_t 2), (7, R_s 0), (8, R_s 1),
     (10, R_a 1), (11, R_a 2), (12, R_a 3), (13, R_a 4), (14, R_a 5), (15, R_a 6), (16, R_a 7),
     (17, R_s 2), (18, R_s 3), (19, R_s 4), (20, R_s 5), (21, R_s 6), (22, R_s 7), (23, R_s 8), (24, R_s 9), (25, R_s 10), (26, R_s 11)]"

definition uvec_enter_asm :: "instr list" where
  "uvec_enter_asm =
     [Csrrw_sscratch (R_a 0) (R_a 0)] @
     save_all (tf_common @ [(27, R_t 3), (28, R_t 4), (29, R_t 5), (30, R_t 6)]) (R_a 0) @
     [Csrr_sscratch (R_t 0), Sd (R_t 0) 9 (R_a 0),
      Ld R_sp 33 (R_a 0), Ld R_tp 34 (R_a 0), Ld (R_t 0) 32 (R_a 0), Ld (R_t 1) 35 (R_a 0),
      Csrw_satp (R_t 0), Sfence_vma, Jr (R_t 1)]"

definition uvec_ret_asm :: "instr list" where
  "uvec_ret_asm =
     [Csrw_satp (R_a 1), Sfence_vma, Ld (R_t 0) 9 (R_a 0), Csrw_sscratch (R_t 0)] @
     load_all (tf_common @ [(28, R_t 3), (29, R_t 4), (30, R_t 5), (31, R_t 6)]) (R_a 0) @
     [Csrrw_sscratch (R_a 0) (R_a 0), Sret]"

section \<open>Traps in the kernel\<close>

definition kvec_enter_asm :: "instr list" where
  "kvec_enter_asm = Addi R_sp R_sp (-512) # map (\<lambda>i. Sd i i R_sp) [1..<32]"

text \<open>The stack pointer itself is among the registers that are loaded.\<close>

definition kvec_ret_asm :: "instr list" where
  "kvec_ret_asm = map (\<lambda>i. Ld i i R_sp) [1..<32] @ [Addi R_sp R_sp 512, Sret]"

end
