(* ===== verification/Asm_Inv.thy ===== *)
theory Asm_Inv
  imports Asm
begin

text \<open>
  What the assembly code of \<open>Asm\<close> keeps: a context that is saved is restored by switching back to
  it, and the registers of a process survive a trap, but for four of them.
\<close>

section \<open>Saving and loading tables of registers\<close>

text \<open>A table in which every slot and every register occurs once.\<close>

definition table_inj :: "(nat \<times> reg) list \<Rightarrow> bool" where
  "table_inj rs \<longleftrightarrow> distinct (map fst rs) \<and> distinct (map snd rs) \<and> (\<forall>k \<in> set (map fst rs). k < 1024)"

lemma word_addr_nat_inj: "k < 1024 \<Longrightarrow> j < 1024 \<Longrightarrow> word_addr p (int k) = word_addr p (int j) \<longleftrightarrow> k = j"
  by (simp add: word_addr_inj)

lemma exec_save_regs [simp]:
  "xr (exec (save_all rs b) c) = xr c" "xsscratch (exec (save_all rs b) c) = xsscratch c"
  "xsatp (exec (save_all rs b) c) = xsatp c" "xpc (exec (save_all rs b) c) = xpc c"
  by (induction rs arbitrary: c) (auto simp: save_all_def)

lemma exec_save_other:
  "(\<forall>(k, r) \<in> set rs. a \<noteq> word_addr (xr c b) (int k)) \<Longrightarrow> xmem (exec (save_all rs b) c) a = xmem c a"
  by (induction rs arbitrary: c) (auto simp: save_all_def)

lemma exec_save_slot:
  "table_inj rs \<Longrightarrow> (k, r) \<in> set rs \<Longrightarrow> xmem (exec (save_all rs b) c) (word_addr (xr c b) (int k)) = xr c r"
proof (induction rs arbitrary: c)
  case (Cons x rs)
  obtain j q where x: "x = (j, q)" by (cases x)
  let ?c = "exec1 (Sd q j b) c"
  have e: "exec (save_all (x # rs) b) c = exec (save_all rs b) ?c" by (simp add: save_all_def x)
  show ?case
  proof (cases "(k, r) = (j, q)")
    case True
    have "\<forall>(k', r') \<in> set rs. word_addr (xr ?c b) (int k) \<noteq> word_addr (xr ?c b) (int k')"
      using Cons.prems(1) True x by (force simp: table_inj_def word_addr_nat_inj)
    from exec_save_other [OF this] show ?thesis using True unfolding e by simp
  next
    case False
    then have "(k, r) \<in> set rs" "table_inj rs" using Cons.prems x by (auto simp: table_inj_def)
    from Cons.IH [OF this(2,1), of ?c] show ?thesis unfolding e by simp
  qed
qed simp

lemma exec_load_fields [simp]:
  "xmem (exec (load_all rs b) c) = xmem c" "xsscratch (exec (load_all rs b) c) = xsscratch c"
  "xsatp (exec (load_all rs b) c) = xsatp c" "xpc (exec (load_all rs b) c) = xpc c"
  by (induction rs arbitrary: c) (auto simp: load_all_def)

lemma exec_load_other: "r \<notin> snd ` set rs \<Longrightarrow> xr (exec (load_all rs b) c) r = xr c r"
  by (induction rs arbitrary: c) (auto simp: load_all_def)

text \<open>The base register may be among the registers loaded when its slot holds its own value.\<close>

lemma exec_load_slot_base:
  "table_inj rs \<Longrightarrow> (k, r) \<in> set rs \<Longrightarrow> (\<And>j. (j, b) \<in> set rs \<Longrightarrow> xmem c (word_addr (xr c b) (int j)) = xr c b) \<Longrightarrow>
     xr (exec (load_all rs b) c) r = xmem c (word_addr (xr c b) (int k))"
proof (induction rs arbitrary: c)
  case (Cons x rs)
  obtain j q where x: "x = (j, q)" by (cases x)
  let ?c = "exec1 (Ld q j b) c"
  have e: "exec (load_all (x # rs) b) c = exec (load_all rs b) ?c" by (simp add: load_all_def x)
  have b: "xr ?c b = xr c b" using Cons.prems(3) [of j] x by auto
  show ?case
  proof (cases "(k, r) = (j, q)")
    case True
    have "r \<notin> snd ` set rs" using Cons.prems(1) True x by (force simp: table_inj_def)
    from exec_load_other [OF this, of b ?c] show ?thesis using True unfolding e by simp
  next
    case False
    then have p: "(k, r) \<in> set rs" "table_inj rs" using Cons.prems x by (auto simp: table_inj_def)
    have "xr (exec (load_all rs b) ?c) r = xmem ?c (word_addr (xr ?c b) (int k))"
      by (rule Cons.IH [OF p(2,1)]) (use Cons.prems(3) x b in auto)
    then show ?thesis unfolding e b by simp
  qed
qed simp

lemma exec_load_slot:
  "table_inj rs \<Longrightarrow> (k, r) \<in> set rs \<Longrightarrow> b \<notin> snd ` set rs \<Longrightarrow>
     xr (exec (load_all rs b) c) r = xmem c (word_addr (xr c b) (int k))"
  by (rule exec_load_slot_base) force+

section \<open>Switching contexts\<close>

lemma ctx_slots_inj: "table_inj ctx_slots" "R_a i \<notin> snd ` set ctx_slots \<or> 8 \<le> i"
  by (auto simp: table_inj_def ctx_slots_def reg_defs)

text \<open>The registers that a function must keep, as the calling convention has it, without \<open>gp\<close> and \<open>tp\<close>.\<close>

definition callee_saved :: "reg set" where
  "callee_saved = {R_ra, R_sp} \<union> R_s ` {..<12}"

lemma ctx_slots_regs: "snd ` set ctx_slots = callee_saved"
  by (auto simp: ctx_slots_def callee_saved_def lessThan_Suc numeral_eq_Suc)

lemma swtch_effect:
  assumes "(k, r) \<in> set ctx_slots"
  shows "xr (exec swtch_asm c) r = xmem (exec (save_all ctx_slots (R_a 0)) c) (word_addr (xr c (R_a 1)) (int k))"
    "xmem (exec swtch_asm c) (word_addr (xr c (R_a 0)) (int k)) = xr c r"
proof -
  have b: "R_a 1 \<notin> snd ` set ctx_slots" using ctx_slots_inj(2) [of 1] by auto
  show "xr (exec swtch_asm c) r = xmem (exec (save_all ctx_slots (R_a 0)) c) (word_addr (xr c (R_a 1)) (int k))"
    using exec_load_slot [OF ctx_slots_inj(1) assms b] by (simp add: swtch_asm_def)
  show "xmem (exec swtch_asm c) (word_addr (xr c (R_a 0)) (int k)) = xr c r"
    using exec_save_slot [OF ctx_slots_inj(1) assms] by (simp add: swtch_asm_def)
qed

text \<open>C16. Switching away from a context and back to it restores the callee-saved registers, the stack
  pointer and the return address, and execution goes on behind the first switch, whatever runs
  between the two switches, as long as it leaves the words of the saved context alone and the
  context that is saved by the second switch lies elsewhere.\<close>

theorem swtch_roundtrip:
  assumes "xr d (R_a 1) = xr c (R_a 0)"
    and "\<And>k r. (k, r) \<in> set ctx_slots \<Longrightarrow> xmem d (word_addr (xr c (R_a 0)) (int k)) =
           xmem (exec swtch_asm c) (word_addr (xr c (R_a 0)) (int k))"
    and "\<And>j k. j < 16 \<Longrightarrow> k < 16 \<Longrightarrow> word_addr (xr d (R_a 0)) (int j) \<noteq> word_addr (xr c (R_a 0)) (int k)"
  shows "(\<forall>r \<in> callee_saved. xr (exec swtch_asm d) r = xr c r) \<and> xpc (exec swtch_asm d) = xr c R_ra"
proof -
  have r: "xr (exec swtch_asm d) r = xr c r" if "r \<in> callee_saved" for r
  proof -
    have "r \<in> snd ` set ctx_slots" using that by (simp add: ctx_slots_regs)
    then obtain k where k: "(k, r) \<in> set ctx_slots" by auto
    have "k < 16" "\<forall>(j, q) \<in> set ctx_slots. j < 16" using k by (auto simp: ctx_slots_def)
    then have "xmem (exec (save_all ctx_slots (R_a 0)) d) (word_addr (xr c (R_a 0)) (int k)) = xmem d (word_addr (xr c (R_a 0)) (int k))"
      using assms(3) by (intro exec_save_other) fastforce
    then show ?thesis using swtch_effect(1) [OF k, of d] swtch_effect(2) [OF k, of c] assms(1,2) k by simp
  qed
  moreover have "xpc (exec swtch_asm d) = xr (exec swtch_asm d) R_ra" by (simp add: swtch_asm_def)
  ultimately show ?thesis by (simp add: callee_saved_def)
qed

section \<open>Traps from a process\<close>

definition enter_slots :: "(nat \<times> reg) list" where
  "enter_slots = tf_common @ [(27, R_t 3), (28, R_t 4), (29, R_t 5), (30, R_t 6)]"

definition ret_slots :: "(nat \<times> reg) list" where
  "ret_slots = tf_common @ [(28, R_t 3), (29, R_t 4), (30, R_t 5), (31, R_t 6)]"

lemma tf_slots_inj: "table_inj enter_slots" "table_inj ret_slots" "R_a 0 \<notin> snd ` set enter_slots" "R_a 0 \<notin> snd ` set ret_slots"
  by (auto simp: table_inj_def enter_slots_def ret_slots_def tf_common_def reg_defs)

lemma enter_slots_less: "(k, r) \<in> set enter_slots \<Longrightarrow> k < 31 \<and> k \<noteq> 9 \<and> r \<noteq> R_a 0"
  using tf_slots_inj(3) by (auto simp: enter_slots_def tf_common_def)

text \<open>The \<open>k\<close>-th word of the trapframe at \<open>tf\<close>.\<close>

definition tf_word :: "acpu \<Rightarrow> u64 \<Rightarrow> nat \<Rightarrow> u64" where
  "tf_word c tf k = xmem c (word_addr tf (int k))"

lemma uvec_enter_effect:
  assumes "xsscratch c = tf"
  defines "e \<equiv> exec uvec_enter_asm c"
  shows "(k, r) \<in> set enter_slots \<Longrightarrow> tf_word e tf k = xr c r" "tf_word e tf 9 = xr c (R_a 0)"
    "k < 1024 \<Longrightarrow> 31 \<le> k \<Longrightarrow> tf_word e tf k = tf_word c tf k"
    "xr e R_sp = tf_word c tf 33" "xr e R_tp = tf_word c tf 34" "xsatp e = tf_word c tf 32" "xpc e = tf_word c tf 35"
proof -
  define c1 where "c1 = exec1 (Csrrw_sscratch (R_a 0) (R_a 0)) c"
  define c2 where "c2 = exec (save_all enter_slots (R_a 0)) c1"
  have f: "xr c1 (R_a 0) = tf" "xsscratch c1 = xr c (R_a 0)" "xmem c1 = xmem c" "r \<noteq> R_a 0 \<Longrightarrow> xr c1 r = xr c r" for r
    by (simp_all add: c1_def assms(1))
  have f2: "xr c2 = xr c1" "xsscratch c2 = xr c (R_a 0)" by (simp_all add: c2_def f)
  have dist: "R_t 0 \<noteq> R_a 0" "R_t 1 \<noteq> R_a 0" "R_sp \<noteq> R_a 0" "R_tp \<noteq> R_a 0" "R_t 0 \<noteq> R_t 1" "R_sp \<noteq> R_tp" "R_sp \<noteq> R_t 0" "R_sp \<noteq> R_t 1"
      "R_tp \<noteq> R_t 0" "R_tp \<noteq> R_t 1"
    by (simp_all add: reg_defs)
  have e: "e = exec [Csrr_sscratch (R_t 0), Sd (R_t 0) 9 (R_a 0), Ld R_sp 33 (R_a 0), Ld R_tp 34 (R_a 0), Ld (R_t 0) 32 (R_a 0),
      Ld (R_t 1) 35 (R_a 0), Csrw_satp (R_t 0), Sfence_vma, Jr (R_t 1)] c2"
    by (simp add: e_def uvec_enter_asm_def c2_def c1_def enter_slots_def)
  have em: "xmem e = (xmem c2)(word_addr tf 9 := xr c (R_a 0))" using dist by (simp add: e f f2)
  have hi: "xmem c2 (word_addr tf (int k)) = tf_word c tf k" if "k < 1024" "31 \<le> k" for k
  proof -
    have "\<forall>(j, q) \<in> set enter_slots. word_addr (xr c1 (R_a 0)) (int k) \<noteq> word_addr (xr c1 (R_a 0)) (int j)"
      using that enter_slots_less by (fastforce simp: word_addr_nat_inj)
    from exec_save_other [OF this] show ?thesis by (simp add: c2_def f tf_word_def)
  qed
  have nine: "word_addr tf (int k) = word_addr tf 9 \<longleftrightarrow> k = 9" if "k < 1024" for k
    using word_addr_nat_inj [of k 9 tf] that by simp
  show "tf_word e tf k = xr c r" if "(k, r) \<in> set enter_slots"
    using exec_save_slot [OF tf_slots_inj(1) that, of "R_a 0" c1] enter_slots_less [OF that] nine [of k]
    by (simp add: tf_word_def em c2_def [symmetric] f)
  show "tf_word e tf 9 = xr c (R_a 0)" by (simp add: tf_word_def em)
  show "tf_word e tf k = tf_word c tf k" if "k < 1024" "31 \<le> k"
    using hi [OF that] nine [of k] that by (simp add: tf_word_def [of e] em)
  show "xr e R_sp = tf_word c tf 33" "xr e R_tp = tf_word c tf 34" "xsatp e = tf_word c tf 32" "xpc e = tf_word c tf 35"
    using dist hi [of 33] hi [of 34] hi [of 32] hi [of 35] nine [of 33] nine [of 34] nine [of 32] nine [of 35]
    by (simp_all add: e f f2)
qed

lemma uvec_ret_effect:
  assumes "xr d (R_a 0) = tf"
  defines "u \<equiv> exec uvec_ret_asm d"
  shows "(k, r) \<in> set ret_slots \<Longrightarrow> xr u r = tf_word d tf k" "xr u (R_a 0) = tf_word d tf 9" "xsscratch u = tf" "xsatp u = xr d (R_a 1)"
proof -
  have neq: "R_t 0 \<noteq> R_a 0" "R_a 0 \<noteq> R_t 0" by (simp_all add: reg_defs)
  define d1 where "d1 = exec [Csrw_satp (R_a 1), Sfence_vma, Ld (R_t 0) 9 (R_a 0), Csrw_sscratch (R_t 0)] d"
  have f: "xr d1 (R_a 0) = tf" "xsscratch d1 = tf_word d tf 9" "xmem d1 = xmem d" "xsatp d1 = xr d (R_a 1)"
    using neq by (simp_all add: d1_def assms(1) tf_word_def)
  have u: "u = exec [Csrrw_sscratch (R_a 0) (R_a 0), Sret] (exec (load_all ret_slots (R_a 0)) d1)"
    by (simp add: u_def uvec_ret_asm_def d1_def ret_slots_def)
  show "xr u r = tf_word d tf k" if "(k, r) \<in> set ret_slots"
  proof -
    have "r \<noteq> R_a 0" using tf_slots_inj(4) that by force
    then show ?thesis using exec_load_slot [OF tf_slots_inj(2) that tf_slots_inj(4), of d1] by (simp add: u f tf_word_def)
  qed
  show "xr u (R_a 0) = tf_word d tf 9" "xsscratch u = tf" "xsatp u = xr d (R_a 1)"
    using exec_load_other [OF tf_slots_inj(4), of "R_a 0" d1] by (simp_all add: u f)
qed

text \<open>The registers that come back unchanged: all but \<open>a0\<close>, which carries the result of a system call,
  and the four temporaries.\<close>

definition kept_regs :: "reg set" where
  "kept_regs = {1..31} - {R_a 0, R_t 3, R_t 4, R_t 5, R_t 6}"

lemma tf_common_regs: "snd ` set tf_common = kept_regs"
proof -
  have "{1..31 :: nat} = {1, 2, 3, 4, 5, 6, 7, 8, 9, 10, 11, 12, 13, 14, 15, 16, 17, 18, 19, 20, 21, 22, 23, 24, 25, 26, 27, 28, 29, 30, 31}"
    by (auto simp: numeral_eq_Suc le_Suc_eq)
  then show ?thesis by (auto simp: tf_common_def kept_regs_def reg_defs)
qed

text \<open>C15. A process enters the kernel with its registers saved in its trapframe, on the kernel's stack
  and address space; when it returns, every register has the value it had, and \<open>a0\<close> what the
  kernel stored for it, but for four temporaries: \<open>t3\<close>, \<open>t4\<close> and \<open>t5\<close> come back with the values of
  \<open>t4\<close>, \<open>t5\<close> and \<open>t6\<close>, and \<open>t6\<close> with the program counter, since the way back loads them from the
  next slot.\<close>

theorem trap_restores_registers:
  assumes "xsscratch c = tf" "xr d (R_a 0) = tf"
    and "\<And>k. k < 31 \<Longrightarrow> k \<noteq> 9 \<Longrightarrow> tf_word d tf k = tf_word (exec uvec_enter_asm c) tf k"
  shows "xpc (exec uvec_enter_asm c) = tf_word c tf 35 \<and> xr (exec uvec_enter_asm c) R_sp = tf_word c tf 33 \<and>
     xsatp (exec uvec_enter_asm c) = tf_word c tf 32 \<and> tf_word (exec uvec_enter_asm c) tf 9 = xr c (R_a 0) \<and>
     (\<forall>r \<in> kept_regs. xr (exec uvec_ret_asm d) r = xr c r) \<and> xr (exec uvec_ret_asm d) (R_a 0) = tf_word d tf 9 \<and>
     xr (exec uvec_ret_asm d) (R_t 3) = xr c (R_t 4) \<and> xr (exec uvec_ret_asm d) (R_t 4) = xr c (R_t 5) \<and>
     xr (exec uvec_ret_asm d) (R_t 5) = xr c (R_t 6) \<and> xr (exec uvec_ret_asm d) (R_t 6) = tf_word d tf 31 \<and>
     xsscratch (exec uvec_ret_asm d) = tf \<and> xsatp (exec uvec_ret_asm d) = xr d (R_a 1)"
proof -
  note en = uvec_enter_effect [OF assms(1)] and rt = uvec_ret_effect [OF assms(2)]
  have keep: "xr (exec uvec_ret_asm d) r = xr c q" if "(k, r) \<in> set ret_slots" "(k, q) \<in> set enter_slots" for k r q
    using rt(1) [OF that(1)] en(1) [OF that(2)] assms(3) [of k] enter_slots_less [OF that(2)] by simp
  have "xr (exec uvec_ret_asm d) r = xr c r" if "r \<in> kept_regs" for r
  proof -
    have "r \<in> snd ` set tf_common" using that by (simp add: tf_common_regs)
    then obtain k where "(k, r) \<in> set tf_common" by auto
    then have "(k, r) \<in> set ret_slots" "(k, r) \<in> set enter_slots" by (simp_all add: ret_slots_def enter_slots_def)
    then show ?thesis by (rule keep)
  qed
  moreover have "(28, R_t 3) \<in> set ret_slots" "(29, R_t 4) \<in> set ret_slots" "(30, R_t 5) \<in> set ret_slots" "(31, R_t 6) \<in> set ret_slots"
      "(28, R_t 4) \<in> set enter_slots" "(29, R_t 5) \<in> set enter_slots" "(30, R_t 6) \<in> set enter_slots"
    by (simp_all add: ret_slots_def enter_slots_def)
  ultimately show ?thesis using en rt keep by simp
qed

section \<open>Traps in the kernel\<close>

definition kvec_slots :: "(nat \<times> reg) list" where
  "kvec_slots = map (\<lambda>i. (i, i)) [1..<32]"

lemma kvec_slots_inj: "table_inj kvec_slots"
  by (simp add: table_inj_def kvec_slots_def comp_def)

lemma kvec_asm_slots:
  "kvec_enter_asm = Addi R_sp R_sp (-512) # save_all kvec_slots R_sp" "kvec_ret_asm = load_all kvec_slots R_sp @ [Addi R_sp R_sp 512, Sret]"
  by (simp_all add: kvec_enter_asm_def kvec_ret_asm_def save_all_def load_all_def kvec_slots_def comp_def)

text \<open>A trap inside the kernel keeps all registers, when the handler keeps the stack pointer and the
  words saved; the stack pointer itself is loaded from the value stored below it.\<close>

lemma kvec_restores_registers:
  assumes "xr d R_sp = xr (exec kvec_enter_asm c) R_sp"
    and "\<And>i. 1 \<le> i \<Longrightarrow> i < 32 \<Longrightarrow> xmem d (word_addr (xr d R_sp) (int i)) = xmem (exec kvec_enter_asm c) (word_addr (xr d R_sp) (int i))"
    and r: "1 \<le> r" "r < 32"
  shows "xr (exec kvec_ret_asm d) r = xr c r"
proof -
  let ?c = "exec1 (Addi R_sp R_sp (-512)) c"
  have sp: "xr d R_sp = xr ?c R_sp" "R_sp = 2" using assms(1) by (simp_all add: kvec_asm_slots R_sp_def)
  have m: "xmem d (word_addr (xr d R_sp) (int i)) = xr ?c i" if "1 \<le> i" "i < 32" for i
  proof -
    have "(i, i) \<in> set kvec_slots" using that by (simp add: kvec_slots_def image_iff)
    from exec_save_slot [OF kvec_slots_inj this, of R_sp ?c]
    show ?thesis unfolding assms(2) [OF that] by (simp add: kvec_asm_slots sp(1))
  qed
  have slot: "(r, r) \<in> set kvec_slots" using r by (simp add: kvec_slots_def image_iff)
  have "xr (exec (load_all kvec_slots R_sp) d) r = xmem d (word_addr (xr d R_sp) (int r))" if "(r, r) \<in> set kvec_slots" for r
  proof (rule exec_load_slot_base [OF kvec_slots_inj that])
    fix j assume "(j, R_sp) \<in> set kvec_slots"
    then have "j = R_sp" by (auto simp: kvec_slots_def)
    then show "xmem d (word_addr (xr d R_sp) (int j)) = xr d R_sp" using m [of R_sp] sp by simp
  qed
  from this [OF slot] have "xr (exec (load_all kvec_slots R_sp) d) r = xr ?c r" using m [OF r] by simp
  then show ?thesis by (cases "r = R_sp") (simp_all add: kvec_asm_slots)
qed

section \<open>Runs\<close>

definition zero_cpu :: acpu where
  "zero_cpu = \<lparr>xr = (\<lambda>r. of_nat r), xmem = (\<lambda>a. a), xsscratch = 0x9000, xsatp = 0, xpc = 0\<rparr>"

text \<open>A switch between the contexts at \<open>0x1000\<close> and \<open>0x2000\<close> and back.\<close>

theorem swtch_roundtrip_witness:
  "\<exists>c d. xr c (R_a 0) = 0x1000 \<and> xr d (R_a 0) = 0x2000 \<and> xr d (R_a 1) = 0x1000 \<and> xmem d = xmem (exec swtch_asm c) \<and>
     (\<forall>r \<in> callee_saved. xr c r = of_nat r \<and> xr d r = 7 \<and> xr (exec swtch_asm d) r = of_nat r) \<and> xpc (exec swtch_asm d) = 1"
proof -
  let ?c = "zero_cpu\<lparr>xr := (\<lambda>r. of_nat r)(R_a 0 := 0x1000, R_a 1 := 0x2000)\<rparr>"
  let ?d = "(exec swtch_asm ?c)\<lparr>xr := (\<lambda>r. 7)(R_a 0 := 0x2000, R_a 1 := 0x1000)\<rparr>"
  have neq: "R_a 0 \<noteq> R_a 1" "R_ra \<noteq> R_a 0" "R_ra \<noteq> R_a 1" by (simp_all add: reg_defs)
  have far: "word_addr 0x2000 (int j) \<noteq> word_addr 0x1000 (int k)" if "j < 16" "k < 16" for j k
  proof -
    have "word_addr 0x2000 (int j) = word_addr 0x1000 (int (j + 512))" by (simp add: word_addr_def)
    then show ?thesis using that word_addr_nat_inj [of "j + 512" k] by simp
  qed
  have "(\<forall>r \<in> callee_saved. xr (exec swtch_asm ?d) r = xr ?c r) \<and> xpc (exec swtch_asm ?d) = xr ?c R_ra"
    by (rule swtch_roundtrip) (use neq far in simp_all)
  moreover have "xr ?c r = of_nat r" "xr ?d r = 7" if "r \<in> callee_saved" for r
    using that by (auto simp: callee_saved_def reg_defs)
  moreover have "xpc (exec swtch_asm ?d) = 1" using calculation(1) by (simp add: reg_defs)
  ultimately show ?thesis using neq by (intro exI [of _ ?c] exI [of _ ?d]) simp
qed

text \<open>A system call with the result 5: register \<open>r\<close> holds \<open>r\<close> before, and \<open>t3\<close> to \<open>t6\<close> are 28 to 31.\<close>

theorem trap_restores_registers_witness:
  "\<exists>d. (\<forall>k \<in> {..<31} - {9}. tf_word d 0x9000 k = tf_word (exec uvec_enter_asm zero_cpu) 0x9000 k) \<and>
     xr d (R_a 0) = 0x9000 \<and> tf_word d 0x9000 9 = 5 \<and> (\<forall>r \<in> kept_regs. xr (exec uvec_ret_asm d) r = of_nat r) \<and>
     xr (exec uvec_ret_asm d) 10 = 5 \<and> xr (exec uvec_ret_asm d) 28 = 29 \<and> xr (exec uvec_ret_asm d) 29 = 30 \<and>
     xr (exec uvec_ret_asm d) 30 = 31"
proof -
  let ?e = "exec uvec_enter_asm zero_cpu"
  let ?d = "?e\<lparr>xr := (\<lambda>r. 7)(R_a 0 := 0x9000), xmem := (xmem ?e)(word_addr 0x9000 9 := 5)\<rparr>"
  have s: "xsscratch zero_cpu = 0x9000" "xr zero_cpu = (\<lambda>r. of_nat r)" by (simp_all add: zero_cpu_def)
  have k: "tf_word ?d 0x9000 k = tf_word ?e 0x9000 k" if "k < 31" "k \<noteq> 9" for k
    using that word_addr_nat_inj [of k 9 "0x9000"] by (simp add: tf_word_def)
  have a0: "xr ?d (R_a 0) = 0x9000" by simp
  have w: "tf_word ?d 0x9000 9 = 5" by (simp add: tf_word_def)
  have "\<forall>k \<in> {..<31} - {9}. tf_word ?d 0x9000 k = tf_word ?e 0x9000 k" using k by blast
  then show ?thesis
    using trap_restores_registers [OF s(1) a0 k] w a0 by (intro exI [of _ ?d]) (simp add: s(2) reg_defs)
qed

end
