(* ===== verification/Scheduler.thy ===== *)
theory Scheduler
  imports File Bitmap Kvm
begin

text \<open>
  Models the data of \<open>kernel/process.h\<close> and the scheduler, \<open>kernel/scheduler.c\<close>. A task is known by
  its address; the lists that run through tasks are a heap of links.
\<close>

section \<open>Tasks\<close>

definition TASK_UNUSED :: u64 where "TASK_UNUSED = 0"
definition TASK_RUNNABLE :: u64 where "TASK_RUNNABLE = 1"
definition TASK_RUNNING :: u64 where "TASK_RUNNING = 3"
definition TASK_ZOMBIE :: u64 where "TASK_ZOMBIE = 4"

text \<open>\<open>ctx\<close> stands for the two words of the context that the C code writes.\<close>

record task_struct =
  task_state :: u64
  task_parent :: u64
  kstack_pa :: u64
  ustack_pa :: u64
  task_entry :: u64
  tfp :: u64
  ctx_ra :: u64
  ctx_sp :: u64
  user_pte :: u64
  image :: u64
  exit_status :: int
  task_pid :: int
  task_files :: u64
  max_writable_page :: u64
  cwd :: u64

record task_page =
  tp_pa :: u64
  tp_va :: u64

text \<open>The links \<open>ubs\<close>, \<open>ubp\<close>, \<open>children\<close> and \<open>pages\<close> of a task, the \<open>list\<close> of a page, and the three
  queues.\<close>

datatype tlink = Ubs u64 | Ubp u64 | Children u64 | Pages u64 | Page_list u64
  | Process_runnable | Process_sleep | Process_exit

text \<open>
  The state of the kernel: that of the open files, with the tasks and their pages, the memory of
  the page tables, the bytes of the pages of processes and of the map of process ids, the control
  registers and the deadline of the timer. The words of trapframes and user stacks are among the
  words \<open>fword\<close>.
\<close>

record 's kernel = "'s files_sys" +
  tlinks :: "tlink lheap"
  task_at :: "u64 \<Rightarrow> task_struct"
  tpage_at :: "u64 \<Rightarrow> task_page"
  ptm :: ptmem
  kbyte :: "u64 \<Rightarrow> u8"
  kbitmap :: "u64 \<Rightarrow> bitmap"
  kpid_bitmap :: u64
  kcsr :: csrs
  timer :: u64

definition on_tlinks :: "(tlink lheap \<Rightarrow> tlink lheap) \<Rightarrow> ('s, 'b) kernel_scheme \<Rightarrow> ('s, 'b) kernel_scheme" where
  "on_tlinks f s = s\<lparr>tlinks := f (tlinks s)\<rparr>"

definition upd_task :: "u64 \<Rightarrow> (task_struct \<Rightarrow> task_struct) \<Rightarrow> ('s, 'b) kernel_scheme \<Rightarrow> ('s, 'b) kernel_scheme" where
  "upd_task t f s = s\<lparr>task_at := (task_at s)(t := f (task_at s t))\<rparr>"

definition kmach :: "('s, 'b) kernel_scheme \<Rightarrow> machine" where
  "kmach s = snd (pmem_st (vheap (fvfs s)))"

definition set_kmach :: "machine \<Rightarrow> ('s, 'b) kernel_scheme \<Rightarrow> ('s, 'b) kernel_scheme" where
  "set_kmach m s = s\<lparr>fvfs := (fvfs s)\<lparr>vheap := (vheap (fvfs s))\<lparr>pmem_st := (fst (pmem_st (vheap (fvfs s))), m)\<rparr>\<rparr>\<rparr>"

section \<open>The scheduler\<close>

definition scheduler_add :: "u64 \<Rightarrow> tlink lheap \<Rightarrow> tlink lheap" where
  "scheduler_add task h = list_add (Ubs task) Process_runnable h"

text \<open>From here on the source passes the head of the queue as the entry and the task as the head.\<close>

definition scheduler_runnable :: "u64 \<Rightarrow> tlink lheap \<Rightarrow> tlink lheap" where
  "scheduler_runnable task h = list_add Process_runnable (Ubs task) (list_del (Ubs task) h)"

definition scheduler_sleep :: "u64 \<Rightarrow> tlink lheap \<Rightarrow> tlink lheap" where
  "scheduler_sleep task h = list_add Process_sleep (Ubs task) (list_del (Ubs task) h)"

definition scheduler_exit :: "u64 \<Rightarrow> tlink lheap \<Rightarrow> tlink lheap" where
  "scheduler_exit task h = list_add Process_exit (Ubs task) (list_del (Ubs task) h)"

definition scheduler_mark :: "u64 \<Rightarrow> tlink lheap \<Rightarrow> tlink lheap" where
  "scheduler_mark task h = list_add_tail Process_runnable (Ubs task) (list_del (Ubs task) h)"

definition scheduler_init :: "tlink lheap \<Rightarrow> tlink lheap" where
  "scheduler_init h = list_init Process_exit (list_init Process_sleep (list_init Process_runnable h))"

definition scheduler_remove :: "u64 \<Rightarrow> tlink lheap \<Rightarrow> tlink lheap" where
  "scheduler_remove task h = list_del (Ubs task) h"

text \<open>
  The loop of \<open>scheduler_run\<close>. \<open>Idle\<close> is the top of the loop, \<open>Running t\<close> the time between the two
  switches, when task \<open>t\<close> has the processor. A task can leave the queues alone or exit before it
  gives the processor back.
\<close>

datatype sched_pc = Idle | Running u64

inductive sched_step :: "sched_pc \<times> tlink lheap \<Rightarrow> sched_pc \<times> tlink lheap \<Rightarrow> bool" where
  spin: "lnext h Process_runnable = Process_runnable \<Longrightarrow> sched_step (Idle, h) (Idle, h)"
| pick: "lnext h Process_runnable = Ubs t \<Longrightarrow> sched_step (Idle, h) (Running t, h)"
| yields: "sched_step (Running t, h) (Idle, scheduler_mark t h)"
| exits: "sched_step (Running t, h) (Idle, scheduler_mark t (scheduler_exit t h))"

inductive_cases sched_stepE: "sched_step (Idle, h) c" "sched_step (Running t, h) c"

section \<open>After the first task\<close>

text \<open>The run queue.\<close>

definition run_queue :: "tlink lheap \<Rightarrow> u64 list \<Rightarrow> bool" where
  "run_queue h ts \<longleftrightarrow> dlist h Process_runnable (map Ubs ts)"

lemma run_queue_head:
  assumes "run_queue h (t # ts)"
  shows "lnext h Process_runnable = Ubs t" "lprev h (Ubs t) = Process_runnable" "lnext h (Ubs t) \<noteq> Ubs t"
proof -
  have d: "dlist h Process_runnable (Ubs t # map Ubs ts)" using assms by (simp add: run_queue_def)
  then show "lnext h Process_runnable = Ubs t" "lprev h (Ubs t) = Process_runnable" by (simp_all add: dlist_def)
  show "lnext h (Ubs t) \<noteq> Ubs t"
    using d by (cases ts) (auto simp: dlist_def)
qed

lemma mark_first_empties:
  assumes "lprev h (Ubs t) = Process_runnable" "lnext h (Ubs t) \<noteq> Ubs t"
  shows "lnext (scheduler_mark t h) Process_runnable = Process_runnable"
    "lnext (scheduler_mark t (scheduler_exit t h)) Process_runnable = Process_runnable"
  using assms
  by (auto simp: scheduler_mark_def scheduler_exit_def list_add_tail_def list_add_def list_add_between_def list_del_def
      list_del_between_def set_next_def set_prev_def)

lemma idle_empty_stays:
  assumes "sched_step\<^sup>*\<^sup>* c d" "fst c = Idle" "lnext (snd c) Process_runnable = Process_runnable"
  shows "d = c"
  using assms by (induction rule: rtranclp_induct) (auto elim!: sched_step.cases)

text \<open>The scheduler runs no task but the first one: whatever tasks wait in the run queue, when the
  first gives the processor back, by yielding or by exiting, the queue is empty, and the loop
  spins for ever. The other tasks never run and the first never runs again.\<close>

lemma scheduler_starves:
  assumes "run_queue h (t # ts)" "sched_step\<^sup>*\<^sup>* (Idle, h) (pc, h')"
  shows "pc = Running t \<and> h' = h \<or> pc = Idle \<and> (h' = h \<or> lnext h' Process_runnable = Process_runnable \<and>
     (\<forall>c. sched_step\<^sup>*\<^sup>* (pc, h') c \<longrightarrow> c = (pc, h')))"
proof -
  note q = run_queue_head [OF assms(1)]
  have m: "lnext (scheduler_mark t h) Process_runnable = Process_runnable"
      "lnext (scheduler_mark t (scheduler_exit t h)) Process_runnable = Process_runnable"
    using mark_first_empties [OF q(2,3)] by auto
  have "(pc, h') = (Running t, h) \<or> (pc, h') = (Idle, h) \<or> pc = Idle \<and> lnext h' Process_runnable = Process_runnable"
    using assms(2)
  proof (induction "(pc, h')" arbitrary: pc h' rule: rtranclp_induct)
    case (step c)
    obtain p k where c: "c = (p, k)" by (cases c)
    from step.hyps(3) [OF c] step.hyps(2) q m show ?case unfolding c by (auto elim!: sched_step.cases)
  qed simp
  then show ?thesis using idle_empty_stays [where c = "(pc, h')"] by auto
qed

definition two_tasks :: "tlink lheap" where
  "two_tasks = scheduler_add 8 (scheduler_add 16 (scheduler_init \<lparr>lprev = (\<lambda>l. l), lnext = (\<lambda>l. l)\<rparr>))"

lemma two_tasks_starve:
  "\<exists>h'. sched_step\<^sup>*\<^sup>* (Idle, two_tasks) (Idle, h') \<and> h' \<noteq> two_tasks \<and> (\<forall>c. sched_step\<^sup>*\<^sup>* (Idle, h') c \<longrightarrow> c = (Idle, h'))"
proof -
  have q: "run_queue two_tasks [8, 16]"
    by (simp add: run_queue_def two_tasks_def scheduler_add_def scheduler_init_def dlist_def list_add_def list_add_between_def
        list_init_def set_next_def set_prev_def)
  have n: "lnext two_tasks Process_runnable = Ubs 8" using run_queue_head [OF q] by simp
  have s: "sched_step\<^sup>*\<^sup>* (Idle, two_tasks) (Idle, scheduler_mark 8 two_tasks)"
    using pick [OF n] yields by (meson rtranclp.rtrancl_into_rtrancl rtranclp.rtrancl_refl)
  have "lnext (scheduler_mark 8 two_tasks) Process_runnable = Process_runnable"
    by (rule mark_first_empties) (rule run_queue_head [OF q])+
  then have "scheduler_mark 8 two_tasks \<noteq> two_tasks" using n by auto
  then show ?thesis using scheduler_starves [OF q s] s by blast
qed

end
