(* ===== verification/Process.thy ===== *)
theory Process
  imports Scheduler Fat
begin

text \<open>
  Models \<open>kernel/elf.h\<close> and \<open>kernel/process.c\<close>: the check of an executable, the pages of a task
  and the creation of a task from a file, with the clean-up on every failure.
\<close>

section \<open>Executables\<close>

text \<open>The fields of \<open>Elf64_Ehdr\<close> and \<open>Elf64_Phdr\<close>.\<close>

record Elf64_Ehdr =
  e_ident :: "u8 list"
  e_type :: u16
  e_machine :: u16
  e_version :: u32
  e_entry :: u64
  e_phoff :: u64
  e_shoff :: u64
  e_flags :: u32
  e_ehsize :: u16
  e_phentsize :: u16
  e_phnum :: u16
  e_shentsize :: u16
  e_shnum :: u16
  e_shstrndx :: u16

record Elf64_Phdr =
  p_type :: u32
  p_flags :: u32
  p_offset :: u64
  p_vaddr :: u64
  p_paddr :: u64
  p_filesz :: u64
  p_memsz :: u64
  p_align :: u64

definition ELFMAG :: "u8 list" where "ELFMAG = [0x7f, 69, 76, 70]"
definition EI_CLASS :: nat where "EI_CLASS = 4"
definition EI_DATA :: nat where "EI_DATA = 5"
definition EI_VERSION :: nat where "EI_VERSION = 6"
definition ELFCLASS64 :: u8 where "ELFCLASS64 = 2"
definition ELFDATALSB :: u8 where "ELFDATALSB = 1"
definition ET_EXEC :: u16 where "ET_EXEC = 2"
definition EM_RISCV :: u16 where "EM_RISCV = 243"
definition EV_CURRENT :: nat where "EV_CURRENT = 1"
definition PT_LOAD :: u32 where "PT_LOAD = 1"
definition PF_X :: u32 where "PF_X = 1"
definition PF_W :: u32 where "PF_W = 2"
definition PF_R :: u32 where "PF_R = 4"
definition SIZEOF_EHDR :: nat where "SIZEOF_EHDR = 64"
definition SIZEOF_PHDR :: nat where "SIZEOF_PHDR = 56"

text \<open>The bytes of a header in memory, in the order of the machine.\<close>

definition le64 :: "u8 list \<Rightarrow> nat \<Rightarrow> u64" where
  "le64 m o1 = ucast (le32 (m ! o1) (m ! (o1 + 1)) (m ! (o1 + 2)) (m ! (o1 + 3))) OR
     push_bit 32 (ucast (le32 (m ! (o1 + 4)) (m ! (o1 + 5)) (m ! (o1 + 6)) (m ! (o1 + 7))))"

definition le32_at :: "u8 list \<Rightarrow> nat \<Rightarrow> u32" where
  "le32_at m o1 = le32 (m ! o1) (m ! (o1 + 1)) (m ! (o1 + 2)) (m ! (o1 + 3))"

definition le16_at :: "u8 list \<Rightarrow> nat \<Rightarrow> u16" where
  "le16_at m o1 = le16 (m ! o1) (m ! (o1 + 1))"

definition ehdr_of :: "u8 list \<Rightarrow> Elf64_Ehdr outcome" where
  "ehdr_of m = guardO Undefined (SIZEOF_EHDR \<le> length m) (Inr
     \<lparr>e_ident = take 16 m, e_type = le16_at m 16, e_machine = le16_at m 18, e_version = le32_at m 20,
      e_entry = le64 m 24, e_phoff = le64 m 32, e_shoff = le64 m 40, e_flags = le32_at m 48,
      e_ehsize = le16_at m 52, e_phentsize = le16_at m 54, e_phnum = le16_at m 56,
      e_shentsize = le16_at m 58, e_shnum = le16_at m 60, e_shstrndx = le16_at m 62\<rparr>)"

definition phdr_of :: "u8 list \<Rightarrow> Elf64_Phdr outcome" where
  "phdr_of m = guardO Undefined (SIZEOF_PHDR \<le> length m) (Inr
     \<lparr>p_type = le32_at m 0, p_flags = le32_at m 4, p_offset = le64 m 8, p_vaddr = le64 m 16, p_paddr = le64 m 24,
      p_filesz = le64 m 32, p_memsz = le64 m 40, p_align = le64 m 48\<rparr>)"

definition task_aux_check_elf :: "Elf64_Ehdr \<Rightarrow> bool" where
  "task_aux_check_elf h =
     (if e_ident h ! 0 \<noteq> ELFMAG ! 0 \<or> e_ident h ! 1 \<noteq> ELFMAG ! 1 \<or> e_ident h ! 2 \<noteq> ELFMAG ! 2 \<or> e_ident h ! 3 \<noteq> ELFMAG ! 3 then False
      else if e_ident h ! EI_CLASS \<noteq> ELFCLASS64 then False
      else if e_ident h ! EI_DATA \<noteq> ELFDATALSB then False
      else if unat (e_ident h ! EI_VERSION) \<noteq> EV_CURRENT then False
      else if e_type h \<noteq> ET_EXEC then False
      else if e_machine h \<noteq> EM_RISCV then False
      else if unat (e_version h) \<noteq> EV_CURRENT then False
      else if unat (e_ehsize h) \<noteq> SIZEOF_EHDR then False
      else if unat (e_phentsize h) \<noteq> SIZEOF_PHDR then False
      else if e_phnum h = 0 then False
      else True)"

definition task_aux_map_flags :: "u32 \<Rightarrow> pte_t" where
  "task_aux_map_flags seg_flags =
     (let flags = 0;
          flags = (if seg_flags AND PF_X \<noteq> 0 then flags OR PTE_X_SET else flags);
          flags = (if seg_flags AND PF_R \<noteq> 0 then flags OR PTE_R_SET else flags);
          flags = (if seg_flags AND PF_W \<noteq> 0 then flags OR PTE_W_SET else flags)
      in if flags = 0 then 0 else flags OR (PTE_V_SET OR PTE_U_SET))"

section \<open>Memory of the kernel\<close>

definition kheap_do :: "(kchain \<Rightarrow> kchain outcome) \<Rightarrow> ('s, 'b) kernel_scheme \<Rightarrow> ('s, 'b) kernel_scheme outcome" where
  "kheap_do f s = do_heap f s"

definition pt_alloc :: "u64 \<Rightarrow> kchain \<Rightarrow> (u64 \<times> kchain) outcome" where
  "pt_alloc ord k = kh_pmem_alloc (uint ord) k"

definition on_pt :: "(ptmem \<times> kchain \<Rightarrow> (ptmem \<times> kchain) outcome) \<Rightarrow> ('s, 'b) kernel_scheme \<Rightarrow> ('s, 'b) kernel_scheme outcome" where
  "on_pt f s = bindO (f (ptm s, vheap (fvfs s))) (\<lambda>(m, k). Inr (s\<lparr>ptm := m, fvfs := (fvfs s)\<lparr>vheap := k\<rparr>\<rparr>))"

definition on_pids :: "(pid_sys \<Rightarrow> ('a \<times> pid_sys) outcome) \<Rightarrow> ('s, 'b) kernel_scheme \<Rightarrow> ('a \<times> ('s, 'b) kernel_scheme) outcome" where
  "on_pids f s =
     bindO (f \<lparr>pheap = vheap (fvfs s), byte_at = kbyte s, bitmap_at = kbitmap s, pid_bitmap = kpid_bitmap s\<rparr>) (\<lambda>(x, p).
     Inr (x, s\<lparr>fvfs := (fvfs s)\<lparr>vheap := pheap p\<rparr>, kbyte := byte_at p, kbitmap := bitmap_at p, kpid_bitmap := pid_bitmap p\<rparr>))"

text \<open>\<open>n\<close> bytes of physical memory from \<open>pa\<close> on, and writing bytes there.\<close>

definition get_bytes :: "u64 \<Rightarrow> nat \<Rightarrow> ('s, 'b) kernel_scheme \<Rightarrow> u8 list" where
  "get_bytes pa n s = map (\<lambda>i. kbyte s (pa + of_nat i)) [0..<n]"

definition put_bytes :: "u64 \<Rightarrow> u8 list \<Rightarrow> ('s, 'b) kernel_scheme \<Rightarrow> ('s, 'b) kernel_scheme" where
  "put_bytes pa bs s = s\<lparr>kbyte := (\<lambda>a. if unat (a - pa) < length bs then bs ! unat (a - pa) else kbyte s a)\<rparr>"

text \<open>Reading a file into physical memory.\<close>

definition read_to :: "u64 \<Rightarrow> u64 \<Rightarrow> u64 \<Rightarrow> u64 \<Rightarrow> ('s, 'b) kernel_scheme \<Rightarrow> (u64 \<times> ('s, 'b) kernel_scheme) outcome" where
  "read_to node off pa len s =
     bindO (vfs_read node off (get_bytes pa (unat len) s) len (fvfs s)) (\<lambda>(n, bs, v).
     Inr (n, put_bytes pa bs (s\<lparr>fvfs := v\<rparr>)))"

section \<open>Pages of a task\<close>

definition SIZEOF_TASK_PAGE :: u64 where "SIZEOF_TASK_PAGE = 32"
definition SIZEOF_TASK_STRUCT :: u64 where "SIZEOF_TASK_STRUCT = 320"

definition task_init :: "('s, 'b) kernel_scheme \<Rightarrow> ('s, 'b) kernel_scheme outcome" where
  "task_init s = bindO (on_pids (\<lambda>p. bindO (pid_init p) (\<lambda>p. Inr ((), p))) s) (\<lambda>(u, s). Inr s)"

text \<open>The result is null when memory runs out.\<close>

definition task_add_page :: "u64 \<Rightarrow> u64 \<Rightarrow> pte_t \<Rightarrow> ('s, 'b) kernel_scheme \<Rightarrow> (u64 \<times> ('s, 'b) kernel_scheme) outcome" where
  "task_add_page task va flags s =
     bindO (on_heap (kmalloc SIZEOF_TASK_PAGE) s) (\<lambda>(page, s).
     if page = 0 then Inr (0, s) else
     bindO (on_heap (kh_pmem_alloc 0) s) (\<lambda>(pa, s).
     if pa = 0 then bindO (kheap_do (kfree page) s) (\<lambda>s. Inr (0, s)) else
     let s = s\<lparr>tpage_at := (tpage_at s)(page := \<lparr>tp_pa = pa, tp_va = va\<rparr>)\<rparr>;
         s = (if flags AND PTE_W_SET \<noteq> 0 \<and> max_writable_page (task_at s task) < va
              then upd_task task (\<lambda>t. t\<lparr>max_writable_page := va\<rparr>) s else s)
     in bindO (on_pt (pte_map pt_alloc (user_pte (task_at s task)) va pa flags PTE_PAGE_4K) s) (\<lambda>s.
        Inr (page, on_tlinks (list_add (Page_list page) (Pages task)) s))))"

definition page_of :: "tlink \<Rightarrow> u64 outcome" where
  "page_of l = (case l of Page_list a \<Rightarrow> Inr a | _ \<Rightarrow> Inl Undefined)"

text \<open>The loops over the pages; the next link is read before the entry is removed.\<close>

partial_function (option) remove_page_loop :: "u64 \<Rightarrow> u64 \<Rightarrow> tlink \<Rightarrow> tlink \<Rightarrow> ('s, 'b) kernel_scheme \<Rightarrow>
    (bool \<times> ('s, 'b) kernel_scheme) outcome option" where
  [code]: "remove_page_loop task va pos n s =
     (if pos = Pages task then Some (Inr (False, s))
      else case page_of pos of
        Inl e \<Rightarrow> Some (Inl e)
      | Inr pg1 \<Rightarrow>
          if tp_va (tpage_at s pg1) = va
          then Some (bindO (on_pt (pte_unmap (user_pte (task_at s task)) va) (on_tlinks (list_del pos) s)) (\<lambda>s.
                     bindO (kheap_do (kh_pmem_free (tp_pa (tpage_at s pg1))) s) (\<lambda>s.
                     bindO (kheap_do (kfree pg1) s) (\<lambda>s. Inr (True, s)))))
          else remove_page_loop task va n (lnext (tlinks s) n) s)"

definition task_remove_page :: "u64 \<Rightarrow> u64 \<Rightarrow> ('s, 'b) kernel_scheme \<Rightarrow> (bool \<times> ('s, 'b) kernel_scheme) outcome" where
  "task_remove_page task va s =
     (let pos = lnext (tlinks s) (Pages task) in hang (remove_page_loop task va pos (lnext (tlinks s) pos) s))"

partial_function (option) remove_all_loop :: "u64 \<Rightarrow> tlink \<Rightarrow> tlink \<Rightarrow> ('s, 'b) kernel_scheme \<Rightarrow>
    ('s, 'b) kernel_scheme outcome option" where
  [code]: "remove_all_loop task pos n s =
     (if pos = Pages task then Some (Inr s)
      else case bindO (page_of pos) (\<lambda>pg1.
           bindO (kheap_do (kh_pmem_free (tp_pa (tpage_at s pg1))) (on_tlinks (list_del pos) s)) (\<lambda>s. kheap_do (kfree pg1) s)) of
        Inl e \<Rightarrow> Some (Inl e)
      | Inr s \<Rightarrow> remove_all_loop task n (lnext (tlinks s) n) s)"

definition task_remove_all_page :: "u64 \<Rightarrow> ('s, 'b) kernel_scheme \<Rightarrow> ('s, 'b) kernel_scheme outcome" where
  "task_remove_all_page task s =
     (let pos = lnext (tlinks s) (Pages task) in hang (remove_all_loop task pos (lnext (tlinks s) pos) s))"

definition task_get_current :: "('s, 'b) kernel_scheme \<Rightarrow> u64 outcome" where
  "task_get_current s = bindO (get_cpu (kmach s)) (\<lambda>c. Inr (curent_task c))"

definition task_set_current :: "u64 \<Rightarrow> ('s, 'b) kernel_scheme \<Rightarrow> ('s, 'b) kernel_scheme outcome" where
  "task_set_current task s =
     bindO (get_cpu (kmach s)) (\<lambda>c. bindO (put_cpu (c\<lparr>curent_task := task\<rparr>) (kmach s)) (\<lambda>m. Inr (set_kmach m s)))"

section \<open>Loading segments\<close>

text \<open>
  The loop over the pages of a segment, from \<open>va\<close> on; \<open>byte_cnt\<close> bytes are loaded and the next
  go behind \<open>skip\<close> bytes of the page. The flag of the result is false when the source jumps to
  \<open>in_load_fail\<close>. With the last page of the address space the loop never ends.
\<close>

definition load_page :: "u64 \<Rightarrow> u64 \<Rightarrow> Elf64_Phdr \<Rightarrow> pte_t \<Rightarrow> u64 \<Rightarrow> u64 \<Rightarrow> u64 \<Rightarrow> ('s, 'b) kernel_scheme \<Rightarrow>
    (bool \<times> u64 \<times> u64 \<times> ('s, 'b) kernel_scheme) outcome" where
  "load_page task node ph flags va byte_cnt skip s =
     bindO (task_add_page task va flags s) (\<lambda>(page, s).
     if page = 0 then Inr (False, byte_cnt, skip, s)
     else if byte_cnt < p_filesz ph then
       let len = min_u64 (p_filesz ph - byte_cnt) (PAGE_SIZE - skip)
       in bindO (read_to node (p_offset ph + byte_cnt) (tp_pa (tpage_at s page) + skip) len s) (\<lambda>(n, s).
          if len \<noteq> n then Inr (False, byte_cnt, skip, s) else Inr (True, byte_cnt + len, 0, s))
     else Inr (True, byte_cnt, skip, s))"

partial_function (option) seg_loop :: "u64 \<Rightarrow> u64 \<Rightarrow> Elf64_Phdr \<Rightarrow> pte_t \<Rightarrow> u64 \<Rightarrow> u64 \<Rightarrow> u64 \<Rightarrow> u64 \<Rightarrow> ('s, 'b) kernel_scheme \<Rightarrow>
    (bool \<times> ('s, 'b) kernel_scheme) outcome option" where
  [code]: "seg_loop task node ph flags end_pg va byte_cnt skip s =
     (if va \<le> end_pg then
        (case load_page task node ph flags va byte_cnt skip s of
           Inl e \<Rightarrow> Some (Inl e)
         | Inr (ok, byte_cnt, skip, s) \<Rightarrow>
             if ok then seg_loop task node ph flags end_pg (va + PAGE_SIZE) byte_cnt skip s else Some (Inr (False, s)))
      else Some (Inr (True, s)))"

definition load_segment :: "u64 \<Rightarrow> u64 \<Rightarrow> Elf64_Phdr \<Rightarrow> ('s, 'b) kernel_scheme \<Rightarrow> (bool \<times> ('s, 'b) kernel_scheme) outcome" where
  "load_segment task node ph s =
     (if p_type ph \<noteq> PT_LOAD then Inr (True, s)
      else if p_align ph \<noteq> PAGE_SIZE then Inr (False, s)
      else
        let flags = task_aux_map_flags (p_flags ph) in
        if flags = 0 then Inr (False, s)
        else
          let start_va = p_vaddr ph; end_va = start_va + p_memsz ph - 1
          in hang (seg_loop task node ph flags (ALIGN_4K end_va) (ALIGN_4K start_va) 0 (ALL_ONE_MASK 12 AND start_va) s))"

text \<open>The program headers lie in the page at \<open>phdr\<close>.\<close>

fun load_phdrs :: "u64 \<Rightarrow> u64 \<Rightarrow> u64 \<Rightarrow> nat list \<Rightarrow> ('s, 'b) kernel_scheme \<Rightarrow> (bool \<times> ('s, 'b) kernel_scheme) outcome" where
  "load_phdrs task node phdr [] s = Inr (True, s)"
| "load_phdrs task node phdr (i # is) s =
     bindO (phdr_of (get_bytes (phdr + of_nat (SIZEOF_PHDR * i)) SIZEOF_PHDR s)) (\<lambda>ph.
     bindO (load_segment task node ph s) (\<lambda>(ok, s). if ok then load_phdrs task node phdr is s else Inr (False, s)))"

definition once_load :: u64 where
  "once_load = PAGE_SIZE div of_nat SIZEOF_PHDR"

partial_function (option) phdr_loop :: "u64 \<Rightarrow> u64 \<Rightarrow> u64 \<Rightarrow> int \<Rightarrow> int \<Rightarrow> u64 \<Rightarrow> ('s, 'b) kernel_scheme \<Rightarrow>
    (bool \<times> ('s, 'b) kernel_scheme) outcome option" where
  [code]: "phdr_loop task node phdr phnum phcnt off s =
     (if phcnt = phnum then Some (Inr (True, s))
      else
        let to_load = min_u64 (of_int (phnum - phcnt)) once_load; len = of_nat SIZEOF_PHDR * to_load in
        case bindO (read_to node off phdr len s) (\<lambda>(n, s).
             if n \<noteq> len then Inr (False, s) else load_phdrs task node phdr [0..<unat to_load] s) of
          Inl e \<Rightarrow> Some (Inl e)
        | Inr (ok, s) \<Rightarrow>
            if ok then phdr_loop task node phdr phnum (phcnt + int (unat to_load)) (off + len) s else Some (Inr (False, s)))"

section \<open>Creating a task\<close>

text \<open>The addresses of the functions whose addresses the source stores.\<close>

record code_layout =
  task_create_ret_at :: u64
  utrap_entry_at :: u64
  kvec_asm_at :: u64
  uvec_enter_at :: u64
  uvec_ret_at :: u64

text \<open>The words of \<open>struct trapframe\<close> that the C code uses.\<close>

definition TF_SP :: int where "TF_SP = 1"
definition TF_A0 :: int where "TF_A0 = 9"
definition TF_A7 :: int where "TF_A7 = 16"
definition TF_EPC :: int where "TF_EPC = 31"
definition TF_KERNEL_SATP :: int where "TF_KERNEL_SATP = 32"
definition TF_KERNEL_SP :: int where "TF_KERNEL_SP = 33"
definition TF_HARTID :: int where "TF_HARTID = 34"
definition TF_UTRAP_ENTRY :: int where "TF_UTRAP_ENTRY = 35"

definition set_tf :: "u64 \<Rightarrow> int \<Rightarrow> u64 \<Rightarrow> ('s, 'b) kernel_scheme \<Rightarrow> ('s, 'b) kernel_scheme" where
  "set_tf task i x s = set_fword (word_addr (tfp (task_at s task)) i) x s"

definition get_tf :: "u64 \<Rightarrow> int \<Rightarrow> ('s, 'b) kernel_scheme \<Rightarrow> u64" where
  "get_tf task i s = fword s (word_addr (tfp (task_at s task)) i)"

text \<open>The labels of the clean-up; each falls through to the next.\<close>

datatype label = In_load_fail | After_ehdr | After_ustack | After_kstack | After_tfp | After_pte | After_files | After_task | After_none

primrec rank :: "label \<Rightarrow> nat" where
  "rank After_none = 0"
| "rank After_task = 1"
| "rank After_files = 2"
| "rank After_pte = 3"
| "rank After_tfp = 4"
| "rank After_kstack = 5"
| "rank After_ustack = 6"
| "rank After_ehdr = 7"
| "rank In_load_fail = 8"

function clean_up :: "label \<Rightarrow> u64 \<Rightarrow> u64 \<Rightarrow> u64 \<Rightarrow> ('s, 'b) kernel_scheme \<Rightarrow> ('s, 'b) kernel_scheme outcome" where
  "clean_up After_none task ehdr phdr s = Inr s"
| "clean_up After_task task ehdr phdr s = bindO (kheap_do (kfree task) s) (clean_up After_none task ehdr phdr)"
| "clean_up After_files task ehdr phdr s =
     bindO (files_struct_destroy (task_files (task_at s task)) s) (clean_up After_task task ehdr phdr)"
| "clean_up After_pte task ehdr phdr s =
     bindO (on_pt (pte_destory kh_pmem_free (user_pte (task_at s task))) s) (clean_up After_files task ehdr phdr)"
| "clean_up After_tfp task ehdr phdr s =
     bindO (kheap_do (kh_pmem_free (tfp (task_at s task))) s) (clean_up After_pte task ehdr phdr)"
| "clean_up After_kstack task ehdr phdr s =
     bindO (kheap_do (kh_pmem_free (kstack_pa (task_at s task))) s) (clean_up After_tfp task ehdr phdr)"
| "clean_up After_ustack task ehdr phdr s =
     bindO (kheap_do (kh_pmem_free (ustack_pa (task_at s task))) s) (clean_up After_kstack task ehdr phdr)"
| "clean_up After_ehdr task ehdr phdr s = bindO (kheap_do (kfree ehdr) s) (clean_up After_ustack task ehdr phdr)"
| "clean_up In_load_fail task ehdr phdr s =
     bindO (task_remove_all_page task s) (\<lambda>s.
     bindO (kheap_do (kh_pmem_free phdr) s) (clean_up After_ehdr task ehdr phdr))"
  by pat_completeness auto

termination clean_up
  by (relation "measure (\<lambda>(l, task, ehdr, phdr, s). rank l)") simp_all

definition give_up :: "label \<Rightarrow> u64 \<Rightarrow> u64 \<Rightarrow> u64 \<Rightarrow> ('s, 'b) kernel_scheme \<Rightarrow> (u64 \<times> ('s, 'b) kernel_scheme) outcome" where
  "give_up l task ehdr phdr s = bindO (clean_up l task ehdr phdr s) (\<lambda>s. Inr (0, s))"

text \<open>The end of \<open>task_create\<close>, when everything is loaded.\<close>

definition task_ready :: "code_layout \<Rightarrow> u64 \<Rightarrow> u64 \<Rightarrow> u64 \<Rightarrow> Elf64_Ehdr \<Rightarrow> ('s, 'b) kernel_scheme \<Rightarrow> (u64 \<times> ('s, 'b) kernel_scheme) outcome" where
  "task_ready C task ehdr phdr h s =
     (let s = upd_task task (\<lambda>t. t\<lparr>task_entry := e_entry h, task_state := TASK_RUNNABLE\<rparr>) s;
          ks = kstack_pa (task_at s task); us = ustack_pa (task_at s task);
          s = set_tf task TF_SP PROC_VA_USTACK_SP s;
          s = upd_task task (\<lambda>t. t\<lparr>ctx_ra := task_create_ret_at C, ctx_sp := ks + PAGE_SIZE * 2\<rparr>) s;
          s = set_tf task TF_HARTID (of_nat (hartid (kmach s))) s;
          s = set_tf task TF_KERNEL_SP (ks + PAGE_SIZE) s;
          s = set_tf task TF_KERNEL_SATP (satp (kcsr s)) s;
          s = set_tf task TF_UTRAP_ENTRY (utrap_entry_at C) s;
          s = set_tf task TF_EPC (e_entry h) s;
          s = set_fword (word_addr us 1) 0 (set_fword (word_addr us 0) 0 s)
      in bindO (on_pids (\<lambda>p. Inr (pid_alloc p)) s) (\<lambda>(pid, s).
         let s = upd_task task (\<lambda>t. t\<lparr>task_pid := pid\<rparr>) s in
         bindO (kheap_do (kh_pmem_free phdr) s) (\<lambda>s.
         bindO (kheap_do (kfree ehdr) s) (\<lambda>s.
         Inr (task, upd_task task (\<lambda>t. t\<lparr>cwd := vfs_root (fvfs s)\<rparr>) s)))))"

text \<open>The load of the file, once the task has its memory.\<close>

definition task_load :: "code_layout \<Rightarrow> u64 \<Rightarrow> u64 \<Rightarrow> ('s, 'b) kernel_scheme \<Rightarrow> (u64 \<times> ('s, 'b) kernel_scheme) outcome" where
  "task_load C node task s =
     bindO (on_heap (kmalloc (of_nat SIZEOF_EHDR)) s) (\<lambda>(ehdr, s).
     if ehdr = 0 then give_up After_ustack task 0 0 s else
     bindO (read_to node 0 ehdr (of_nat SIZEOF_EHDR) s) (\<lambda>(cnt, s).
     if cnt \<noteq> of_nat SIZEOF_EHDR then give_up After_ehdr task ehdr 0 s else
     bindO (ehdr_of (get_bytes ehdr SIZEOF_EHDR s)) (\<lambda>h.
     if \<not> task_aux_check_elf h then give_up After_ehdr task ehdr 0 s else
     bindO (on_heap (kh_pmem_alloc 0) s) (\<lambda>(phdr, s).
     if phdr = 0 then give_up After_ehdr task ehdr 0 s else
     bindO (hang (phdr_loop task node phdr (int (unat (e_phnum h))) 0 (e_phoff h) s)) (\<lambda>(ok, s).
     if \<not> ok then give_up In_load_fail task ehdr phdr s else task_ready C task ehdr phdr h s)))))"

text \<open>
  \<open>files_struct_create\<close> works on a null table when memory runs out, so its result is not tested
  in time; a task that fails after it was added to its parent's children stays there.
\<close>

definition task_create :: "layout \<Rightarrow> code_layout \<Rightarrow> u64 \<Rightarrow> u64 \<Rightarrow> ('s, 'b) kernel_scheme \<Rightarrow> (u64 \<times> ('s, 'b) kernel_scheme) outcome" where
  "task_create L C node par s =
     (if node = 0 then give_up After_none 0 0 0 s else
      bindO (on_heap (kmalloc SIZEOF_TASK_STRUCT) s) (\<lambda>(task, s).
      if task = 0 then give_up After_none 0 0 0 s else
      let s = upd_task task (\<lambda>t. t\<lparr>max_writable_page := 0\<rparr>) s in
      bindO (files_struct_create s) (\<lambda>(files, s).
      let s = upd_task task (\<lambda>t. t\<lparr>task_files := files\<rparr>) s in
      if files = 0 then give_up After_task task 0 0 s else
      let s = upd_task task (\<lambda>t. t\<lparr>image := node\<rparr>) s;
          s = on_tlinks (\<lambda>h. list_init (Pages task) (list_init (Children task) h)) s;
          s = upd_task task (\<lambda>t. t\<lparr>task_parent := par\<rparr>) s;
          s = (if par \<noteq> 0 then on_tlinks (list_add (Ubp task) (Children par)) s else s) in
      bindO (pte_create pt_alloc (ptm s, vheap (fvfs s))) (\<lambda>(pt, m, k).
      let s = upd_task task (\<lambda>t. t\<lparr>user_pte := pt\<rparr>) (s\<lparr>ptm := m, fvfs := (fvfs s)\<lparr>vheap := k\<rparr>\<rparr>) in
      if pt = 0 then give_up After_files task 0 0 s else
      bindO (on_pt (pte_map pt_alloc pt PROC_VA_TRAMPOLINE (UVEC_START L) PTE_XR_SET PTE_PAGE_4K) s) (\<lambda>s.
      bindO (on_heap (kh_pmem_alloc 0) s) (\<lambda>(tf, s).
      let s = upd_task task (\<lambda>t. t\<lparr>tfp := tf\<rparr>) s in
      if tf = 0 then give_up After_pte task 0 0 s else
      bindO (on_pt (pte_map pt_alloc pt PROC_VA_TRAPFRAME tf PTE_RW_SET PTE_PAGE_4K) s) (\<lambda>s.
      bindO (on_heap (kh_pmem_alloc 1) s) (\<lambda>(ks, s).
      let s = upd_task task (\<lambda>t. t\<lparr>kstack_pa := ks\<rparr>) s in
      if ks = 0 then give_up After_tfp task 0 0 s else
      bindO (on_heap (kh_pmem_alloc 0) s) (\<lambda>(us, s).
      let s = upd_task task (\<lambda>t. t\<lparr>ustack_pa := us\<rparr>) s in
      if us = 0 then give_up After_kstack task 0 0 s else
      bindO (on_pt (pte_map pt_alloc pt PROC_VA_USTACK us (PTE_RW_SET OR PTE_U_SET) PTE_PAGE_4K) s) (task_load C node task))))))))))"

text \<open>Neither does anything.\<close>

definition task_clone :: "u64 \<Rightarrow> u64" where
  "task_clone par = (if par = 0 then 0 else 0)"

definition task_clean :: "u64 \<Rightarrow> ('s, 'b) kernel_scheme \<Rightarrow> ('s, 'b) kernel_scheme" where
  "task_clean task s = s"

definition task_exit :: "u64 \<Rightarrow> ('s, 'b) kernel_scheme \<Rightarrow> ('s, 'b) kernel_scheme outcome" where
  "task_exit task s =
     bindO (task_remove_all_page task s) (\<lambda>s.
     bindO (kheap_do (kh_pmem_free (ustack_pa (task_at s task))) s) (\<lambda>s.
     bindO (kheap_do (kh_pmem_free (kstack_pa (task_at s task))) s) (\<lambda>s.
     bindO (kheap_do (kh_pmem_free (tfp (task_at s task))) s) (\<lambda>s.
     on_pt (pte_destory kh_pmem_free (user_pte (task_at s task))) s))))"

end
