(* ===== verification/Process_Inv.thy ===== *)
theory Process_Inv
  imports Process Vfs_Inv
begin

text \<open>
  What the loader of \<open>Process\<close> does with a segment: the flags of its pages, and which bytes of the file go to
  which page.
\<close>

section \<open>Flags\<close>

text \<open>The flags of an entry that leads to a page of user memory: valid, for the user, with at least one
  permission, and nothing else.\<close>

definition user_leaf :: "pte_t \<Rightarrow> bool" where
  "user_leaf f \<longleftrightarrow> f AND PTE_V_SET \<noteq> 0 \<and> f AND PTE_U_SET \<noteq> 0 \<and> f AND (PTE_X_SET OR PTE_R_SET OR PTE_W_SET) \<noteq> 0 \<and>
     f AND NOT (PTE_V_SET OR PTE_U_SET OR PTE_X_SET OR PTE_R_SET OR PTE_W_SET) = 0"

lemmas PTE_flag_defs = PTE_V_SET_def PTE_R_SET_def PTE_W_SET_def PTE_X_SET_def PTE_U_SET_def

text \<open>C40. Every segment flags give either no permission, and then the segment is refused, or the flags of a user page
  with exactly the permissions asked for; such an entry is never taken for a pointer to another table.\<close>

theorem task_aux_map_flags_leaf:
  "task_aux_map_flags pf = 0 \<and> pf AND (PF_X OR PF_R OR PF_W) = 0 \<or>
   user_leaf (task_aux_map_flags pf) \<and> \<not> nl (task_aux_map_flags pf) \<and>
     (task_aux_map_flags pf AND PTE_X_SET \<noteq> 0 \<longleftrightarrow> pf AND PF_X \<noteq> 0) \<and>
     (task_aux_map_flags pf AND PTE_R_SET \<noteq> 0 \<longleftrightarrow> pf AND PF_R \<noteq> 0) \<and>
     (task_aux_map_flags pf AND PTE_W_SET \<noteq> 0 \<longleftrightarrow> pf AND PF_W \<noteq> 0)"
proof -
  have d: "pf AND (PF_X OR PF_R OR PF_W) = (pf AND PF_X) OR (pf AND PF_R) OR (pf AND PF_W)"
    by (simp add: and.commute bit.conj_disj_distrib)
  show ?thesis
    by (cases "pf AND PF_X = 0"; cases "pf AND PF_R = 0"; cases "pf AND PF_W = 0")
      (simp_all add: d task_aux_map_flags_def Let_def user_leaf_def PTE_flag_defs nl_def PTE_EXTRACT_XWRV_def PTE_NON_LEAF_def
        ALL_ONE_MASK_mask mask_eq_exp_minus_1)
qed

section \<open>The loader\<close>

text \<open>
  A reference loader: the pages that a segment touches, and for each the addresses from \<open>lo\<close> up to \<open>hi\<close> that lie both in
  the page and in the part of the segment that the file holds.
\<close>

fun pages_from :: "u64 \<Rightarrow> nat \<Rightarrow> u64 list" where
  "pages_from va 0 = []"
| "pages_from va (Suc n) = va # pages_from (va + PAGE_SIZE) n"

definition chunk_lo :: "Elf64_Phdr \<Rightarrow> u64 \<Rightarrow> nat" where
  "chunk_lo ph va = max (unat (p_vaddr ph)) (unat va)"

definition chunk_hi :: "Elf64_Phdr \<Rightarrow> u64 \<Rightarrow> nat" where
  "chunk_hi ph va = min (unat (p_vaddr ph) + unat (p_filesz ph)) (unat va + 4096)"

definition load_chunk :: "u64 \<Rightarrow> u64 \<Rightarrow> Elf64_Phdr \<Rightarrow> pte_t \<Rightarrow> u64 \<Rightarrow> ('s, 'b) kernel_scheme \<Rightarrow> (bool \<times> ('s, 'b) kernel_scheme) outcome" where
  "load_chunk task node ph flags va s =
     bindO (task_add_page task va flags s) (\<lambda>(page, s).
     if page = 0 then Inr (False, s)
     else if chunk_lo ph va < chunk_hi ph va then
       let n = of_nat (chunk_hi ph va - chunk_lo ph va) in
       bindO (read_to node (p_offset ph + of_nat (chunk_lo ph va - unat (p_vaddr ph)))
                (tp_pa (tpage_at s page) + of_nat (chunk_lo ph va - unat va)) n s) (\<lambda>(r, s). Inr (r = n, s))
     else Inr (True, s))"

fun load_chunks :: "u64 \<Rightarrow> u64 \<Rightarrow> Elf64_Phdr \<Rightarrow> pte_t \<Rightarrow> u64 list \<Rightarrow> ('s, 'b) kernel_scheme \<Rightarrow> (bool \<times> ('s, 'b) kernel_scheme) outcome" where
  "load_chunks task node ph flags [] s = Inr (True, s)"
| "load_chunks task node ph flags (va # vas) s =
     bindO (load_chunk task node ph flags va s) (\<lambda>(ok, s). if ok then load_chunks task node ph flags vas s else Inr (False, s))"

definition segment_pages :: "Elf64_Phdr \<Rightarrow> u64 list" where
  "segment_pages ph = pages_from (ALIGN_4K (p_vaddr ph)) ((unat (p_vaddr ph) + unat (p_memsz ph) - 1) div 4096 - unat (p_vaddr ph) div 4096 + 1)"

text \<open>The state of the loop at a page: the bytes loaded before it, and where the next go.\<close>

definition loop_at :: "Elf64_Phdr \<Rightarrow> u64 \<Rightarrow> u64 \<Rightarrow> u64 \<Rightarrow> bool" where
  "loop_at ph va bc skip \<longleftrightarrow> unat (p_vaddr ph) < unat va + 4096 \<and> bc = of_nat (min (unat (p_filesz ph)) (unat va - unat (p_vaddr ph))) \<and>
     (bc < p_filesz ph \<longrightarrow> skip = of_nat (unat (p_vaddr ph) - unat va))"

lemma unat_next_page: "unat va + 4096 < 2 ^ 64 \<Longrightarrow> unat (va + PAGE_SIZE) = unat va + 4096"
  by (simp add: unat_word_ariths PAGE_SIZE_def)

lemma chunk_arith:
  fixes S F V :: nat
  assumes "S < V + 4096" "V - S < F"
  shows "min (F - (V - S)) (4096 - (S - V)) = min (S + F) (V + 4096) - max S V"
    "V - S + (min (S + F) (V + 4096) - max S V) = min F (V + 4096 - S)"
  using assms by (cases "S \<le> V"; auto simp: min_def max_def)+

lemma loop_at_numbers:
  assumes "loop_at ph va bc skip"
  defines "lo \<equiv> chunk_lo ph va" and "hi \<equiv> chunk_hi ph va"
  shows "lo < hi \<longleftrightarrow> bc < p_filesz ph"
    "lo < hi \<Longrightarrow> min_u64 (p_filesz ph - bc) (PAGE_SIZE - skip) = of_nat (hi - lo)"
    "lo < hi \<Longrightarrow> bc = of_nat (lo - unat (p_vaddr ph)) \<and> skip = of_nat (lo - unat va)"
    "lo < hi \<Longrightarrow> unat va + 4096 < 2 ^ 64 \<Longrightarrow> loop_at ph (va + PAGE_SIZE) (bc + of_nat (hi - lo)) 0"
    "\<not> lo < hi \<Longrightarrow> unat va + 4096 < 2 ^ 64 \<Longrightarrow> loop_at ph (va + PAGE_SIZE) bc skip"
proof -
  let ?S = "unat (p_vaddr ph)" and ?F = "unat (p_filesz ph)" and ?V = "unat va"
  have sv: "?S < ?V + 4096" using assms(1) by (simp add: loop_at_def)
  have lim: "?S < 2 ^ 64" "?F < 2 ^ 64" "?V < 2 ^ 64" using unsigned_less [of "p_vaddr ph"] unsigned_less [of "p_filesz ph"] unsigned_less [of va] by simp_all
  have ub: "unat bc = min ?F (?V - ?S)" and b: "bc = of_nat (min ?F (?V - ?S))"
    using assms(1) lim by (simp_all add: loop_at_def unat_of_nat_u64)
  show less: "lo < hi \<longleftrightarrow> bc < p_filesz ph"
    using sv by (auto simp: word_less_nat_alt ub lo_def hi_def chunk_lo_def chunk_hi_def)
  have sk: "skip = of_nat (?S - ?V)" if "lo < hi" using that assms(1) less by (simp add: loop_at_def)
  have bv: "unat bc = ?V - ?S" "?V - ?S < ?F" if "lo < hi" using that less ub by (auto simp: word_less_nat_alt)
  show "bc = of_nat (lo - ?S) \<and> skip = of_nat (lo - ?V)" if "lo < hi"
    using b bv(2) [OF that] sk [OF that] by (auto simp: lo_def chunk_lo_def max_def min_def)
  show "min_u64 (p_filesz ph - bc) (PAGE_SIZE - skip) = of_nat (hi - lo)" if "lo < hi"
  proof -
    have us: "unat skip = ?S - ?V" using sk [OF that] lim by (simp add: unat_of_nat_u64)
    have "unat (p_filesz ph - bc) = ?F - (?V - ?S)" using bv [OF that] by (simp add: unat_sub word_le_nat_alt)
    moreover have "unat (PAGE_SIZE - skip) = 4096 - (?S - ?V)" using sv us by (simp add: unat_sub word_le_nat_alt PAGE_SIZE_def)
    ultimately have "unat (min_u64 (p_filesz ph - bc) (PAGE_SIZE - skip)) = hi - lo"
      using chunk_arith(1) [OF sv bv(2) [OF that]] by (simp only: unat_min_u64 lo_def hi_def chunk_lo_def chunk_hi_def)
    then have "of_nat (unat (min_u64 (p_filesz ph - bc) (PAGE_SIZE - skip))) = (of_nat (hi - lo) :: u64)" by (rule arg_cong)
    then show ?thesis by simp
  qed
  show "loop_at ph (va + PAGE_SIZE) (bc + of_nat (hi - lo)) 0" if "lo < hi" "?V + 4096 < 2 ^ 64"
  proof -
    have v: "unat (va + PAGE_SIZE) = ?V + 4096" by (rule unat_next_page [OF that(2)])
    have "bc = of_nat (?V - ?S)" using b bv(2) [OF that(1)] by (simp add: min_def)
    moreover have "?V - ?S + (hi - lo) = min ?F (?V + 4096 - ?S)"
      using chunk_arith(2) [OF sv bv(2) [OF that(1)]] by (simp only: lo_def hi_def chunk_lo_def chunk_hi_def)
    ultimately show ?thesis using sv by (simp add: loop_at_def v flip: of_nat_add)
  qed
  show "loop_at ph (va + PAGE_SIZE) bc skip" if "\<not> lo < hi" "?V + 4096 < 2 ^ 64"
  proof -
    have v: "unat (va + PAGE_SIZE) = ?V + 4096" by (rule unat_next_page [OF that(2)])
    have "?F \<le> unat bc" using that(1) less by (simp add: word_less_nat_alt not_less)
    then have "?F \<le> ?V - ?S" "min ?F (?V + 4096 - ?S) = ?F" "min ?F (?V - ?S) = ?F" using ub by auto
    then show ?thesis using sv b that(1) less by (simp add: loop_at_def v)
  qed
qed

lemma load_page_chunk:
  assumes "loop_at ph va bc skip"
  shows "load_page task node ph flags va bc skip s = bindO (load_chunk task node ph flags va s) (\<lambda>(ok, s).
     Inr (ok, if ok \<and> chunk_lo ph va < chunk_hi ph va then bc + of_nat (chunk_hi ph va - chunk_lo ph va) else bc,
          if ok \<and> chunk_lo ph va < chunk_hi ph va then 0 else skip, s))"
proof -
  note n = loop_at_numbers [OF assms]
  show ?thesis
  proof (cases "chunk_lo ph va < chunk_hi ph va")
    case True
    then have "bc < p_filesz ph" using n(1) by simp
    then show ?thesis using n(2,3) [OF True] True
      by (cases "task_add_page task va flags s") (auto simp: load_page_def load_chunk_def Let_def bindO_def split: sum.split prod.split)
  next
    case False
    then have "\<not> bc < p_filesz ph" using n(1) by simp
    then show ?thesis using False
      by (cases "task_add_page task va flags s") (auto simp: load_page_def load_chunk_def split: prod.split)
  qed
qed

lemma seg_loop_chunks:
  assumes "loop_at ph va bc skip" "unat va + 4096 * n = unat e + 4096" "unat e + 4096 < 2 ^ 64"
  shows "seg_loop task node ph flags e va bc skip s = Some (load_chunks task node ph flags (pages_from va n) s)"
  using assms
proof (induction n arbitrary: va bc skip s)
  case 0
  then have "\<not> va \<le> e" by (simp add: word_le_nat_alt)
  then show ?case by (subst seg_loop.simps) simp
next
  case (Suc n)
  have le: "va \<le> e" "unat va + 4096 < 2 ^ 64" using Suc.prems by (simp_all add: word_le_nat_alt)
  have v: "unat (va + PAGE_SIZE) = unat va + 4096" by (rule unat_next_page [OF le(2)])
  have m: "unat (va + PAGE_SIZE) + 4096 * n = unat e + 4096" using Suc.prems(2) v by simp
  note ih = Suc.IH [OF loop_at_numbers(4) [OF Suc.prems(1) _ le(2)] m Suc.prems(3)]
    Suc.IH [OF loop_at_numbers(5) [OF Suc.prems(1) _ le(2)] m Suc.prems(3)]
  show ?case
    by (subst seg_loop.simps)
      (use le(1) ih in \<open>auto simp: load_page_chunk [OF Suc.prems(1)] bindO_def simp del: of_nat_diff split: sum.split prod.split\<close>)
qed

lemma segment_loop:
  assumes "0 < unat (p_memsz ph)" "unat (p_vaddr ph) + unat (p_memsz ph) \<le> 2 ^ 64 - 4096"
  shows "seg_loop task node ph flags (ALIGN_4K (p_vaddr ph + p_memsz ph - 1)) (ALIGN_4K (p_vaddr ph)) 0 (ALL_ONE_MASK 12 AND p_vaddr ph) s =
     Some (load_chunks task node ph flags (segment_pages ph) s)"
proof -
  let ?S = "unat (p_vaddr ph)" and ?M = "unat (p_memsz ph)"
  have e: "unat (p_vaddr ph + p_memsz ph - 1) = ?S + ?M - 1"
  proof -
    have "unat (p_vaddr ph + p_memsz ph) = ?S + ?M" using assms by (simp add: unat_word_ariths)
    then show ?thesis using assms(1) by (simp add: unat_sub word_le_nat_alt)
  qed
  have va: "unat (ALIGN_4K (p_vaddr ph)) = ?S div 4096 * 4096" by (rule unat_ALIGN_4K)
  have ea: "unat (ALIGN_4K (p_vaddr ph + p_memsz ph - 1)) = (?S + ?M - 1) div 4096 * 4096" by (simp only: unat_ALIGN_4K e)
  have "unat (ALL_ONE_MASK 12 AND p_vaddr ph) = ?S mod 4096"
    by (simp add: ALL_ONE_MASK_mask and.commute word_and_mask_mod)
  then have "of_nat (unat (ALL_ONE_MASK 12 AND p_vaddr ph)) = (of_nat (?S mod 4096) :: u64)" by (rule arg_cong)
  then have skip: "ALL_ONE_MASK 12 AND p_vaddr ph = of_nat (?S - ?S div 4096 * 4096)" by (simp add: minus_div_mult_eq_mod)
  have "loop_at ph (ALIGN_4K (p_vaddr ph)) 0 (ALL_ONE_MASK 12 AND p_vaddr ph)"
  proof -
    have "?S < ?S div 4096 * 4096 + 4096" "?S div 4096 * 4096 - ?S = 0" by (simp_all add: div_mult_mod_eq)
    then show ?thesis by (simp add: loop_at_def va skip)
  qed
  moreover have "?S div 4096 \<le> (?S + ?M - 1) div 4096" using assms(1) by (intro div_le_mono) simp
  moreover have "(?S + ?M - 1) div 4096 * 4096 + 4096 < 2 ^ 64" using assms by simp
  ultimately show ?thesis unfolding segment_pages_def
    by (intro seg_loop_chunks) (simp_all only: va ea, simp_all add: diff_mult_distrib2)
qed

lemma pages_from_unat: "unat a + 4096 * n \<le> 2 ^ 64 \<Longrightarrow> j < n \<Longrightarrow> length (pages_from a n) = n \<and> unat (pages_from a n ! j) = unat a + 4096 * j"
proof (induction n arbitrary: a j)
  case (Suc n)
  show ?case
  proof (cases n)
    case (Suc k)
    then have v: "unat (a + PAGE_SIZE) = unat a + 4096" using Suc.prems(1) by (intro unat_next_page) simp
    have "length (pages_from (a + PAGE_SIZE) n) = n" using Suc.IH [of "a + PAGE_SIZE" 0] Suc.prems(1) v Suc by simp
    moreover have "unat (pages_from (a + PAGE_SIZE) n ! i) = unat a + 4096 + 4096 * i" if "i < n" for i
      using Suc.IH [of "a + PAGE_SIZE" i] Suc.prems(1) v that by simp
    ultimately show ?thesis using Suc.prems(2) by (cases j) simp_all
  qed (use Suc.prems in simp)
qed simp

text \<open>Every byte of the segment that the file holds belongs to one page.\<close>

lemma byte_in_one_page:
  assumes "0 < unat (p_memsz ph)" "unat (p_vaddr ph) + unat (p_memsz ph) \<le> 2 ^ 64 - 4096" "k < unat (p_memsz ph)" "k < unat (p_filesz ph)"
  shows "\<exists>!j. j < length (segment_pages ph) \<and> chunk_lo ph (segment_pages ph ! j) \<le> unat (p_vaddr ph) + k \<and>
     unat (p_vaddr ph) + k < chunk_hi ph (segment_pages ph ! j)"
proof -
  let ?S = "unat (p_vaddr ph)" and ?M = "unat (p_memsz ph)"
  define n where "n = (?S + ?M - 1) div 4096 - ?S div 4096 + 1"
  have d: "?S div 4096 \<le> (?S + k) div 4096" "(?S + k) div 4096 \<le> (?S + ?M - 1) div 4096" using assms by (auto intro!: div_le_mono)
  have "4096 * ((?S + ?M - 1) div 4096) \<le> ?S + ?M - 1" by simp
  then have "?S div 4096 * 4096 + 4096 * n \<le> 2 ^ 64" using assms(1,2) d unfolding n_def by simp linarith
  moreover have "segment_pages ph = pages_from (ALIGN_4K (p_vaddr ph)) n" by (simp only: segment_pages_def n_def)
  moreover have "0 < n" by (simp add: n_def)
  ultimately have p: "length (segment_pages ph) = n" "j < n \<Longrightarrow> unat (segment_pages ph ! j) = 4096 * (?S div 4096 + j)" for j
    using pages_from_unat [of "ALIGN_4K (p_vaddr ph)" n] by (auto simp: unat_ALIGN_4K)
  have in_page: "chunk_lo ph (segment_pages ph ! j) \<le> ?S + k \<and> ?S + k < chunk_hi ph (segment_pages ph ! j) \<longleftrightarrow> (?S + k) div 4096 = ?S div 4096 + j"
    if "j < n" for j
    using p(2) [OF that] assms(4) by (auto simp: chunk_lo_def chunk_hi_def)
  have "(?S + k) div 4096 - ?S div 4096 < n" using d unfolding n_def by linarith
  then have q: "(?S + k) div 4096 - ?S div 4096 < n \<and> chunk_lo ph (segment_pages ph ! ((?S + k) div 4096 - ?S div 4096)) \<le> ?S + k \<and>
      ?S + k < chunk_hi ph (segment_pages ph ! ((?S + k) div 4096 - ?S div 4096))"
    using in_page [of "(?S + k) div 4096 - ?S div 4096"] d(1) by simp
  show ?thesis unfolding p(1)
  proof (rule ex1I)
    show "(?S + k) div 4096 - ?S div 4096 < n \<and> chunk_lo ph (segment_pages ph ! ((?S + k) div 4096 - ?S div 4096)) \<le> ?S + k \<and>
      ?S + k < chunk_hi ph (segment_pages ph ! ((?S + k) div 4096 - ?S div 4096))" by (rule q)
    fix j assume "j < n \<and> chunk_lo ph (segment_pages ph ! j) \<le> ?S + k \<and> ?S + k < chunk_hi ph (segment_pages ph ! j)"
    then have "(?S + k) div 4096 = ?S div 4096 + j" using in_page [of j] by blast
    then show "j = (?S + k) div 4096 - ?S div 4096" by simp
  qed
qed

text \<open>C13. The loader of a segment is equivalent to the reference loader, which gives every page the bytes of the
  file that belong into it, for every segment of at least one byte that ends before the last page
  of the address space; and every byte of the segment that the file holds belongs to exactly one page.\<close>

theorem load_segment_reference:
  assumes "p_type ph = PT_LOAD" "p_align ph = PAGE_SIZE" "task_aux_map_flags (p_flags ph) \<noteq> 0"
    and "0 < unat (p_memsz ph)" "unat (p_vaddr ph) + unat (p_memsz ph) \<le> 2 ^ 64 - 4096"
  shows "load_segment task node ph s = load_chunks task node ph (task_aux_map_flags (p_flags ph)) (segment_pages ph) s \<and>
    (\<forall>k < min (unat (p_memsz ph)) (unat (p_filesz ph)).
      \<exists>!j. j < length (segment_pages ph) \<and> chunk_lo ph (segment_pages ph ! j) \<le> unat (p_vaddr ph) + k \<and>
        unat (p_vaddr ph) + k < chunk_hi ph (segment_pages ph ! j))"
  using assms(1-3) byte_in_one_page [OF assms(4,5)] by (simp_all add: load_segment_def Let_def segment_loop [OF assms(4,5)])

definition demo_phdr :: Elf64_Phdr where
  "demo_phdr = \<lparr>p_type = 1, p_flags = 5, p_offset = 64, p_vaddr = 0x10FF0, p_paddr = 0, p_filesz = 4128, p_memsz = 9000, p_align = 4096\<rparr>"

text \<open>A segment of 4128 bytes in the file and 9000 in memory: four pages, the first with 16 bytes, the second with 4096, the third with
  16 and the last with none.\<close>

theorem load_segment_reference_witness:
  "load_segment 8 16 demo_phdr = load_chunks 8 16 demo_phdr 27 [0x10000, 0x11000, 0x12000, 0x13000] \<and>
   map (\<lambda>va. chunk_hi demo_phdr va - chunk_lo demo_phdr va) [0x10000, 0x11000, 0x12000, 0x13000] = [16, 4096, 16, 0] \<and>
   (\<exists>!j. j < 4 \<and> chunk_lo demo_phdr ([0x10000, 0x11000, 0x12000, 0x13000] ! j) \<le> 69616 \<and>
      69616 < chunk_hi demo_phdr ([0x10000, 0x11000, 0x12000, 0x13000] ! j))"
proof -
  have v: "unat (p_vaddr demo_phdr) = 69616" "unat (p_memsz demo_phdr) = 9000" "unat (p_filesz demo_phdr) = 4128"
    by (simp_all add: demo_phdr_def)
  have "ALIGN_4K (p_vaddr demo_phdr) = 0x10000" by (simp add: demo_phdr_def) code_simp
  moreover have "pages_from 0x10000 4 = [0x10000, 0x11000, 0x12000, 0x13000]" by (simp add: eval_nat_numeral PAGE_SIZE_def)
  moreover have "task_aux_map_flags 5 = 27" by code_simp
  ultimately have p: "segment_pages demo_phdr = [0x10000, 0x11000, 0x12000, 0x13000]" "task_aux_map_flags (p_flags demo_phdr) = 27"
      "map (\<lambda>va. chunk_hi demo_phdr va - chunk_lo demo_phdr va) [0x10000, 0x11000, 0x12000, 0x13000] = [16, 4096, 16, 0]"
    by (simp_all add: segment_pages_def chunk_hi_def chunk_lo_def v) (simp_all add: demo_phdr_def)
  have f: "p_type demo_phdr = PT_LOAD" "p_align demo_phdr = PAGE_SIZE" "task_aux_map_flags (p_flags demo_phdr) \<noteq> 0"
      "0 < unat (p_memsz demo_phdr)" "unat (p_vaddr demo_phdr) + unat (p_memsz demo_phdr) \<le> 2 ^ 64 - 4096"
    unfolding p(2) v by (simp_all add: demo_phdr_def PT_LOAD_def PAGE_SIZE_def)
  note r = load_segment_reference [OF f, unfolded p(1,2) v]
  have l: "length [0x10000, 0x11000, 0x12000, 0x13000 :: u64] = 4" and m: "0 < min (9000 :: nat) 4128" by simp_all
  note e = conjunct2 [OF r, rule_format, OF m, unfolded l add_0_right]
  show ?thesis by (intro conjI ext p(3) e conjunct1 [OF r])
qed

end
