(* ===== verification/Syscall.thy ===== *)
theory Syscall
  imports Process
begin

text \<open>
  Models \<open>kernel/syscall.h\<close> and \<open>kernel/syscall.c\<close>, the system calls. The arguments are words of the
  trapframe of the task that runs; a pointer argument is translated through the page table of the task.
\<close>

section \<open>Arguments\<close>

definition SYS_chdir :: u64 where "SYS_chdir = 49"
definition SYS_openat :: u64 where "SYS_openat = 56"
definition SYS_read :: u64 where "SYS_read = 63"
definition SYS_write :: u64 where "SYS_write = 64"
definition SYS_exit :: u64 where "SYS_exit = 93"
definition SYS_sched_yield :: u64 where "SYS_sched_yield = 124"
definition SYS_getpid :: u64 where "SYS_getpid = 172"
definition SYS_getppid :: u64 where "SYS_getppid = 173"

lemmas SYS_defs = SYS_chdir_def SYS_openat_def SYS_read_def SYS_write_def SYS_exit_def SYS_sched_yield_def SYS_getpid_def
  SYS_getppid_def

text \<open>The task that runs, for a member access through its pointer.\<close>

definition current :: "('s, 'b) kernel_scheme \<Rightarrow> u64 outcome" where
  "current s = bindO (task_get_current s) (\<lambda>t. guardO Undefined (t \<noteq> 0) (Inr t))"

definition syscall_arg_check :: "int \<Rightarrow> unit outcome" where
  "syscall_arg_check i = (if i < 0 \<or> 6 < i then Inl Panic else Inr ())"

definition syscall_arg :: "int \<Rightarrow> ('s, 'b) kernel_scheme \<Rightarrow> u64 outcome" where
  "syscall_arg i s = bindO (syscall_arg_check i) (\<lambda>u. bindO (current s) (\<lambda>t. Inr (get_tf t (TF_A0 + i) s)))"

text \<open>The accessors read the word as the type of the argument, \<open>int\<close> from its lower half.\<close>

definition syscall_arg_ptr :: "int \<Rightarrow> ('s, 'b) kernel_scheme \<Rightarrow> u64 outcome" where
  "syscall_arg_ptr i s = syscall_arg i s"

definition syscall_arg_size :: "int \<Rightarrow> ('s, 'b) kernel_scheme \<Rightarrow> u64 outcome" where
  "syscall_arg_size i s = syscall_arg i s"

definition syscall_arg_int :: "int \<Rightarrow> ('s, 'b) kernel_scheme \<Rightarrow> int outcome" where
  "syscall_arg_int i s = bindO (syscall_arg i s) (\<lambda>x. Inr (to_int x))"

definition syscall_arg_fd :: "int \<Rightarrow> ('s, 'b) kernel_scheme \<Rightarrow> int outcome" where
  "syscall_arg_fd i s = bindO (syscall_arg i s) (\<lambda>x. Inr (to_int x))"

definition syscall_num :: "('s, 'b) kernel_scheme \<Rightarrow> u64 outcome" where
  "syscall_num s = bindO (current s) (\<lambda>t. Inr (get_tf t TF_A7 s))"

text \<open>Where a pointer of the task lies; the page that follows in memory is used for what does not fit
  into the page of the pointer. A pointer that no page is mapped for is undefined at once: the source adds the
  offset to the null result of the walk and passes it on, so it goes wrong only where the pointer is used.\<close>

definition user_pa :: "u64 \<Rightarrow> u64 \<Rightarrow> ('s, 'b) kernel_scheme \<Rightarrow> u64 outcome" where
  "user_pa task va s =
     (let (pa, fl, ps) = pte_walk (user_pte (task_at s task)) va (ptm s)
      in guardO Undefined (pa \<noteq> 0) (Inr (pa + (ALL_ONE_MASK 12 AND va))))"

text \<open>The string at an address, with its terminator.\<close>

partial_function (option) string_at :: "(u64 \<Rightarrow> u8) \<Rightarrow> u64 \<Rightarrow> u8 list option" where
  [code]: "string_at m a = (if m a = 0 then Some [0] else Option.bind (string_at m (a + 1)) (\<lambda>cs. Some (m a # cs)))"

definition user_string :: "u64 \<Rightarrow> ('s, 'b) kernel_scheme \<Rightarrow> u8 list outcome" where
  "user_string pa s = hang (map_option Inr (string_at (kbyte s) pa))"

section \<open>The calls\<close>

text \<open>A call returns to the task, or gives up the processor and returns when the task runs again.\<close>

datatype sysret = Returns int | Yields int

definition syscall_getpid :: "('s, 'b) kernel_scheme \<Rightarrow> int outcome" where
  "syscall_getpid s = bindO (current s) (\<lambda>t. Inr (task_pid (task_at s t)))"

definition syscall_getppid :: "('s, 'b) kernel_scheme \<Rightarrow> int outcome" where
  "syscall_getppid s =
     bindO (current s) (\<lambda>t.
     let p = task_parent (task_at s t) in Inr (if p \<noteq> 0 then task_pid (task_at s p) else 0))"

definition syscall_exit :: "('s, 'b) kernel_scheme \<Rightarrow> (int \<times> ('s, 'b) kernel_scheme) outcome" where
  "syscall_exit s =
     bindO (current s) (\<lambda>t.
     let s = upd_task t (\<lambda>k. k\<lparr>exit_status := to_int (get_tf t TF_A0 s)\<rparr>) s;
         s = upd_task t (\<lambda>k. k\<lparr>task_state := TASK_ZOMBIE\<rparr>) s
     in Inr (0, on_tlinks (scheduler_exit t) s))"

definition is_dir :: "u64 \<Rightarrow> ('s, 'b) kernel_scheme \<Rightarrow> bool" where
  "is_dir node s \<longleftrightarrow> vtype (vnode_at (fvfs s) node) = VNODE_DIR \<or> vtype (vnode_at (fvfs s) node) = VNODE_MP"

text \<open>Opening the file that a string in memory names, as a node and as a descriptor.\<close>

definition open_node :: "u64 \<Rightarrow> u64 \<Rightarrow> ('s, 'b) kernel_scheme \<Rightarrow> (u64 \<times> ('s, 'b) kernel_scheme) outcome" where
  "open_node par pa s = bindO (user_string pa s) (\<lambda>name. on_vfs (vfs_open par name) s)"

definition open_fd :: "u64 \<Rightarrow> u64 \<Rightarrow> u64 \<Rightarrow> ('s, 'b) kernel_scheme \<Rightarrow> (int \<times> ('s, 'b) kernel_scheme) outcome" where
  "open_fd files par pa s = bindO (user_string pa s) (\<lambda>name. files_struct_alloc files par name s)"

definition syscall_chdir :: "('s, 'b) kernel_scheme \<Rightarrow> (int \<times> ('s, 'b) kernel_scheme) outcome" where
  "syscall_chdir s =
     bindO (current s) (\<lambda>t.
     bindO (syscall_arg_ptr 0 s) (\<lambda>fn.
     bindO (user_pa t fn s) (\<lambda>pa.
     bindO (if kbyte s pa = 47 then open_node 0 (pa + 1) s else open_node (cwd (task_at s t)) pa s) (\<lambda>(node, s).
     if node \<noteq> 0 \<and> is_dir node s then Inr (0, upd_task t (\<lambda>k. k\<lparr>cwd := node\<rparr>) s) else Inr (-1, s)))))"

definition AT_FDCWD :: int where "AT_FDCWD = -100"

text \<open>A descriptor that is no directory gives 1, the descriptor of the standard output.\<close>

definition syscall_openat :: "('s, 'b) kernel_scheme \<Rightarrow> (int \<times> ('s, 'b) kernel_scheme) outcome" where
  "syscall_openat s =
     bindO (current s) (\<lambda>t.
     bindO (syscall_arg_ptr 1 s) (\<lambda>fn.
     bindO (user_pa t fn s) (\<lambda>pa.
     bindO (syscall_arg_fd 0 s) (\<lambda>dirfd.
     let files = task_files (task_at s t) in
     if kbyte s pa = 47 then open_fd files 0 (pa + 1) s
     else if dirfd = AT_FDCWD then open_fd files (cwd (task_at s t)) pa s
     else
       bindO (files_struct_check files dirfd s) (\<lambda>ok.
       if ok then
         bindO (files_struct_get files dirfd s) (\<lambda>node.
         if \<not> is_dir node s then Inr (1, s) else open_fd files node pa s)
       else Inr (-1, s))))))"

definition syscall_read :: "('s, 'b) kernel_scheme \<Rightarrow> (int \<times> ('s, 'b) kernel_scheme) outcome" where
  "syscall_read s =
     bindO (syscall_arg_fd 0 s) (\<lambda>fd.
     bindO (current s) (\<lambda>t.
     let files = task_files (task_at s t) in
     bindO (files_struct_check files fd s) (\<lambda>ok.
     if \<not> ok then Inr (-1, s) else
     bindO (syscall_arg_ptr 1 s) (\<lambda>va.
     bindO (syscall_arg_size 2 s) (\<lambda>n.
     bindO (user_pa t va s) (\<lambda>pa.
     bindO (files_struct_read files fd (get_bytes pa (unat n) s) n s) (\<lambda>(r, out, s).
     Inr (r, put_bytes pa out s))))))))"

definition syscall_write :: "('s, 'b) kernel_scheme \<Rightarrow> (int \<times> ('s, 'b) kernel_scheme) outcome" where
  "syscall_write s =
     bindO (syscall_arg_fd 0 s) (\<lambda>fd.
     bindO (current s) (\<lambda>t.
     let files = task_files (task_at s t) in
     bindO (files_struct_check files fd s) (\<lambda>ok.
     if \<not> ok then Inr (-1, s) else
     bindO (syscall_arg_ptr 1 s) (\<lambda>va.
     bindO (syscall_arg_size 2 s) (\<lambda>n.
     bindO (user_pa t va s) (\<lambda>pa.
     files_struct_write files fd (get_bytes pa (unat n) s) n s))))))"

definition on_mach :: "(machine \<Rightarrow> machine) \<Rightarrow> ('s, 'b) kernel_scheme \<Rightarrow> ('s, 'b) kernel_scheme" where
  "on_mach f s = set_kmach (f (kmach s)) s"

definition syscall_sched_yield :: "('s, 'b) kernel_scheme \<Rightarrow> sysret \<times> ('s, 'b) kernel_scheme" where
  "syscall_sched_yield s = (Yields 0, on_mach intr_off s)"

definition returning :: "(int \<times> ('s, 'b) kernel_scheme) outcome \<Rightarrow> (sysret \<times> ('s, 'b) kernel_scheme) outcome" where
  "returning r = bindO r (\<lambda>(n, s). Inr (Returns n, s))"

definition syscall :: "('s, 'b) kernel_scheme \<Rightarrow> (sysret \<times> ('s, 'b) kernel_scheme) outcome" where
  "syscall s =
     bindO (syscall_num s) (\<lambda>n.
     if n = SYS_getpid then returning (bindO (syscall_getpid s) (\<lambda>r. Inr (r, s)))
     else if n = SYS_getppid then returning (bindO (syscall_getppid s) (\<lambda>r. Inr (r, s)))
     else if n = SYS_sched_yield then Inr (syscall_sched_yield s)
     else if n = SYS_exit then returning (syscall_exit s)
     else if n = SYS_read then returning (syscall_read s)
     else if n = SYS_write then returning (syscall_write s)
     else if n = SYS_openat then returning (syscall_openat s)
     else if n = SYS_chdir then returning (syscall_chdir s)
     else Inr (Returns (-1), s))"

end
