(* ===== verification/Trap.thy ===== *)
theory Trap
  imports Syscall
begin

text \<open>
  Models \<open>kernel/uvec.c\<close> and \<open>kernel/kvec.c\<close>, the handlers of traps from a process and from the
  kernel, and the loop of \<open>scheduler_run\<close> with the tasks that it switches to.
\<close>

section \<open>Traps from a process\<close>

text \<open>Where a task goes on when it is switched to: a new task in \<open>task_create_ret\<close>, another behind
  the \<open>yield\<close> that it is in.\<close>

datatype resume = Fresh | After_syscall int | After_timer | After_exit

text \<open>How a handler leaves the kernel: to \<open>uvec_ret_asm\<close>, at the address, with its two arguments, or
  to the scheduler.\<close>

datatype leave = To_user u64 u64 u64 | To_scheduler resume

definition TIMER_DIFF :: u64 where "TIMER_DIFF = 10000000"

definition on_csr :: "(csrs \<Rightarrow> csrs) \<Rightarrow> ('s, 'b) kernel_scheme \<Rightarrow> ('s, 'b) kernel_scheme" where
  "on_csr f s = s\<lparr>kcsr := f (kcsr s)\<rparr>"

definition set_timer :: "u64 \<Rightarrow> ('s, 'b) kernel_scheme \<Rightarrow> ('s, 'b) kernel_scheme" where
  "set_timer t s = s\<lparr>timer := t\<rparr>"

definition utrap_ret :: "layout \<Rightarrow> code_layout \<Rightarrow> ('s, 'b) kernel_scheme \<Rightarrow> (leave \<times> ('s, 'b) kernel_scheme) outcome" where
  "utrap_ret L C s =
     (let s = on_mach (c_sstatus SSTATUS_SPP) s;
          s = on_mach (s_sstatus SSTATUS_SPIE) s;
          s = on_csr (w_stvec (PROC_VA_TRAMPOLINE + (uvec_enter_at C - UVEC_START L))) s
      in bindO (current s) (\<lambda>t.
         let s = on_csr (w_sepc (get_tf t TF_EPC s)) s;
             sp = RISCV_MAKE_SATP (user_pte (task_at s t));
             fn = uvec_ret_at C - uvec_enter_at C + PROC_VA_TRAMPOLINE
         in Inr (To_user fn PROC_VA_TRAPFRAME sp, s)))"

text \<open>The end of the handler. The \<open>yield\<close> of a task that has exited returns when the scheduler takes
  the task again, and then the handler returns through a register that \<open>uvec_enter_asm\<close> never set.\<close>

definition trap_end :: "layout \<Rightarrow> code_layout \<Rightarrow> ('s, 'b) kernel_scheme \<Rightarrow> (leave \<times> ('s, 'b) kernel_scheme) outcome" where
  "trap_end L C s =
     bindO (current s) (\<lambda>t.
     if task_state (task_at s t) = TASK_ZOMBIE then Inr (To_scheduler After_exit, on_mach intr_off s)
     else utrap_ret L C s)"

definition store_result :: "int \<Rightarrow> ('s, 'b) kernel_scheme \<Rightarrow> ('s, 'b) kernel_scheme outcome" where
  "store_result r s = bindO (current s) (\<lambda>t. Inr (set_tf t TF_A0 (of_int r) s))"

text \<open>\<open>now\<close> is the time. Only a system call stores the program counter in the trapframe; an unknown
  cause is printed and the task goes on.\<close>

definition utrap_entry :: "layout \<Rightarrow> code_layout \<Rightarrow> u64 \<Rightarrow> ('s, 'b) kernel_scheme \<Rightarrow> (leave \<times> ('s, 'b) kernel_scheme) outcome" where
  "utrap_entry L C now s =
     (let cause = scause (kcsr s); s = on_csr (w_stvec (kvec_asm_at C)) s in
      if cause = SCAUSE_ECALL_USER then
        bindO (current s) (\<lambda>t.
        let s = set_tf t TF_EPC (sepc (kcsr s) + 4) s; s = on_mach intr_on s in
        bindO (syscall s) (\<lambda>(r, s).
        case r of
          Returns n \<Rightarrow> bindO (store_result n s) (trap_end L C)
        | Yields n \<Rightarrow> Inr (To_scheduler (After_syscall n), s)))
      else if cause = SCAUSE_SUPV_TIMER then Inr (To_scheduler After_timer, set_timer (now + TIMER_DIFF) s)
      else trap_end L C s)"

text \<open>What a task does when it is switched to.\<close>

definition resume_task :: "layout \<Rightarrow> code_layout \<Rightarrow> resume \<Rightarrow> ('s, 'b) kernel_scheme \<Rightarrow> (leave \<times> ('s, 'b) kernel_scheme) outcome" where
  "resume_task L C r s =
     (case r of
        Fresh \<Rightarrow> utrap_ret L C s
      | After_syscall n \<Rightarrow> bindO (store_result n s) (trap_end L C)
      | After_timer \<Rightarrow> trap_end L C s
      | After_exit \<Rightarrow> Inl Undefined)"

section \<open>Traps in the kernel\<close>

definition kvec :: "u64 \<Rightarrow> ('s, 'b) kernel_scheme \<Rightarrow> ('s, 'b) kernel_scheme outcome" where
  "kvec now s =
     (let cause = scause (kcsr s); st = sstatus (kmach s); spp = st AND SSTATUS_SPP; epc = sepc (kcsr s) in
      if spp = 0 then Inl Panic
      else if cause = SCAUSE_SUPV_TIMER then
        let s = set_timer (now + TIMER_DIFF) s;
            s = on_csr (w_sepc epc) s
        in Inr (on_mach (\<lambda>m. m\<lparr>sstatus := st\<rparr>) s)
      else Inl Panic)"

section \<open>The scheduler and its tasks\<close>

text \<open>The hart runs the loop of the scheduler or a task, in user mode; with every task goes the point
  where it goes on.\<close>

datatype where_at = In_loop | In_task u64

record 's system =
  pc_at :: where_at
  kern :: "'s kernel"
  point :: "u64 \<Rightarrow> resume"

text \<open>The time between the two switches of the loop: the task either goes to user mode or comes back.\<close>

definition after_leave :: "u64 \<Rightarrow> leave \<times> 's kernel \<Rightarrow> (u64 \<Rightarrow> resume) \<Rightarrow> 's system" where
  "after_leave t r p =
     (case r of
        (To_user f a b, s) \<Rightarrow> \<lparr>pc_at = In_task t, kern = s, point = p\<rparr>
      | (To_scheduler k, s) \<Rightarrow> \<lparr>pc_at = In_loop, kern = on_tlinks (scheduler_mark t) s, point = p(t := k)\<rparr>)"

text \<open>In user mode the task changes its own registers, whose values \<open>uvec_enter_asm\<close> puts into the
  trapframe, and its memory; the trap sets the registers \<open>scause\<close>,
  \<open>sepc\<close>, \<open>stval\<close> and \<open>sstatus\<close>.\<close>

definition user_runs :: "u64 \<Rightarrow> 's kernel \<Rightarrow> 's kernel \<Rightarrow> bool" where
  "user_runs t s s' \<longleftrightarrow>
     (\<exists>w b c st. s' = on_mach (\<lambda>m. m\<lparr>sstatus := st\<rparr>) (s\<lparr>fword := w, kbyte := b, kcsr := c\<rparr>) \<and>
        (\<forall>a. (\<forall>k < 31. a \<noteq> word_addr (tfp (task_at s t)) (int k)) \<longrightarrow> w a = fword s a) \<and>
        satp c = satp (kcsr s) \<and> stvec c = stvec (kcsr s) \<and> sie c = sie (kcsr s))"

inductive sys_step :: "layout \<Rightarrow> code_layout \<Rightarrow> 's system \<Rightarrow> 's system \<Rightarrow> bool" for L C where
  spins: "pc_at y = In_loop \<Longrightarrow> lnext (tlinks (kern y)) Process_runnable = Process_runnable \<Longrightarrow> sys_step L C y y"
| picks: "pc_at y = In_loop \<Longrightarrow> lnext (tlinks (kern y)) Process_runnable = Ubs t \<Longrightarrow>
    task_set_current t (kern y) = Inr s \<Longrightarrow> resume_task L C (point y t) s = Inr r \<Longrightarrow>
    sys_step L C y (after_leave t r (point y))"
| traps: "pc_at y = In_task t \<Longrightarrow> user_runs t (kern y) s \<Longrightarrow> utrap_entry L C now s = Inr r \<Longrightarrow>
    sys_step L C y (after_leave t r (point y))"

end
