(* ===== verification/Current.thy ===== *)
theory Current
  imports File_Inv
begin

text \<open>
  The heap, the virtual file system and the open files leave alone which hart runs which task: they
  change the state of a hart only by taking and releasing locks. The rules below push a
  condition on the result of an operation back to its start.
\<close>

section \<open>Conditions on results\<close>

definition post :: "('a \<Rightarrow> bool) \<Rightarrow> 'a outcome \<Rightarrow> bool" where
  "post P r \<longleftrightarrow> (case r of Inl e \<Rightarrow> True | Inr x \<Rightarrow> P x)"

lemma post_simps [simp]:
  "post P (Inl e)" "post P (Inr x) = P x" "post P (bindO m f) = post (\<lambda>x. post P (f x)) m"
  "post P (guardO e b r) \<longleftrightarrow> (b \<longrightarrow> post P r)" "post P (if b then r else r') \<longleftrightarrow> (if b then post P r else post P r')"
  by (auto simp: post_def bindO_def guardO_def split: sum.split)

lemma postD: "post P r \<Longrightarrow> r = Inr x \<Longrightarrow> P x"
  by (simp add: post_def)

lemma post_weaken: "post P r \<Longrightarrow> (\<And>x. P x \<Longrightarrow> Q x) \<Longrightarrow> post Q r"
  by (auto simp: post_def split: sum.split)

lemma post_result: "(\<And>x. r = Inr x \<Longrightarrow> P x \<Longrightarrow> Q x) \<Longrightarrow> post P r \<Longrightarrow> post Q r"
  by (auto simp: post_def split: sum.split)

lemma post_eq: "(\<And>x. r = Inr x \<Longrightarrow> Q x) \<Longrightarrow> post Q r"
  by (auto simp: post_def split: sum.split)

lemma post_true [simp]: "post (\<lambda>x. True) r"
  by (simp add: post_def split: sum.split)

text \<open>Results of operations that do not change the state need no rule.\<close>

lemma post_any: "(\<And>x. Q x) \<Longrightarrow> post Q r"
  by (simp add: post_def split: sum.split)

named_theorems wp

section \<open>Harts\<close>

definition hart_view :: "machine \<Rightarrow> nat \<times> u64 list" where
  "hart_view m = (hartid m, map curent_task (cpus m))"

lemma put_cpu_view:
  assumes "get_cpu m = Inr c" "curent_task c' = curent_task c" "put_cpu c' m = Inr m'"
  shows "hart_view m' = hart_view m"
proof -
  have "hartid m < length (cpus m)" "c = cpus m ! hartid m" using assms(1) by (simp_all add: get_cpu_def arr_get_eq_Inr)
  moreover have "m' = m\<lparr>cpus := (cpus m)[hartid m := c']\<rparr>" using assms(3) by (auto simp: put_cpu_def bindO_eq_Inr arr_set_eq_Inr)
  ultimately show ?thesis using assms(2) by (simp add: hart_view_def map_update)
    (metis length_map list_update_id nth_map)
qed

lemma sstatus_view [simp]: "hart_view (c_sstatus x m) = hart_view m" "hart_view (s_sstatus x m) = hart_view m"
  "hart_view (intr_off m) = hart_view m" "hart_view (intr_on m) = hart_view m" "hart_view (m\<lparr>sstatus := x\<rparr>) = hart_view m"
  by (simp_all add: hart_view_def intr_off_def intr_on_def c_sstatus_def s_sstatus_def)

lemma get_cpu_off: "get_cpu (intr_off m) = get_cpu m"
  by (simp add: get_cpu_def intr_off_def c_sstatus_def)

lemma cpu_int_view:
  "cpu_int_push m = Inr m' \<Longrightarrow> hart_view m' = hart_view m" "cpu_int_pop m = Inr m' \<Longrightarrow> hart_view m' = hart_view m"
proof -
  assume "cpu_int_push m = Inr m'"
  then obtain c d where c: "get_cpu m = Inr c" "put_cpu d (intr_off m) = Inr m'" "curent_task d = curent_task c"
    by (cases "get_cpu m") (auto simp: cpu_int_push_def Let_def split: if_splits)
  then show "hart_view m' = hart_view m" using put_cpu_view [of "intr_off m" c d m'] by (simp add: get_cpu_off)
next
  assume "cpu_int_pop m = Inr m'"
  then obtain c m1 where c: "get_cpu m = Inr c" "put_cpu (c\<lparr>int_depth := int_depth c - 1\<rparr>) m = Inr m1" "m' = m1 \<or> m' = intr_on m1"
    by (auto simp: cpu_int_pop_def Let_def bindO_eq_Inr split: if_splits)
  then show "hart_view m' = hart_view m" using put_cpu_view [OF c(1) _ c(2)] by auto
qed

lemma spinlock_wp [wp]:
  "(\<And>l m'. hart_view m' = hart_view m \<Longrightarrow> Q (l, m')) \<Longrightarrow> post Q (spinlock_acquire k m)"
  "(\<And>l m'. hart_view m' = hart_view m \<Longrightarrow> Q (l, m')) \<Longrightarrow> post Q (spinlock_release k m)"
  by (auto simp: post_def spinlock_acquire_def spinlock_release_def Let_def outcome_simps dest: cpu_int_view split: sum.split)

section \<open>The heap\<close>

definition heap_view :: "'a kheap_scheme \<Rightarrow> nat \<times> u64 list" where
  "heap_view h = hart_view (snd (pmem_st h))"

lemma heap_view_simps [simp]:
  "heap_view (h\<lparr>pmem_st := p\<rparr>) = hart_view (snd p)" "heap_view (set_word a x h) = heap_view h" "heap_view (set_slab s d h) = heap_view h"
  "heap_view (on_links f k) = heap_view k" "heap_view (k\<lparr>kmem_lock := l\<rparr>) = heap_view k"
  by (simp_all add: heap_view_def set_word_def set_slab_def on_links_def)

lemmas pmem_any = post_any [where r = "buddy_alloc_index n b" for n b] post_any [where r = "buddy_get_used i b" for i b]
  post_any [where r = "buddy_free_index i b" for i b] post_any [where r = "pmem_set_adat a d b" for a d b]
  post_any [where r = "pmem_get_adat a b" for a b]

lemma pmem_wp [wp]:
  "(\<And>a b m. hart_view m = hart_view (snd s) \<Longrightarrow> Q (a, b, m)) \<Longrightarrow> post Q (pmem_alloc n s)"
  "(\<And>b m. hart_view m = hart_view (snd s) \<Longrightarrow> R (b, m)) \<Longrightarrow> post R (pmem_free a s)"
  by (cases s; auto simp: pmem_alloc_def pmem_free_def buddy_alloc_def buddy_free_def Let_def split: prod.split intro!: wp pmem_any)+

lemma link_loop_wp [wp]: "(\<And>h'. heap_view h' = heap_view h \<Longrightarrow> Q h') \<Longrightarrow> post Q (link_loop n p sz e h)"
  by (induction n arbitrary: p h) (auto simp: SLAB_SET_NEXT_def)

lemma slab_wp [wp]:
  "(\<And>a h'. heap_view h' = heap_view h \<Longrightarrow> Q (a, h')) \<Longrightarrow> post Q (slab_alloc s h)"
  "(\<And>h'. heap_view h' = heap_view h \<Longrightarrow> R h') \<Longrightarrow> post R (slab_free s a h)"
  by (auto simp: slab_alloc_def slab_free_def SLAB_GET_NEXT_def SLAB_SET_NEXT_def Let_def split: option.split)

lemma slab_create_ex_wp [wp]: "(\<And>h'. heap_view h' = heap_view h \<Longrightarrow> Q h') \<Longrightarrow> post Q (slab_create_ex s pg1 sz ord h)"
  by (auto simp: slab_create_ex_def Let_def SLAB_SET_NEXT_def simp del: link_loop.simps intro!: wp)

lemma kh_wp [wp]:
  "(\<And>a h'. heap_view h' = heap_view h \<Longrightarrow> Q (a, h')) \<Longrightarrow> post Q (kh_pmem_alloc n h)"
  "(\<And>h'. heap_view h' = heap_view h \<Longrightarrow> R h') \<Longrightarrow> post R (kh_pmem_free a h)"
  "(\<And>h'. heap_view h' = heap_view h \<Longrightarrow> R h') \<Longrightarrow> post R (kh_set_adat a d h)"
  by (auto simp: kh_pmem_alloc_def kh_pmem_free_def kh_set_adat_def heap_view_def intro!: wp pmem_any)

lemma slab_create_wp [wp]: "(\<And>a h'. heap_view h' = heap_view h \<Longrightarrow> Q (a, h')) \<Longrightarrow> post Q (slab_create p sz ord d h)"
  by (auto simp: slab_create_def intro!: wp)

lemma kmem_lock_wp [wp]:
  "(\<And>h'. heap_view h' = heap_view h \<Longrightarrow> R h') \<Longrightarrow> post R (kmem_acquire h)"
  "(\<And>h'. heap_view h' = heap_view h \<Longrightarrow> R h') \<Longrightarrow> post R (kmem_release h)"
  by (auto simp: kmem_acquire_def kmem_release_def heap_view_def intro!: wp)

lemma kmem_cache_wp [wp]:
  "(\<And>a h'. heap_view h' = heap_view h \<Longrightarrow> Q (a, h')) \<Longrightarrow> post Q (kmem_cache_alloc kc h)"
  "(\<And>h'. heap_view h' = heap_view h \<Longrightarrow> R h') \<Longrightarrow> post R (kmem_cache_free kc a h)"
  by (auto simp: kmem_cache_alloc_def kmem_cache_free_def Let_def split: option.split intro!: wp)

lemma kmalloc_wp [wp]:
  "(\<And>a h'. heap_view h' = heap_view h \<Longrightarrow> Q (a, h')) \<Longrightarrow> post Q (kmalloc n h)"
  "(\<And>h'. heap_view h' = heap_view h \<Longrightarrow> R h') \<Longrightarrow> post R (kfree a h)"
  by (auto simp: kmalloc_def kmem_alloc_def kfree_def kmem_free_def intro!: wp pmem_any post_any [where r = "kmem_select n h" for n h])

section \<open>The virtual file system\<close>

text \<open>What the operations of a lower file system have to keep.\<close>

definition keeps_view :: "('s world \<Rightarrow> ('a \<times> 's world) outcome) \<Rightarrow> bool" where
  "keeps_view f \<longleftrightarrow> (\<forall>l k. post (\<lambda>(x, l', k'). heap_view k' = heap_view k) (f (l, k)))"

definition bk_keeps :: "'s vfs_backend \<Rightarrow> bool" where
  "bk_keeps b \<longleftrightarrow>
     (\<forall>ob off out n. keeps_view (bk_read b ob off out n)) \<and> (\<forall>ob off inp n. keeps_view (bk_write b ob off inp n)) \<and>
     (\<forall>ob i r. keeps_view (bk_iterate b ob i r))"

definition vfs_good :: "'s vfs_t \<Rightarrow> bool" where
  "vfs_good v \<longleftrightarrow> (\<forall>n b. bkd (vnode_at v n) = Some b \<longrightarrow> bk_keeps b)"

definition vview :: "'s vfs_t \<Rightarrow> nat \<times> u64 list" where
  "vview v = heap_view (vheap v)"

lemma vfs_good_simps [simp]:
  "vfs_good (on_vlinks f v) = vfs_good v" "vfs_good (upd_block a g v) = vfs_good v" "vfs_good (v\<lparr>page_at := p\<rparr>) = vfs_good v"
  "vfs_good (v\<lparr>bbf_used_cnt := n\<rparr>) = vfs_good v" "vfs_good (v\<lparr>low := l\<rparr>) = vfs_good v" "vfs_good (v\<lparr>vfs_lock := kl\<rparr>) = vfs_good v"
  "vfs_good (v\<lparr>vheap := k\<rparr>) = vfs_good v"
  by (simp_all add: vfs_good_def on_vlinks_def upd_block_def)

lemma vview_simps [simp]:
  "vview (on_vlinks f v) = vview v" "vview (upd_block a g v) = vview v" "vview (v\<lparr>page_at := p\<rparr>) = vview v"
  "vview (v\<lparr>bbf_used_cnt := n\<rparr>) = vview v" "vview (v\<lparr>low := l\<rparr>) = vview v" "vview (v\<lparr>vfs_lock := kl\<rparr>) = vview v"
  "vview (upd_vnode a h v) = vview v" "vview (v\<lparr>vheap := k\<rparr>) = heap_view k"
  by (simp_all add: vview_def on_vlinks_def upd_block_def upd_vnode_def)

lemma heap_view_vheap [simp]: "heap_view (vheap v) = vview v"
  by (simp add: vview_def)

lemma vfs_good_upd [simp]:
  "vfs_good v \<Longrightarrow> bkd (g (vnode_at v a)) = bkd (vnode_at v a) \<Longrightarrow> vfs_good (upd_vnode a g v)"
  "vfs_good v \<Longrightarrow> vfs_good (upd_vnode a (\<lambda>n. n\<lparr>bkd := bkd (vnode_at v b), parent := p\<rparr>) v)"
  by (auto simp: vfs_good_def upd_vnode_def)

lemma vfs_good_bkd: "vfs_good v \<Longrightarrow> bkd (vnode_at v n) = Some b \<Longrightarrow> bk_keeps b"
  by (auto simp: vfs_good_def)

lemma bkd_of_wp [wp]: "vfs_good v \<Longrightarrow> (\<And>b. bk_keeps b \<Longrightarrow> Q b) \<Longrightarrow> post Q (bkd_of node v)"
  by (auto simp: bkd_of_def dest: vfs_good_bkd split: option.split)

lemma call_wp:
  assumes "vfs_good v" "keeps_view f" "\<And>x v'. vfs_good v' \<Longrightarrow> vview v' = vview v \<Longrightarrow> Q (x, v')"
  shows "post Q (call f v)"
proof -
  have "post (\<lambda>(x, l', k'). heap_view k' = heap_view (vheap v)) (f (low v, vheap v))" using assms(2) unfolding keeps_view_def by blast
  then show ?thesis
    unfolding call_def post_simps by (rule post_weaken) (use assms(1,3) in \<open>auto\<close>)
qed

lemma bk_calls [wp]:
  "vfs_good v \<Longrightarrow> bk_keeps b \<Longrightarrow> (\<And>x v'. vfs_good v' \<Longrightarrow> vview v' = vview v \<Longrightarrow> Q (x, v')) \<Longrightarrow> post Q (call (bk_read b ob off out n) v)"
  "vfs_good v \<Longrightarrow> bk_keeps b \<Longrightarrow> (\<And>x v'. vfs_good v' \<Longrightarrow> vview v' = vview v \<Longrightarrow> R (x, v')) \<Longrightarrow> post R (call (bk_write b ob off out n) v)"
  "vfs_good v \<Longrightarrow> bk_keeps b \<Longrightarrow> (\<And>x v'. vfs_good v' \<Longrightarrow> vview v' = vview v \<Longrightarrow> R (x, v')) \<Longrightarrow> post R (call (bk_iterate b ob i r) v)"
  by (erule call_wp, simp add: bk_keeps_def, simp)+

lemma vfs_heap_wp [wp]:
  "vfs_good v \<Longrightarrow> (\<And>a v'. vfs_good v' \<Longrightarrow> vview v' = vview v \<Longrightarrow> Q (a, v')) \<Longrightarrow> post Q (vkmalloc n v)"
  "vfs_good v \<Longrightarrow> (\<And>v'. vfs_good v' \<Longrightarrow> vview v' = vview v \<Longrightarrow> R v') \<Longrightarrow> post R (vkfree a v)"
  "vfs_good v \<Longrightarrow> (\<And>v'. vfs_good v' \<Longrightarrow> vview v' = vview v \<Longrightarrow> R v') \<Longrightarrow> post R (vfs_acquire v)"
  "vfs_good v \<Longrightarrow> (\<And>v'. vfs_good v' \<Longrightarrow> vview v' = vview v \<Longrightarrow> R v') \<Longrightarrow> post R (vfs_release v)"
  by (auto simp: vkmalloc_def vkfree_def vfs_acquire_def vfs_release_def vview_def heap_view_def simp del: heap_view_vheap intro!: wp)

lemma vblk_wp [wp]:
  "vfs_good v \<Longrightarrow> (\<And>a v'. vfs_good v' \<Longrightarrow> vview v' = vview v \<Longrightarrow> Q (a, v')) \<Longrightarrow> post Q (vblk_alloc v)"
  "vfs_good v \<Longrightarrow> (\<And>a v'. vfs_good v' \<Longrightarrow> vview v' = vview v \<Longrightarrow> Q (a, v')) \<Longrightarrow> post Q (vbf_borrow v)"
  "vfs_good v \<Longrightarrow> (\<And>v'. vfs_good v' \<Longrightarrow> vview v' = vview v \<Longrightarrow> R v') \<Longrightarrow> post R (vbf_bind blk node off v)"
  by (auto simp: vblk_alloc_def vbf_borrow_def vbf_bind_def Let_def intro!: wp)

lemma vfs_access_wp [wp]: "vfs_good v \<Longrightarrow> (\<And>a v'. vfs_good v' \<Longrightarrow> vview v' = vview v \<Longrightarrow> Q (a, v')) \<Longrightarrow> post Q (vfs_access node off v)"
  by (auto simp: vfs_access_def vbf_activate_def intro!: wp post_any [where r = "vbf_chkbufed a b v" for a b v])

lemma upd_vnode_fields: "vnode_at (on_vlinks f v) = vnode_at v" "vnode_at (upd_vnode a g v) = (vnode_at v)(a := g (vnode_at v a))"
  by (simp_all add: on_vlinks_def upd_vnode_def)

lemma vnode_wp [wp]:
  "vfs_good v \<Longrightarrow> (\<And>v'. vfs_good v' \<Longrightarrow> vview v' = vview v \<Longrightarrow> Q v') \<Longrightarrow> post Q (vnode_ref node v)"
  "vfs_good v \<Longrightarrow> (\<And>v'. vfs_good v' \<Longrightarrow> vview v' = vview v \<Longrightarrow> Q v') \<Longrightarrow> post Q (vnode_add node par ob v)"
  by (auto simp: vnode_ref_def vnode_add_def Let_def upd_vnode_fields intro!: wp
      post_any [where r = "bk_size b ob w" for b ob w] post_any [where r = "bk_name b ob w" for b ob w] post_any [where r = "bk_type b ob w" for b ob w])

section \<open>Directories and paths\<close>

lemma hang_post: "(\<And>r. f = Some r \<Longrightarrow> post P r) \<Longrightarrow> post P (hang f)"
  by (cases f) (auto simp: hang_def)

lemma span_step_wp [wp]:
  "vfs_good v \<Longrightarrow> (\<And>h ch ob it v'. vfs_good v' \<Longrightarrow> vview v' = vview v \<Longrightarrow> Q (h, ch, ob, it, v')) \<Longrightarrow> post Q (span_step node name ob iter v)"
  by (auto simp: span_step_def intro!: wp post_any [where r = "names_equal a b" for a b])

lemma span_loop_post:
  assumes "span_loop node name ob iter ret v = Some r" "vfs_good v"
  shows "post (\<lambda>(ob, ret, v'). vfs_good v' \<and> vview v' = vview v) r"
  using assms
proof (induction node name ob iter ret v r rule: span_loop.raw_induct [rotated, consumes 1, case_names step])
  case (step f node name ob iter ret v r)
  show ?case
  proof (cases "iter = 0")
    case False
    show ?thesis
    proof (cases "span_step node name ob iter v")
      case (Inr x)
      obtain h ch ob' it v' where x: "x = (h, ch, ob', it, v')" by (cases x)
      have "post (\<lambda>(h, ch, ob, it, v'). vfs_good v' \<and> vview v' = vview v) (span_step node name ob iter v)" using step(3) by (auto intro!: wp)
      then have "vfs_good v'" "vview v' = vview v" using Inr x by (simp_all add: post_def)
      moreover have "f node name ob' it (if h then ch else ret) v' = Some r" using step(2) False Inr x by simp
      ultimately show ?thesis using step(1) [of node name ob' it _ v' r] by simp
    qed (use step False in auto)
  qed (use step in auto)
qed

lemma span_search_wp [wp]:
  "vfs_good v \<Longrightarrow> (\<And>a v'. vfs_good v' \<Longrightarrow> vview v' = vview v \<Longrightarrow> Q (a, v')) \<Longrightarrow> post Q (vfs_span_search node name v)"
  by (auto simp: vfs_span_search_def Let_def intro!: wp hang_post elim!: post_weaken [OF span_loop_post])

lemma vfs_get_wp [wp]:
  "vfs_good v \<Longrightarrow> (\<And>a v'. vfs_good v' \<Longrightarrow> vview v' = vview v \<Longrightarrow> Q (a, v')) \<Longrightarrow> post Q (vfs_get par name v)"
  by (auto simp: vfs_get_def Let_def intro!: wp post_any [where r = "vfs_search a b v" for a b v] post_any [where r = "strcmp a b" for a b])

lemma path_walk_keeps:
  "vfs_good v \<Longrightarrow> post (\<lambda>(a, b, v'). vfs_good v' \<and> vview v' = vview v) (path_walk pth s p v)"
proof (induction pth s p v rule: path_walk.induct)
  case (1 pth s p v)
  have get: "post (\<lambda>(q, v'). vfs_good v' \<and> vview v' = vview v) (vfs_get p (take (e - s) (drop s pth) @ [0]) v)" for e
    using 1(2) by (auto intro!: wp)
  show ?case
  proof (cases "p \<noteq> 0 \<and> s < length pth \<and> pth ! s \<noteq> 0")
    case t: True
    show ?thesis
    proof (cases "component_end pth s")
      case (Inr e)
      have "path_walk pth s p v = bindO (vfs_get p (take (e - s) (drop s pth) @ [0]) v)
          (\<lambda>(q, v). if pth ! e = 0 then Inr (q, p, v) else path_walk pth (e + 1) q v)"
        by (subst path_walk.simps) (use t Inr in simp)
      moreover have "post (\<lambda>(q, v'). post (\<lambda>(a, b, v'). vfs_good v' \<and> vview v' = vview v)
          (if pth ! e = 0 then Inr (q, p, v') else path_walk pth (e + 1) q v')) (vfs_get p (take (e - s) (drop s pth) @ [0]) v)"
        by (rule post_result [OF _ get]) (use 1(1) [OF _ _ _ Inr] 1(2) t in auto)
      ultimately show ?thesis by (simp add: case_prod_beta')
    qed (subst path_walk.simps, use t in simp)
  qed (subst path_walk.simps, use 1(2) in auto)
qed

lemma path_walk_wp [wp]:
  "vfs_good v \<Longrightarrow> (\<And>a b v'. vfs_good v' \<Longrightarrow> vview v' = vview v \<Longrightarrow> Q (a, b, v')) \<Longrightarrow> post Q (path_walk pth s p v)"
  by (rule post_weaken [OF path_walk_keeps]) auto

lemma vfs_get_recursive_wp [wp]:
  "vfs_good v \<Longrightarrow> (\<And>a v'. vfs_good v' \<Longrightarrow> vview v' = vview v \<Longrightarrow> Q (a, v')) \<Longrightarrow> post Q (vfs_get_recursive par pth v)"
  by (auto simp: vfs_get_recursive_def Let_def intro!: wp post_any [where r = "strlen a" for a])

section \<open>Open files\<close>

lemma vread_loop_post:
  assumes "vread_loop node off byteoff n k out v = Some r" "vfs_good v"
  shows "post (\<lambda>(n, out, v'). vfs_good v' \<and> vview v' = vview v) r"
  using assms
proof (induction node off byteoff n k out v r rule: vread_loop.raw_induct [rotated, consumes 1, case_names step])
  case (step f node off byteoff n k out v r)
  let ?len = "min_u64 (ucast VFS_BLOCK_SIZE - byteoff) (n - k)"
  let ?m = "bindO (vfs_access node off v) (\<lambda>(dat, v). bindO (read_bytes (unat byteoff) (unat ?len) (page_at v dat)) (\<lambda>bs.
      bindO (write_bytes (unat k) bs out) (\<lambda>out. Inr (out, v))))"
  have m: "post (\<lambda>(out, v'). vfs_good v' \<and> vview v' = vview v) ?m"
    using step(3) by (auto intro!: wp post_any [where r = "read_bytes a b x" for a b x] post_any [where r = "write_bytes a b x" for a b x])
  show ?case
  proof (cases "k = n")
    case False
    show ?thesis
    proof (cases ?m)
      case (Inr x)
      obtain out' v' where x: "x = (out', v')" by (cases x)
      have "vfs_good v'" "vview v' = vview v" using postD [OF m Inr] x by simp_all
      moreover have "f node (off + 1) 0 n (k + ?len) out' v' = Some r" using step(2) False Inr x by (simp add: Let_def)
      ultimately show ?thesis using step(1) [of node _ _ _ _ out' v' r] by simp
    qed (use step False in \<open>auto simp: Let_def\<close>)
  qed (use step in auto)
qed

lemma vfs_files_wp [wp]:
  "vfs_good v \<Longrightarrow> (\<And>a v'. vfs_good v' \<Longrightarrow> vview v' = vview v \<Longrightarrow> Q (a, v')) \<Longrightarrow> post Q (vfs_open par pth v)"
  "vfs_good v \<Longrightarrow> (\<And>a b v'. vfs_good v' \<Longrightarrow> vview v' = vview v \<Longrightarrow> R (a, b, v')) \<Longrightarrow> post R (vfs_read node off out n v)"
  "vfs_good v \<Longrightarrow> (\<And>a v'. vfs_good v' \<Longrightarrow> vview v' = vview v \<Longrightarrow> Q (a, v')) \<Longrightarrow> post Q (vfs_write node off out n v)"
  by (auto simp: vfs_open_def vfs_read_def vfs_write_def Let_def intro!: wp hang_post elim!: post_weaken [OF vread_loop_post])

text \<open>What an operation on a table of open files can change.\<close>

definition file_change :: "('s, 'b) files_sys_scheme \<Rightarrow> ('s, 'b) files_sys_scheme \<Rightarrow> bool" where
  "file_change s s' \<longleftrightarrow> (\<exists>v w. s' = s\<lparr>fvfs := v, fword := w\<rparr> \<and> vfs_good v \<and> vview v = vview (fvfs s))"

lemma file_change_simps [simp]:
  "vfs_good v \<Longrightarrow> vview v = vview (fvfs s) \<Longrightarrow> file_change s (s\<lparr>fvfs := v\<rparr>)"
  "vfs_good (fvfs s) \<Longrightarrow> file_change s s"
  by (cases s; force simp: file_change_def)+

lemma file_change_word [simp]:
  assumes "file_change s s'"
  shows "file_change s (set_fword a x s')" "file_change s (advance a n s')"
proof -
  show set: "file_change s (set_fword a x s')" for a x
  proof -
    obtain v w where "s' = s\<lparr>fvfs := v, fword := w\<rparr>" "vfs_good v" "vview v = vview (fvfs s)"
      using assms by (auto simp: file_change_def)
    then show ?thesis unfolding file_change_def by (intro exI [of _ v] exI [of _ "w(a := x)"]) (simp add: set_fword_def)
  qed
  show "file_change s (advance a n s')" using assms set by (simp add: advance_def)
qed

lemma files_wp [wp]:
  "vfs_good (fvfs s) \<Longrightarrow> (\<And>n s'. file_change s s' \<Longrightarrow> Q (n, s')) \<Longrightarrow> post Q (on_vfs (vfs_open par pth) s)"
  "vfs_good (fvfs s) \<Longrightarrow> (\<And>n s'. file_change s s' \<Longrightarrow> R (n, s')) \<Longrightarrow> post R (files_struct_alloc f par pth s)"
  "vfs_good (fvfs s) \<Longrightarrow> (\<And>n out s'. file_change s s' \<Longrightarrow> S (n, out, s')) \<Longrightarrow> post S (files_struct_read f fd out n s)"
  "vfs_good (fvfs s) \<Longrightarrow> (\<And>n s'. file_change s s' \<Longrightarrow> R (n, s')) \<Longrightarrow> post R (files_struct_write f fd out n s)"
  by (auto simp: on_vfs_def files_struct_alloc_def files_struct_read_def files_struct_write_def null_node_def Let_def intro!: wp
      post_any [where r = "node_addr f fd s" for f fd s] post_any [where r = "seek_addr f fd s" for f fd s])

end
