(* ===== verification/Trap_Inv.thy ===== *)
theory Trap_Inv
  imports Trap Asm_Inv
begin

text \<open>What the trap handlers of \<open>Trap\<close> do with the task that runs.\<close>

section \<open>Fields\<close>

lemma upd_fields [simp]:
  "kmach (on_csr f s) = kmach s" "kmach (set_timer n s) = kmach s" "kmach (set_tf t i x s) = kmach s"
  "kmach (upd_task t g s) = kmach s" "kmach (on_tlinks h s) = kmach s" "kmach (on_mach m s) = m (kmach s)"
  "task_at (on_csr f s) = task_at s" "task_at (set_timer n s) = task_at s" "task_at (set_tf t i x s) = task_at s"
  "task_at (on_tlinks h s) = task_at s" "task_at (on_mach m s) = task_at s" "task_at (upd_task t g s) = (task_at s)(t := g (task_at s t))"
  "kcsr (on_csr f s) = f (kcsr s)" "kcsr (set_timer n s) = kcsr s" "kcsr (set_tf t i x s) = kcsr s"
  "kcsr (upd_task t g s) = kcsr s" "kcsr (on_tlinks h s) = kcsr s" "kcsr (on_mach m s) = kcsr s"
  "fword (on_csr f s) = fword s" "fword (set_timer n s) = fword s"
  "fword (upd_task t g s) = fword s" "fword (on_tlinks h s) = fword s" "fword (on_mach m s) = fword s"
  "tlinks (on_csr f s) = tlinks s" "tlinks (set_timer n s) = tlinks s" "tlinks (set_tf t i x s) = tlinks s"
  "tlinks (upd_task t g s) = tlinks s" "tlinks (on_tlinks h s) = h (tlinks s)" "tlinks (on_mach m s) = tlinks s"
  by (simp_all add: on_csr_def set_timer_def set_tf_def set_fword_def upd_task_def on_tlinks_def on_mach_def set_kmach_def kmach_def)

lemma fword_set_tf: "fword (set_tf t i x s) = (fword s)(word_addr (tfp (task_at s t)) i := x)"
  by (simp add: set_tf_def set_fword_def)

text \<open>The task that runs depends on the processor only.\<close>

definition cur_of :: "machine \<Rightarrow> u64 outcome" where
  "cur_of m = bindO (get_cpu m) (\<lambda>c. guardO Undefined (curent_task c \<noteq> 0) (Inr (curent_task c)))"

lemma current_cur_of: "current s = cur_of (kmach s)"
  by (cases "get_cpu (kmach s)") (simp_all add: current_def task_get_current_def cur_of_def outcome_simps)

lemma cur_of_sstatus [simp]:
  "cur_of (c_sstatus x m) = cur_of m" "cur_of (s_sstatus x m) = cur_of m" "cur_of (intr_on m) = cur_of m" "cur_of (intr_off m) = cur_of m"
  "cur_of (m\<lparr>sstatus := x\<rparr>) = cur_of m"
  by (simp_all add: cur_of_def cpu_defs)

lemma tf_words: "0 \<le> i \<Longrightarrow> i < 1024 \<Longrightarrow> 0 \<le> j \<Longrightarrow> j < 1024 \<Longrightarrow> word_addr p i = word_addr p j \<longleftrightarrow> i = j"
  using word_addr_inj [of i j p] by simp

lemma get_set_tf: "0 \<le> i \<Longrightarrow> i < 1024 \<Longrightarrow> 0 \<le> j \<Longrightarrow> j < 1024 \<Longrightarrow> get_tf t i (set_tf t j x s) = (if i = j then x else get_tf t i s)"
  by (simp add: get_tf_def fword_set_tf tf_words)

lemma get_tf_fields [simp]:
  "get_tf t i (on_csr f s) = get_tf t i s" "get_tf t i (set_timer n s) = get_tf t i s" "get_tf t i (on_tlinks h s) = get_tf t i s"
  "get_tf t i (on_mach m s) = get_tf t i s"
  by (simp_all add: get_tf_def)

lemmas TF_defs = TF_SP_def TF_A0_def TF_A7_def TF_EPC_def TF_KERNEL_SATP_def TF_KERNEL_SP_def TF_HARTID_def TF_UTRAP_ENTRY_def

section \<open>Back to the task\<close>

text \<open>What \<open>utrap_ret\<close> leaves behind: the arguments of \<open>uvec_ret_asm\<close>, and the registers that \<open>sret\<close> uses.\<close>

definition back_to :: "layout \<Rightarrow> code_layout \<Rightarrow> u64 \<Rightarrow> u64 \<Rightarrow> ('s, 'b) kernel_scheme \<Rightarrow> leave \<Rightarrow> ('s, 'b) kernel_scheme \<Rightarrow> bool" where
  "back_to L C t e s l s' \<longleftrightarrow>
     l = To_user (uvec_ret_at C - uvec_enter_at C + PROC_VA_TRAMPOLINE) PROC_VA_TRAPFRAME (RISCV_MAKE_SATP (user_pte (task_at s t))) \<and>
     sepc (kcsr s') = e \<and> stvec (kcsr s') = PROC_VA_TRAMPOLINE + (uvec_enter_at C - UVEC_START L) \<and>
     sstatus (kmach s') AND SSTATUS_SPP = 0 \<and> sstatus (kmach s') AND SSTATUS_SPIE = SSTATUS_SPIE \<and>
     task_at s' = task_at s \<and> tlinks s' = tlinks s \<and> fword s' = fword s"

lemma utrap_ret_back:
  assumes "current s = Inr t"
  shows "\<exists>l s'. utrap_ret L C s = Inr (l, s') \<and> back_to L C t (get_tf t TF_EPC s) s l s'"
proof -
  have g: "(x AND NOT p OR i) AND p = i AND p" "(x OR i) AND i = i" for x p i :: u64
    by (rule bit_eqI; auto simp: bit_simps)+
  have b: "(x AND NOT SSTATUS_SPP OR SSTATUS_SPIE) AND SSTATUS_SPP = 0" "(x AND NOT SSTATUS_SPP OR SSTATUS_SPIE) AND SSTATUS_SPIE = SSTATUS_SPIE" for x
    unfolding g by (simp_all add: SSTATUS_SPP_def SSTATUS_SPIE_def)
  have "cur_of (kmach s) = Inr t" using assms by (simp add: current_cur_of)
  then show ?thesis
    by (simp add: utrap_ret_def current_cur_of outcome_simps Let_def back_to_def w_stvec_def w_sepc_def)
      (simp add: c_sstatus_def s_sstatus_def b)
qed

lemma trap_end_back:
  assumes "current s = Inr t" "task_state (task_at s t) \<noteq> TASK_ZOMBIE"
  shows "\<exists>l s'. trap_end L C s = Inr (l, s') \<and> back_to L C t (get_tf t TF_EPC s) s l s'"
  using utrap_ret_back [OF assms(1), of L C] assms by (simp add: trap_end_def outcome_simps)

text \<open>The state differs at most in \<open>sstatus\<close>, in \<open>sepc\<close> and \<open>stvec\<close>, and in words of memory.\<close>

definition regs_only :: "('s, 'b) kernel_scheme \<Rightarrow> ('s, 'b) kernel_scheme \<Rightarrow> bool" where
  "regs_only s s' \<longleftrightarrow> (\<exists>x e v w. s' = set_kmach ((kmach s)\<lparr>sstatus := x\<rparr>)
     (s\<lparr>kcsr := (kcsr s)\<lparr>sepc := e, stvec := v\<rparr>, fword := w\<rparr>))"

lemma set_kmach_twice [simp]:
  "set_kmach m (set_kmach n s) = set_kmach m s" "kmach (set_kmach m s) = m" "set_kmach (kmach s) s = s"
  "set_kmach m s\<lparr>kcsr := c, fword := w\<rparr> = set_kmach m (s\<lparr>kcsr := c, fword := w\<rparr>)" "kcsr (set_kmach m s) = kcsr s"
  "kmach (s\<lparr>kcsr := c, fword := w\<rparr>) = kmach s" "fword (set_kmach m s) = fword s"
  by (simp_all add: set_kmach_def kmach_def)

lemma regs_onlyI: "s' = set_kmach ((kmach s)\<lparr>sstatus := x\<rparr>) (s\<lparr>kcsr := (kcsr s)\<lparr>sepc := e, stvec := v\<rparr>, fword := w\<rparr>) \<Longrightarrow> regs_only s s'"
  unfolding regs_only_def by blast

lemma regs_only_steps:
  "regs_only s (on_csr (w_stvec a) s)" "regs_only s (on_csr (w_sepc a) s)" "regs_only s (set_tf t i y s)"
  "regs_only s (on_mach intr_on s)" "regs_only s (on_mach (c_sstatus b) s)" "regs_only s (on_mach (s_sstatus b) s)"
  by (rule regs_onlyI [where x = "sstatus (kmach s)" and e = "sepc (kcsr s)" and v = a and w = "fword s"],
      simp add: on_csr_def w_stvec_def set_kmach_def kmach_def)
    (rule regs_onlyI [where x = "sstatus (kmach s)" and e = a and v = "stvec (kcsr s)" and w = "fword s"],
      simp add: on_csr_def w_sepc_def set_kmach_def kmach_def,
     rule regs_onlyI [where x = "sstatus (kmach s)" and e = "sepc (kcsr s)" and v = "stvec (kcsr s)" and w = "fword (set_tf t i y s)"],
      simp add: set_tf_def set_fword_def set_kmach_def kmach_def,
     rule regs_onlyI [where e = "sepc (kcsr s)" and v = "stvec (kcsr s)" and w = "fword s"],
      simp add: on_mach_def intr_on_def s_sstatus_def set_kmach_def,
     rule regs_onlyI [where e = "sepc (kcsr s)" and v = "stvec (kcsr s)" and w = "fword s"],
      simp add: on_mach_def c_sstatus_def set_kmach_def,
     rule regs_onlyI [where e = "sepc (kcsr s)" and v = "stvec (kcsr s)" and w = "fword s"],
      simp add: on_mach_def s_sstatus_def set_kmach_def)

lemma regs_only_trans: "regs_only s s1 \<Longrightarrow> regs_only s1 s2 \<Longrightarrow> regs_only s s2"
  unfolding regs_only_def by clarsimp blast

lemma trap_end_regs:
  assumes "current s = Inr t" "task_state (task_at s t) \<noteq> TASK_ZOMBIE" "trap_end L C s = Inr (l, s')"
  shows "regs_only s s'"
proof -
  let ?s1 = "on_csr (w_stvec (PROC_VA_TRAMPOLINE + (uvec_enter_at C - UVEC_START L)))
    (on_mach (s_sstatus SSTATUS_SPIE) (on_mach (c_sstatus SSTATUS_SPP) s))"
  have "regs_only s ?s1" by (intro regs_only_trans [OF _ regs_only_steps(1)] regs_only_trans [OF _ regs_only_steps(6)] regs_only_steps)
  moreover have "s' = on_csr (w_sepc (get_tf t TF_EPC ?s1)) ?s1"
    using assms by (simp add: trap_end_def utrap_ret_def outcome_simps Let_def current_cur_of)
  ultimately show ?thesis using regs_only_trans regs_only_steps(2) by blast
qed

section \<open>System calls that only read\<close>

definition simple_result :: "u64 \<Rightarrow> u64 \<Rightarrow> ('s, 'b) kernel_scheme \<Rightarrow> int" where
  "simple_result t n s =
     (if n = SYS_getpid then task_pid (task_at s t)
      else if n = SYS_getppid then
        if task_parent (task_at s t) \<noteq> 0 then task_pid (task_at s (task_parent (task_at s t))) else 0
      else -1)"

definition acting_calls :: "u64 set" where
  "acting_calls = {SYS_sched_yield, SYS_exit, SYS_read, SYS_write, SYS_openat, SYS_chdir}"

lemma syscall_simple:
  assumes "current s = Inr t" "get_tf t TF_A7 s \<notin> acting_calls"
  shows "syscall s = Inr (Returns (simple_result t (get_tf t TF_A7 s) s), s)"
  using assms
  by (auto simp: syscall_def syscall_num_def returning_def syscall_getpid_def syscall_getppid_def simple_result_def outcome_simps
      acting_calls_def SYS_defs Let_def)

text \<open>C14. A system call of a running task that asks for its own or its parent's id, or has a number
  that the kernel does not know, comes back to the task behind the \<open>ecall\<close> with the
  id, or -1, in \<open>a0\<close>; the registers for \<open>sret\<close> are set so that the task goes on in user mode, with
  interrupts enabled, and the next trap enters at the trampoline. Nothing else has changed: the state is the
  one before with other values of \<open>sstatus\<close>, \<open>sepc\<close>, \<open>stvec\<close> and of two words of the trapframe, \<open>a0\<close>
  and the program counter; so every task structure, the run queue, the files, the page tables and all other memory are as before.\<close>

theorem syscall_returns:
  assumes "current s = Inr t" "scause (kcsr s) = SCAUSE_ECALL_USER" "get_tf t TF_A7 s \<notin> acting_calls"
    and "task_state (task_at s t) \<noteq> TASK_ZOMBIE"
  shows "\<exists>l s'. utrap_entry L C now s = Inr (l, s') \<and>
     l = To_user (uvec_ret_at C - uvec_enter_at C + PROC_VA_TRAMPOLINE) PROC_VA_TRAPFRAME (RISCV_MAKE_SATP (user_pte (task_at s t))) \<and>
     sepc (kcsr s') = sepc (kcsr s) + 4 \<and> stvec (kcsr s') = PROC_VA_TRAMPOLINE + (uvec_enter_at C - UVEC_START L) \<and>
     sstatus (kmach s') AND SSTATUS_SPP = 0 \<and> sstatus (kmach s') AND SSTATUS_SPIE = SSTATUS_SPIE \<and>
     get_tf t TF_A0 s' = of_int (simple_result t (get_tf t TF_A7 s) s) \<and>
     (\<forall>a. a \<noteq> word_addr (tfp (task_at s t)) TF_A0 \<and> a \<noteq> word_addr (tfp (task_at s t)) TF_EPC \<longrightarrow> fword s' a = fword s a) \<and>
     (\<exists>x e v w. s' = set_kmach ((kmach s)\<lparr>sstatus := x\<rparr>) (s\<lparr>kcsr := (kcsr s)\<lparr>sepc := e, stvec := v\<rparr>, fword := w\<rparr>))"
proof -
  define s1 where "s1 = on_mach intr_on (set_tf t TF_EPC (sepc (kcsr s) + 4) (on_csr (w_stvec (kvec_asm_at C)) s))"
  define s2 where "s2 = set_tf t TF_A0 (of_int (simple_result t (get_tf t TF_A7 s) s)) s1"
  have c: "current s1 = Inr t" "current s2 = Inr t" using assms(1) by (simp_all add: s1_def s2_def current_cur_of)
  have a7: "get_tf t TF_A7 s1 = get_tf t TF_A7 s" by (simp add: s1_def get_set_tf TF_defs)
  have "simple_result t n s1 = simple_result t n s" for n by (simp add: simple_result_def s1_def)
  then have "utrap_entry L C now s = trap_end L C s2"
    using syscall_simple [OF c(1)] assms(1,2,3) c a7
    by (simp add: utrap_entry_def Let_def current_cur_of outcome_simps store_result_def s2_def s1_def w_stvec_def)
  moreover have "task_at s2 = task_at s" by (simp add: s2_def s1_def)
  moreover have "get_tf t TF_EPC s2 = sepc (kcsr s) + 4" "get_tf t TF_A0 s2 = of_int (simple_result t (get_tf t TF_A7 s) s)"
    by (simp_all add: s2_def s1_def get_set_tf TF_defs)
  moreover have "fword s2 a = fword s a"
    if "a \<noteq> word_addr (tfp (task_at s t)) TF_A0" "a \<noteq> word_addr (tfp (task_at s t)) TF_EPC" for a
    using that by (simp add: s2_def s1_def fword_set_tf)
  moreover have "regs_only s s2" unfolding s2_def s1_def
    by (intro regs_only_trans [OF _ regs_only_steps(3)] regs_only_trans [OF _ regs_only_steps(4)] regs_only_steps)
  moreover obtain l s' where e: "trap_end L C s2 = Inr (l, s')" "back_to L C t (get_tf t TF_EPC s2) s2 l s'"
    using trap_end_back [OF c(2), of L C] assms(4) \<open>task_at s2 = task_at s\<close> by auto
  ultimately have "regs_only s s'"
    using trap_end_regs [OF c(2) _ e(1)] assms(4) regs_only_trans by auto
  moreover note \<open>utrap_entry L C now s = trap_end L C s2\<close> \<open>task_at s2 = task_at s\<close> e
    \<open>get_tf t TF_EPC s2 = sepc (kcsr s) + 4\<close> \<open>get_tf t TF_A0 s2 = of_int (simple_result t (get_tf t TF_A7 s) s)\<close>
    \<open>\<And>a. a \<noteq> word_addr (tfp (task_at s t)) TF_A0 \<Longrightarrow> a \<noteq> word_addr (tfp (task_at s t)) TF_EPC \<Longrightarrow> fword s2 a = fword s a\<close>
  ultimately show ?thesis unfolding regs_only_def [symmetric]
    by (intro exI [of _ l] exI [of _ s']) (auto simp: back_to_def get_tf_def)
qed

section \<open>Timer interrupts\<close>

text \<open>C28. A timer interrupt of a task gives the processor to the scheduler, with the timer set again; when the
  task runs again it does not go on where it was interrupted: wherever that was, it goes on at the
  program counter of its trapframe, that is behind its last system call or at its entry.\<close>

theorem timer_loses_position:
  assumes "current s = Inr t" "scause (kcsr s) = SCAUSE_SUPV_TIMER" "task_state (task_at s t) \<noteq> TASK_ZOMBIE"
  shows "\<exists>s1 l s2. utrap_entry L C now s = Inr (To_scheduler After_timer, s1) \<and> timer s1 = now + TIMER_DIFF \<and>
     resume_task L C After_timer s1 = Inr (l, s2) \<and>
     l = To_user (uvec_ret_at C - uvec_enter_at C + PROC_VA_TRAMPOLINE) PROC_VA_TRAPFRAME (RISCV_MAKE_SATP (user_pte (task_at s t))) \<and>
     sepc (kcsr s2) = get_tf t TF_EPC s"
proof -
  define s1 where "s1 = set_timer (now + TIMER_DIFF) (on_csr (w_stvec (kvec_asm_at C)) s)"
  have "utrap_entry L C now s = Inr (To_scheduler After_timer, s1)" "timer s1 = now + TIMER_DIFF"
    using assms(2) by (simp_all add: utrap_entry_def Let_def s1_def SCAUSE_SUPV_TIMER_def SCAUSE_ECALL_USER_def set_timer_def w_stvec_def)
  moreover have "current s1 = Inr t" using assms(1) by (simp add: s1_def current_cur_of)
  moreover have "task_at s1 = task_at s" "get_tf t TF_EPC s1 = get_tf t TF_EPC s" by (simp_all add: s1_def)
  ultimately show ?thesis using trap_end_back [of s1 t L C] assms(3) by (auto simp: back_to_def resume_task_def)
qed

section \<open>Exit\<close>

lemma exit_trap:
  assumes "current s = Inr t" "scause (kcsr s) = SCAUSE_ECALL_USER" "get_tf t TF_A7 s = SYS_exit"
  shows "\<exists>s'. utrap_entry L C now s = Inr (To_scheduler After_exit, s') \<and> tlinks s' = scheduler_exit t (tlinks s) \<and>
     task_at s' = (task_at s)(t := (task_at s t)\<lparr>exit_status := to_int (get_tf t TF_A0 s), task_state := TASK_ZOMBIE\<rparr>) \<and>
     sstatus (kmach s') AND SSTATUS_SIE = 0"
proof -
  define s1 where "s1 = on_mach intr_on (set_tf t TF_EPC (sepc (kcsr s) + 4) (on_csr (w_stvec (kvec_asm_at C)) s))"
  have c: "current s1 = Inr t" using assms(1) by (simp add: s1_def current_cur_of)
  have a7: "get_tf t TF_A7 s1 = SYS_exit" "get_tf t TF_A0 s1 = get_tf t TF_A0 s"
    using assms(3) by (simp_all add: s1_def get_set_tf TF_defs)
  define s2 where "s2 = on_tlinks (scheduler_exit t) (upd_task t (\<lambda>k. k\<lparr>task_state := TASK_ZOMBIE\<rparr>)
      (upd_task t (\<lambda>k. k\<lparr>exit_status := to_int (get_tf t TF_A0 s)\<rparr>) s1))"
  have "syscall s1 = Inr (Returns 0, s2)"
    using c a7 by (simp add: syscall_def syscall_num_def outcome_simps SYS_defs returning_def syscall_exit_def Let_def s2_def)
  moreover have "current s2 = Inr t" using c by (simp add: s2_def current_cur_of)
  ultimately have "utrap_entry L C now s = trap_end L C (set_tf t TF_A0 0 s2)"
    using assms(1,2) by (simp add: utrap_entry_def Let_def current_cur_of outcome_simps store_result_def s1_def w_stvec_def)
  moreover have "task_state (task_at (set_tf t TF_A0 0 s2) t) = TASK_ZOMBIE" by (simp add: s2_def)
  moreover have "current (set_tf t TF_A0 0 s2) = Inr t" using \<open>current s2 = Inr t\<close> by (simp add: current_cur_of)
  ultimately have "utrap_entry L C now s = Inr (To_scheduler After_exit, on_mach intr_off (set_tf t TF_A0 0 s2))"
    by (simp add: trap_end_def outcome_simps)
  then show ?thesis
    by (simp add: s2_def s1_def fun_eq_iff intr_off_def c_sstatus_def and_not_self)
qed

text \<open>C27. The system call \<open>exit\<close> never comes back: the task becomes a zombie with the lower half of \<open>a0\<close>
  as its exit status, no other task changes, and the handler leaves for the scheduler
  with interrupts disabled; should the scheduler ever take the task again, nothing that it does is defined.\<close>

theorem exit_does_not_return:
  assumes "current s = Inr t" "scause (kcsr s) = SCAUSE_ECALL_USER" "get_tf t TF_A7 s = SYS_exit"
  shows "\<exists>s'. utrap_entry L C now s = Inr (To_scheduler After_exit, s') \<and>
     task_state (task_at s' t) = TASK_ZOMBIE \<and> exit_status (task_at s' t) = to_int (get_tf t TF_A0 s) \<and>
     (\<forall>u. u \<noteq> t \<longrightarrow> task_at s' u = task_at s u) \<and> sstatus (kmach s') AND SSTATUS_SIE = 0 \<and>
     resume_task L C After_exit s' = Inl Undefined"
  using exit_trap [OF assms, of L C now] by (auto simp: resume_task_def)

section \<open>A task\<close>

text \<open>Two tasks in the run queue; the one at 8 runs, with \<open>n\<close> in \<open>a7\<close> and 300 in \<open>a0\<close>.\<close>

definition demo_task :: task_struct where
  "demo_task = \<lparr>task_state = TASK_RUNNABLE, task_parent = 0, kstack_pa = 0x6000, ustack_pa = 0x5000, task_entry = 0x10000, tfp = 0x9000,
     ctx_ra = 0, ctx_sp = 0, user_pte = 0x4000, image = 8, exit_status = 0, task_pid = 3, task_files = 16, max_writable_page = 0, cwd = 8\<rparr>"

definition demo_kernel :: "u64 \<Rightarrow> u64 \<Rightarrow> unit kernel" where
  "demo_kernel cause n = on_mach (\<lambda>m. m\<lparr>hartid := 0, cpus := replicate 2 \<lparr>curent_task = 8, int_depth = 0, int_enable = 0\<rparr>\<rparr>)
     (files_sys.extend (demo_files ((\<lambda>_. 0)(word_addr 0x9000 TF_A7 := n, word_addr 0x9000 TF_A0 := 300)))
       (kernel.fields two_tasks (\<lambda>_. demo_task) (\<lambda>_. \<lparr>tp_pa = 0, tp_va = 0\<rparr>) (\<lambda>_. 0) (\<lambda>_. 0) (\<lambda>_. \<lparr>bm_map = 0, bm_length = 0\<rparr>) 0
         \<lparr>satp = 0, sip = 0, sie = 0, sepc = 0x10010, stvec = 0, sscratch = 0, scause = cause, stval = 0\<rparr> 0))"

lemma demo_kernel_fields [simp]:
  "current (demo_kernel c n) = Inr 8" "task_at (demo_kernel c n) t = demo_task" "tlinks (demo_kernel c n) = two_tasks"
  "scause (kcsr (demo_kernel c n)) = c" "sepc (kcsr (demo_kernel c n)) = 0x10010" "get_tf t TF_A7 (demo_kernel c n) = n"
  "get_tf t TF_A0 (demo_kernel c n) = 300" "get_tf t TF_EPC (demo_kernel c n) = 0"
proof -
  have f: "fword (demo_kernel c n) = (\<lambda>_. 0)(word_addr 0x9000 TF_A7 := n, word_addr 0x9000 TF_A0 := 300)" "tfp demo_task = 0x9000"
    by (simp_all add: demo_kernel_def files_sys.defs kernel.defs demo_files_def demo_task_def)
  show t: "task_at (demo_kernel c n) t = demo_task" "tlinks (demo_kernel c n) = two_tasks" "scause (kcsr (demo_kernel c n)) = c"
    "sepc (kcsr (demo_kernel c n)) = 0x10010"
    by (simp_all add: demo_kernel_def files_sys.defs kernel.defs)
  show "current (demo_kernel c n) = Inr 8" by (simp add: current_cur_of demo_kernel_def cur_of_def get_cpu_def outcome_simps)
  show "get_tf t TF_A7 (demo_kernel c n) = n" "get_tf t TF_A0 (demo_kernel c n) = 300" "get_tf t TF_EPC (demo_kernel c n) = 0"
    unfolding get_tf_def t f by (simp_all add: TF_defs tf_words)
qed

lemma demo_task_fields [simp]: "task_state demo_task \<noteq> TASK_ZOMBIE" "task_pid demo_task = 3" "user_pte demo_task = 0x4000"
  by (simp_all add: demo_task_def TASK_RUNNABLE_def TASK_ZOMBIE_def)

definition demo_layout :: layout where
  "demo_layout = \<lparr>TEXT_START = 0x80200000, TEXT_END = 0x80210000, DATA_START = 0x80220000, DATA_END = 0x80230000,
     RODATA_START = 0x80210000, RODATA_END = 0x80220000, BSS_START = 0x80230000, BSS_END = 0x80240000, KERNEL_START = 0x80200000,
     KERNEL_END = 0x80300000, RAM_END = 0x80800000, SBI_START = 0x80000000, SBI_END = 0x80200000, UVEC_START = 0x80205000, UVEC_END = 0x80206000\<rparr>"

definition demo_code :: code_layout where
  "demo_code = \<lparr>task_create_ret_at = 0x80201000, utrap_entry_at = 0x80202000, kvec_asm_at = 0x80203000, uvec_enter_at = 0x80205000,
     uvec_ret_at = 0x80205090\<rparr>"

theorem syscall_returns_witness:
  "\<exists>l s'. utrap_entry demo_layout demo_code 5 (demo_kernel SCAUSE_ECALL_USER SYS_getpid) = Inr (l, s') \<and>
     sepc (kcsr s') = 0x10014 \<and> get_tf 8 TF_A0 s' = 3 \<and> sstatus (kmach s') AND SSTATUS_SPP = 0"
proof -
  have "simple_result 8 SYS_getpid (demo_kernel SCAUSE_ECALL_USER SYS_getpid) = 3" by (simp add: simple_result_def)
  then show ?thesis
    using syscall_returns [of "demo_kernel SCAUSE_ECALL_USER SYS_getpid" 8 demo_layout demo_code 5] by (auto simp: acting_calls_def SYS_defs)
qed

text \<open>The task is interrupted at \<open>0x10010\<close> and goes on at 0, which its trapframe holds.\<close>

theorem timer_loses_position_witness:
  "\<exists>s1 l s2. sepc (kcsr (demo_kernel SCAUSE_SUPV_TIMER 0)) = 0x10010 \<and>
     utrap_entry demo_layout demo_code 5 (demo_kernel SCAUSE_SUPV_TIMER 0) = Inr (To_scheduler After_timer, s1) \<and>
     timer s1 = 10000005 \<and> resume_task demo_layout demo_code After_timer s1 = Inr (l, s2) \<and> sepc (kcsr s2) = 0"
  using timer_loses_position [of "demo_kernel SCAUSE_SUPV_TIMER 0" 8 demo_layout demo_code 5] by (auto simp: TIMER_DIFF_def)

theorem exit_does_not_return_witness:
  "\<exists>s'. utrap_entry demo_layout demo_code 5 (demo_kernel SCAUSE_ECALL_USER SYS_exit) = Inr (To_scheduler After_exit, s') \<and>
     task_state (task_at s' 8) = TASK_ZOMBIE \<and> exit_status (task_at s' 8) = 300 \<and> task_at s' 16 = demo_task"
proof -
  have "to_int 300 = 300" by code_simp
  then show ?thesis using exit_does_not_return [of "demo_kernel SCAUSE_ECALL_USER SYS_exit" 8 demo_layout demo_code 5] by auto
qed

end
