(* ===== verification/System.thy ===== *)
theory System
  imports Trap_Inv Current
begin

text \<open>
  The hart with its scheduler and tasks, as \<open>Trap\<close> has them, behaves as the scheduler alone: every
  step is one of the steps of \<open>Scheduler\<close>, so that only the first task ever runs.
\<close>

section \<open>What a system call changes\<close>

lemma current_view: "hart_view (kmach s') = hart_view (kmach s) \<Longrightarrow> current s' = current s"
  unfolding current_cur_of cur_of_def hart_view_def get_cpu_def arr_get_def
  by (auto simp: outcome_simps dest: map_eq_imp_length_eq) (metis nth_map map_eq_imp_length_eq)+

lemma vview_kmach: "vview (fvfs s) = hart_view (kmach s)"
  by (simp add: vview_def heap_view_def kmach_def)

text \<open>The task \<open>t\<close> runs, and the lower file systems leave the harts alone.\<close>

definition runs :: "u64 \<Rightarrow> ('s, 'b) kernel_scheme \<Rightarrow> bool" where
  "runs t s \<longleftrightarrow> current s = Inr t \<and> vfs_good (fvfs s)"

lemma file_change_kernel:
  assumes "file_change s s'" "runs t s"
  shows "runs t s'" "tlinks s' = tlinks s"
proof -
  obtain v w where s': "s' = s\<lparr>fvfs := v, fword := w\<rparr>" "vfs_good v" "vview v = vview (fvfs s)"
    using assms(1) by (auto simp: file_change_def)
  then show "tlinks s' = tlinks s" by simp
  have "hart_view (kmach s') = hart_view (kmach s)" using s' by (simp flip: vview_kmach)
  from current_view [OF this] show "runs t s'" using assms(2) s' by (simp add: runs_def)
qed

lemma runs_simps [simp]:
  "runs t (on_csr f s) = runs t s" "runs t (set_timer n s) = runs t s" "runs t (set_tf u i x s) = runs t s"
  "runs t (upd_task u g s) = runs t s" "runs t (on_tlinks h s) = runs t s" "runs t (put_bytes pa bs s) = runs t s"
  "runs t (on_mach intr_on s) = runs t s" "runs t (on_mach intr_off s) = runs t s"
  "runs t (on_mach (c_sstatus x) s) = runs t s" "runs t (on_mach (s_sstatus x) s) = runs t s"
  "runs t (on_mach (\<lambda>m. m\<lparr>sstatus := x\<rparr>) s) = runs t s"
  by (simp_all add: runs_def current_cur_of, simp_all add: on_csr_def set_timer_def set_tf_def set_fword_def upd_task_def on_tlinks_def
      put_bytes_def on_mach_def set_kmach_def kmach_def vfs_good_def)

lemma tlinks_put_bytes [simp]: "tlinks (put_bytes pa bs s) = tlinks s"
  by (simp add: put_bytes_def)

text \<open>A call leaves the queues alone, or it is \<open>exit\<close> and the task will not go back to user mode.\<close>

definition call_ok :: "u64 \<Rightarrow> ('s, 'b) kernel_scheme \<Rightarrow> ('s, 'b) kernel_scheme \<Rightarrow> bool" where
  "call_ok t s s' \<longleftrightarrow> runs t s' \<and> tlinks s' = tlinks s"

lemma call_ok_change: "file_change s s' \<Longrightarrow> runs t s \<Longrightarrow> call_ok t s s'"
  by (simp add: call_ok_def file_change_kernel)

lemma call_ok_simps [simp]:
  "call_ok t s (put_bytes pa bs s') = call_ok t s s'" "call_ok t s (upd_task u g s') = call_ok t s s'"
  "runs t s \<Longrightarrow> call_ok t s s"
  by (simp_all add: call_ok_def)

lemmas args_any = post_any [where r = "syscall_arg_ptr i s" for i s] post_any [where r = "syscall_arg_size i s" for i s]
  post_any [where r = "syscall_arg_fd i s" for i s] post_any [where r = "user_pa t va s" for t va s]
  post_any [where r = "user_string a s" for a s] post_any [where r = "files_struct_check f fd s" for f fd s]
  post_any [where r = "files_struct_get f fd s" for f fd s] post_any [where r = "current s" for s]

lemma runs_good: "runs t s \<Longrightarrow> vfs_good (fvfs s)"
  by (simp add: runs_def)

lemma file_calls:
  assumes "runs t s"
  shows "post (\<lambda>(n, s'). call_ok t s s') (syscall_chdir s)" "post (\<lambda>(n, s'). call_ok t s s') (syscall_openat s)"
    "post (\<lambda>(n, s'). call_ok t s s') (syscall_read s)" "post (\<lambda>(n, s'). call_ok t s s') (syscall_write s)"
  using assms
  by (auto simp: syscall_chdir_def syscall_openat_def syscall_read_def syscall_write_def open_node_def open_fd_def Let_def
      intro!: args_any files_wp runs_good call_ok_change)

text \<open>After a call the queues are as before, or the task has left them for good.\<close>

definition trap_ok :: "u64 \<Rightarrow> ('s, 'b) kernel_scheme \<Rightarrow> sysret \<times> ('s, 'b) kernel_scheme \<Rightarrow> bool" where
  "trap_ok t s = (\<lambda>(r, s'). call_ok t s s' \<or>
     runs t s' \<and> r = Returns 0 \<and> task_state (task_at s' t) = TASK_ZOMBIE \<and> tlinks s' = scheduler_exit t (tlinks s))"

lemma returning_ok: "post (\<lambda>(n, s'). call_ok t s s') r \<Longrightarrow> post (trap_ok t s) (returning r)"
  unfolding returning_def post_simps by (erule post_weaken) (auto simp: trap_ok_def)

lemma syscall_ok:
  assumes "runs t s"
  shows "post (trap_ok t s) (syscall s)"
proof -
  have e: "post (trap_ok t s) (returning (syscall_exit s))"
    using assms by (simp add: runs_def) (simp add: syscall_exit_def returning_def Let_def trap_ok_def assms)
  have y: "trap_ok t s (syscall_sched_yield s)" using assms by (simp add: trap_ok_def syscall_sched_yield_def call_ok_def)
  have "post (\<lambda>(n, s'). call_ok t s s') (bindO (syscall_getpid s) (\<lambda>r. Inr (r, s)))"
      "post (\<lambda>(n, s'). call_ok t s s') (bindO (syscall_getppid s) (\<lambda>r. Inr (r, s)))"
    using assms by (auto simp: syscall_getpid_def syscall_getppid_def Let_def intro!: args_any)
  then show ?thesis
    using assms e y file_calls [OF assms]
    by (auto simp: syscall_def trap_ok_def [of t s, THEN fun_cong, of "(Returns (-1), s)"] intro!: post_any [where r = "syscall_num s"] returning_ok)
qed

text \<open>How a handler leaves the kernel: with the queues as before, or for the scheduler after \<open>exit\<close>.\<close>

definition leave_ok :: "u64 \<Rightarrow> ('s, 'b) kernel_scheme \<Rightarrow> leave \<times> ('s, 'b) kernel_scheme \<Rightarrow> bool" where
  "leave_ok t s = (\<lambda>(l, s'). runs t s' \<and> (tlinks s' = tlinks s \<or> tlinks s' = scheduler_exit t (tlinks s) \<and> l = To_scheduler After_exit))"

lemma utrap_ret_ok: "runs t s \<Longrightarrow> post (\<lambda>(l, s'). runs t s' \<and> tlinks s' = tlinks s) (utrap_ret L C s)"
  by (auto simp: utrap_ret_def Let_def intro!: args_any)

lemma trap_end_ok:
  assumes "runs t s"
  shows "post (\<lambda>(l, s'). runs t s' \<and> tlinks s' = tlinks s) (trap_end L C s)"
    "task_state (task_at s t) = TASK_ZOMBIE \<Longrightarrow> post (\<lambda>(l, s'). runs t s' \<and> tlinks s' = tlinks s \<and> l = To_scheduler After_exit) (trap_end L C s)"
proof -
  have c: "current s = Inr t" using assms by (simp add: runs_def)
  show "post (\<lambda>(l, s'). runs t s' \<and> tlinks s' = tlinks s) (trap_end L C s)"
    using utrap_ret_ok [OF assms, of L C] assms by (simp add: trap_end_def c)
  show "post (\<lambda>(l, s'). runs t s' \<and> tlinks s' = tlinks s \<and> l = To_scheduler After_exit) (trap_end L C s)"
    if "task_state (task_at s t) = TASK_ZOMBIE"
    using that assms by (simp add: trap_end_def c)
qed

lemma after_store:
  assumes "runs t s"
  shows "post (\<lambda>(l, s'). runs t s' \<and> tlinks s' = tlinks s) (bindO (store_result n s) (trap_end L C))"
    "task_state (task_at s t) = TASK_ZOMBIE \<Longrightarrow>
       post (\<lambda>(l, s'). runs t s' \<and> tlinks s' = tlinks s \<and> l = To_scheduler After_exit) (bindO (store_result n s) (trap_end L C))"
  using trap_end_ok [of t "set_tf t TF_A0 (of_int n) s" L C] assms by (simp_all add: store_result_def runs_def [of t s])

lemma utrap_entry_ok:
  assumes "runs t s"
  shows "post (leave_ok t s) (utrap_entry L C now s)"
proof -
  let ?s = "on_csr (w_stvec (kvec_asm_at C)) s"
  let ?s1 = "on_mach intr_on (set_tf t TF_EPC (sepc (kcsr ?s) + 4) ?s)"
  have c: "current ?s = Inr t" using assms runs_simps(1) [of t] unfolding runs_def by blast
  have "post (leave_ok t s) (case r of Returns n \<Rightarrow> bindO (store_result n s') (trap_end L C) | Yields n \<Rightarrow> Inr (To_scheduler (After_syscall n), s'))"
    if "trap_ok t ?s1 (r, s')" for r s'
  proof (cases "call_ok t ?s1 s'")
    case True
    then have r: "runs t s'" "tlinks s' = tlinks s" by (simp_all add: call_ok_def)
    show ?thesis
    proof (cases r)
      case (Returns n)
      then show ?thesis using post_weaken [OF after_store(1) [OF r(1)]] r(2) by (force simp: leave_ok_def simp del: post_simps)
    qed (simp add: leave_ok_def r)
  next
    case False
    then have r: "runs t s'" "r = Returns 0" "task_state (task_at s' t) = TASK_ZOMBIE" "tlinks s' = scheduler_exit t (tlinks s)"
      using that by (simp_all add: trap_ok_def)
    show ?thesis using post_weaken [OF after_store(2) [OF r(1,3)]] r(2,4) by (force simp: leave_ok_def simp del: post_simps)
  qed
  then have "post (\<lambda>(r, s'). post (leave_ok t s) (case r of Returns n \<Rightarrow> bindO (store_result n s') (trap_end L C)
      | Yields n \<Rightarrow> Inr (To_scheduler (After_syscall n), s'))) (syscall ?s1)"
    using assms by (intro post_weaken [OF syscall_ok]) auto
  moreover have "post (leave_ok t s) (trap_end L C ?s)"
    by (rule post_weaken [OF trap_end_ok(1)]) (use assms in \<open>auto simp: leave_ok_def\<close>)
  ultimately show ?thesis using assms by (simp add: utrap_entry_def Let_def c leave_ok_def case_prod_beta')
qed

lemma resume_task_ok:
  assumes "runs t s"
  shows "post (\<lambda>(l, s'). runs t s' \<and> tlinks s' = tlinks s) (resume_task L C r s)"
  using utrap_ret_ok [OF assms] after_store(1) [OF assms] trap_end_ok(1) [OF assms]
  by (cases r) (simp_all add: resume_task_def)

section \<open>Simulation\<close>

text \<open>What the scheduler sees of the system, and what the simulation needs.\<close>

definition sched_view :: "'s system \<Rightarrow> sched_pc \<times> tlink lheap" where
  "sched_view y = ((case pc_at y of In_loop \<Rightarrow> Idle | In_task t \<Rightarrow> Running t), tlinks (kern y))"

definition sys_inv :: "'s system \<Rightarrow> bool" where
  "sys_inv y \<longleftrightarrow> vfs_good (fvfs (kern y)) \<and> (\<forall>t. pc_at y = In_task t \<longrightarrow> runs t (kern y))"

lemma task_set_current_runs:
  assumes "task_set_current t s = Inr s'" "resume_task L C r s' = Inr x" "vfs_good (fvfs s)"
  shows "runs t s' \<and> tlinks s' = tlinks s"
proof -
  obtain c m where c: "get_cpu (kmach s) = Inr c" "put_cpu (c\<lparr>curent_task := t\<rparr>) (kmach s) = Inr m" "s' = set_kmach m s"
    using assms(1) by (auto simp: task_set_current_def bindO_eq_Inr)
  have "get_cpu m = Inr (c\<lparr>curent_task := t\<rparr>)"
    using c(1,2) by (auto simp: get_cpu_def put_cpu_def bindO_eq_Inr arr_get_eq_Inr arr_set_eq_Inr)
  then have k: "current s' = (if t = 0 then Inl Undefined else Inr t)" by (simp add: c(3) current_cur_of cur_of_def kmach_def set_kmach_def)
  have "\<exists>u. current s' = Inr u"
  proof (cases "current s'")
    case (Inl e)
    then show ?thesis using assms(2)
      by (cases r) (simp_all add: resume_task_def utrap_ret_def trap_end_def store_result_def Let_def current_cur_of)
  qed auto
  then show ?thesis using k assms(3) by (auto simp: runs_def c(3) set_kmach_def vfs_good_def split: if_splits)
qed

lemma after_leave_view:
  assumes "leave_ok t s (l, s')"
  shows "sched_step\<^sup>*\<^sup>* (Running t, tlinks s) (sched_view (after_leave t (l, s') p))" "sys_inv (after_leave t (l, s') p)"
proof -
  have g: "runs t s'" and q: "tlinks s' = tlinks s \<or> tlinks s' = scheduler_exit t (tlinks s) \<and> l = To_scheduler After_exit"
    using assms by (simp_all add: leave_ok_def)
  show "sys_inv (after_leave t (l, s') p)"
    using g runs_good [OF g] by (auto simp: sys_inv_def after_leave_def on_tlinks_def split: leave.split)
  show "sched_step\<^sup>*\<^sup>* (Running t, tlinks s) (sched_view (after_leave t (l, s') p))"
    using q yields [of t "tlinks s"] exits [of t "tlinks s"] by (cases l) (auto simp: after_leave_def sched_view_def)
qed

lemma user_runs_keeps: "user_runs t s s' \<Longrightarrow> runs t s \<Longrightarrow> runs t s' \<and> tlinks s' = tlinks s"
  by (auto simp: user_runs_def) (auto simp: runs_def current_cur_of kmach_def vfs_good_def)

lemma sys_step_simulated:
  assumes "sys_step L C y y'" "sys_inv y"
  shows "sched_step\<^sup>*\<^sup>* (sched_view y) (sched_view y') \<and> sys_inv y'"
  using assms
proof (induction rule: sys_step.induct)
  case (picks y t s r)
  have g: "runs t s" "tlinks s = tlinks (kern y)"
    using task_set_current_runs [OF picks(3,4)] picks(5) by (simp_all add: sys_inv_def)
  obtain l s' where r: "r = (l, s')" by (cases r)
  have "leave_ok t s (l, s')" using postD [OF resume_task_ok [OF g(1)] picks(4)] by (simp add: r leave_ok_def)
  note a = after_leave_view [OF this, of "point y"]
  have "sched_step (sched_view y) (Running t, tlinks s)" using picks(1,2) g(2) by (simp add: sched_view_def pick)
  then show ?case using a unfolding r by (meson converse_rtranclp_into_rtranclp)
next
  case (traps y t s now r)
  have "runs t (kern y)" using traps(1,4) by (simp add: sys_inv_def)
  then have g: "runs t s" "tlinks s = tlinks (kern y)" using user_runs_keeps [OF traps(2)] by simp_all
  obtain l s' where r: "r = (l, s')" by (cases r)
  have "leave_ok t s (l, s')" using postD [OF utrap_entry_ok [OF g(1)] traps(3)] by (simp add: r)
  from after_leave_view [OF this, of "point y"] show ?case using traps(1) g(2) by (simp add: sched_view_def r)
qed simp

lemma sys_steps_simulated:
  assumes "(sys_step L C)\<^sup>*\<^sup>* y y'" "sys_inv y"
  shows "sched_step\<^sup>*\<^sup>* (sched_view y) (sched_view y') \<and> sys_inv y'"
  using assms
proof (induction rule: rtranclp_induct)
  case (step y' y'')
  then show ?case using sys_step_simulated [of L C y' y''] by (meson rtranclp_trans)
qed simp

text \<open>C1. Every run of the hart with its tasks is a run of the scheduler, whatever system calls,
  interrupts and changes of user memory happen: no handler changes which task the hart runs, and none changes the
  queues but for \<open>exit\<close>.\<close>

theorem system_refines_scheduler:
  assumes "(sys_step L C)\<^sup>*\<^sup>* y y'" "sys_inv y"
  shows "sched_step\<^sup>*\<^sup>* (sched_view y) (sched_view y') \<and> sys_inv y'"
  by (rule sys_steps_simulated [OF assms])

section \<open>Only the first task runs\<close>

text \<open>C2. Whatever tasks wait in the run queue, no task but the first ever reaches user mode, whatever
  the tasks do; and once the first has given the processor back, by a timer interrupt, by yielding or by exiting,
  no task runs again: the loop of the scheduler spins for ever.\<close>

theorem only_first_task_runs:
  assumes "(sys_step L C)\<^sup>*\<^sup>* y y'" "pc_at y = In_loop" "run_queue (tlinks (kern y)) (t # ts)" "vfs_good (fvfs (kern y))"
  shows "(\<forall>u. pc_at y' = In_task u \<longrightarrow> u = t) \<and>
     (pc_at y' = In_loop \<and> tlinks (kern y') \<noteq> tlinks (kern y) \<longrightarrow> (\<forall>z. (sys_step L C)\<^sup>*\<^sup>* y' z \<longrightarrow> z = y'))"
proof -
  have "sys_inv y" using assms(2,4) by (simp add: sys_inv_def)
  then have "sched_step\<^sup>*\<^sup>* (Idle, tlinks (kern y)) (sched_view y')"
    using sys_steps_simulated [OF assms(1)] assms(2) by (simp add: sched_view_def)
  then have r: "sched_view y' = (Running t, tlinks (kern y)) \<or> fst (sched_view y') = Idle \<and>
      (tlinks (kern y') = tlinks (kern y) \<or> lnext (tlinks (kern y')) Process_runnable = Process_runnable)"
    using scheduler_starves [OF assms(3), of "fst (sched_view y')" "snd (sched_view y')"] by (auto simp: sched_view_def)
  have "z = y'" if "pc_at y' = In_loop" "lnext (tlinks (kern y')) Process_runnable = Process_runnable" "(sys_step L C)\<^sup>*\<^sup>* y' z" for z
    using that(3)
  proof (induction rule: rtranclp_induct)
    case (step z z')
    then show ?case using that(1,2) by (auto elim: sys_step.cases)
  qed simp
  then show ?thesis using r by (auto simp: sched_view_def split: where_at.splits)
qed

definition demo_system :: "unit system" where
  "demo_system = \<lparr>pc_at = In_loop, kern = demo_kernel SCAUSE_ECALL_USER SYS_exit, point = (\<lambda>_. Fresh)\<rparr>"

lemma demo_system_good: "vfs_good (fvfs (kern demo_system))" "run_queue (tlinks (kern demo_system)) [8, 16]"
proof -
  have "bk_keeps counter_backend" by (simp add: bk_keeps_def keeps_view_def counter_backend_def)
  then show "vfs_good (fvfs (kern demo_system))"
    by (simp add: demo_system_def demo_kernel_def vfs_good_def on_mach_def set_kmach_def files_sys.defs kernel.defs demo_files_def)
  show "run_queue (tlinks (kern demo_system)) [8, 16]"
    by (simp add: run_queue_def demo_system_def two_tasks_def scheduler_add_def scheduler_init_def dlist_def list_add_def list_add_between_def
        list_init_def set_next_def set_prev_def)
qed

text \<open>The first of the two tasks runs and exits.\<close>

lemma demo_system_run:
  "\<exists>y'. (sys_step L C)\<^sup>*\<^sup>* demo_system y' \<and> pc_at y' = In_loop \<and> lnext (tlinks (kern y')) Process_runnable = Process_runnable"
proof -
  let ?k = "demo_kernel SCAUSE_ECALL_USER SYS_exit"
  have n: "lnext (tlinks (kern demo_system)) Process_runnable = Ubs 8" using run_queue_head [OF demo_system_good(2)] by simp
  have "get_cpu (kmach ?k) = Inr \<lparr>curent_task = 8, int_depth = 0, int_enable = 0\<rparr>" by (simp add: demo_kernel_def get_cpu_def)
  then have s: "task_set_current 8 ?k = Inr ?k"
    by (simp add: task_set_current_def put_cpu_def demo_kernel_def set_kmach_def on_mach_def kmach_def numeral_2_eq_2)
  obtain l s1 where u: "utrap_ret L C ?k = Inr (l, s1)" "back_to L C 8 (get_tf 8 TF_EPC ?k) ?k l s1"
    using utrap_ret_back [of ?k 8 L C] by auto
  let ?y1 = "after_leave 8 (l, s1) (point demo_system)"
  have 1: "sys_step L C demo_system ?y1"
    by (rule picks [OF _ n]) (use s u(1) in \<open>auto simp: demo_system_def resume_task_def\<close>)
  have y1: "pc_at ?y1 = In_task 8" "kern ?y1 = s1" using u(2) by (simp_all add: after_leave_def back_to_def)
  have run: "runs 8 ?k" using demo_system_good(1) by (simp add: runs_def demo_system_def)
  have g: "runs 8 s1" using postD [OF utrap_ret_ok [OF run] u(1)] by simp
  define s2 where "s2 = on_mach (\<lambda>m. m\<lparr>sstatus := 0\<rparr>) (s1\<lparr>fword := fword s1, kbyte := kbyte s1, kcsr := (kcsr s1)\<lparr>scause := SCAUSE_ECALL_USER\<rparr>\<rparr>)"
  have ur: "user_runs 8 s1 s2" unfolding user_runs_def s2_def
    by (rule exI [of _ "fword s1"], rule exI [of _ "kbyte s1"], rule exI [of _ "(kcsr s1)\<lparr>scause := SCAUSE_ECALL_USER\<rparr>"], rule exI [of _ 0]) simp
  have sf: "scause (kcsr s2) = SCAUSE_ECALL_USER" "fword s2 = fword s1" "task_at s2 = task_at s1" by (simp_all add: s2_def)
  have f: "current s2 = Inr 8" "tlinks s2 = two_tasks"
    using user_runs_keeps [OF ur g] u(2) by (simp_all add: runs_def back_to_def)
  have "get_tf 8 TF_A7 s2 = get_tf 8 TF_A7 ?k" using u(2) by (simp add: get_tf_def back_to_def sf)
  then have "get_tf 8 TF_A7 s2 = SYS_exit" by simp
  from exit_trap [OF f(1) sf(1) this, of L C 0] obtain s3
    where s3: "utrap_entry L C 0 s2 = Inr (To_scheduler After_exit, s3)" "tlinks s3 = scheduler_exit 8 two_tasks" unfolding f(2) by blast
  let ?y2 = "after_leave 8 (To_scheduler After_exit, s3) (point ?y1)"
  have 2: "sys_step L C ?y1 ?y2" by (rule traps [OF y1(1) _ s3(1)]) (use ur y1(2) in simp)
  have q: "run_queue two_tasks [8, 16]" using demo_system_good(2) by (simp add: demo_system_def)
  have "lnext (tlinks (kern ?y2)) Process_runnable = Process_runnable" "pc_at ?y2 = In_loop"
    using mark_first_empties(2) [OF run_queue_head(2,3) [OF q]] s3(2) by (simp_all add: after_leave_def)
  then show ?thesis using 1 2 by (meson converse_rtranclp_into_rtranclp rtranclp.rtrancl_refl)
qed

theorem system_refines_scheduler_witness:
  "\<exists>y'. (sys_step demo_layout demo_code)\<^sup>*\<^sup>* demo_system y' \<and> fst (sched_view y') = Idle \<and> sched_step\<^sup>*\<^sup>* (Idle, two_tasks) (sched_view y') \<and>
     tlinks (kern y') \<noteq> two_tasks"
proof -
  obtain y' where y: "(sys_step demo_layout demo_code)\<^sup>*\<^sup>* demo_system y'" "pc_at y' = In_loop" "lnext (tlinks (kern y')) Process_runnable = Process_runnable"
    using demo_system_run by blast
  have "sys_inv demo_system" using demo_system_good(1) by (simp add: sys_inv_def demo_system_def)
  moreover have "tlinks (kern y') \<noteq> two_tasks" using y(3) run_queue_head [OF demo_system_good(2)] by (auto simp: demo_system_def)
  moreover have "sched_view demo_system = (Idle, two_tasks)" by (simp add: sched_view_def demo_system_def)
  ultimately show ?thesis using system_refines_scheduler [OF y(1)] y(1,2) by (auto simp: sched_view_def)
qed

theorem only_first_task_runs_witness:
  "\<exists>y'. (sys_step demo_layout demo_code)\<^sup>*\<^sup>* demo_system y' \<and> y' \<noteq> demo_system \<and> (\<forall>z. (sys_step demo_layout demo_code)\<^sup>*\<^sup>* y' z \<longrightarrow> z = y')"
proof -
  obtain y' where y: "(sys_step demo_layout demo_code)\<^sup>*\<^sup>* demo_system y'" "pc_at y' = In_loop" "lnext (tlinks (kern y')) Process_runnable = Process_runnable"
    using demo_system_run by blast
  have ne: "tlinks (kern y') \<noteq> tlinks (kern demo_system)" using y(3) run_queue_head [OF demo_system_good(2)] by auto
  show ?thesis
    using only_first_task_runs [OF y(1) _ demo_system_good(2,1)] y(1,2) ne by (intro exI [of _ y']) (auto simp: demo_system_def)
qed

end
