(* ===== verification/Boot.thy ===== *)
theory Boot
  imports System
begin

text \<open>
  Models \<open>kernel/main.c\<close>. For hart 0: the initialisation of all parts of the kernel, in order, the
  creation of the first task and the start of the scheduler. Other harts wait for it. What is printed is left out.
\<close>

text \<open>The image of the first task.\<close>

definition init_name :: "u8 list" where
  "init_name = cstr ''read''"

text \<open>The machine and its registers, the serial line and the memory.\<close>

definition boot_hart :: "code_layout \<Rightarrow> ('s, 'b) kernel_scheme \<Rightarrow> ('s, 'b) kernel_scheme" where
  "boot_hart C s =
     (let s = on_mach (\<lambda>m. m\<lparr>hartid := 0\<rparr>) s;
          s = on_mach cpu_struct_init s;
          s = on_csr (w_stvec (kvec_asm_at C)) s;
          s = on_mach (s_sstatus SSTATUS_SIE) s
      in on_csr (s_sie (SIE_SSIE OR SIE_STIE)) s)"

definition boot_uart :: "board \<Rightarrow> 'u uart_dev \<Rightarrow> (('d, 'u) fs_low, 'b) kernel_scheme \<Rightarrow> (('d, 'u) fs_low, 'b) kernel_scheme" where
  "boot_uart b U s =
     (let v = fvfs s; l = low v in s\<lparr>fvfs := v\<lparr>low := set_uart uart_part (uart_hal_init b U (get_uart uart_part l)) l\<rparr>\<rparr>)"

definition boot_memory :: "layout \<Rightarrow> ('s, 'b) kernel_scheme \<Rightarrow> ('s, 'b) kernel_scheme outcome" where
  "boot_memory L s =
     do_heap (\<lambda>k. bindO (pmem_init (KERNEL_END L) (RAM_END L) (fst (pmem_st k))) (\<lambda>bs.
       kmem_init (k\<lparr>pmem_st := (bs, snd (pmem_st k))\<rparr>))) s"

definition boot_kpte :: "board \<Rightarrow> layout \<Rightarrow> ('s, 'b) kernel_scheme \<Rightarrow> ('s, 'b) kernel_scheme outcome" where
  "boot_kpte b L s =
     bindO (pte_create pt_alloc (ptm s, vheap (fvfs s))) (\<lambda>(kpte, m, k).
     bindO (on_pt (kvm_init pt_alloc b L kpte) (s\<lparr>ptm := m, fvfs := (fvfs s)\<lparr>vheap := k\<rparr>\<rparr>)) (\<lambda>s.
     Inr (on_csr (kvm_install kpte) s)))"

text \<open>The start of \<open>scheduler_run\<close>, before its loop.\<close>

definition scheduler_start :: "u64 \<Rightarrow> 's kernel \<Rightarrow> 's system outcome" where
  "scheduler_start now s =
     bindO (get_cpu (kmach s)) (\<lambda>c.
     Inr \<lparr>pc_at = In_loop, kern = set_timer (now + TIMER_DIFF) s, point = (\<lambda>_. Fresh)\<rparr>)"

text \<open>
  \<open>main\<close> of hart 0. The parameters are those of \<open>fs_init\<close>. A first task that could not be created is
  used all the same, to print its page table.
\<close>

definition main_hart0 :: "layout \<Rightarrow> code_layout \<Rightarrow> board \<Rightarrow> (kchain \<Rightarrow> ('d disk_hal option \<times> kchain) outcome) \<Rightarrow> u8 list \<Rightarrow>
    (fat32_directory_iter \<Rightarrow> u8 list list) \<Rightarrow> 'u uart_dev \<Rightarrow> ('d, 'u) fs_low vfs_backend \<Rightarrow> u64 \<Rightarrow>
    ('d, 'u) fs_low kernel \<Rightarrow> ('d, 'u) fs_low system outcome" where
  "main_hart0 L C b disk_init page stack U junk now s =
     (let s = boot_uart b U (boot_hart C s) in
      bindO (boot_memory L s) (\<lambda>s.
      bindO (boot_kpte b L s) (\<lambda>s.
      bindO (fs_init disk_init page stack b U junk (fvfs s)) (\<lambda>v.
      bindO (task_init (s\<lparr>fvfs := v\<rparr>)) (\<lambda>s.
      bindO (on_vfs (vfs_get_recursive 0 init_name) s) (\<lambda>(img, s).
      bindO (task_create L C img 0 s) (\<lambda>(task, s).
      guardO Undefined (task \<noteq> 0) (
      scheduler_start now (on_tlinks (\<lambda>h. scheduler_add task (scheduler_init h)) s)))))))))"

text \<open>
  \<open>main\<close> of another hart: it waits for \<open>started\<close>, and after its set-up it writes to the log for ever. The
  result is the state when it enters that loop. Hart 0 would set the flag behind the loop
  of the scheduler.
\<close>

definition main_other_hart :: "code_layout \<Rightarrow> nat \<Rightarrow> bool \<Rightarrow> u64 \<Rightarrow> ('s, 'b) kernel_scheme \<Rightarrow> ('s, 'b) kernel_scheme outcome" where
  "main_other_hart C h started kpte s =
     (let s = on_mach (\<lambda>m. m\<lparr>hartid := h\<rparr>) s in
      guardO Hang started (
      let s = on_csr (w_stvec (kvec_asm_at C)) s;
          s = on_mach (s_sstatus SSTATUS_SIE) s;
          s = on_csr (s_sie (SIE_SSIE OR SIE_STIE)) s
      in Inr (on_csr (kvm_install kpte) s)))"

section \<open>After boot\<close>

lemma scheduler_add_first: "run_queue (scheduler_add t (scheduler_init h)) [t]"
  by (simp add: run_queue_def scheduler_add_def scheduler_init_def dlist_def list_add_def list_add_between_def list_init_def
      set_next_def set_prev_def)

lemma main_queue:
  assumes "main_hart0 L C b disk_init page stack U junk now s = Inr y"
  shows "\<exists>t. t \<noteq> 0 \<and> run_queue (tlinks (kern y)) [t] \<and> pc_at y = In_loop"
proof -
  obtain t s' where t: "t \<noteq> 0" "scheduler_start now (on_tlinks (\<lambda>h. scheduler_add t (scheduler_init h)) s') = Inr y"
    using assms by (auto simp: main_hart0_def Let_def bindO_eq_Inr guardO_eq_Inr)
  then have "tlinks (kern y) = scheduler_add t (scheduler_init (tlinks s'))" "pc_at y = In_loop"
    by (auto simp: scheduler_start_def bindO_eq_Inr)
  then show ?thesis using t(1) scheduler_add_first [of t] by auto
qed

text \<open>The backends of a booted kernel leave the harts alone.\<close>

lemma fat32bkd_keeps: "bk_keeps (fat32bkd stack)"
  by (auto simp: bk_keeps_def keeps_view_def fat32bkd_def fat32_vfs_read_def fat32_vfs_write_def fat32_vfs_iterate_def Let_def
      intro!: kmalloc_wp post_any [where r = "fat32_read a b c d e" for a b c d e] post_any [where r = "fat32_iter_next a b c d" for a b c d])

lemma console_keeps:
  "keeps_view (console_read b U F ob off out n)" "keeps_view (console_write b U F ob off out n)"
  by (auto simp: keeps_view_def console_read_def console_write_def Let_def split: prod.split)

end
