(* ===== verification/Spec2Isabelle.thy ===== *)
theory Spec2Isabelle
  imports Prelude Utils KList Spinlock Buddy Buddy_Inv Pages Slab Kmem Kustd Pte Kvm Bitmap Disk Virtio Sdcard Sdcard_Inv Vblk
    Demo Bio Bio_Inv Cache Sd_Cache Fat Fat_Dir Fat_File Fat_Inv Vfs Vfs_Inv Vfs_Fat32 Console Filesystem File
    File_Inv Asm Asm_Inv Scheduler Process Process_Inv Syscall Trap Current Trap_Inv System Boot
begin

text \<open>
  A model of the zgmos kernel, a small operating system for RISC-V with two boards, QEMU and K210.
  The source files are named relative to \<open>src/\<close>.

  \<^bold>\<open>The program.\<close> Hart 0 starts in \<open>kernel/main.c\<close>. It sets up the state of the harts and the log, the
  allocator of physical pages over the memory behind the kernel, the heap of the kernel on top of it, and the
  page table of the kernel. Then it mounts a FAT32 volume on a block device under a virtual file system, adds
  the console as three devices, loads the first process from the file \<open>read\<close>, and enters the loop of the
  scheduler, which switches between itself and the tasks. A task enters the kernel through the trampoline
  for a system call or an interrupt, and goes back through it or gives the processor to the scheduler.

  \<^bold>\<open>Conventions.\<close> A C integer is a word of its width (\<open>Prelude\<close>), so arithmetic wraps. An operation that can
  fail gives an \<open>outcome\<close>: \<open>Inl Panic\<close> for a call of \<open>KERNEL_PANIC\<close>, \<open>Inl Undefined\<close> where the C code has
  undefined behaviour (a null pointer, an index out of bounds), \<open>Inl Hang\<close> where it never ends, and \<open>Inr\<close>
  of the result and the new state otherwise; \<open>bindO\<close> sequences operations. Loops that can run for ever are
  \<open>partial_function (option)\<close>, where \<open>None\<close> is a run that does not end and \<open>hang\<close> makes it \<open>Inl Hang\<close>;
  all other loops are structural recursion over their index range, have a termination proof or take fuel.
  Fuel is used where the source follows links: by \<open>list_for_each\<close> (\<open>KList\<close>), for which more than the length of the list is
  enough; by \<open>seek\<close> (\<open>Buddy\<close>), with one step more than there are descriptors, so that it runs out, as \<open>Hang\<close>, only on a
  cycle; by \<open>free_loop\<close> (\<open>Buddy\<close>), with one step more than there are orders, of which each step uses up one; and by \<open>link_loop\<close>
  (\<open>Slab\<close>), with one step more than there are bytes in the pages. The theorems about \<open>buddy_free_index\<close> and
  \<open>slab_create_ex\<close> show that they return. The counts of the loops of the SD card driver are those of the source. Intrusive
  lists are a heap of links (\<open>KList\<close>), whose nodes are values that name the field of the object in which the
  \<open>list_head\<close> lies, and objects are known by their addresses.

  \<^bold>\<open>Basics.\<close> \<open>Utils\<close> (\<open>kernel/utils.c\<close>), \<open>KList\<close> (\<open>kernel/list.h\<close>), \<open>Spinlock\<close> (\<open>kernel/cpu.c\<close>,
  \<open>kernel/spinlock.c\<close>), \<open>Kustd\<close> (\<open>kernel/kustd.c\<close>, \<open>kernel/klog.c\<close>, \<open>kernel/earlylog.c\<close>). Shown: digits read back
  as the number printed, formatted output is the text of the format, and mutual exclusion in every
  interleaving of the atomic steps of all harts.

  \<^bold>\<open>Memory.\<close> \<open>Buddy\<close> (\<open>kernel/buddy.c\<close>, \<open>kernel/pmem.c\<close>) with its invariant in \<open>Buddy_Inv\<close>: the blocks of the lists
  are aligned, disjoint and exactly the free pages that the allocator can find, freeing merges a block with its buddies as far
  as \<open>absorbs\<close> says, and the blocks so merged are determined by the free pages, so that freeing undoes an allocation. \<open>Pages\<close> states the
  interface \<open>page_allocator\<close> as a locale, with the page allocator as its instance. \<open>Slab\<close>
  (\<open>kernel/slab.c\<close>), \<open>Kmem\<close> (\<open>kernel/kmem.c\<close>), \<open>Pte\<close> (\<open>kernel/pte.c\<close>, proved over any \<open>page_allocator\<close>), \<open>Kvm\<close>
  (\<open>kernel/kvm.c\<close>) and \<open>Bitmap\<close> (\<open>kernel/bitmap.c\<close>, \<open>kernel/pid.c\<close>) are built on it. \<open>Demo\<close> is a small running
  kernel on which theorems are applied.

  \<^bold>\<open>Disk and files.\<close> \<open>Disk\<close> is the table of operations of \<open>hal/disk_hal.h\<close>; \<open>Virtio\<close> is the driver
  (\<open>driver/virtio.c\<close>, \<open>driver/virtio_blk.c\<close>), over any device behind its registers, and \<open>Vblk\<close> proves that with a
  device that answers requests it is a \<open>block_device\<close>. \<open>Sdcard\<close> is the driver of the other board
  (\<open>driver/sdcard.c\<close>), over any SPI bus, and \<open>Sdcard_Inv\<close> states the protocol of the card, and proves that
  with such a card this driver is a \<open>block_device\<close> too, that its initialisation succeeds with exactly the cards that
  go through the start-up of the SD specification and finds out how they are addressed, and that without a card it panics and does not hang. \<open>Bio\<close> is the sector cache of \<open>kernel/fat32.c\<close>, and
  \<open>Bio_Inv\<close> proves for any \<open>block_device\<close> that it refines a disk of sectors: reads see the last writes and a
  flush makes them durable; \<open>Cache\<close> and \<open>Sd_Cache\<close> state this for the two drivers. \<open>Fat\<close>, \<open>Fat_Dir\<close>, \<open>Fat_File\<close> and \<open>Fat_Inv\<close> are the
  volume, its directories and files, with the allocation table as an array of cluster numbers and a
  file as the bytes of its chain. \<open>Vfs\<close> (\<open>kernel/vfs.c\<close>) is the tree of vnodes and its buffer of file
  blocks over any backend, \<open>Vfs_Inv\<close> proves for every backend that satisfies \<open>backend_reads\<close> that a read
  returns the bytes of the file, and \<open>Vfs_Fat32\<close> (\<open>kernel/vfs_fat32.c\<close>) makes the volume such a backend. \<open>Console\<close>
  (\<open>driver/ns16550.c\<close>, \<open>hal/uart_hal.c\<close>, \<open>kernel/console.c\<close>, and the stub \<open>driver/virtio_console.c\<close>) is the other backend, and \<open>Filesystem\<close>
  (\<open>kernel/filesystem.c\<close>) puts them together. \<open>File\<close> (\<open>kernel/file.c\<close>) has the tables of open files, which
  \<open>File_Inv\<close> relates to partial maps from descriptors to vnodes and positions.

  \<^bold>\<open>Processes.\<close> \<open>Asm\<close> executes \<open>kernel/swtch.s\<close>, \<open>kernel/uvec_asm.s\<close> and \<open>kernel/kvec_asm.s\<close> on a machine of
  registers and words; \<open>Asm_Inv\<close> shows what they save and restore. \<open>Scheduler\<close> (\<open>kernel/process.h\<close>,
  \<open>kernel/scheduler.c\<close>) has the tasks, the queues and the loop of the scheduler alone. \<open>Process\<close>
  (\<open>kernel/process.c\<close>, \<open>kernel/elf.h\<close>) loads programs; \<open>Process_Inv\<close> compares its loop over the pages of a
  segment with a reference loader. \<open>Syscall\<close> (\<open>kernel/syscall.c\<close>), \<open>Trap\<close> (\<open>kernel/uvec.c\<close>, \<open>kernel/kvec.c\<close> and
  \<open>kernel/scheduler.c\<close> again) has the handlers and, as \<open>sys_step\<close>, the whole hart: the loop, the tasks and what
  a task can do in user mode between two traps. \<open>Current\<close> shows which operations leave the harts
  alone, \<open>Trap_Inv\<close> what single traps do, and \<open>System\<close> that every run of the hart is a run of the scheduler, by
  simulation. \<open>Boot\<close> is \<open>kernel/main.c\<close>.

  \<^bold>\<open>Bounds.\<close> \<open>buddy_init\<close> ignores the bits of the number of pages from 12 on, so only the first pages are in the lists,
  as many as the number of pages modulo 4096, and the others are lost, which its theorem states; a sector cache has at least one
  buffer and its sector numbers do not wrap; a segment ends before the last page of the address space, where the loop
  of the loader would not end.

  \<^bold>\<open>Parameters.\<close> What is not source of the kernel is an argument: the registers of devices, the vendored
  functions of the K210 serial line and SPI bus, the addresses that the linker gives, the time, and what uninitialised memory
  holds. Interrupts are taken in user mode only: a timer interrupt inside a system call runs \<open>kvec\<close>, which
  sets the timer and restores the registers it changed, but is no step of \<open>sys_step\<close>. Hart 1 waits for a flag that
  hart 0 never sets, so the system is one hart; the interleaving of harts is modelled for the locks alone.

  \<^bold>\<open>Not modelled.\<close> The vendored library of the K210 board (\<open>driver/kendryte/\<close>), but for the addresses and pin
  functions that the kernel uses;
  the banner, debug prints, register dumps and the test routines; the first instructions of a
  hart (\<open>kernel/entry.s\<close>) and the firmware calls of \<open>kernel/sbi.h\<close>. Functions that are declared without a
  body are no part of the program.
\<close>

end
